(* ===== verification/Prelude.thy ===== *)
theory Prelude
  imports Main "HOL-Library.Word"
begin

unbundle bit_operations_syntax

section \<open>Shared types, faults and byte-level lemmas\<close>

text \<open>
  What every component of the development shares:
  \<^item> the faults a C++ operation may end in (an uncaught exception, a failed \<open>assert\<close>, a read
    outside an array) and the sequencing of operations that may fault;
  \<^item> bytes, the object representation of machine integers on the little-endian hosts the
    servers are built for (x86-64), and \<open>htonl\<close>/\<open>htons\<close>;
  \<^item> C strings: \<open>std::string\<close> is a list of bytes, string literals are written as HOL strings.
\<close>

named_theorems wire_simps \<open>evaluation rules for byte-level encodings\<close>
named_theorems buf_simps \<open>abstraction of the network buffer to its readable bytes\<close>
named_theorems fault_simps \<open>sequencing of operations that may fault\<close>

subsection \<open>Faults\<close>

datatype fault =
    OutOfBounds      \<comment> \<open>a read outside the underlying array: undefined behaviour\<close>
  | LengthError      \<comment> \<open>\<open>std::length_error\<close>\<close>
  | AssertFail       \<comment> \<open>a failed \<open>assert\<close>\<close>
  | NullDeref        \<comment> \<open>a null pointer is used\<close>
  | DanglingPtr      \<comment> \<open>an object is used after its destruction: undefined behaviour\<close>
  | BadAlloc         \<comment> \<open>\<open>std::bad_alloc\<close>\<close>
  | FatalLog         \<comment> \<open>\<open>LOG_FATAL\<close>: the process is aborted\<close>
  | JsonLogicError   \<comment> \<open>\<open>Json::LogicError\<close> (failed \<open>JSON_ASSERT_MESSAGE\<close>)\<close>
  | JsonRuntimeError \<comment> \<open>\<open>Json::RuntimeError\<close> (stack limit of the reader)\<close>

type_synonym 'a result = "fault + 'a"

definition bind_result :: "'a result \<Rightarrow> ('a \<Rightarrow> 'b result) \<Rightarrow> 'b result" where
  "bind_result m f = (case m of Inl e \<Rightarrow> Inl e | Inr a \<Rightarrow> f a)"

lemma bind_result_simps [simp, fault_simps]:
  "bind_result (Inl e) f = Inl e"
  "bind_result (Inr a) f = f a"
  by (simp_all add: bind_result_def)

lemma bind_result_assoc [fault_simps]:
  "bind_result (bind_result m f) g = bind_result m (\<lambda>a. bind_result (f a) g)"
  by (cases m) simp_all

lemma bind_result_eq_Inr:
  "bind_result m f = Inr b \<longleftrightarrow> (\<exists>a. m = Inr a \<and> f a = Inr b)"
  by (cases m) simp_all

lemma bind_result_eq_Inl:
  "bind_result m f = Inl e \<longleftrightarrow> m = Inl e \<or> (\<exists>a. m = Inr a \<and> f a = Inl e)"
  by (cases m) auto

subsection \<open>Bytes and object representations\<close>

type_synonym byte = "8 word"
type_synonym bytes = "byte list"

definition lit :: "string \<Rightarrow> bytes" where
  "lit s = map of_char s"

primrec le_bytes :: "nat \<Rightarrow> 'a::len word \<Rightarrow> bytes" where
  "le_bytes 0 w = []"
| "le_bytes (Suc n) w = ucast w # le_bytes n (drop_bit 8 w)"

primrec of_le_bytes :: "bytes \<Rightarrow> 'a::len word" where
  "of_le_bytes [] = 0"
| "of_le_bytes (b # bs) = ucast b OR push_bit 8 (of_le_bytes bs)"

lemma length_le_bytes [simp]: "length (le_bytes n w) = n"
  by (induction n arbitrary: w) simp_all

lemma of_le_bytes_le_bytes:
  "of_le_bytes (le_bytes n w) = take_bit (8 * n) (w :: 'a::len word)"
proof (induction n arbitrary: w)
  case 0
  show ?case by simp
next
  case (Suc n)
  show ?case
    by (rule bit_word_eqI)
      (auto simp: Suc bit_or_iff bit_push_bit_iff bit_take_bit_iff bit_drop_bit_eq bit_ucast_iff
        le_add_diff_inverse)
qed

lemma bit_of_le_bytes:
  "bit (of_le_bytes bs :: 'a::len word) k \<longleftrightarrow>
     k < LENGTH('a) \<and> k < 8 * length bs \<and> bit (bs ! (k div 8)) (k mod 8)"
proof (induction bs arbitrary: k)
  case Nil
  show ?case by simp
next
  case (Cons b bs)
  show ?case
  proof (cases "k < 8")
    case True
    then show ?thesis
      by (auto simp: bit_or_iff bit_push_bit_iff bit_ucast_iff dest: bit_imp_le_length)
  next
    case False
    then have "k div 8 = Suc ((k - 8) div 8)" and "k mod 8 = (k - 8) mod 8"
      by (simp_all add: le_div_geq le_mod_geq)
    with False show ?thesis
      by (auto simp: bit_or_iff bit_push_bit_iff bit_ucast_iff Cons dest: bit_imp_le_length)
  qed
qed

lemma le_bytes_of_le_bytes:
  assumes "8 * length bs \<le> LENGTH('a::len)"
  shows "le_bytes (length bs) (of_le_bytes bs :: 'a word) = bs"
  using assms
proof (induction bs)
  case Nil
  show ?case by simp
next
  case (Cons b bs)
  have "ucast (of_le_bytes (b # bs) :: 'a word) = b"
    using Cons.prems
    by (intro bit_word_eqI) (auto simp: bit_ucast_iff bit_or_iff bit_push_bit_iff)
  moreover have "drop_bit 8 (of_le_bytes (b # bs) :: 'a word) = of_le_bytes bs"
    using Cons.prems
    by (intro bit_word_eqI)
      (auto simp: bit_drop_bit_eq bit_or_iff bit_push_bit_iff bit_ucast_iff bit_of_le_bytes
        dest: bit_imp_le_length)
  ultimately show ?case
    using Cons by simp
qed

lemma ucast_of_nat_32: "ucast (of_nat n :: 64 word) = (of_nat n :: 32 word)"
  by (rule bit_word_eqI) (auto simp: bit_simps)

subsection \<open>Network byte order\<close>

text \<open>
  \<open>htonl\<close> and \<open>htons\<close> reverse the object representation on a little-endian host; a value
  converted with them and then copied with \<open>memcpy\<close> appears most significant byte first.
\<close>

definition be_bytes :: "nat \<Rightarrow> 'a::len word \<Rightarrow> bytes" where
  "be_bytes n w = rev (le_bytes n w)"

definition of_be_bytes :: "bytes \<Rightarrow> 'a::len word" where
  "of_be_bytes bs = of_le_bytes (rev bs)"

definition htonl :: "32 word \<Rightarrow> 32 word" where
  "htonl w = of_le_bytes (rev (le_bytes 4 w))"

definition htons :: "16 word \<Rightarrow> 16 word" where
  "htons w = of_le_bytes (rev (le_bytes 2 w))"

lemma length_be_bytes [simp]: "length (be_bytes n w) = n"
  by (simp add: be_bytes_def)

lemma of_be_bytes_be_bytes [simp]:
  "8 * n = LENGTH('a) \<Longrightarrow> of_be_bytes (be_bytes n w) = (w :: 'a::len word)"
  by (simp add: be_bytes_def of_be_bytes_def of_le_bytes_le_bytes)

lemma of_le_bytes_le_bytes_full [simp]:
  "8 * n = LENGTH('a) \<Longrightarrow> of_le_bytes (le_bytes n w) = (w :: 'a::len word)"
  by (simp add: of_le_bytes_le_bytes)

lemma le_bytes_htonl [simp, wire_simps]: "le_bytes 4 (htonl w) = be_bytes 4 w"
  unfolding htonl_def be_bytes_def
  using le_bytes_of_le_bytes [of "rev (le_bytes 4 w)", where 'a = 32] by simp

lemma le_bytes_htons [simp, wire_simps]: "le_bytes 2 (htons w) = be_bytes 2 w"
  unfolding htons_def be_bytes_def
  using le_bytes_of_le_bytes [of "rev (le_bytes 2 w)", where 'a = 16] by simp

subsection \<open>C strings\<close>

text \<open>
  \<open>std::string::c_str()\<close> points to the bytes of the string followed by a zero byte; reading
  up to and including that byte is defined, reading beyond it is not.
\<close>

definition c_str :: "bytes \<Rightarrow> bytes" where
  "c_str s = s @ [0]"

lemma length_c_str [simp]: "length (c_str s) = Suc (length s)"
  by (simp add: c_str_def)

text \<open>What a function that takes a C string (\<open>atoi\<close>, \<open>fopen\<close>, a comparison with \<open>const char *\<close>)
  sees of it: the bytes before the first zero byte.\<close>

definition c_string :: "bytes \<Rightarrow> bytes" where
  "c_string s = takeWhile (\<lambda>b. b \<noteq> 0) s"

text \<open>\<open>std::string::assign(const char *p, size_t n)\<close> with \<open>p = src.c_str() + i\<close>: a length that
  does not fit a \<open>size_t\<close> as a signed value exceeds \<open>max_size()\<close> and throws; otherwise
  \<open>n\<close> bytes are read.\<close>

definition assign_from :: "bytes \<Rightarrow> nat \<Rightarrow> int \<Rightarrow> bytes result" where
  "assign_from src i n =
     (if n < 0 then Inl LengthError
      else if n > 0 \<and> i + nat n > length src + 1 then Inl OutOfBounds
      else Inr (take (nat n) (drop i (c_str src))))"

lemma assign_from_within [simp]:
  "i + n \<le> length src \<Longrightarrow> assign_from src i (int n) = Inr (take n (drop i src))"
  by (auto simp: assign_from_def c_str_def)

end
