(* ===== verification/Wire.thy ===== *)
theory Wire
  imports Prelude
begin

section \<open>BinaryReader and BinaryWriter\<close>

text \<open>
  The serialisation layer of both servers (\<open>BinaryReader.h\<close>, \<open>BinaryReader.cpp\<close>).
  A reader is a byte string with a 32-bit cursor; integers are read most significant byte
  first, strings are preceded by their length in groups of seven bits. A writer appends
  object representations and length-prefixed strings.
  The cursor is kept at its width (\<open>uint32_t\<close>) and sizes are \<open>size_t\<close> (64 bits), because the
  loop bound of \<open>ReadData<string>\<close> relies on their subtraction.
\<close>

unbundle bit_operations_syntax

type_synonym size_t = "64 word"

subsection \<open>The reader\<close>

record BinaryReader =
  rd_buffer :: bytes
  rd_index :: "32 word"

definition mk_reader :: "bytes \<Rightarrow> BinaryReader" where
  "mk_reader buffer = \<lparr>rd_buffer = buffer, rd_index = 0\<rparr>"

definition UpdateBuffer :: "bytes \<Rightarrow> BinaryReader \<Rightarrow> BinaryReader" where
  "UpdateBuffer buffer r = r\<lparr>rd_buffer := buffer, rd_index := 0\<rparr>"

definition reader_Reset :: "BinaryReader \<Rightarrow> BinaryReader" where
  "reader_Reset r = r\<lparr>rd_index := 0\<rparr>"

definition reader_Size :: "BinaryReader \<Rightarrow> nat" where
  "reader_Size r = length (rd_buffer r)"

text \<open>\<open>None\<close> is the return value \<open>false\<close>: neither the datum nor the reader is changed.\<close>

definition ReadInt32 :: "BinaryReader \<Rightarrow> (32 word \<times> BinaryReader) option" where
  "ReadInt32 r =
     (let i = unat (rd_index r)
      in if i + 4 \<ge> length (rd_buffer r) then None
         else Some (of_le_bytes (take 4 (drop i (rd_buffer r))), r\<lparr>rd_index := rd_index r + 4\<rparr>))"

definition ReadData :: "BinaryReader \<Rightarrow> ('a::len word \<times> BinaryReader) option" where
  "ReadData r =
     (let i = unat (rd_index r); sz = LENGTH('a) div 8
      in if i + sz > length (rd_buffer r) then None
         else Some (of_le_bytes (map (\<lambda>k. rd_buffer r ! (i + sz - (k + 1))) [0..<sz]),
                    r\<lparr>rd_index := rd_index r + of_nat sz\<rparr>))"

text \<open>The loop of \<open>ReadData<string>\<close> that collects the length: \<open>i\<close> counts the bytes already
  consumed, \<open>len\<close> is the \<open>int\<close> accumulated so far.\<close>

function read_length :: "bytes \<Rightarrow> 32 word \<Rightarrow> nat \<Rightarrow> 32 word \<Rightarrow> (32 word \<times> nat) result" where
  "read_length buf m i len =
     (if of_nat i < (of_nat (length buf) :: size_t) - ucast m then
        if unat m + i > length buf then Inl OutOfBounds
        else let c = c_str buf ! (unat m + i);
                 len' = push_bit 7 len OR ucast (c AND 0x7F)
             in if c AND 0x80 = 0 then Inr (len', i) else read_length buf m (Suc i) len'
      else Inr (len, i))"
  by pat_completeness auto
termination
  by (relation "measure (\<lambda>(buf, m, i, len). Suc (length buf) - (unat m + i))") auto

declare read_length.simps [simp del]

definition ReadData_string :: "BinaryReader \<Rightarrow> (bytes \<times> BinaryReader) result" where
  "ReadData_string r =
     bind_result (read_length (rd_buffer r) (rd_index r) 0 0) (\<lambda>(len, i).
       let m = rd_index r + of_nat (i + 1)
       in bind_result (assign_from (rd_buffer r) (unat m) (sint len)) (\<lambda>d.
            Inr (d, r\<lparr>rd_index := m + len\<rparr>)))"

subsection \<open>The writer\<close>

record BinaryWriter =
  wr_buffer :: bytes
  wr_index :: "32 word"

definition new_writer :: BinaryWriter where
  "new_writer = \<lparr>wr_buffer = [], wr_index = 0\<rparr>"

text \<open>\<open>operator=\<close> from a string leaves the cursor at 0.\<close>

definition writer_assign :: "bytes \<Rightarrow> BinaryWriter \<Rightarrow> BinaryWriter" where
  "writer_assign bw w = w\<lparr>wr_buffer := bw, wr_index := 0\<rparr>"

definition string_resize :: "nat \<Rightarrow> bytes \<Rightarrow> bytes" where
  "string_resize n s = take n s @ replicate (n - length s) 0"

definition WriteData :: "'a::len word \<Rightarrow> BinaryWriter \<Rightarrow> BinaryWriter" where
  "WriteData x w =
     (let i = unat (wr_index w); sz = LENGTH('a) div 8;
          b = string_resize (i + sz) (wr_buffer w)
      in w\<lparr>wr_buffer := take i b @ le_bytes sz x @ drop (i + sz) b,
           wr_index := wr_index w + of_nat sz\<rparr>)"

definition writer_Size :: "BinaryWriter \<Rightarrow> 32 word" where
  "writer_Size w = wr_index w"

definition toString :: "BinaryWriter \<Rightarrow> bytes" where
  "toString w = wr_buffer w"

definition Clear :: "BinaryWriter \<Rightarrow> BinaryWriter" where
  "Clear w = w\<lparr>wr_index := 0, wr_buffer := []\<rparr>"

text \<open>\<open>writerFile\<close> reserves six bytes that it does not initialise: \<open>str\<close> is their content.\<close>

definition writerFile :: "bytes \<Rightarrow> BinaryWriter \<Rightarrow> BinaryWriter" where
  "writerFile str w = w\<lparr>wr_buffer := take 6 str, wr_index := 6\<rparr>"

text \<open>\<open>Compress\<close>: lengths below 128 take one byte; longer ones are written in groups of seven
  bits, most significant first, without leading zero groups, all but the last marked with
  the top bit.\<close>

definition compress_step :: "size_t \<Rightarrow> bytes \<Rightarrow> nat \<Rightarrow> bytes" where
  "compress_step len out i =
     (let c = ucast (drop_bit (7 * i) len AND 0x7F)
      in if c = 0 \<and> length out = 0 then out
         else if i > 0 then out @ [c OR 0x80] else out @ [c])"

definition Compress :: "size_t \<Rightarrow> bytes \<Rightarrow> bytes" where
  "Compress len out =
     (if len < 128 then out @ [ucast len AND 0x7F]
      else foldl (compress_step len) out [4, 3, 2, 1, 0])"

definition WriteData_string :: "bytes \<Rightarrow> BinaryWriter \<Rightarrow> BinaryWriter" where
  "WriteData_string d w =
     (let out = Compress (of_nat (length d)) [];
          w1 = w\<lparr>wr_buffer := wr_buffer w @ out, wr_index := wr_index w + of_nat (length out)\<rparr>
      in if length d > 0
         then w1\<lparr>wr_buffer := wr_buffer w1 @ d, wr_index := wr_index w1 + of_nat (length d)\<rparr>
         else w1)"

subsection \<open>Reference definitions\<close>

text \<open>
  \<open>writer_ok\<close> is the invariant of a writer that is filled from empty by its own operations:
  the cursor is the length of the buffer. \<open>encode_string\<close> is what a string contributes to
  the stream. \<open>base128\<close> is the textbook big-endian base-128 expansion, \<open>mark_groups\<close> sets
  the continuation bit on all groups but the last. \<open>positioned r bs\<close> says that the reader
  stands before the bytes \<open>bs\<close>.
\<close>

definition writer_ok :: "BinaryWriter \<Rightarrow> bool" where
  "writer_ok w \<longleftrightarrow> wr_index w = of_nat (length (wr_buffer w)) \<and> length (wr_buffer w) < 2 ^ 32"

definition encode_string :: "bytes \<Rightarrow> bytes" where
  "encode_string d = Compress (of_nat (length d)) [] @ d"

fun base128 :: "nat \<Rightarrow> nat list" where
  "base128 n = (if n < 128 then [n] else base128 (n div 128) @ [n mod 128])"
declare base128.simps [simp del]

definition mark_groups :: "byte list \<Rightarrow> bytes" where
  "mark_groups gs = map (\<lambda>g. g OR 0x80) (butlast gs) @ [last gs]"

definition positioned :: "BinaryReader \<Rightarrow> bytes \<Rightarrow> bool" where
  "positioned r bs \<longleftrightarrow>
     length (rd_buffer r) < 2 ^ 32 \<and> unat (rd_index r) \<le> length (rd_buffer r) \<and>
     drop (unat (rd_index r)) (rd_buffer r) = bs"

definition advance :: "nat \<Rightarrow> BinaryReader \<Rightarrow> BinaryReader" where
  "advance k r = r\<lparr>rd_index := rd_index r + of_nat k\<rparr>"

subsection \<open>Writer lemmas\<close>

lemma writer_ok_index: "writer_ok w \<Longrightarrow> unat (wr_index w) = length (wr_buffer w)"
  by (simp add: writer_ok_def unat_of_nat)

lemma new_writer_ok [simp]: "writer_ok new_writer"
  by (simp add: writer_ok_def new_writer_def)

lemma toString_new_writer [simp]: "toString new_writer = []"
  by (simp add: toString_def new_writer_def)

lemma Clear_ok [simp]: "writer_ok (Clear w)" and toString_Clear [simp]: "toString (Clear w) = []"
  by (simp_all add: writer_ok_def Clear_def toString_def)

lemma WriteData_ok:
  assumes "writer_ok w" and "length (toString w) + LENGTH('a::len) div 8 < 2 ^ 32"
  shows "writer_ok (WriteData (x :: 'a word) w)"
    and "toString (WriteData x w) = toString w @ le_bytes (LENGTH('a) div 8) x"
  using assms
  by (simp_all add: WriteData_def Let_def writer_ok_index toString_def string_resize_def)
    (simp add: writer_ok_def toString_def string_resize_def)

lemma WriteData_string_ok:
  assumes "writer_ok w" and "length (toString w) + length (encode_string d) < 2 ^ 32"
  shows "writer_ok (WriteData_string d w)"
    and "toString (WriteData_string d w) = toString w @ encode_string d"
  using assms
  by (auto simp: WriteData_string_def Let_def toString_def encode_string_def writer_ok_def)

lemma base128_small: "g \<in> set (base128 n) \<Longrightarrow> g < 128"
  by (induction n rule: base128.induct) (subst (asm) (2) base128.simps, auto split: if_splits)

lemma base128_nonempty [simp]: "base128 n \<noteq> []"
  by (subst base128.simps) simp

lemma group_byte:
  assumes "n < 2 ^ 64"
  shows "ucast (drop_bit (7 * i) (of_nat n :: 64 word) AND 0x7F) = (of_nat (n div 128 ^ i mod 128) :: byte)"
proof -
  have "(2::nat) ^ (7 * i) = 128 ^ i"
    by (simp add: power_mult)
  then have m: "n div 128 ^ i mod 128 = take_bit 7 (drop_bit (7 * i) n)"
    by (simp add: take_bit_eq_mod drop_bit_eq_div)
  have m7: "(0x7F :: 64 word) = mask 7"
    by (simp add: mask_eq_exp_minus_1)
  have n64: "bit n k \<Longrightarrow> k < 64" for k
    using assms by (metis bit_take_bit_iff take_bit_nat_eq_self)
  show ?thesis
    unfolding m m7
    by (intro bit_word_eqI) (auto simp: bit_simps dest: n64)
qed

lemma of_nat_group_0: "(of_nat (m mod 128) :: byte) = 0 \<longleftrightarrow> m mod 128 = 0"
proof -
  have "m mod 128 < 256"
    by (rule less_trans [of _ 128]) simp_all
  then show ?thesis
    by (auto simp: word_of_nat_eq_0_iff dest: nat_dvd_not_less)
qed

lemma of_nat_lt_128: "n < 2 ^ 64 \<Longrightarrow> (of_nat n :: 64 word) < 128 \<longleftrightarrow> n < 128"
  by (simp add: word_less_nat_alt unat_of_nat)

lemma compress_step_nat:
  assumes "n < 2 ^ 64"
  shows "compress_step (of_nat n) out i =
    (let g = n div 128 ^ i mod 128
     in if g = 0 \<and> out = [] then out
        else if i > 0 then out @ [of_nat g OR 0x80] else out @ [of_nat g])"
  unfolding compress_step_def Let_def group_byte [OF assms] of_nat_group_0 length_0_conv ..

lemma base128_digits:
  assumes "n < 128 ^ Suc k" and "k = 0 \<or> 128 ^ k \<le> n"
  shows "base128 n = map (\<lambda>i. n div 128 ^ i mod 128) (rev [0..<Suc k])"
  using assms
proof (induction k arbitrary: n)
  case 0
  then show ?case by (simp add: base128.simps)
next
  case (Suc k)
  have "(128::nat) \<le> 128 ^ Suc k"
    by simp
  with Suc.prems(2) have "\<not> n < 128"
    by (metis le_trans not_less nat.simps(3))
  then have "base128 n = base128 (n div 128) @ [n mod 128]"
    by (simp add: base128.simps)
  moreover have "128 ^ k \<le> n div 128"
    using Suc.prems(2) div_le_mono [of "128 * 128 ^ k" n 128] by simp
  then have "base128 (n div 128) = map (\<lambda>i. n div 128 div 128 ^ i mod 128) (rev [0..<Suc k])"
    using Suc.prems(1) by (intro Suc.IH) (simp_all add: less_mult_imp_div_less mult.commute)
  moreover have "rev [0..<Suc (Suc k)] = map Suc (rev [0..<Suc k]) @ [0]"
    by (simp add: map_Suc_upt flip: rev_map) (simp add: upt_conv_Cons)
  ultimately show ?case
    by (simp add: div_mult2_eq comp_def)
qed

lemma Compress_base128:
  assumes "n < 2 ^ 35"
  shows "Compress (of_nat n) [] = mark_groups (map of_nat (base128 n))"
proof (cases "n < 128")
  case True
  then have "(ucast (of_nat n :: 64 word) AND 0x7F) = (of_nat n :: byte)"
    using group_byte [of n 0] by (simp add: bit_eq_iff bit_simps)
  with True show ?thesis
    by (simp add: Compress_def of_nat_lt_128 base128.simps mark_groups_def)
next
  case False
  have n64: "n < 2 ^ 64"
    using assms by simp
  have "Compress (of_nat n) [] = foldl (compress_step (of_nat n)) [] [4, 3, 2, 1, 0]"
    using False n64 by (simp add: Compress_def of_nat_lt_128)
  note steps = this compress_step_nat [OF n64] mark_groups_def upt_rec
  consider "n < 128 ^ 2" | "128 ^ 2 \<le> n" "n < 128 ^ 3" | "128 ^ 3 \<le> n" "n < 128 ^ 4" | "128 ^ 4 \<le> n"
    by linarith
  then show ?thesis
  proof cases
    case 1
    then have "n div 128 mod 128 \<noteq> 0"
      using False by (simp add: less_mult_imp_div_less)
    with 1 False show ?thesis
      by (simp add: base128_digits [of n 1] steps)
  next
    case 2
    then have "n div 128 ^ 2 mod 128 \<noteq> 0"
      by (simp add: less_mult_imp_div_less)
    with 2 show ?thesis
      by (simp add: base128_digits [of n 2] steps)
  next
    case 3
    then have "n div 128 ^ 3 mod 128 \<noteq> 0"
      by (simp add: less_mult_imp_div_less)
    with 3 show ?thesis
      by (simp add: base128_digits [of n 3] steps)
  next
    case 4
    then have "n div 128 ^ 4 mod 128 \<noteq> 0"
      using assms by (simp add: less_mult_imp_div_less)
    with 4 assms show ?thesis
      by (simp add: base128_digits [of n 4] steps)
  qed
qed

lemma or_add_group:
  assumes "g < 128"
  shows "push_bit 7 (of_nat a :: 32 word) OR ucast (of_nat g :: byte) = of_nat (a * 128 + g)"
proof -
  have "ucast (of_nat g :: byte) = (of_nat g :: 32 word)"
    using assms by (simp add: unsigned_of_nat take_bit_nat_eq_self)
  moreover have "bit g k \<Longrightarrow> k < 7" for k
    using assms bit_take_bit_iff [of 7 g k] take_bit_nat_eq_self [of g 7] by simp
  then have "push_bit 7 (of_nat a :: 32 word) OR of_nat g = push_bit 7 (of_nat a) + of_nat g"
    by (intro disjunctive_add_eq_or [symmetric] bit_eqI) (fastforce simp: bit_simps)
  ultimately show ?thesis
    by (simp add: push_bit_eq_mult mult.commute)
qed

lemma foldl_base128:
  "foldl (\<lambda>a g. push_bit 7 a OR ucast g) 0 (map of_nat (base128 n) :: byte list) = (of_nat n :: 32 word)"
proof (induction n rule: base128.induct)
  case (1 n)
  show ?case
  proof (cases "n < 128")
    case True
    then show ?thesis using or_add_group [of n 0] by (subst base128.simps) simp
  next
    case False
    then show ?thesis using 1 or_add_group [of "n mod 128" "n div 128"] by (subst base128.simps) (simp add: mult.commute)
  qed
qed

lemma positioned_start: "length bs < 2 ^ 32 \<Longrightarrow> positioned (mk_reader bs) bs"
  by (simp add: positioned_def mk_reader_def)

lemma positioned_length:
  "positioned r bs \<Longrightarrow> length (rd_buffer r) = unat (rd_index r) + length bs"
  by (auto simp: positioned_def)

lemma unat_index_add:
  assumes "positioned r (bs @ rest)" and "k \<le> length bs"
  shows "unat (rd_index r + of_nat k) = unat (rd_index r) + k"
proof -
  have "unat (rd_index r) + k < 2 ^ 32"
    using assms positioned_length [OF assms(1)] by (simp add: positioned_def)
  then show ?thesis
    by (simp add: unat_word_ariths unat_of_nat)
qed

lemma positioned_advance:
  assumes "positioned r (bs @ rest)"
  shows "positioned (advance (length bs) r) rest"
proof -
  have "drop (unat (rd_index r) + length bs) (rd_buffer r) = rest"
    using assms by (simp add: positioned_def add.commute flip: drop_drop)
  then show ?thesis
    using assms unat_index_add [OF assms order_refl] positioned_length [OF assms]
    by (simp add: positioned_def advance_def)
qed

lemma nth_positioned:
  assumes "positioned r bs" and "k < length bs"
  shows "rd_buffer r ! (unat (rd_index r) + k) = bs ! k"
  using assms by (auto simp: positioned_def)

lemma ReadData_positioned:
  assumes "positioned r (bs @ rest)" and "8 * length bs = LENGTH('a::len)"
  shows "ReadData r = Some (of_be_bytes bs :: 'a word, advance (length bs) r)"
proof -
  have sz: "LENGTH('a) div 8 = length bs"
    using assms(2) by simp
  have "map (\<lambda>k. rd_buffer r ! (unat (rd_index r) + length bs - (k + 1))) [0..<length bs] = rev bs"
  proof (rule nth_equalityI)
    fix k assume "k < length (map (\<lambda>k. rd_buffer r ! (unat (rd_index r) + length bs - (k + 1))) [0..<length bs])"
    then show "map (\<lambda>k. rd_buffer r ! (unat (rd_index r) + length bs - (k + 1))) [0..<length bs] ! k = rev bs ! k"
      using nth_positioned [OF assms(1), of "length bs - (k + 1)"] by (auto simp: rev_nth nth_append)
  qed simp
  then show ?thesis
    using positioned_length [OF assms(1)]
    by (simp add: ReadData_def Let_def sz of_be_bytes_def advance_def)
qed

lemma ReadData_short:
  assumes "positioned r bs" and "8 * length bs < LENGTH('a::len)" "8 dvd LENGTH('a)"
  shows "(ReadData r :: ('a word \<times> BinaryReader) option) = None"
  using assms positioned_length [OF assms(1)] by (auto simp: ReadData_def Let_def)

lemma loop_bound:
  assumes "length buf < 2 ^ 32" and "unat m + i \<le> length buf"
  shows "of_nat i < (of_nat (length buf) :: size_t) - ucast (m :: 32 word) \<longleftrightarrow> unat m + i < length buf"
proof -
  have "unat ((of_nat (length buf) :: size_t) - ucast m) = length buf - unat m"
    using assms by (simp add: unat_sub_if' unsigned_of_nat take_bit_nat_eq_self unsigned_ucast_eq)
  then show ?thesis
    using assms by (simp add: word_less_nat_alt unat_of_nat) arith
qed

lemma byte_group:
  assumes "(g :: byte) < 128"
  shows "g AND 0x7F = g" "g AND 0x80 = 0" "(g OR 0x80) AND 0x7F = g" "(g OR 0x80) AND 0x80 \<noteq> 0"
proof -
  have g7: "bit g k \<Longrightarrow> k < 7" for k
  proof -
    assume "bit g k"
    then have "bit (unat g) k" and "unat g < 2 ^ 7"
      using assms by (simp_all add: bit_unsigned_iff bit_imp_le_length word_less_nat_alt)
    then show "k < 7"
      using take_bit_nat_eq_self [of "unat g" 7] bit_take_bit_iff [of 7 "unat g" k] by simp
  qed
  have "(128 :: int) = 2 ^ 7"
    by simp
  then have b80: "bit (128 :: int) k \<longleftrightarrow> k = 7" for k
    by (simp only: bit_exp_iff) auto
  have m: "(0x7F :: byte) = mask 7"
    by (simp add: mask_eq_exp_minus_1)
  show "g AND 0x7F = g" "g AND 0x80 = 0" "(g OR 0x80) AND 0x7F = g"
    unfolding m by (rule bit_word_eqI, auto simp: bit_simps b80 dest: g7)+
  have "bit ((g OR 0x80) AND 0x80) 7"
    by (simp add: bit_simps b80)
  then show "(g OR 0x80) AND 0x80 \<noteq> 0"
    by auto
qed

lemma read_length_groups:
  assumes "length buf < 2 ^ 32" and "unat m + i \<le> length buf"
    and "drop (unat m + i) buf = map (\<lambda>g. g OR 0x80) gs @ g # rest"
    and "\<forall>x \<in> set (gs @ [g]). x < 128"
  shows "read_length buf m i len =
    Inr (foldl (\<lambda>a g. push_bit 7 a OR ucast g) len (gs @ [g]), i + length gs)"
  using assms(2-)
proof (induction gs arbitrary: i len)
  case Nil
  then have at: "unat m + i < length buf" "c_str buf ! (unat m + i) = g"
    by (auto simp: c_str_def nth_append drop_eq_Nil simp flip: hd_drop_conv_nth intro: ccontr)
  with Nil show ?case
    by (subst read_length.simps) (simp add: loop_bound [OF assms(1)] byte_group Let_def)
next
  case (Cons h gs)
  then have at: "unat m + i < length buf" "c_str buf ! (unat m + i) = h OR 0x80"
    by (auto simp: c_str_def nth_append simp flip: hd_drop_conv_nth intro: ccontr)
  moreover have "drop (unat m + Suc i) buf = map (\<lambda>g. g OR 0x80) gs @ g # rest"
    using Cons.prems(2) by (metis add_Suc_right drop_Suc list.sel(3) list.simps(9) append_Cons tl_drop)
  ultimately show ?case
    using Cons.prems Cons.IH [of "Suc i"]
    by (subst read_length.simps) (simp add: loop_bound [OF assms(1)] byte_group Let_def)
qed

lemma length_Compress_bound: "length (Compress n []) \<le> 5"
  by (simp add: Compress_def compress_step_def Let_def)

lemma read_length_Compress:
  assumes "n < 2 ^ 31" and "positioned r (Compress (of_nat n) [] @ rest)"
  shows "read_length (rd_buffer r) (rd_index r) 0 0 = Inr (of_nat n, length (Compress (of_nat n) []) - 1)"
proof -
  let ?gs = "map of_nat (base128 n) :: byte list"
  have c: "Compress (of_nat n) [] = map (\<lambda>g. g OR 0x80) (butlast ?gs) @ [last ?gs]"
    using assms(1) Compress_base128 [of n] by (simp add: mark_groups_def)
  have "\<forall>x \<in> set ?gs. x < 128"
  proof (clarsimp simp: word_less_nat_alt unat_of_nat)
    fix x assume "x \<in> set (base128 n)"
    then show "x mod 256 < 128"
      using base128_small [of x n] by (simp add: mod_less)
  qed
  then show ?thesis
    using read_length_groups [of "rd_buffer r" "rd_index r" 0 "butlast ?gs" "last ?gs" rest 0]
      assms(2) foldl_base128 [of n]
    by (simp add: positioned_def c)
qed

lemma ReadData_string_positioned:
  assumes "length d < 2 ^ 31" and "positioned r (encode_string d @ rest)"
  shows "ReadData_string r = Inr (d, advance (length (encode_string d)) r)"
proof -
  let ?c = "Compress (of_nat (length d)) []"
  have pos: "positioned r (?c @ d @ rest)"
    using assms(2) by (simp add: encode_string_def)
  have k: "Suc (length ?c - Suc 0) = length ?c"
    using assms(1) Compress_base128 [of "length d"] by (simp add: mark_groups_def)
  have m: "unat (rd_index r + of_nat (length ?c)) = unat (rd_index r) + length ?c"
    using unat_index_add [OF pos order_refl] .
  have "drop (unat (rd_index r) + length ?c) (rd_buffer r) = d @ rest"
    using positioned_advance [OF pos] m by (simp add: positioned_def advance_def)
  moreover have "unat (rd_index r) + length ?c + length d \<le> length (rd_buffer r)"
    using positioned_length [OF pos] by simp
  ultimately have "assign_from (rd_buffer r) (unat (rd_index r) + length ?c) (int (length d)) = Inr d"
    by simp
  moreover have "sint (of_nat (length d) :: 32 word) = int (length d)"
    using assms(1) by (simp add: signed_of_nat signed_take_bit_int_eq_self)
  ultimately show ?thesis
    unfolding ReadData_string_def read_length_Compress [OF assms(1) pos]
    by (simp add: Let_def k m advance_def encode_string_def add.assoc del: of_nat_Suc)
qed

subsection \<open>Field codecs as an interface\<close>

text \<open>
  What a message decoder relies on: a field that was encoded is read back by its reader,
  which then stands before what follows. The contract composes, so a message of several
  fields is again a field.
\<close>

locale field_codec =
  fixes enc :: "'a \<Rightarrow> bytes"
    and rd :: "BinaryReader \<Rightarrow> ('a \<times> BinaryReader) option"
    and valid :: "'a \<Rightarrow> bool"
  assumes read_back:
    "valid x \<Longrightarrow> positioned r (enc x @ rest) \<Longrightarrow> rd r = Some (x, advance (length (enc x)) r)"
begin

lemma read_then:
  assumes "valid x" and "positioned r (enc x @ rest)"
  obtains r' where "rd r = Some (x, r')" and "positioned r' rest"
  using assms read_back positioned_advance by blast

lemma unique_decoding:
  assumes "valid x" and "valid y" and eq: "enc x @ as = enc y @ bs" and "length (enc x @ as) < 2 ^ 32"
  shows "x = y \<and> as = bs"
proof -
  let ?r = "mk_reader (enc x @ as)"
  have "positioned ?r (enc x @ as)"
    using assms(4) by (rule positioned_start)
  moreover from this have "positioned ?r (enc y @ bs)"
    by (simp add: eq)
  ultimately have "rd ?r = Some (x, advance (length (enc x)) ?r)"
    and "rd ?r = Some (y, advance (length (enc y)) ?r)"
    using assms(1,2) read_back by blast+
  then have "x = y"
    by simp
  with eq show ?thesis
    by simp
qed

end

locale codec_pair = fst_field: field_codec ea ra va + snd_field: field_codec eb rb vb
  for ea :: "'a \<Rightarrow> bytes" and ra va and eb :: "'b \<Rightarrow> bytes" and rb vb

sublocale codec_pair \<subseteq> pair_field: field_codec "\<lambda>(x, y). ea x @ eb y"
    "\<lambda>r. case ra r of None \<Rightarrow> None
       | Some (x, r') \<Rightarrow> map_option (\<lambda>(y, r''). ((x, y), r'')) (rb r')"
    "\<lambda>(x, y). va x \<and> vb y"
proof unfold_locales
  fix p r rest
  assume "case p of (x, y) \<Rightarrow> va x \<and> vb y"
    and "positioned r ((case p of (x, y) \<Rightarrow> ea x @ eb y) @ rest)"
  moreover obtain x y where p: "p = (x, y)"
    by force
  ultimately have v: "va x" "vb y" and at: "positioned r (ea x @ eb y @ rest)"
    by simp_all
  from v at fst_field.read_back have a: "ra r = Some (x, advance (length (ea x)) r)"
    by blast
  have "positioned (advance (length (ea x)) r) (eb y @ rest)"
    using at by (rule positioned_advance)
  with v snd_field.read_back
  have "rb (advance (length (ea x)) r) = Some (y, advance (length (eb y)) (advance (length (ea x)) r))"
    by blast
  then show "(case ra r of None \<Rightarrow> None
       | Some (x, r') \<Rightarrow> map_option (\<lambda>(y, r''). ((x, y), r'')) (rb r')) =
      Some (p, advance (length (case p of (x, y) \<Rightarrow> ea x @ eb y)) r)"
    by (simp add: a p advance_def add.assoc)
qed

definition read_string_field :: "BinaryReader \<Rightarrow> (bytes \<times> BinaryReader) option" where
  "read_string_field r = (case ReadData_string r of Inl _ \<Rightarrow> None | Inr p \<Rightarrow> Some p)"

interpretation int32_field: field_codec "be_bytes 4 :: 32 word \<Rightarrow> bytes" ReadData "\<lambda>_. True"
  by unfold_locales (simp add: ReadData_positioned)

interpretation string_field: field_codec encode_string read_string_field "\<lambda>d. length d < 2 ^ 31"
  by unfold_locales (simp add: read_string_field_def ReadData_string_positioned)

text \<open>The fixed part of every request: command, sequence number, payload.\<close>

interpretation payload_field: codec_pair "be_bytes 4 :: 32 word \<Rightarrow> bytes" ReadData "\<lambda>_. True"
    encode_string read_string_field "\<lambda>d. length d < 2 ^ 31"
  by unfold_locales

interpretation header_field: codec_pair "be_bytes 4 :: 32 word \<Rightarrow> bytes" ReadData "\<lambda>_. True"
    "\<lambda>(s, d). be_bytes 4 (s :: 32 word) @ encode_string d"
    "\<lambda>r. case ReadData r of None \<Rightarrow> None
       | Some (s, r') \<Rightarrow> map_option (\<lambda>(d, r''). ((s, d), r'')) (read_string_field r')"
    "\<lambda>(s, d). True \<and> length d < 2 ^ 31"
  by unfold_locales

subsection \<open>Properties\<close>

text \<open>C35: a string written by \<open>BinaryWriter::WriteData<string>\<close> after any other content is read
  back by \<open>BinaryReader::ReadData<string>\<close> from a reader at that position, whatever follows,
  and the reader then stands where the writer's cursor was after the write.\<close>

theorem string_write_read:
  assumes "writer_ok w" and "length d < 2 ^ 31"
    and "length (toString w) + length (encode_string d) + length rest < 2 ^ 32"
  shows "ReadData_string \<lparr>rd_buffer = toString (WriteData_string d w) @ rest, rd_index = writer_Size w\<rparr> =
    Inr (d, \<lparr>rd_buffer = toString (WriteData_string d w) @ rest,
             rd_index = writer_Size (WriteData_string d w)\<rparr>)"
proof -
  let ?r = "\<lparr>rd_buffer = toString w @ encode_string d @ rest, rd_index = writer_Size w\<rparr>"
  have w': "toString (WriteData_string d w) = toString w @ encode_string d"
    and ok: "writer_ok (WriteData_string d w)"
    using WriteData_string_ok [OF assms(1)] assms(3) by simp_all
  have "positioned ?r (encode_string d @ rest)"
    using assms(1,3) writer_ok_index [OF assms(1)]
    by (simp add: positioned_def writer_Size_def toString_def)
  then have "ReadData_string ?r = Inr (d, advance (length (encode_string d)) ?r)"
    using assms(2) ReadData_string_positioned by blast
  moreover have "writer_Size (WriteData_string d w) = writer_Size w + of_nat (length (encode_string d))"
    using ok assms(1) w' by (simp add: writer_ok_def writer_Size_def toString_def)
  ultimately show ?thesis
    by (simp add: w' advance_def)
qed

theorem string_write_read_witness:
  "ReadData_string
     \<lparr>rd_buffer = toString (WriteData_string (lit ''hi'') (WriteData (htonl 1002) new_writer)) @ [7],
      rd_index = writer_Size (WriteData (htonl 1002) new_writer)\<rparr> =
   Inr (lit ''hi'',
     \<lparr>rd_buffer = toString (WriteData_string (lit ''hi'') (WriteData (htonl 1002) new_writer)) @ [7],
      rd_index = writer_Size (WriteData_string (lit ''hi'') (WriteData (htonl 1002) new_writer))\<rparr>)"
proof (rule string_write_read)
  show "writer_ok (WriteData (htonl 1002) new_writer)"
    by (rule WriteData_ok) (simp, simp add: new_writer_def toString_def)
  show "length (toString (WriteData (htonl 1002) new_writer)) + length (encode_string (lit ''hi''))
      + length [7::byte] < 2 ^ 32"
    by (simp add: WriteData_def new_writer_def toString_def string_resize_def lit_def
        encode_string_def Compress_def Let_def)
qed (simp add: lit_def)

text \<open>the loop of \<open>BinaryWriter::Compress\<close> computes the shortest base-128 expansion of every
  length below \<open>2 ^ 35\<close>, with the continuation bit on every byte but the last.\<close>

theorem Compress_is_base128:
  assumes "n < 2 ^ 35"
  shows "Compress (of_nat n) [] = mark_groups (map of_nat (base128 n))"
  using assms by (rule Compress_base128)

theorem Compress_is_base128_witness:
  "Compress 300 [] = mark_groups (map of_nat (base128 300)) \<and> Compress 300 [] = [0x82, 0x2C]"
  using Compress_is_base128 [of 300] by (simp add: base128.simps mark_groups_def)

text \<open>A request whose length prefix ends the message (every byte carries the continuation
  bit, or there is none) leaves the reader beyond the end, and reading one more string
  from there, as \<open>msg_type_multichat\<close> does, reads outside the message buffer.\<close>

theorem ReadData_string_past_end:
  assumes "unat (rd_index r) = length (rd_buffer r) + 1" and "length (rd_buffer r) < 2 ^ 32"
  shows "ReadData_string r = Inl OutOfBounds"
proof -
  have "ucast (rd_index r) = (of_nat (length (rd_buffer r)) + 1 :: size_t)"
    using arg_cong [OF assms(1), of "of_nat :: nat \<Rightarrow> size_t"] by simp
  then have "(of_nat (length (rd_buffer r)) :: size_t) - ucast (rd_index r) = - 1"
    by simp
  moreover have "(0 :: size_t) < - 1"
    by code_simp
  ultimately show ?thesis
    using assms by (subst ReadData_string_def, subst read_length.simps) simp
qed

theorem ReadData_string_past_end_witness:
  "ReadData_string (mk_reader [0x80]) = Inr ([], \<lparr>rd_buffer = [0x80], rd_index = 2\<rparr>) \<and>
   ReadData_string \<lparr>rd_buffer = [0x80], rd_index = 2\<rparr> = Inl OutOfBounds"
proof
  show "ReadData_string (mk_reader [0x80]) = Inr ([], \<lparr>rd_buffer = [0x80], rd_index = 2\<rparr>)"
    by code_simp
  show "ReadData_string \<lparr>rd_buffer = [0x80], rd_index = 2\<rparr> = Inl OutOfBounds"
    by (rule ReadData_string_past_end) simp_all
qed

end
