(* ===== verification/Net_Buffer.thy ===== *)
theory Net_Buffer
  imports Prelude
begin

section \<open>muduo's Buffer\<close>

text \<open>
  The network buffer of every connection (\<open>net/Buffer.h\<close>, \<open>net/Buffer.cc\<close>): one vector with
  a reader and a writer index. Pointers into the vector are modelled as offsets from its
  beginning; indices are natural numbers, which agree with \<open>size_t\<close> because every
  subtraction is guarded by the representation invariant \<open>buf_ok\<close> or by an \<open>assert\<close> of the
  code, and a vector never has \<open>2 ^ 64\<close> elements. A failed \<open>assert\<close> is \<open>Inl AssertFail\<close>.
\<close>

subsection \<open>State\<close>

record Buffer =
  buffer :: bytes
  readerIndex :: nat
  writerIndex :: nat

definition kCheapPrepend :: nat where "kCheapPrepend = 8"
definition kInitialSize :: nat where "kInitialSize = 1024"
definition kCRLF :: bytes where "kCRLF = [13, 10]"

definition mk_Buffer :: "nat \<Rightarrow> Buffer" where
  "mk_Buffer initialSize =
     \<lparr>buffer = replicate (kCheapPrepend + initialSize) 0,
      readerIndex = kCheapPrepend, writerIndex = kCheapPrepend\<rparr>"

definition swap_Buffer :: "Buffer \<Rightarrow> Buffer \<Rightarrow> Buffer \<times> Buffer" where
  "swap_Buffer lhs rhs = (rhs, lhs)"

definition readableBytes :: "Buffer \<Rightarrow> nat" where
  "readableBytes b = writerIndex b - readerIndex b"

definition writableBytes :: "Buffer \<Rightarrow> nat" where
  "writableBytes b = length (buffer b) - writerIndex b"

definition prependableBytes :: "Buffer \<Rightarrow> nat" where
  "prependableBytes b = readerIndex b"

definition peek :: "Buffer \<Rightarrow> nat" where
  "peek b = readerIndex b"

definition beginWrite :: "Buffer \<Rightarrow> nat" where
  "beginWrite b = writerIndex b"

text \<open>The bytes of the vector from offset \<open>p\<close> on, \<open>n\<close> of them.\<close>

definition slice :: "nat \<Rightarrow> nat \<Rightarrow> Buffer \<Rightarrow> bytes" where
  "slice p n b = take n (drop p (buffer b))"

definition overwrite :: "nat \<Rightarrow> bytes \<Rightarrow> bytes \<Rightarrow> bytes" where
  "overwrite p d xs = take p xs @ d @ drop (p + length d) xs"

subsection \<open>Searching\<close>

text \<open>\<open>std::search\<close> for the two bytes of \<open>kCRLF\<close> and \<open>memchr\<close> for a newline, as offsets
  relative to the start of the range.\<close>

fun search_crlf :: "bytes \<Rightarrow> nat option" where
  "search_crlf (a # c # xs) =
     (if [a, c] = kCRLF then Some 0 else map_option Suc (search_crlf (c # xs)))"
| "search_crlf _ = None"

fun memchr_eol :: "bytes \<Rightarrow> nat option" where
  "memchr_eol [] = None"
| "memchr_eol (c # xs) = (if c = 10 then Some 0 else map_option Suc (memchr_eol xs))"

definition findCRLF :: "Buffer \<Rightarrow> nat option" where
  "findCRLF b = map_option ((+) (peek b)) (search_crlf (slice (peek b) (readableBytes b) b))"

definition findCRLF_from :: "nat \<Rightarrow> Buffer \<Rightarrow> nat option result" where
  "findCRLF_from start b =
     (if peek b \<le> start \<and> start \<le> beginWrite b
      then Inr (map_option ((+) start) (search_crlf (slice start (beginWrite b - start) b)))
      else Inl AssertFail)"

definition findEOL :: "Buffer \<Rightarrow> nat option" where
  "findEOL b = map_option ((+) (peek b)) (memchr_eol (slice (peek b) (readableBytes b) b))"

definition findEOL_from :: "nat \<Rightarrow> Buffer \<Rightarrow> nat option result" where
  "findEOL_from start b =
     (if peek b \<le> start \<and> start \<le> beginWrite b
      then Inr (map_option ((+) start) (memchr_eol (slice start (beginWrite b - start) b)))
      else Inl AssertFail)"

subsection \<open>Consuming\<close>

definition retrieveAll :: "Buffer \<Rightarrow> Buffer" where
  "retrieveAll b = b\<lparr>readerIndex := kCheapPrepend, writerIndex := kCheapPrepend\<rparr>"

definition retrieve :: "nat \<Rightarrow> Buffer \<Rightarrow> Buffer result" where
  "retrieve len b =
     (if \<not> len \<le> readableBytes b then Inl AssertFail
      else if len < readableBytes b then Inr (b\<lparr>readerIndex := readerIndex b + len\<rparr>)
      else Inr (retrieveAll b))"

definition retrieveUntil :: "nat \<Rightarrow> Buffer \<Rightarrow> Buffer result" where
  "retrieveUntil fin b =
     (if peek b \<le> fin \<and> fin \<le> beginWrite b then retrieve (fin - peek b) b else Inl AssertFail)"

definition retrieveInt64 :: "Buffer \<Rightarrow> Buffer result" where "retrieveInt64 b = retrieve 8 b"
definition retrieveInt32 :: "Buffer \<Rightarrow> Buffer result" where "retrieveInt32 b = retrieve 4 b"
definition retrieveInt16 :: "Buffer \<Rightarrow> Buffer result" where "retrieveInt16 b = retrieve 2 b"
definition retrieveInt8 :: "Buffer \<Rightarrow> Buffer result" where "retrieveInt8 b = retrieve 1 b"

definition retrieveAsString :: "nat \<Rightarrow> Buffer \<Rightarrow> (bytes \<times> Buffer) result" where
  "retrieveAsString len b =
     (if len \<le> readableBytes b
      then bind_result (retrieve len b) (\<lambda>b'. Inr (slice (peek b) len b, b'))
      else Inl AssertFail)"

definition retrieveAllAsString :: "Buffer \<Rightarrow> (bytes \<times> Buffer) result" where
  "retrieveAllAsString b = retrieveAsString (readableBytes b) b"

subsection \<open>Filling\<close>

definition hasWritten :: "nat \<Rightarrow> Buffer \<Rightarrow> Buffer result" where
  "hasWritten len b =
     (if len \<le> writableBytes b then Inr (b\<lparr>writerIndex := writerIndex b + len\<rparr>) else Inl AssertFail)"

definition unwrite :: "nat \<Rightarrow> Buffer \<Rightarrow> Buffer result" where
  "unwrite len b =
     (if len \<le> readableBytes b then Inr (b\<lparr>writerIndex := writerIndex b - len\<rparr>) else Inl AssertFail)"

definition vector_resize :: "nat \<Rightarrow> bytes \<Rightarrow> bytes" where
  "vector_resize n xs = take n xs @ replicate (n - length xs) 0"

definition makeSpace :: "nat \<Rightarrow> Buffer \<Rightarrow> Buffer result" where
  "makeSpace len b =
     (if writableBytes b + prependableBytes b < len + kCheapPrepend
      then Inr (b\<lparr>buffer := vector_resize (writerIndex b + len) (buffer b)\<rparr>)
      else if \<not> kCheapPrepend < readerIndex b then Inl AssertFail
      else let readable = readableBytes b;
               b' = b\<lparr>buffer := overwrite kCheapPrepend (slice (readerIndex b) readable b) (buffer b),
                      readerIndex := kCheapPrepend,
                      writerIndex := kCheapPrepend + readable\<rparr>
           in if readable = readableBytes b' then Inr b' else Inl AssertFail)"

definition ensureWritableBytes :: "nat \<Rightarrow> Buffer \<Rightarrow> Buffer result" where
  "ensureWritableBytes len b =
     bind_result (if writableBytes b < len then makeSpace len b else Inr b) (\<lambda>b'.
       if writableBytes b' \<ge> len then Inr b' else Inl AssertFail)"

definition buf_append :: "bytes \<Rightarrow> Buffer \<Rightarrow> Buffer result" where
  "buf_append d b =
     bind_result (ensureWritableBytes (length d) b) (\<lambda>b'.
       hasWritten (length d) (b'\<lparr>buffer := overwrite (beginWrite b') d (buffer b')\<rparr>))"

definition prepend :: "bytes \<Rightarrow> Buffer \<Rightarrow> Buffer result" where
  "prepend d b =
     (if length d \<le> prependableBytes b
      then let b' = b\<lparr>readerIndex := readerIndex b - length d\<rparr>
           in Inr (b'\<lparr>buffer := overwrite (readerIndex b') d (buffer b')\<rparr>)
      else Inl AssertFail)"

text \<open>\<open>toStringPiece\<close> narrows the length to \<open>int\<close>; a negative length makes \<open>append\<close> ask for
  more room than a vector can have.\<close>

definition toStringPiece :: "Buffer \<Rightarrow> nat \<times> int" where
  "toStringPiece b = (peek b, sint (of_nat (readableBytes b) :: 32 word))"

definition shrink :: "nat \<Rightarrow> Buffer \<Rightarrow> Buffer result" where
  "shrink reserve b =
     bind_result (ensureWritableBytes (readableBytes b + reserve) (mk_Buffer kInitialSize)) (\<lambda>other.
       let (p, n) = toStringPiece b
       in if n < 0 then Inl LengthError
          else bind_result (buf_append (slice p (nat n) b) other) (\<lambda>other'. Inr (fst (swap_Buffer b other'))))"

subsection \<open>Integers in network byte order\<close>

definition appendInt64 :: "64 word \<Rightarrow> Buffer \<Rightarrow> Buffer result" where
  "appendInt64 x b = buf_append (be_bytes 8 x) b"
definition appendInt32 :: "32 word \<Rightarrow> Buffer \<Rightarrow> Buffer result" where
  "appendInt32 x b = buf_append (be_bytes 4 x) b"
definition appendInt16 :: "16 word \<Rightarrow> Buffer \<Rightarrow> Buffer result" where
  "appendInt16 x b = buf_append (be_bytes 2 x) b"
definition appendInt8 :: "8 word \<Rightarrow> Buffer \<Rightarrow> Buffer result" where
  "appendInt8 x b = buf_append [x] b"

definition peekInt64 :: "Buffer \<Rightarrow> (64 word) result" where
  "peekInt64 b = (if readableBytes b \<ge> 8 then Inr (of_be_bytes (slice (peek b) 8 b)) else Inl AssertFail)"
definition peekInt32 :: "Buffer \<Rightarrow> (32 word) result" where
  "peekInt32 b = (if readableBytes b \<ge> 4 then Inr (of_be_bytes (slice (peek b) 4 b)) else Inl AssertFail)"
definition peekInt16 :: "Buffer \<Rightarrow> (16 word) result" where
  "peekInt16 b = (if readableBytes b \<ge> 2 then Inr (of_be_bytes (slice (peek b) 2 b)) else Inl AssertFail)"
definition peekInt8 :: "Buffer \<Rightarrow> (8 word) result" where
  "peekInt8 b = (if readableBytes b \<ge> 1 then Inr (of_be_bytes (slice (peek b) 1 b)) else Inl AssertFail)"

definition readInt64 :: "Buffer \<Rightarrow> (64 word \<times> Buffer) result" where
  "readInt64 b = bind_result (peekInt64 b) (\<lambda>x. bind_result (retrieveInt64 b) (\<lambda>b'. Inr (x, b')))"
definition readInt32 :: "Buffer \<Rightarrow> (32 word \<times> Buffer) result" where
  "readInt32 b = bind_result (peekInt32 b) (\<lambda>x. bind_result (retrieveInt32 b) (\<lambda>b'. Inr (x, b')))"
definition readInt16 :: "Buffer \<Rightarrow> (16 word \<times> Buffer) result" where
  "readInt16 b = bind_result (peekInt16 b) (\<lambda>x. bind_result (retrieveInt16 b) (\<lambda>b'. Inr (x, b')))"
definition readInt8 :: "Buffer \<Rightarrow> (8 word \<times> Buffer) result" where
  "readInt8 b = bind_result (peekInt8 b) (\<lambda>x. bind_result (retrieveInt8 b) (\<lambda>b'. Inr (x, b')))"

definition prependInt64 :: "64 word \<Rightarrow> Buffer \<Rightarrow> Buffer result" where
  "prependInt64 x b = prepend (be_bytes 8 x) b"
definition prependInt32 :: "32 word \<Rightarrow> Buffer \<Rightarrow> Buffer result" where
  "prependInt32 x b = prepend (be_bytes 4 x) b"
definition prependInt16 :: "16 word \<Rightarrow> Buffer \<Rightarrow> Buffer result" where
  "prependInt16 x b = prepend (be_bytes 2 x) b"
definition prependInt8 :: "8 word \<Rightarrow> Buffer \<Rightarrow> Buffer result" where
  "prependInt8 x b = prepend [x] b"

subsection \<open>Reading from a descriptor\<close>

text \<open>
  \<open>readv\<close> is the operating system's: given the total room of the two vectors it returns an
  error number or the bytes it read, which fill the writable part of the buffer first and
  then the 65536 bytes on the stack.
\<close>

definition extrabuf_size :: nat where "extrabuf_size = 65536"

definition readv_room :: "Buffer \<Rightarrow> nat" where
  "readv_room b =
     (let writable = writableBytes b
      in if writable < extrabuf_size then writable + extrabuf_size else writable)"

definition readFd :: "(nat \<Rightarrow> int + bytes) \<Rightarrow> Buffer \<Rightarrow> (Buffer \<times> (int + nat)) result" where
  "readFd readv b =
     (case readv (readv_room b) of
        Inl savedErrno \<Rightarrow> Inr (b, Inl savedErrno)
      | Inr d \<Rightarrow>
          let writable = writableBytes b; n = length d;
              b1 = b\<lparr>buffer := overwrite (writerIndex b) (take writable d) (buffer b)\<rparr>
          in if n \<le> writable then Inr (b1\<lparr>writerIndex := writerIndex b1 + n\<rparr>, Inr n)
             else bind_result
               (buf_append (drop writable d) (b1\<lparr>writerIndex := length (buffer b1)\<rparr>)) (\<lambda>b2.
                  Inr (b2, Inr n)))"

subsection \<open>Invariant and abstraction\<close>

definition buf_ok :: "Buffer \<Rightarrow> bool" where
  "buf_ok b \<longleftrightarrow> readerIndex b \<le> writerIndex b \<and> writerIndex b \<le> length (buffer b)
     \<and> kCheapPrepend \<le> length (buffer b)"

definition content :: "Buffer \<Rightarrow> bytes" where
  "content b = take (writerIndex b - readerIndex b) (drop (readerIndex b) (buffer b))"

subsection \<open>Every operation keeps the invariant\<close>

lemmas buf_defs = buf_ok_def content_def readableBytes_def writableBytes_def prependableBytes_def
  peek_def beginWrite_def slice_def kCheapPrepend_def

lemma length_overwrite [simp]:
  "p + length d \<le> length xs \<Longrightarrow> length (overwrite p d xs) = length xs"
  by (simp add: overwrite_def)

lemma drop_overwrite:
  "p + length d \<le> length xs \<Longrightarrow> q \<le> p \<Longrightarrow>
   drop q (overwrite p d xs) = take (p - q) (drop q xs) @ d @ drop (p + length d) xs"
  by (simp add: overwrite_def drop_take)

lemma length_content [simp, buf_simps]: "buf_ok b \<Longrightarrow> length (content b) = readableBytes b"
  by (auto simp: buf_defs)

lemma slice_readable:
  "buf_ok b \<Longrightarrow> n \<le> readableBytes b \<Longrightarrow> slice (peek b) n b = take n (content b)"
  by (auto simp: buf_defs min_def)

lemma mk_Buffer_ok [simp]: "buf_ok (mk_Buffer n)" and content_mk_Buffer [simp]: "content (mk_Buffer n) = []"
  by (simp_all add: mk_Buffer_def buf_defs)

lemma retrieveAll_ok:
  "buf_ok b \<Longrightarrow> buf_ok (retrieveAll b)" "content (retrieveAll b) = []"
  by (simp_all add: retrieveAll_def buf_defs)

lemma retrieve_spec:
  assumes "buf_ok b" and "n \<le> length (content b)"
  shows "\<exists>b'. retrieve n b = Inr b' \<and> buf_ok b' \<and> content b' = drop n (content b)"
proof (cases "n < readableBytes b")
  case True
  then show ?thesis
    using assms by (simp add: retrieve_def buf_defs drop_take add.commute)
next
  case False
  then show ?thesis
    using assms retrieveAll_ok by (auto simp: retrieve_def)
qed

lemma makeSpace_spec:
  assumes "buf_ok b" and "writableBytes b < n"
  shows "\<exists>b'. makeSpace n b = Inr b' \<and> buf_ok b' \<and> content b' = content b \<and> n \<le> writableBytes b'"
proof (cases "writableBytes b + prependableBytes b < n + kCheapPrepend")
  case True
  then show ?thesis
    using assms by (auto simp: makeSpace_def vector_resize_def buf_defs)
next
  case False
  then show ?thesis
    using assms
    by (auto simp: makeSpace_def Let_def buf_defs drop_overwrite)
qed

lemma ensureWritableBytes_spec:
  assumes "buf_ok b"
  shows "\<exists>b'. ensureWritableBytes n b = Inr b' \<and> buf_ok b' \<and> content b' = content b \<and> n \<le> writableBytes b'"
  using assms makeSpace_spec [of b n] by (auto simp: ensureWritableBytes_def)

lemma write_at_end:
  assumes "buf_ok b" and "length d \<le> writableBytes b"
  defines "b' \<equiv> b\<lparr>buffer := overwrite (writerIndex b) d (buffer b), writerIndex := writerIndex b + length d\<rparr>"
  shows "buf_ok b'" and "content b' = content b @ d"
  using assms by (auto simp: buf_defs drop_overwrite)

lemma buf_append_spec:
  assumes "buf_ok b"
  shows "\<exists>b'. buf_append d b = Inr b' \<and> buf_ok b' \<and> content b' = content b @ d"
proof -
  obtain b1 where b1: "ensureWritableBytes (length d) b = Inr b1" "buf_ok b1" "content b1 = content b"
    "length d \<le> writableBytes b1"
    using ensureWritableBytes_spec [OF assms] by blast
  then have "writerIndex b1 + length d \<le> length (buffer b1)"
    by (auto simp: buf_defs)
  with b1 show ?thesis
    using write_at_end [OF b1(2,4)]
    by (simp add: buf_append_def hasWritten_def beginWrite_def writableBytes_def)
qed

lemma prepend_spec:
  assumes "buf_ok b" and "length d \<le> prependableBytes b"
  shows "\<exists>b'. prepend d b = Inr b' \<and> buf_ok b' \<and> content b' = d @ content b"
  using assms by (auto simp: prepend_def Let_def buf_defs drop_overwrite)

lemma unwrite_spec:
  assumes "buf_ok b" and "n \<le> length (content b)"
  shows "\<exists>b'. unwrite n b = Inr b' \<and> buf_ok b' \<and> content b' = take (length (content b) - n) (content b)"
proof -
  have "writerIndex b - n - readerIndex b = readableBytes b - n"
    by (simp add: readableBytes_def)
  with assms show ?thesis
    by (simp add: unwrite_def) (auto simp: buf_ok_def content_def readableBytes_def min_absorb1)
qed

lemma retrieveAsString_spec:
  assumes "buf_ok b" and "n \<le> length (content b)"
  shows "\<exists>b'. retrieveAsString n b = Inr (take n (content b), b') \<and> buf_ok b' \<and> content b' = drop n (content b)"
proof -
  obtain b' where "retrieve n b = Inr b'" "buf_ok b'" "content b' = drop n (content b)"
    using retrieve_spec [OF assms] by blast
  with assms show ?thesis
    by (simp add: retrieveAsString_def slice_readable)
qed

lemma readFd_spec:
  assumes "buf_ok b" and "readv (readv_room b) = Inr d" and "length d \<le> readv_room b"
  shows "\<exists>b'. readFd readv b = Inr (b', Inr (length d)) \<and> buf_ok b' \<and> content b' = content b @ d"
proof (cases "length d \<le> writableBytes b")
  case True
  then show ?thesis
    using assms write_at_end [OF assms(1) True] by (simp add: readFd_def Let_def)
next
  case False
  let ?d1 = "take (writableBytes b) d"
  let ?b1 = "b\<lparr>buffer := overwrite (writerIndex b) ?d1 (buffer b)\<rparr>"
  have fill: "writerIndex b + length ?d1 = length (buffer b)"
    using assms(1) False by (auto simp: buf_defs)
  then have len: "length (buffer ?b1) = length (buffer b)"
    by simp
  have "buf_ok (?b1\<lparr>writerIndex := length (buffer ?b1)\<rparr>)"
    and "content (?b1\<lparr>writerIndex := length (buffer ?b1)\<rparr>) = content b @ ?d1"
    using write_at_end [OF assms(1), of ?d1] fill len by auto
  then obtain b' where "buf_append (drop (writableBytes b) d) (?b1\<lparr>writerIndex := length (buffer ?b1)\<rparr>) = Inr b'"
    "buf_ok b'" "content b' = content b @ ?d1 @ drop (writableBytes b) d"
    using buf_append_spec by fastforce
  with False show ?thesis
    using assms(2) by (simp add: readFd_def Let_def)
qed

lemma readv_room_bound: "writableBytes b < extrabuf_size \<Longrightarrow> readv_room b \<le> 131071"
  by (simp add: readv_room_def extrabuf_size_def Let_def)

text \<open>Reading an integer that stands at the front of the buffer.\<close>

lemma read_front:
  assumes "buf_ok b" and "content b = d @ rest"
  shows "length d \<le> readableBytes b" and "slice (peek b) (length d) b = d"
    and "\<exists>b'. retrieve (length d) b = Inr b' \<and> buf_ok b' \<and> content b' = rest"
  using assms length_content [OF assms(1)] slice_readable [OF assms(1), of "length d"]
    retrieve_spec [OF assms(1), of "length d"]
  by auto

lemma readInt32_spec:
  assumes "buf_ok b" and "content b = be_bytes 4 x @ rest"
  shows "\<exists>b'. readInt32 b = Inr (x, b') \<and> buf_ok b' \<and> content b' = rest"
  using read_front [OF assms] by (auto simp: readInt32_def peekInt32_def retrieveInt32_def)

lemma readInt64_spec:
  assumes "buf_ok b" and "content b = be_bytes 8 x @ rest"
  shows "\<exists>b'. readInt64 b = Inr (x, b') \<and> buf_ok b' \<and> content b' = rest"
  using read_front [OF assms] by (auto simp: readInt64_def peekInt64_def retrieveInt64_def)

lemma readInt16_spec:
  assumes "buf_ok b" and "content b = be_bytes 2 x @ rest"
  shows "\<exists>b'. readInt16 b = Inr (x, b') \<and> buf_ok b' \<and> content b' = rest"
  using read_front [OF assms] by (auto simp: readInt16_def peekInt16_def retrieveInt16_def)

lemma of_be_bytes_single: "of_be_bytes [x] = (x :: byte)"
  by (simp add: of_be_bytes_def)

lemma readInt8_spec:
  assumes "buf_ok b" and "content b = [x] @ rest"
  shows "\<exists>b'. readInt8 b = Inr (x, b') \<and> buf_ok b' \<and> content b' = rest"
  using read_front [OF assms] by (auto simp: readInt8_def peekInt8_def retrieveInt8_def of_be_bytes_single)

lemma shrink_spec:
  assumes "buf_ok b" and "length (content b) < 2 ^ 31"
  shows "\<exists>b'. shrink reserve b = Inr b' \<and> buf_ok b' \<and> content b' = content b"
proof -
  obtain o1 where o1: "ensureWritableBytes (readableBytes b + reserve) (mk_Buffer kInitialSize) = Inr o1"
    "buf_ok o1" "content o1 = []"
    using ensureWritableBytes_spec [OF mk_Buffer_ok] by fastforce
  obtain o2 where o2: "buf_append (content b) o1 = Inr o2" "buf_ok o2" "content o2 = content b"
    using buf_append_spec [OF o1(2), of "content b"] o1(3) by auto
  have "sint (of_nat (readableBytes b) :: 32 word) = int (readableBytes b)"
    using assms by (simp add: signed_of_nat signed_take_bit_int_eq_self)
  moreover have "slice (peek b) (readableBytes b) b = content b"
    using assms by (simp add: slice_readable)
  ultimately show ?thesis
    using o1 o2 by (simp add: shrink_def toStringPiece_def swap_Buffer_def)
qed


subsection \<open>The buffer as a byte stream\<close>

text \<open>
  The contract a connection relies on: bytes come out in the order they went in, and no
  operation within it trips an \<open>assert\<close>.
\<close>

locale byte_stream =
  fixes bytes_of :: "'b \<Rightarrow> bytes"
    and inv :: "'b \<Rightarrow> bool"
    and push :: "bytes \<Rightarrow> 'b \<Rightarrow> 'b result"
    and pop :: "nat \<Rightarrow> 'b \<Rightarrow> 'b result"
  assumes push: "inv b \<Longrightarrow> \<exists>b'. push d b = Inr b' \<and> inv b' \<and> bytes_of b' = bytes_of b @ d"
    and pop: "inv b \<Longrightarrow> n \<le> length (bytes_of b) \<Longrightarrow>
      \<exists>b'. pop n b = Inr b' \<and> inv b' \<and> bytes_of b' = drop n (bytes_of b)"
begin

text \<open>Any sequence of chunks arrives as their concatenation.\<close>

lemma push_all:
  assumes "inv b"
  shows "\<exists>b'. foldl (\<lambda>m d. bind_result m (push d)) (Inr b) ds = Inr b' \<and> inv b' \<and>
    bytes_of b' = bytes_of b @ concat ds"
  using assms
proof (induction ds arbitrary: b)
  case Nil
  then show ?case by simp
next
  case (Cons d ds)
  obtain b1 where "push d b = Inr b1" "inv b1" "bytes_of b1 = bytes_of b @ d"
    using push [OF Cons.prems] by blast
  with Cons.IH [of b1] show ?case by simp
qed

text \<open>What was there before an append can be consumed, and leaves exactly the appended bytes.\<close>

lemma push_pop:
  assumes "inv b" and "push d b = Inr b1"
  shows "\<exists>b2. pop (length (bytes_of b)) b1 = Inr b2 \<and> inv b2 \<and> bytes_of b2 = d"
proof -
  have "inv b1" "bytes_of b1 = bytes_of b @ d"
    using push [OF assms(1), of d] assms(2) by auto
  then show ?thesis
    using pop [of b1 "length (bytes_of b)"] by simp
qed

end

interpretation net_stream: byte_stream content buf_ok buf_append retrieve
  using buf_append_spec retrieve_spec by unfold_locales blast+

subsection \<open>Searching is correct\<close>

lemma search_crlf_Some:
  "search_crlf xs = Some i \<Longrightarrow> take 2 (drop i xs) = kCRLF \<and> (\<forall>j<i. take 2 (drop j xs) \<noteq> kCRLF)"
proof (induction xs arbitrary: i rule: search_crlf.induct)
  case (1 a c xs)
  show ?case
  proof (cases "[a, c] = kCRLF")
    case True
    with 1 show ?thesis by simp
  next
    case False
    with 1 obtain k where "search_crlf (c # xs) = Some k" "i = Suc k"
      by auto
    with False 1 show ?thesis
      by (auto simp: less_Suc_eq_0_disj)
  qed
qed simp_all

lemma search_crlf_None: "search_crlf xs = None \<Longrightarrow> take 2 (drop j xs) \<noteq> kCRLF"
proof (induction xs arbitrary: j rule: search_crlf.induct)
  case (1 a c xs)
  then show ?case
    by (cases j) (auto split: if_splits)
qed (auto simp: kCRLF_def take_Cons' drop_Cons')

subsection \<open>Properties\<close>

text \<open>Calls of a buffer, with what they return as bytes (integers in network byte order). \<open>ReadFd d\<close> is \<open>readFd\<close> when the socket has the bytes
  \<open>d\<close>.\<close>

datatype buf_op = Append bytes | ReadFd bytes | Ensure nat | Shrink nat | Prepend bytes | Unwrite nat
  | Retrieve nat | RetrieveAll | AsString nat | AllAsString | ReadInt64 | ReadInt32 | ReadInt16 | ReadInt8

definition no_output :: "Buffer result \<Rightarrow> (Buffer \<times> bytes) result" where
  "no_output r = bind_result r (\<lambda>b. Inr (b, []))"

fun buf_call :: "buf_op \<Rightarrow> Buffer \<Rightarrow> (Buffer \<times> bytes) result" where
  "buf_call (Append d) b = no_output (buf_append d b)"
| "buf_call (ReadFd d) b = bind_result (readFd (\<lambda>room. Inr d) b) (\<lambda>(b', n). Inr (b', []))"
| "buf_call (Ensure n) b = no_output (ensureWritableBytes n b)"
| "buf_call (Shrink reserve) b = no_output (shrink reserve b)"
| "buf_call (Prepend d) b = no_output (prepend d b)"
| "buf_call (Unwrite n) b = no_output (unwrite n b)"
| "buf_call (Retrieve n) b = no_output (retrieve n b)"
| "buf_call RetrieveAll b = Inr (retrieveAll b, [])"
| "buf_call (AsString n) b = bind_result (retrieveAsString n b) (\<lambda>(d, b'). Inr (b', d))"
| "buf_call AllAsString b = bind_result (retrieveAllAsString b) (\<lambda>(d, b'). Inr (b', d))"
| "buf_call ReadInt64 b = bind_result (readInt64 b) (\<lambda>(x, b'). Inr (b', be_bytes 8 x))"
| "buf_call ReadInt32 b = bind_result (readInt32 b) (\<lambda>(x, b'). Inr (b', be_bytes 4 x))"
| "buf_call ReadInt16 b = bind_result (readInt16 b) (\<lambda>(x, b'). Inr (b', be_bytes 2 x))"
| "buf_call ReadInt8 b = bind_result (readInt8 b) (\<lambda>(x, b'). Inr (b', [x]))"

fun buf_calls :: "buf_op list \<Rightarrow> Buffer \<Rightarrow> (Buffer \<times> bytes list) result" where
  "buf_calls [] b = Inr (b, [])"
| "buf_calls (c # cs) b =
     bind_result (buf_call c b) (\<lambda>(b1, out). bind_result (buf_calls cs b1) (\<lambda>(b2, outs). Inr (b2, out # outs)))"

text \<open>The same calls on a queue of bytes; \<open>None\<close> when there are not enough.\<close>

definition queue_take :: "nat \<Rightarrow> bytes \<Rightarrow> (bytes \<times> bytes) option" where
  "queue_take n q = (if n \<le> length q then Some (drop n q, take n q) else None)"

fun queue_call :: "buf_op \<Rightarrow> bytes \<Rightarrow> (bytes \<times> bytes) option" where
  "queue_call (Append d) q = Some (q @ d, [])"
| "queue_call (ReadFd d) q = Some (q @ d, [])"
| "queue_call (Ensure n) q = Some (q, [])"
| "queue_call (Shrink reserve) q = Some (q, [])"
| "queue_call (Prepend d) q = Some (d @ q, [])"
| "queue_call (Unwrite n) q = (if n \<le> length q then Some (take (length q - n) q, []) else None)"
| "queue_call (Retrieve n) q = map_option (\<lambda>(q', out). (q', [])) (queue_take n q)"
| "queue_call RetrieveAll q = Some ([], [])"
| "queue_call (AsString n) q = queue_take n q"
| "queue_call AllAsString q = Some ([], q)"
| "queue_call ReadInt64 q = queue_take 8 q"
| "queue_call ReadInt32 q = queue_take 4 q"
| "queue_call ReadInt16 q = queue_take 2 q"
| "queue_call ReadInt8 q = queue_take 1 q"

fun queue_calls :: "buf_op list \<Rightarrow> bytes \<Rightarrow> (bytes \<times> bytes list) option" where
  "queue_calls [] q = Some (q, [])"
| "queue_calls (c # cs) q =
     (case queue_call c q of None \<Rightarrow> None
      | Some (q1, out) \<Rightarrow> (case queue_calls cs q1 of None \<Rightarrow> None | Some (q2, outs) \<Rightarrow> Some (q2, out # outs)))"

text \<open>The limits of the interface: what is prepended fits the \<open>kCheapPrepend\<close> bytes in front, which are there again once the buffer has been
  emptied by reading or shrunk; a socket gives at most 64 KiB at once; less than 2 GiB are shrunk.\<close>

fun call_fits :: "nat \<Rightarrow> bytes \<Rightarrow> buf_op \<Rightarrow> bool" where
  "call_fits room q (Prepend d) \<longleftrightarrow> length d \<le> room"
| "call_fits room q (ReadFd d) \<longleftrightarrow> length d \<le> extrabuf_size"
| "call_fits room q (Shrink reserve) \<longleftrightarrow> length q < 2 ^ 31"
| "call_fits room q c \<longleftrightarrow> True"

fun room_after :: "nat \<Rightarrow> bytes \<Rightarrow> buf_op \<Rightarrow> nat" where
  "room_after room q' (Prepend d) = room - length d"
| "room_after room q' (Shrink reserve) = kCheapPrepend"
| "room_after room q' (Append d) = room"
| "room_after room q' (ReadFd d) = room"
| "room_after room q' (Ensure n) = room"
| "room_after room q' (Unwrite n) = room"
| "room_after room q' c = (if q' = [] then kCheapPrepend else room)"

fun calls_fit :: "nat \<Rightarrow> bytes \<Rightarrow> buf_op list \<Rightarrow> bool" where
  "calls_fit room q [] \<longleftrightarrow> True"
| "calls_fit room q (c # cs) \<longleftrightarrow> call_fits room q c \<and>
     (case queue_call c q of None \<Rightarrow> True | Some (q', out) \<Rightarrow> calls_fit (room_after room q' c) q' cs)"

definition headroom :: "nat \<Rightarrow> Buffer \<Rightarrow> bool" where
  "headroom room b \<longleftrightarrow> room \<le> kCheapPrepend \<and> room \<le> readerIndex b"

lemma ensure_headroom: "ensureWritableBytes n b = Inr b' \<Longrightarrow> headroom room b \<Longrightarrow> headroom room b'"
  by (auto simp: ensureWritableBytes_def makeSpace_def headroom_def bind_result_eq_Inr Let_def split: if_splits
      dest: arg_cong [where f = readerIndex])

lemma readerIndex_mk_Buffer: "readerIndex (mk_Buffer k) = kCheapPrepend"
  by (simp add: mk_Buffer_def)

lemma append_headroom: "buf_append d b = Inr b' \<Longrightarrow> headroom room b \<Longrightarrow> headroom room b'"
  using ensure_headroom by (fastforce simp: buf_append_def hasWritten_def headroom_def bind_result_eq_Inr split: if_splits)

lemma retrieve_headroom:
  assumes "retrieve n b = Inr b'" "headroom room b" "buf_ok b"
  shows "headroom (if content b' = [] then kCheapPrepend else room) b'"
proof (cases "n < readableBytes b")
  case True
  then have "content b' \<noteq> []" using assms(1,3) retrieve_spec [of b n] by auto
  then show ?thesis using True assms(1,2) by (auto simp: retrieve_def headroom_def split: if_splits)
next
  case False
  then show ?thesis using assms(1,2) by (auto simp: retrieve_def retrieveAll_def headroom_def split: if_splits)
qed

lemma readFd_headroom: "readFd (\<lambda>room. Inr d) b = Inr (b', r) \<Longrightarrow> headroom room b \<Longrightarrow> headroom room b'"
  by (auto simp: readFd_def Let_def bind_result_eq_Inr headroom_def split: if_splits dest!: append_headroom)

lemma shrink_headroom:
  assumes "shrink n b = Inr b'"
  shows "headroom kCheapPrepend b'"
proof -
  obtain a d where "ensureWritableBytes (readableBytes b + n) (mk_Buffer kInitialSize) = Inr a" "buf_append d a = Inr b'"
    using assms by (cases "toStringPiece b") (auto simp: shrink_def swap_Buffer_def bind_result_eq_Inr split: if_splits)
  moreover have "headroom kCheapPrepend (mk_Buffer kInitialSize)" by (simp add: headroom_def mk_Buffer_def)
  ultimately show ?thesis using ensure_headroom append_headroom by blast
qed

text \<open>Taking bytes from the front.\<close>

lemma retrieve_too_much: "buf_ok b \<Longrightarrow> length (content b) < n \<Longrightarrow> retrieve n b = Inl AssertFail \<and> retrieveAsString n b = Inl AssertFail"
  by (simp add: retrieve_def retrieveAsString_def)

lemma be_bytes_of_be_bytes:
  assumes "8 * length bs = LENGTH('a::len)"
  shows "be_bytes (length bs) (of_be_bytes bs :: 'a word) = bs"
  using le_bytes_of_le_bytes [of "rev bs", where 'a = 'a] assms by (simp add: be_bytes_def of_be_bytes_def)

lemma read_int_call:
  assumes "buf_ok b" "headroom room b"
    and "rd = bind_result (if readableBytes b \<ge> n then Inr (of_be_bytes (slice (peek b) n b) :: 'a::len word) else Inl AssertFail) (\<lambda>x.
      bind_result (retrieve n b) (\<lambda>b'. Inr (x, b')))" "8 * n = LENGTH('a)"
  shows "case queue_take n (content b) of None \<Rightarrow> \<exists>e. rd = Inl e
    | Some (q', out) \<Rightarrow> \<exists>b'. bind_result rd (\<lambda>(x, b'). Inr (b', be_bytes n x)) = Inr (b', out) \<and> buf_ok b' \<and> content b' = q'
        \<and> headroom (if q' = [] then kCheapPrepend else room) b'"
proof (cases "n \<le> length (content b)")
  case True
  obtain b' where b': "retrieve n b = Inr b'" "buf_ok b'" "content b' = drop n (content b)"
    using retrieve_spec [OF assms(1) True] by blast
  have "slice (peek b) n b = take n (content b)" using assms(1) True slice_readable [OF assms(1), of n] by simp
  moreover have "be_bytes n (of_be_bytes (take n (content b)) :: 'a word) = take n (content b)"
    using be_bytes_of_be_bytes [of "take n (content b)", where 'a = 'a] assms(4) True by (simp add: min_absorb2)
  ultimately show ?thesis
    using True assms(1,3) b' retrieve_headroom [OF b'(1) assms(2,1)] by (simp add: queue_take_def)
next
  case False
  then show ?thesis using assms(1,3) by (simp add: queue_take_def)
qed

lemma retrieve_call:
  assumes "buf_ok b" "headroom room b" "n \<le> length (content b)"
  shows "\<exists>b'. retrieve n b = Inr b' \<and> retrieveAsString n b = Inr (take n (content b), b') \<and> buf_ok b' \<and> content b' = drop n (content b)
    \<and> headroom (if drop n (content b) = [] then kCheapPrepend else room) b'"
proof -
  obtain b' where b': "retrieve n b = Inr b'" "buf_ok b'" "content b' = drop n (content b)" using retrieve_spec [OF assms(1,3)] by blast
  moreover have "retrieveAsString n b = Inr (take n (content b), b')" using retrieveAsString_spec [OF assms(1,3)] b'(1) assms(1,3) by (auto simp: retrieveAsString_def)
  ultimately show ?thesis using retrieve_headroom [OF b'(1) assms(2,1)] by auto
qed

lemma buf_call_refines:
  assumes "buf_ok b" "headroom room b" "call_fits room (content b) c"
  shows "case queue_call c (content b) of None \<Rightarrow> \<exists>e. buf_call c b = Inl e
    | Some (q', out) \<Rightarrow> \<exists>b'. buf_call c b = Inr (b', out) \<and> buf_ok b' \<and> content b' = q' \<and> headroom (room_after room q' c) b'"
proof (cases c)
  case (Append d)
  then show ?thesis using buf_append_spec [OF assms(1), of d] append_headroom assms(2) by (auto simp: no_output_def)
next
  case (ReadFd d)
  have "length d \<le> readv_room b" using assms(3) ReadFd by (auto simp: readv_room_def Let_def)
  then show ?thesis using readFd_spec [OF assms(1), of "\<lambda>room. Inr d" d] readFd_headroom assms(2) ReadFd by fastforce
next
  case (Ensure n)
  then show ?thesis using ensureWritableBytes_spec [OF assms(1), of n] ensure_headroom assms(2) by (auto simp: no_output_def)
next
  case (Shrink n)
  then show ?thesis using shrink_spec [OF assms(1), of n] shrink_headroom assms(3) by (auto simp: no_output_def)
next
  case (Prepend d)
  have "length d \<le> prependableBytes b" using assms(2,3) Prepend by (simp add: headroom_def prependableBytes_def)
  then show ?thesis
    using prepend_spec [OF assms(1), of d] assms(2,3) Prepend by (auto simp: no_output_def prepend_def headroom_def Let_def)
next
  case (Unwrite n)
  then show ?thesis
    using unwrite_spec [OF assms(1), of n] assms(1,2) by (auto simp: no_output_def unwrite_def headroom_def)
next
  case (Retrieve n)
  then show ?thesis using retrieve_call [OF assms(1,2), of n] retrieve_too_much [OF assms(1), of n] by (auto simp: no_output_def queue_take_def)
next
  case RetrieveAll
  then show ?thesis using retrieveAll_ok [of b] assms(1) by (simp add: headroom_def retrieveAll_def)
next
  case (AsString n)
  then show ?thesis using retrieve_call [OF assms(1,2), of n] retrieve_too_much [OF assms(1), of n] by (auto simp: queue_take_def)
next
  case AllAsString
  then show ?thesis using retrieve_call [OF assms(1,2), of "length (content b)"] assms(1) by (auto simp: retrieveAllAsString_def)
next
  case ReadInt64
  have "readInt64 b = bind_result (if readableBytes b \<ge> 8 then Inr (of_be_bytes (slice (peek b) 8 b)) else Inl AssertFail) (\<lambda>x.
      bind_result (retrieve 8 b) (\<lambda>b'. Inr (x, b')))" by (simp add: readInt64_def peekInt64_def retrieveInt64_def)
  from read_int_call [OF assms(1,2) this] show ?thesis using ReadInt64 by (auto simp: queue_take_def split: option.splits if_splits)
next
  case ReadInt32
  have "readInt32 b = bind_result (if readableBytes b \<ge> 4 then Inr (of_be_bytes (slice (peek b) 4 b)) else Inl AssertFail) (\<lambda>x.
      bind_result (retrieve 4 b) (\<lambda>b'. Inr (x, b')))" by (simp add: readInt32_def peekInt32_def retrieveInt32_def)
  from read_int_call [OF assms(1,2) this] show ?thesis using ReadInt32 by (auto simp: queue_take_def split: option.splits if_splits)
next
  case ReadInt16
  have "readInt16 b = bind_result (if readableBytes b \<ge> 2 then Inr (of_be_bytes (slice (peek b) 2 b)) else Inl AssertFail) (\<lambda>x.
      bind_result (retrieve 2 b) (\<lambda>b'. Inr (x, b')))" by (simp add: readInt16_def peekInt16_def retrieveInt16_def)
  from read_int_call [OF assms(1,2) this] show ?thesis using ReadInt16 by (auto simp: queue_take_def split: option.splits if_splits)
next
  case ReadInt8
  have "readInt8 b = bind_result (if readableBytes b \<ge> 1 then Inr (of_be_bytes (slice (peek b) 1 b)) else Inl AssertFail) (\<lambda>x.
      bind_result (retrieve 1 b) (\<lambda>b'. Inr (x, b')))" by (simp add: readInt8_def peekInt8_def retrieveInt8_def)
  moreover have "be_bytes 1 x = [x]" for x :: byte by (simp add: be_bytes_def)
  ultimately show ?thesis using read_int_call [OF assms(1,2), of "readInt8 b" 1] ReadInt8 by (auto simp: queue_take_def split: option.splits if_splits)
qed

lemma buf_calls_refine:
  assumes "buf_ok b" "headroom room b" "calls_fit room (content b) cs"
  shows "case queue_calls cs (content b) of None \<Rightarrow> \<exists>e. buf_calls cs b = Inl e
    | Some (q, outs) \<Rightarrow> \<exists>b'. buf_calls cs b = Inr (b', outs) \<and> buf_ok b' \<and> content b' = q"
  using assms
proof (induction cs arbitrary: b room)
  case (Cons c cs)
  have fit: "call_fits room (content b) c" using Cons.prems(3) by simp
  show ?case
  proof (cases "queue_call c (content b)")
    case None
    then show ?thesis using buf_call_refines [OF Cons.prems(1,2) fit] by auto
  next
    case (Some x)
    obtain q' out where x: "x = (q', out)" by (cases x)
    then obtain b' where b': "buf_call c b = Inr (b', out)" "buf_ok b'" "content b' = q'" "headroom (room_after room q' c) b'"
      using buf_call_refines [OF Cons.prems(1,2) fit] Some by auto
    have "calls_fit (room_after room q' c) (content b') cs" using Cons.prems(3) Some x b'(3) by simp
    from Cons.IH [OF b'(2,4) this] show ?thesis using Some x b' by (auto split: option.splits)
  qed
qed auto



text \<open>However the bytes of a connection are cut into chunks, appending the chunks one after
  the other to a fresh buffer of any initial size never faults and leaves their concatenation
  readable.\<close>

theorem append_chunks:
  "\<exists>b'. foldl (\<lambda>m d. bind_result m (buf_append d)) (Inr (mk_Buffer initialSize)) ds = Inr b' \<and>
    buf_ok b' \<and> content b' = concat ds"
  using net_stream.push_all [OF mk_Buffer_ok, of initialSize ds] by simp

text \<open>\<open>readFd\<close> appends exactly the bytes that \<open>readv\<close> returned, in order, whether they fit the
  writable part of the buffer or spill into the 64 KiB on the stack, and asks for at most
  128 KiB - 1 bytes when it uses that extra space.\<close>

theorem readFd_appends:
  assumes "buf_ok b" and "readv (readv_room b) = Inr d" and "length d \<le> readv_room b"
  shows "(\<exists>b'. readFd readv b = Inr (b', Inr (length d)) \<and> buf_ok b' \<and> content b' = content b @ d) \<and>
    (writableBytes b < extrabuf_size \<longrightarrow> readv_room b \<le> 131071)"
  using readFd_spec [of b readv d] assms readv_room_bound by blast

theorem readFd_appends_witness:
  "\<exists>b'. readFd (\<lambda>_. Inr [1, 2, 3]) (mk_Buffer 1) = Inr (b', Inr 3) \<and> content b' = [1, 2, 3]"
proof -
  have "length [1::byte, 2, 3] \<le> readv_room (mk_Buffer 1)"
    by (simp add: readv_room_def extrabuf_size_def Let_def)
  then show ?thesis
    using readFd_appends [of "mk_Buffer 1" "\<lambda>_. Inr [1, 2, 3]" "[1, 2, 3]"] by auto
qed

text \<open>A 32-bit header that is prepended, as the length-header codecs of muduo do, is what
  \<open>readInt32\<close> returns, and the payload is untouched.\<close>

theorem prependInt32_readInt32:
  assumes "buf_ok b" and "4 \<le> prependableBytes b"
  shows "\<exists>b1 b2. prependInt32 x b = Inr b1 \<and> readInt32 b1 = Inr (x, b2) \<and> buf_ok b2 \<and>
    content b2 = content b"
proof -
  obtain b1 where "prependInt32 x b = Inr b1" "buf_ok b1" "content b1 = be_bytes 4 x @ content b"
    using prepend_spec [OF assms(1), of "be_bytes 4 x"] assms(2) by (auto simp: prependInt32_def)
  then show ?thesis
    using readInt32_spec by blast
qed

theorem prependInt32_readInt32_witness:
  "\<exists>b1 b2. prependInt32 1234 (mk_Buffer 0) = Inr b1 \<and> readInt32 b1 = Inr (1234, b2) \<and>
    content b2 = []"
proof -
  have "4 \<le> prependableBytes (mk_Buffer 0)"
    by (simp add: prependableBytes_def mk_Buffer_def kCheapPrepend_def)
  then show ?thesis
    using prependInt32_readInt32 [OF mk_Buffer_ok, of 0 1234] by auto
qed

text \<open>\<open>findCRLF\<close> returns the first position of a CRLF in the readable bytes, and nothing
  when there is none.\<close>

theorem findCRLF_first:
  assumes "buf_ok b"
  shows "case findCRLF b of
      None \<Rightarrow> \<forall>j. take 2 (drop j (content b)) \<noteq> kCRLF
    | Some p \<Rightarrow> peek b \<le> p \<and> take 2 (drop (p - peek b) (content b)) = kCRLF \<and>
        (\<forall>j < p - peek b. take 2 (drop j (content b)) \<noteq> kCRLF)"
proof (cases "search_crlf (content b)")
  case None
  then show ?thesis
    using search_crlf_None [OF None] assms by (simp add: findCRLF_def slice_readable)
next
  case (Some i)
  then show ?thesis
    using search_crlf_Some [OF Some] assms by (simp add: findCRLF_def slice_readable)
qed

theorem findCRLF_first_witness:
  "findCRLF \<lparr>buffer = [0, 0, 0, 0, 0, 0, 0, 0, 65, 13, 10], readerIndex = 8, writerIndex = 11\<rparr> = Some 9 \<and>
   take 2 (drop (9 - 8) (content \<lparr>buffer = [0, 0, 0, 0, 0, 0, 0, 0, 65, 13, 10],
     readerIndex = 8, writerIndex = 11\<rparr>)) = kCRLF" (is "findCRLF ?b = _ \<and> _")
proof -
  have "buf_ok ?b"
    by (simp add: buf_ok_def kCheapPrepend_def)
  moreover have "findCRLF ?b = Some 9" "peek ?b = 8"
    by code_simp+
  ultimately show ?thesis
    using findCRLF_first [of ?b] by simp
qed

end
