(* ===== verification/Framing.thy ===== *)
theory Framing
  imports Wire Net_Buffer
begin

section \<open>Packets on the stream\<close>

text \<open>
  Both servers put a length header, the length in network byte order and two zero bytes in
  front of every message. \<open>TcpSession::Send\<close> (\<open>ClientSession.h\<close> for the chat server,
  \<open>FileServer/TcpSession.cpp\<close> for the file server) builds such a packet from a writer;
  \<open>ClientSession::OnRead\<close> and \<open>FileSession::OnRead\<close> cut the packets out of the input buffer
  again. The message handler \<open>Process\<close> is a parameter of the two loops: it takes the
  payload and the state of the rest of the server, and either faults or returns whether the
  message was accepted together with the new state; \<open>close\<close> is \<open>conn->forceClose()\<close>.
\<close>

subsection \<open>Sending\<close>

text \<open>\<open>Send\<close> works on the caller's writer: the result is the packet handed to the connection
  and the writer afterwards, which holds the header and no longer the message.\<close>

definition TcpSession_Send :: "BinaryWriter \<Rightarrow> bytes \<times> BinaryWriter" where
  "TcpSession_Send write =
     (let out = toString write;
          write = Clear write;
          len = (of_nat (length out) :: 32 word);
          write = WriteData (len + 6) write;
          write = WriteData (htonl len) write;
          write = WriteData (htons 0) write
      in (toString write @ out, write))"

definition FileTcpSession_Send :: "BinaryWriter \<Rightarrow> bytes \<times> BinaryWriter" where
  "FileTcpSession_Send write =
     (let out = toString write;
          write = Clear write;
          len = (of_nat (length out) :: 64 word);
          write = WriteData (len + 6) write;
          write = WriteData (htonl (ucast len)) write;
          write = WriteData (htons 0) write
      in (toString write @ out, write))"

subsection \<open>Receiving\<close>

text \<open>\<open>std::string::assign(p, n)\<close> from the vector of a buffer; a negative length becomes a
  \<open>size_t\<close> beyond \<open>max_size()\<close>.\<close>

definition assign_vec :: "Buffer \<Rightarrow> nat \<Rightarrow> int \<Rightarrow> bytes result" where
  "assign_vec b p n =
     (if n < 0 then Inl LengthError
      else if p + nat n > length (buffer b) then Inl OutOfBounds
      else Inr (slice p (nat n) b))"

lemma retrieve_readable:
  "retrieve n b = Inr b' \<Longrightarrow> n \<le> readableBytes b \<and> readableBytes b' = readableBytes b - n"
  by (auto simp: retrieve_def retrieveAll_def readableBytes_def split: if_splits)

function ClientSession_OnRead ::
  "(bytes \<Rightarrow> 's \<Rightarrow> (bool \<times> 's) result) \<Rightarrow> ('s \<Rightarrow> 's) \<Rightarrow> Buffer \<Rightarrow> 's \<Rightarrow> (Buffer \<times> 's) result" where
  "ClientSession_OnRead process close buf s =
     (if readableBytes buf \<ge> 4 then
        let packagesize = sint (of_le_bytes (slice (peek buf) 4 buf) :: 32 word)
        in if of_nat (readableBytes buf) < (4 + word_of_int packagesize :: size_t) then Inr (buf, s)
           else (case retrieve 4 buf of Inl e \<Rightarrow> Inl e | Inr buf1 \<Rightarrow>
             (case assign_vec buf1 (peek buf1 + 6) (packagesize - 6) of Inl e \<Rightarrow> Inl e | Inr msgbuff \<Rightarrow>
               (case retrieve (nat packagesize) buf1 of Inl e \<Rightarrow> Inl e | Inr buf2 \<Rightarrow>
                 (case process msgbuff s of Inl e \<Rightarrow> Inl e | Inr (ok, s') \<Rightarrow>
                   ClientSession_OnRead process close buf2 (if ok then s' else close s')))))
      else Inr (buf, s))"
  by pat_completeness auto
termination
  by (relation "measure (\<lambda>(process, close, buf, s). readableBytes buf)")
    (auto dest!: retrieve_readable)

declare ClientSession_OnRead.simps [simp del]

function FileSession_OnRead ::
  "(bytes \<Rightarrow> 's \<Rightarrow> (bool \<times> 's) result) \<Rightarrow> ('s \<Rightarrow> 's) \<Rightarrow> Buffer \<Rightarrow> 's \<Rightarrow> (Buffer \<times> 's) result" where
  "FileSession_OnRead process close buf s =
     (if readableBytes buf < 8 then Inr (buf, s)
      else
        let packagesize = sint (of_le_bytes (slice (peek buf) 8 buf) :: 64 word)
        in if of_nat (readableBytes buf) < (word_of_int packagesize + 8 :: size_t) then Inr (buf, s)
           else (case retrieve 8 buf of Inl e \<Rightarrow> Inl e | Inr buf1 \<Rightarrow>
             (case assign_vec buf1 (peek buf1 + 6) (packagesize - 6) of Inl e \<Rightarrow> Inl e | Inr inbuf \<Rightarrow>
               (case retrieve (nat packagesize) buf1 of Inl e \<Rightarrow> Inl e | Inr buf2 \<Rightarrow>
                 (case process inbuf s of Inl e \<Rightarrow> Inl e | Inr (ok, s') \<Rightarrow>
                   FileSession_OnRead process close buf2 (if ok then s' else close s'))))))"
  by pat_completeness auto
termination
  by (relation "measure (\<lambda>(process, close, buf, s). readableBytes buf)")
    (auto dest!: retrieve_readable)

declare FileSession_OnRead.simps [simp del]

text \<open>
  A connection receives chunks: \<open>TcpConnection::handleRead\<close> lets \<open>readFd\<close> append what the
  socket delivers and calls the message callback. A chunk of no bytes (end of stream) or an
  error does not reach the callback.
\<close>

fun receive ::
  "(Buffer \<Rightarrow> 's \<Rightarrow> (Buffer \<times> 's) result) \<Rightarrow> bytes list \<Rightarrow> Buffer \<Rightarrow> 's \<Rightarrow> (Buffer \<times> 's) result" where
  "receive on_read [] buf s = Inr (buf, s)"
| "receive on_read (c # cs) buf s =
     bind_result (readFd (\<lambda>_. Inr c) buf) (\<lambda>(buf1, n).
       bind_result (if n = Inr 0 then Inr (buf1, s) else on_read buf1 s) (\<lambda>(buf2, s').
         receive on_read cs buf2 s'))"

subsection \<open>Reference: messages processed one after the other\<close>

fun run_msgs ::
  "(bytes \<Rightarrow> 's \<Rightarrow> (bool \<times> 's) result) \<Rightarrow> ('s \<Rightarrow> 's) \<Rightarrow> bytes list \<Rightarrow> 's \<Rightarrow> 's result" where
  "run_msgs process close [] s = Inr s"
| "run_msgs process close (m # ms) s =
     bind_result (process m s) (\<lambda>(ok, s'). run_msgs process close ms (if ok then s' else close s'))"

definition im_packet :: "bytes \<Rightarrow> bytes" where
  "im_packet m = le_bytes 4 (of_nat (length m) + 6 :: 32 word) @
     be_bytes 4 (of_nat (length m) :: 32 word) @ [0, 0] @ m"

definition file_packet :: "bytes \<Rightarrow> bytes" where
  "file_packet m = le_bytes 8 (of_nat (length m) + 6 :: 64 word) @
     be_bytes 4 (of_nat (length m) :: 32 word) @ [0, 0] @ m"

subsection \<open>What \<open>Send\<close> builds\<close>

lemma le_bytes_2_0 [simp]: "le_bytes 2 0 = [0, 0]"
  by (simp add: numeral_2_eq_2)

lemma TcpSession_Send_packet:
  "fst (TcpSession_Send w) = im_packet (toString w)"
  "toString (snd (TcpSession_Send w)) = take 10 (im_packet (toString w))"
  by (simp_all add: TcpSession_Send_def Let_def im_packet_def WriteData_ok be_bytes_def)

lemma FileTcpSession_Send_packet:
  "fst (FileTcpSession_Send w) = file_packet (toString w)"
  by (simp add: FileTcpSession_Send_def Let_def file_packet_def WriteData_ok be_bytes_def ucast_of_nat_32)

lemma run_msgs_append:
  "run_msgs p c (ms1 @ ms2) s = bind_result (run_msgs p c ms1 s) (run_msgs p c ms2)"
  by (induction ms1 arbitrary: s) (auto simp: bind_result_assoc split_def)

subsection \<open>The contract of a packet stream\<close>

text \<open>
  What both read loops promise of a packet format: an empty buffer and a buffer that ends inside
  a packet are left alone; a buffer that starts with a whole packet is advanced behind it and its
  message is processed. From this alone it follows that a sequence of packets is processed
  message by message, in order, however the stream was cut into chunks.
\<close>

locale packet_stream =
  fixes packet :: "bytes \<Rightarrow> bytes"
    and fits :: "bytes \<Rightarrow> bool"
    and on_read :: "(bytes \<Rightarrow> 's \<Rightarrow> (bool \<times> 's) result) \<Rightarrow> ('s \<Rightarrow> 's) \<Rightarrow> Buffer \<Rightarrow> 's \<Rightarrow> (Buffer \<times> 's) result"
  assumes packet_nonempty: "packet m \<noteq> []"
    and idle: "buf_ok b \<Longrightarrow> content b = [] \<Longrightarrow> on_read p c b s = Inr (b, s)"
    and waits: "buf_ok b \<Longrightarrow> fits m \<Longrightarrow> content b @ ys = packet m \<Longrightarrow> ys \<noteq> [] \<Longrightarrow>
      on_read p c b s = Inr (b, s)"
    and takes: "buf_ok b \<Longrightarrow> fits m \<Longrightarrow> content b = packet m @ rest \<Longrightarrow>
      length (content b) < 2 ^ 63 \<Longrightarrow>
      \<exists>b'. buf_ok b' \<and> content b' = rest \<and>
        on_read p c b s =
          bind_result (p m s) (\<lambda>(ok, s'). on_read p c b' (if ok then s' else c s'))"
begin

definition pending :: "bytes list \<Rightarrow> bytes \<Rightarrow> bool" where
  "pending ms part \<longleftrightarrow>
     (case ms of [] \<Rightarrow> part = [] | m # _ \<Rightarrow> \<exists>ys. ys \<noteq> [] \<and> part @ ys = packet m)"

lemma split_packets:
  assumes "xs @ ys = concat (map packet ms)"
  obtains ms1 ms2 part where "ms = ms1 @ ms2" "xs = concat (map packet ms1) @ part" "pending ms2 part"
    "part @ ys = concat (map packet ms2)"
proof -
  have "\<exists>ms1 ms2 part. ms = ms1 @ ms2 \<and> xs = concat (map packet ms1) @ part \<and> pending ms2 part \<and>
    part @ ys = concat (map packet ms2)"
    using assms
  proof (induction ms arbitrary: xs)
    case Nil
    then show ?case by (simp add: pending_def)
  next
    case (Cons m ms)
    then consider zs where "xs = packet m @ zs" "zs @ ys = concat (map packet ms)"
      | zs where "zs \<noteq> []" "xs @ zs = packet m" "ys = zs @ concat (map packet ms)"
      by (fastforce simp: append_eq_append_conv2)
    then show ?case
    proof cases
      case 1
      with Cons.IH obtain ms1 ms2 part where "ms = ms1 @ ms2" "zs = concat (map packet ms1) @ part"
        "pending ms2 part" "part @ ys = concat (map packet ms2)"
        by blast
      with 1 show ?thesis
        by (intro exI [of _ "m # ms1"] exI [of _ ms2] exI [of _ part]) simp
    next
      case 2
      then show ?thesis
        by (intro exI [of _ "[]"] exI [of _ "m # ms"] exI [of _ xs]) (auto simp: pending_def)
    qed
  qed
  with that show ?thesis by blast
qed

lemma pending_no_packet:
  "pending (ms1 @ ms2) (concat (map packet ms1) @ part) \<Longrightarrow> ms1 = []"
  by (cases ms1) (auto simp: pending_def dest: arg_cong [of _ _ length])

lemma pending_nothing: "pending ms []"
  using packet_nonempty by (auto simp: pending_def split: list.split)

lemma on_read_packets:
  assumes "buf_ok b" "content b = concat (map packet ms1) @ part" "pending ms2 part"
    and "\<forall>m \<in> set (ms1 @ ms2). fits m" "length (content b) < 2 ^ 63"
  shows "\<exists>b'. buf_ok b' \<and> content b' = part \<and>
    on_read p c b s = bind_result (run_msgs p c ms1 s) (\<lambda>s'. Inr (b', s'))"
  using assms
proof (induction ms1 arbitrary: b s)
  case Nil
  then have "on_read p c b s = Inr (b, s)"
    by (auto simp: pending_def intro: idle waits split: list.splits)
  with Nil show ?case by auto
next
  case (Cons m ms1)
  have c: "content b = packet m @ concat (map packet ms1) @ part"
    using Cons.prems by simp
  obtain b1 where b1: "buf_ok b1" "content b1 = concat (map packet ms1) @ part"
    and step: "on_read p c b s =
      bind_result (p m s) (\<lambda>(ok, s'). on_read p c b1 (if ok then s' else c s'))"
    using takes [OF Cons.prems(1) _ c Cons.prems(5), of p c s] Cons.prems(4) by auto
  have rest: "\<exists>b'. buf_ok b' \<and> content b' = part \<and>
      on_read p c b1 s' = bind_result (run_msgs p c ms1 s') (\<lambda>s''. Inr (b', s''))" for s'
    using Cons.IH [OF b1 Cons.prems(3)] Cons.prems(4,5) b1(2) c by simp
  show ?case
  proof (cases "p m s")
    case (Inl e)
    with rest [of s] step show ?thesis by auto
  next
    case (Inr r)
    with rest [of "if fst r then snd r else c (snd r)"] step show ?thesis
      by (auto simp: split_def)
  qed
qed

lemma receive_chunks:
  assumes "buf_ok b" "content b @ concat cs = concat (map packet ms)" "pending ms (content b)"
    and "\<forall>m \<in> set ms. fits m" "length (concat (map packet ms)) < 2 ^ 63"
    and "\<forall>c \<in> set cs. length c \<le> extrabuf_size"
  shows "\<exists>b'. buf_ok b' \<and> content b' = [] \<and>
    receive (on_read p c) cs b s = bind_result (run_msgs p c ms s) (\<lambda>s'. Inr (b', s'))"
  using assms
proof (induction cs arbitrary: b ms s)
  case Nil
  then have "ms = []"
    by (cases ms) (auto simp: pending_def append_eq_append_conv2 dest: arg_cong [of _ _ length])
  with Nil show ?case by auto
next
  case (Cons d cs)
  have room: "length d \<le> readv_room b"
    using Cons.prems(6) by (auto simp: readv_room_def Let_def)
  obtain b1 where b1: "readFd (\<lambda>_. Inr d) b = Inr (b1, Inr (length d))" "buf_ok b1" "content b1 = content b @ d"
    using readFd_spec [OF Cons.prems(1), of "\<lambda>_. Inr d" d] room by blast
  have "content b1 @ concat cs = concat (map packet ms)"
    using Cons.prems(2) b1(3) by simp
  then obtain ms1 ms2 part where split: "ms = ms1 @ ms2" "content b1 = concat (map packet ms1) @ part"
    "pending ms2 part" "part @ concat cs = concat (map packet ms2)"
    by (rule split_packets)
  have "length (content b1) \<le> length (concat (map packet ms))"
    using Cons.prems(2) b1(3) by (metis append_assoc concat.simps(2) le_add1 length_append)
  then have short: "length (content b1) < 2 ^ 63"
    using Cons.prems(5) by (rule le_less_trans)
  have stop: "\<exists>b2. buf_ok b2 \<and> content b2 = part \<and>
     (if Inr (length d) = (Inr 0 :: int + nat) then Inr (b1, s) else on_read p c b1 s) =
       bind_result (run_msgs p c ms1 s) (\<lambda>s'. Inr (b2, s'))"
  proof (cases "d = []")
    case True
    then have "ms1 = []"
      using pending_no_packet [of ms1 ms2 part] Cons.prems(3) split b1(3) by simp
    with True b1 split show ?thesis by auto
  next
    case False
    then show ?thesis
      using on_read_packets [OF b1(2) split(2,3) _ short, of p c s] Cons.prems(4) split(1) by simp
  qed
  then obtain b2 where b2: "buf_ok b2" "content b2 = part" 
    "(if Inr (length d) = (Inr 0 :: int + nat) then Inr (b1, s) else on_read p c b1 s) =
       bind_result (run_msgs p c ms1 s) (\<lambda>s'. Inr (b2, s'))" by blast
  have rest: "\<exists>b'. buf_ok b' \<and> content b' = [] \<and>
    receive (on_read p c) cs b2 s' = bind_result (run_msgs p c ms2 s') (\<lambda>s''. Inr (b', s''))" for s'
    using Cons.prems(4-6) split b2 by (intro Cons.IH) auto
  show ?case
  proof (cases "run_msgs p c ms1 s")
    case (Inl e)
    with rest [of s] b1(1) b2(3) split(1) show ?thesis by (auto simp: run_msgs_append)
  next
    case (Inr s')
    with rest [of s'] b1(1) b2(3) split(1) show ?thesis by (auto simp: run_msgs_append)
  qed
qed

lemmas receive_from_start =
  receive_chunks [OF mk_Buffer_ok, unfolded content_mk_Buffer append_Nil, OF _ pending_nothing]

end

subsection \<open>The two read loops keep the contract\<close>

lemma assign_vec_peek:
  assumes "buf_ok b" "k + n \<le> length (content b)"
  shows "assign_vec b (peek b + k) (int n) = Inr (take n (drop k (content b)))"
  using assms by (auto simp: assign_vec_def buf_defs drop_take add.commute)

lemma cut_packet:
  assumes "buf_ok b" "content b = hdr @ six @ m @ rest" "length six = 6"
  obtains b1 b2 where "slice (peek b) (length hdr) b = hdr"
    "readableBytes b = length hdr + (6 + length m) + length rest"
    "retrieve (length hdr) b = Inr b1"
    "assign_vec b1 (peek b1 + 6) (int (length m)) = Inr m"
    "retrieve (6 + length m) b1 = Inr b2" "buf_ok b2" "content b2 = rest"
proof -
  have r: "readableBytes b = length hdr + (6 + length m) + length rest"
    using assms by (simp flip: length_content)
  obtain b1 where b1: "retrieve (length hdr) b = Inr b1" "buf_ok b1" "content b1 = six @ m @ rest"
    using retrieve_spec [OF assms(1), of "length hdr"] assms(2) by auto
  obtain b2 where b2: "retrieve (6 + length m) b1 = Inr b2" "buf_ok b2" "content b2 = rest"
    using retrieve_spec [OF b1(2), of "6 + length m"] b1(3) assms(3) by auto
  have "take (length m) (drop 6 (content b1)) = m"
    using b1(3) assms(3) by simp
  moreover have "length (content b1) = 6 + length m + length rest"
    using b1(3) assms(3) by simp
  ultimately have "assign_vec b1 (peek b1 + 6) (int (length m)) = Inr m"
    using b1(2) by (simp add: assign_vec_peek)
  moreover have "slice (peek b) (length hdr) b = hdr"
    using assms r by (simp add: slice_readable)
  ultimately show thesis
    using that r b1(1) b2 by blast
qed

lemma declared_size:
  "n < 2 ^ 31 - 6 \<Longrightarrow> sint (of_nat n + 6 :: 32 word) = int n + 6"
  "n < 2 ^ 63 - 6 \<Longrightarrow> sint (of_nat n + 6 :: 64 word) = int n + 6"
proof -
  assume "n < 2 ^ 31 - 6"
  then have "sint (of_nat (n + 6) :: 32 word) = int (n + 6)"
    by (subst signed_of_nat) (simp add: signed_take_bit_int_eq_self)
  then show "sint (of_nat n + 6 :: 32 word) = int n + 6" by simp
next
  assume "n < 2 ^ 63 - 6"
  then have "sint (of_nat (n + 6) :: 64 word) = int (n + 6)"
    by (subst signed_of_nat) (simp add: signed_take_bit_int_eq_self)
  then show "sint (of_nat n + 6 :: 64 word) = int n + 6" by simp
qed

lemma declared_beyond:
  assumes "h + (6 + n) < 2 ^ 64" "k < 2 ^ 64"
  shows "of_nat k < (of_nat h + word_of_int (int n + 6) :: 64 word) \<longleftrightarrow> k < h + (6 + n)"
proof -
  have "(of_nat h + word_of_int (int n + 6) :: 64 word) = of_nat (h + (6 + n))" by simp
  then show ?thesis
    using assms by (simp only: word_less_nat_alt unat_of_nat) simp
qed


text \<open>The lengths the header can express: an \<open>int\<close> of the chat server, an \<open>int64_t\<close> of the
  file server.\<close>

definition im_fits :: "bytes \<Rightarrow> bool" where
  "im_fits m \<longleftrightarrow> length m < 2 ^ 31 - 6"

definition file_fits :: "bytes \<Rightarrow> bool" where
  "file_fits m \<longleftrightarrow> length m < 2 ^ 63 - 6"

lemma on_read_nothing:
  "buf_ok b \<Longrightarrow> content b = [] \<Longrightarrow> ClientSession_OnRead p c b s = Inr (b, s)"
  "buf_ok b \<Longrightarrow> content b = [] \<Longrightarrow> FileSession_OnRead p c b s = Inr (b, s)"
  using length_content [of b]
  by (simp_all add: ClientSession_OnRead.simps FileSession_OnRead.simps del: length_content)

lemma im_waits:
  assumes "buf_ok b" "im_fits m" "content b @ ys = im_packet m" "ys \<noteq> []"
  shows "ClientSession_OnRead p c b s = Inr (b, s)"
proof (cases "readableBytes b \<ge> 4")
  case True
  have len: "readableBytes b < 4 + (6 + length m)"
    using arg_cong [OF assms(3), of length] assms(1,4)
    by (cases ys) (simp_all add: im_packet_def)
  have "take 4 (content b) = take 4 (content b @ ys)"
    using True assms(1) by simp
  then have "slice (peek b) 4 b = le_bytes 4 (of_nat (length m) + 6 :: 32 word)"
    using True assms(1,3) by (simp add: slice_readable im_packet_def)
  then show ?thesis
    using True assms(2) len declared_beyond [of 4 "length m" "readableBytes b"]
    by (simp add: ClientSession_OnRead.simps Let_def declared_size im_fits_def)
next
  case False
  then show ?thesis by (simp add: ClientSession_OnRead.simps)
qed

lemma im_takes:
  assumes "buf_ok b" "im_fits m" "content b = im_packet m @ rest" "length (content b) < 2 ^ 63"
  shows "\<exists>b'. buf_ok b' \<and> content b' = rest \<and> ClientSession_OnRead p c b s =
    bind_result (p m s) (\<lambda>(ok, s'). ClientSession_OnRead p c b' (if ok then s' else c s'))"
proof -
  obtain b1 b2 where cut: "slice (peek b) 4 b = le_bytes 4 (of_nat (length m) + 6 :: 32 word)"
    "readableBytes b = 4 + (6 + length m) + length rest" "retrieve 4 b = Inr b1"
    "assign_vec b1 (peek b1 + 6) (int (length m)) = Inr m"
    "retrieve (6 + length m) b1 = Inr b2" "buf_ok b2" "content b2 = rest"
    using cut_packet [OF assms(1), of "le_bytes 4 (of_nat (length m) + 6 :: 32 word)"
      "be_bytes 4 (of_nat (length m) :: 32 word) @ [0, 0]" m rest] assms(3)
    by (auto simp: im_packet_def)
  have "\<not> of_nat (readableBytes b) < (4 + word_of_int (int (length m) + 6) :: size_t)"
    using declared_beyond [of 4 "length m" "readableBytes b"] cut(2) assms(1,2,4)
    by (simp add: im_fits_def)
  then have "ClientSession_OnRead p c b s =
      bind_result (p m s) (\<lambda>(ok, s'). ClientSession_OnRead p c b2 (if ok then s' else c s'))"
    using cut assms(2)
    by (subst ClientSession_OnRead.simps)
      (simp add: declared_size im_fits_def nat_add_distrib add.commute bind_result_def split: sum.split)
  with cut(6,7) show ?thesis by blast
qed

lemma file_waits:
  assumes "buf_ok b" "file_fits m" "content b @ ys = file_packet m" "ys \<noteq> []"
  shows "FileSession_OnRead p c b s = Inr (b, s)"
proof (cases "readableBytes b \<ge> 8")
  case True
  have len: "readableBytes b < 8 + (6 + length m)"
    using arg_cong [OF assms(3), of length] assms(1,4)
    by (cases ys) (simp_all add: file_packet_def)
  have "take 8 (content b) = take 8 (content b @ ys)"
    using True assms(1) by simp
  then have "slice (peek b) 8 b = le_bytes 8 (of_nat (length m) + 6 :: 64 word)"
    using True assms(1,3) by (simp add: slice_readable file_packet_def)
  then show ?thesis
    using True assms(2) len declared_beyond [of 8 "length m" "readableBytes b"]
    by (simp add: FileSession_OnRead.simps Let_def declared_size file_fits_def)
next
  case False
  then show ?thesis by (simp add: FileSession_OnRead.simps)
qed

lemma file_takes:
  assumes "buf_ok b" "file_fits m" "content b = file_packet m @ rest" "length (content b) < 2 ^ 63"
  shows "\<exists>b'. buf_ok b' \<and> content b' = rest \<and> FileSession_OnRead p c b s =
    bind_result (p m s) (\<lambda>(ok, s'). FileSession_OnRead p c b' (if ok then s' else c s'))"
proof -
  obtain b1 b2 where cut: "slice (peek b) 8 b = le_bytes 8 (of_nat (length m) + 6 :: 64 word)"
    "readableBytes b = 8 + (6 + length m) + length rest" "retrieve 8 b = Inr b1"
    "assign_vec b1 (peek b1 + 6) (int (length m)) = Inr m"
    "retrieve (6 + length m) b1 = Inr b2" "buf_ok b2" "content b2 = rest"
    using cut_packet [OF assms(1), of "le_bytes 8 (of_nat (length m) + 6 :: 64 word)"
      "be_bytes 4 (of_nat (length m) :: 32 word) @ [0, 0]" m rest] assms(3)
    by (auto simp: file_packet_def)
  have "\<not> of_nat (readableBytes b) < (word_of_int (int (length m) + 6) + 8 :: size_t)"
    using declared_beyond [of 8 "length m" "readableBytes b"] cut(2) assms(1,2,4)
    by (simp add: file_fits_def)
  then have "FileSession_OnRead p c b s =
      bind_result (p m s) (\<lambda>(ok, s'). FileSession_OnRead p c b2 (if ok then s' else c s'))"
    using cut assms(2)
    by (subst FileSession_OnRead.simps)
      (simp add: declared_size file_fits_def nat_add_distrib add.commute bind_result_def split: sum.split)
  with cut(6,7) show ?thesis by blast
qed

interpretation im_stream: packet_stream im_packet im_fits ClientSession_OnRead
  by unfold_locales (auto simp: im_packet_def on_read_nothing(1) intro: im_waits im_takes)

interpretation file_stream: packet_stream file_packet file_fits FileSession_OnRead
  by unfold_locales (auto simp: file_packet_def on_read_nothing(2) intro: file_waits file_takes)

lemma size_beyond_signed:
  assumes "k < 2 ^ 63" "- (2 ^ 31) \<le> sz" "sz < 6"
  shows "of_nat k < (4 + word_of_int sz :: size_t) \<longleftrightarrow> sz < -4 \<or> int k < 4 + sz"
proof -
  have "uint (word_of_int (4 + sz) :: size_t) = (if sz < -4 then 4 + sz + 2 ^ 64 else 4 + sz)"
  proof (cases "sz < -4")
    case True
    then have "(4 + sz + 2 ^ 64) mod 2 ^ 64 = 4 + sz + 2 ^ 64"
      using assms(2) by (intro mod_pos_pos_trivial) simp_all
    then have "(4 + sz) mod 2 ^ 64 = 4 + sz + 2 ^ 64"
      by (simp only: mod_add_self2)
    with True show ?thesis by (simp add: uint_word_of_int del: of_int_add)
  next
    case False
    then show ?thesis using assms(3) by (simp add: uint_word_of_int del: of_int_add)
  qed
  moreover have "uint (of_nat k :: size_t) = int k"
    using assms(1) by (simp add: unsigned_of_nat take_bit_nat_eq_self)
  moreover have "(4 + word_of_int sz :: size_t) = word_of_int (4 + sz)"
    by simp
  ultimately show ?thesis
    using assms by (simp add: word_less_def del: of_int_add)
qed

subsection \<open>Properties\<close>

text \<open>C4: Chat messages survive the TCP stream. Whatever packets \<open>TcpSession::Send\<close> builds from
  a list of writers, and however the concatenated stream is cut into chunks delivered to
  \<open>handleRead\<close>, \<open>ClientSession::OnRead\<close> hands exactly the messages of the writers to
  \<open>Process\<close>, each once and in order (closing the connection after each rejected one), and the
  input buffer ends up empty.\<close>

theorem im_delivery:
  assumes "concat cs = concat (map (\<lambda>w. fst (TcpSession_Send w)) ws)"
    and "\<forall>w \<in> set ws. im_fits (toString w)"
    and "length (concat cs) < 2 ^ 63" and "\<forall>c \<in> set cs. length c \<le> extrabuf_size"
  shows "\<exists>b'. buf_ok b' \<and> content b' = [] \<and>
    receive (ClientSession_OnRead process close) cs (mk_Buffer kInitialSize) s =
      bind_result (run_msgs process close (map toString ws) s) (\<lambda>s'. Inr (b', s'))"
  using assms im_stream.receive_from_start [of cs "map toString ws"]
  by (simp add: TcpSession_Send_packet comp_def)

theorem im_delivery_witness:
  "\<exists>b'. buf_ok b' \<and> content b' = [] \<and>
    receive (ClientSession_OnRead (\<lambda>m s. Inr (True, s @ [m])) id)
      [[8, 0, 0], [0, 0, 0, 0, 2, 0, 0, 104, 105, 7, 0], [0, 0, 0, 0, 0, 1, 0, 0, 33]]
      (mk_Buffer kInitialSize) [] = Inr (b', [[104, 105], [33]])"
proof -
  let ?ws = "[WriteData (26984 :: 16 word) new_writer, WriteData (33 :: 8 word) new_writer]"
  have "concat [[8, 0, 0], [0, 0, 0, 0, 2, 0, 0, 104, 105, 7, 0], [0, 0, 0, 0, 0, 1, 0, 0, 33]] =
      concat (map (\<lambda>w. fst (TcpSession_Send w)) ?ws)"
    by code_simp
  note im_delivery [OF this, of "\<lambda>m s. Inr (True, s @ [m])" id "[]"]
  moreover have "map toString ?ws = [[104, 105], [33]]"
    by code_simp
  ultimately show ?thesis
    by (simp add: im_fits_def extrabuf_size_def del: receive.simps)
qed

text \<open>The same for the file server with its eight-byte length: \<open>FileSession::OnRead\<close>
  recovers exactly the messages given to the file server's \<open>TcpSession::Send\<close>, for every
  segmentation of the stream.\<close>

theorem file_delivery:
  assumes "concat cs = concat (map (\<lambda>w. fst (FileTcpSession_Send w)) ws)"
    and "\<forall>w \<in> set ws. file_fits (toString w)"
    and "length (concat cs) < 2 ^ 63" and "\<forall>c \<in> set cs. length c \<le> extrabuf_size"
  shows "\<exists>b'. buf_ok b' \<and> content b' = [] \<and>
    receive (FileSession_OnRead process close) cs (mk_Buffer kInitialSize) s =
      bind_result (run_msgs process close (map toString ws) s) (\<lambda>s'. Inr (b', s'))"
  using assms file_stream.receive_from_start [of cs "map toString ws"]
  by (simp add: FileTcpSession_Send_packet comp_def)

theorem file_delivery_witness:
  "\<exists>b'. buf_ok b' \<and> content b' = [] \<and>
    receive (FileSession_OnRead (\<lambda>m s. Inr (False, s @ [m])) (\<lambda>s. s @ [[]]))
      [[8, 0, 0, 0, 0, 0, 0, 0, 0, 0, 0, 2, 0, 0, 104], [105]]
      (mk_Buffer kInitialSize) [] = Inr (b', [[104, 105], []])"
proof -
  let ?ws = "[WriteData (26984 :: 16 word) new_writer]"
  have "concat [[8, 0, 0, 0, 0, 0, 0, 0, 0, 0, 0, 2, 0, 0, 104], [105]] =
      concat (map (\<lambda>w. fst (FileTcpSession_Send w)) ?ws)"
    by code_simp
  note file_delivery [OF this, of "\<lambda>m s. Inr (False, s @ [m])" "\<lambda>s. s @ [[]]" "[]"]
  moreover have "map toString ?ws = [[104, 105]]"
    by code_simp
  ultimately show ?thesis
    by (simp add: file_fits_def extrabuf_size_def del: receive.simps)
qed

text \<open>C40: A packet that declares fewer than six bytes has no room for its own header. Sizes from
  \<open>-4\<close> to \<open>5\<close> make \<open>ClientSession::OnRead\<close> throw \<open>std::length_error\<close> as soon as the
  declared bytes have arrived (the remaining length \<open>packagesize - 6\<close> is negative), and a size
  below \<open>-4\<close> makes the unsigned comparison wait for ever: the buffer is never consumed.\<close>

theorem OnRead_bad_size:
  assumes "buf_ok b" "4 \<le> readableBytes b" "readableBytes b < 2 ^ 63"
    and "packagesize = sint (of_le_bytes (take 4 (content b)) :: 32 word)" "packagesize < 6"
  shows "ClientSession_OnRead process close b s =
    (if packagesize < -4 \<or> int (readableBytes b) < 4 + packagesize then Inr (b, s) else Inl LengthError)"
proof -
  have "packagesize \<ge> - (2 ^ 31)"
    using assms(4) sint_ge [of "of_le_bytes (take 4 (content b)) :: 32 word"] by simp
  then have "of_nat (readableBytes b) < (4 + word_of_int packagesize :: size_t) \<longleftrightarrow>
      packagesize < -4 \<or> int (readableBytes b) < 4 + packagesize"
    using assms(3,5) by (intro size_beyond_signed)
  moreover obtain b1 where "retrieve 4 b = Inr b1"
    using retrieve_spec [OF assms(1), of 4] assms(1,2) by auto
  ultimately show ?thesis
    using assms(1,2,5) unfolding assms(4)
    by (subst ClientSession_OnRead.simps) (simp add: slice_readable assign_vec_def)
qed


theorem OnRead_bad_size_witness:
  "\<exists>b. buf_ok b \<and> ClientSession_OnRead (\<lambda>m s. Inr (True, s @ [m])) id b [] = Inl LengthError"
proof -
  let ?b = "\<lparr>buffer = replicate 8 0 @ [3, 0, 0, 0, 1, 2, 3], readerIndex = 8, writerIndex = 15\<rparr>"
  have "buf_ok ?b" "readableBytes ?b = 7" "sint (of_le_bytes (take 4 (content ?b)) :: 32 word) = 3"
    by code_simp+
  with OnRead_bad_size [of ?b 3 "\<lambda>m s. Inr (True, s @ [m])" id "[]"] show ?thesis
    by (intro exI [of _ ?b]) simp
qed

end
