(* ===== verification/Msg_Cache.thy ===== *)
theory Msg_Cache
  imports Prelude
begin

section \<open>Messages for users who are not online\<close>

text \<open>
  \<open>MsgCacheManager\<close> (\<open>MsgCacheManager.h\<close>, \<open>MsgCacheManager.cpp\<close>) keeps two lists, one of
  notifications and one of chat messages, and hands a user's entries out when the user logs in.
  The two mutexes serialise the operations of each list; every operation below is one critical
  section. A user id is an \<open>int32_t\<close>, modelled as \<open>int\<close>: it is only compared.
\<close>

subsection \<open>Data and operations\<close>

record NotifyMsgCache =
  notify_userid :: int
  notifymsg :: bytes

record ChatMsgCache =
  chat_userid :: int
  chatmsg :: bytes

record MsgCacheManager =
  m_listNotifyMsgCache :: "NotifyMsgCache list"
  m_listChatMsgCache :: "ChatMsgCache list"

definition new_MsgCacheManager :: MsgCacheManager where
  "new_MsgCacheManager = \<lparr>m_listNotifyMsgCache = [], m_listChatMsgCache = []\<rparr>"

definition AddNotifyMsgCache :: "int \<Rightarrow> bytes \<Rightarrow> MsgCacheManager \<Rightarrow> bool \<times> MsgCacheManager" where
  "AddNotifyMsgCache userid cache m =
     (let nc = \<lparr>notify_userid = userid, notifymsg = [] @ cache\<rparr>
      in (True, m\<lparr>m_listNotifyMsgCache := m_listNotifyMsgCache m @ [nc]\<rparr>))"

text \<open>The loops of the two \<open>Get\<close> operations: the first argument is the list from the iterator
  on, the second the caller's list. The result is what remains of the list after the erasures
  and the caller's list with the erased entries appended.\<close>

fun take_notify ::
  "int \<Rightarrow> NotifyMsgCache list \<Rightarrow> NotifyMsgCache list \<Rightarrow> NotifyMsgCache list \<times> NotifyMsgCache list" where
  "take_notify userid [] cache = ([], cache)"
| "take_notify userid (x # xs) cache =
     (if notify_userid x = userid then take_notify userid xs (cache @ [x])
      else let (rest, cache') = take_notify userid xs cache in (x # rest, cache'))"

definition GetNotifyMsgCache ::
  "int \<Rightarrow> NotifyMsgCache list \<Rightarrow> MsgCacheManager \<Rightarrow> NotifyMsgCache list \<times> MsgCacheManager" where
  "GetNotifyMsgCache userid cache m =
     (let (rest, cache') = take_notify userid (m_listNotifyMsgCache m) cache
      in (cache', m\<lparr>m_listNotifyMsgCache := rest\<rparr>))"

definition AddChatMsgCache :: "int \<Rightarrow> bytes \<Rightarrow> MsgCacheManager \<Rightarrow> bool \<times> MsgCacheManager" where
  "AddChatMsgCache userid cache m =
     (let c = \<lparr>chat_userid = userid, chatmsg = [] @ cache\<rparr>
      in (True, m\<lparr>m_listChatMsgCache := m_listChatMsgCache m @ [c]\<rparr>))"

fun take_chat ::
  "int \<Rightarrow> ChatMsgCache list \<Rightarrow> ChatMsgCache list \<Rightarrow> ChatMsgCache list \<times> ChatMsgCache list" where
  "take_chat userid [] cache = ([], cache)"
| "take_chat userid (x # xs) cache =
     (if chat_userid x = userid then take_chat userid xs (cache @ [x])
      else let (rest, cache') = take_chat userid xs cache in (x # rest, cache'))"

definition GetChatMagCache ::
  "int \<Rightarrow> ChatMsgCache list \<Rightarrow> MsgCacheManager \<Rightarrow> ChatMsgCache list \<times> MsgCacheManager" where
  "GetChatMagCache userid cache m =
     (let (rest, cache') = take_chat userid (m_listChatMsgCache m) cache
      in (cache', m\<lparr>m_listChatMsgCache := rest\<rparr>))"

subsection \<open>The contract of a mailbox\<close>

text \<open>
  What a user of either list relies on, with \<open>view s u\<close> the messages held for \<open>u\<close>: adding
  appends to one user's messages, taking returns all of them and leaves that user none.
\<close>

datatype 'm mail_op = Put int 'm | Take int

fun run_mail ::
  "(int \<Rightarrow> 'm \<Rightarrow> 's \<Rightarrow> 's) \<Rightarrow> (int \<Rightarrow> 's \<Rightarrow> 'm list \<times> 's) \<Rightarrow> 'm mail_op list \<Rightarrow> 's \<Rightarrow>
    (int \<times> 'm) list \<times> 's" where
  "run_mail add tak [] s = ([], s)"
| "run_mail add tak (Put u m # ops) s = run_mail add tak ops (add u m s)"
| "run_mail add tak (Take u # ops) s =
     (let (ms, s1) = tak u s; (out, s2) = run_mail add tak ops s1
      in (map (Pair u) ms @ out, s2))"

fun puts_for :: "int \<Rightarrow> 'm mail_op list \<Rightarrow> 'm list" where
  "puts_for u [] = []"
| "puts_for u (Put v m # ops) = (if v = u then [m] else []) @ puts_for u ops"
| "puts_for u (Take v # ops) = puts_for u ops"

definition received :: "int \<Rightarrow> (int \<times> 'm) list \<Rightarrow> 'm list" where
  "received u out = map snd (filter (\<lambda>p. fst p = u) out)"

lemma received_append [simp]: "received u (xs @ ys) = received u xs @ received u ys"
  by (simp add: received_def)

lemma received_batch [simp]: "received u (map (Pair v) ms) = (if v = u then ms else [])"
  by (simp add: received_def filter_map comp_def)

locale mailbox =
  fixes add :: "int \<Rightarrow> 'm \<Rightarrow> 's \<Rightarrow> 's"
    and tak :: "int \<Rightarrow> 's \<Rightarrow> 'm list \<times> 's"
    and view :: "'s \<Rightarrow> int \<Rightarrow> 'm list"
  assumes view_add: "view (add u m s) = (view s)(u := view s u @ [m])"
    and take_view: "fst (tak u s) = view s u"
    and view_take: "view (snd (tak u s)) = (view s)(u := [])"
begin

lemma conservation:
  "run_mail add tak ops s = (out, s') \<Longrightarrow>
     received u out @ view s' u = view s u @ puts_for u ops"
proof (induction ops arbitrary: s out)
  case Nil
  then show ?case by (simp add: received_def)
next
  case (Cons op ops)
  show ?case
  proof (cases op)
    case (Put v m)
    then show ?thesis
      using Cons.IH [of "add v m s" out] Cons.prems by (simp add: view_add)
  next
    case (Take v)
    obtain ms s1 where 1: "tak v s = (ms, s1)" by fastforce
    obtain out' s2 where 2: "run_mail add tak ops s1 = (out', s2)" by fastforce
    have "ms = view s v" and "view s1 = (view s)(v := [])"
      using take_view [of v s] view_take [of v s] 1 by simp_all
    with Cons.IH [of s1 out'] Cons.prems Take 1 2 show ?thesis by auto
  qed
qed

lemma take_again: "fst (tak u (snd (tak u s))) = []"
  by (simp add: take_view view_take)

end

subsection \<open>Both lists are mailboxes\<close>

lemma take_notify_filter:
  "take_notify u xs cache =
     (filter (\<lambda>x. notify_userid x \<noteq> u) xs, cache @ filter (\<lambda>x. notify_userid x = u) xs)"
  by (induction xs arbitrary: cache) simp_all

lemma take_chat_filter:
  "take_chat u xs cache =
     (filter (\<lambda>x. chat_userid x \<noteq> u) xs, cache @ filter (\<lambda>x. chat_userid x = u) xs)"
  by (induction xs arbitrary: cache) simp_all

definition notify_view :: "MsgCacheManager \<Rightarrow> int \<Rightarrow> bytes list" where
  "notify_view m u = map notifymsg (filter (\<lambda>x. notify_userid x = u) (m_listNotifyMsgCache m))"

definition chat_view :: "MsgCacheManager \<Rightarrow> int \<Rightarrow> bytes list" where
  "chat_view m u = map chatmsg (filter (\<lambda>x. chat_userid x = u) (m_listChatMsgCache m))"

definition put_notify :: "int \<Rightarrow> bytes \<Rightarrow> MsgCacheManager \<Rightarrow> MsgCacheManager" where
  "put_notify u m s = snd (AddNotifyMsgCache u m s)"

definition get_notify :: "int \<Rightarrow> MsgCacheManager \<Rightarrow> bytes list \<times> MsgCacheManager" where
  "get_notify u s = (let (xs, s') = GetNotifyMsgCache u [] s in (map notifymsg xs, s'))"

definition put_chat :: "int \<Rightarrow> bytes \<Rightarrow> MsgCacheManager \<Rightarrow> MsgCacheManager" where
  "put_chat u m s = snd (AddChatMsgCache u m s)"

definition get_chat :: "int \<Rightarrow> MsgCacheManager \<Rightarrow> bytes list \<times> MsgCacheManager" where
  "get_chat u s = (let (xs, s') = GetChatMagCache u [] s in (map chatmsg xs, s'))"

lemmas mail_defs = notify_view_def chat_view_def put_notify_def get_notify_def put_chat_def
  get_chat_def AddNotifyMsgCache_def AddChatMsgCache_def GetNotifyMsgCache_def GetChatMagCache_def
  take_notify_filter take_chat_filter

lemma filter_by_key:
  "filter (\<lambda>x. f x = u) (filter (\<lambda>x. f x \<noteq> v) xs) =
     (if u = v then [] else filter (\<lambda>x. f x = u) xs)"
  by (induction xs) auto

interpretation notifications: mailbox put_notify get_notify notify_view
  by unfold_locales (auto simp: mail_defs Let_def filter_by_key simp del: filter_filter)

interpretation chats: mailbox put_chat get_chat chat_view
  by unfold_locales (auto simp: mail_defs Let_def filter_by_key simp del: filter_filter)

lemma notify_keeps_chat:
  "run_mail put_notify get_notify ops m = (out, m') \<Longrightarrow> m_listChatMsgCache m' = m_listChatMsgCache m"
proof (induction ops arbitrary: m out)
  case (Cons op ops)
  have "m_listChatMsgCache (put_notify u b m) = m_listChatMsgCache m"
    "m_listChatMsgCache (snd (get_notify u m)) = m_listChatMsgCache m" for u b
    by (simp_all add: mail_defs)
  with Cons show ?case
    by (cases op) (simp_all add: Let_def split_def, metis prod.collapse snd_conv)
qed simp

subsection \<open>Properties\<close>

text \<open>C34: No offline chat message is lost, duplicated or reordered. For every interleaving of
  \<open>AddChatMsgCache\<close> and \<open>GetChatMagCache\<close> calls and every user, what the user was handed
  followed by what is still cached is what was cached before followed by what was added.\<close>

theorem chat_cache_conservation:
  assumes "run_mail put_chat get_chat ops m = (out, m')"
  shows "received u out @ chat_view m' u = chat_view m u @ puts_for u ops"
  using assms by (rule chats.conservation)

theorem chat_cache_conservation_witness:
  "\<exists>out m'. run_mail put_chat get_chat [Put 7 [1], Put 8 [2], Put 7 [3], Take 7, Put 7 [4]] new_MsgCacheManager = (out, m') \<and>
     received 7 out = [[1], [3]] \<and> received 7 out @ chat_view m' 7 = [[1], [3], [4]]"
proof -
  let ?ops = "[Put 7 [1], Put 8 [2], Put 7 [3], Take 7, Put 7 [4]] :: bytes mail_op list"
  obtain out m' where r: "run_mail put_chat get_chat ?ops new_MsgCacheManager = (out, m')" by force
  moreover have "received 7 (fst (run_mail put_chat get_chat ?ops new_MsgCacheManager)) = [[1], [3]]" by code_simp
  moreover have "chat_view new_MsgCacheManager 7 = []" "puts_for 7 ?ops = [[1], [3], [4]]" by code_simp+
  ultimately show ?thesis using chat_cache_conservation [OF r, of 7] by auto
qed

text \<open>The same for notifications, and the two lists do not disturb each other: the
  operations on notifications leave the chat messages of every user as they are.\<close>

theorem notify_cache_conservation:
  assumes "run_mail put_notify get_notify ops m = (out, m')"
  shows "received u out @ notify_view m' u = notify_view m u @ puts_for u ops \<and>
    m_listChatMsgCache m' = m_listChatMsgCache m"
  using notifications.conservation [OF assms] notify_keeps_chat [OF assms] by simp

theorem notify_cache_conservation_witness:
  "received 7 [(7, [1 :: byte]), (8, [2])] @
     notify_view \<lparr>m_listNotifyMsgCache = [\<lparr>notify_userid = 7, notifymsg = [3]\<rparr>],
       m_listChatMsgCache = [\<lparr>chat_userid = 7, chatmsg = [9]\<rparr>]\<rparr> 7 = [[1], [3]]"
proof -
  let ?ops = "[Put 7 [1], Put 8 [2], Take 7, Take 8, Put 7 [3] :: bytes mail_op]"
  have "run_mail put_notify get_notify ?ops
        \<lparr>m_listNotifyMsgCache = [], m_listChatMsgCache = [\<lparr>chat_userid = 7, chatmsg = [9]\<rparr>]\<rparr> =
      ([(7, [1]), (8, [2])],
       \<lparr>m_listNotifyMsgCache = [\<lparr>notify_userid = 7, notifymsg = [3]\<rparr>],
        m_listChatMsgCache = [\<lparr>chat_userid = 7, chatmsg = [9]\<rparr>]\<rparr>)"
    by code_simp
  from notify_cache_conservation [OF this, of 7] show ?thesis
    by (simp add: notify_view_def)
qed

end
