(* ===== verification/Decimal.thy ===== *)
theory Decimal
  imports Prelude
begin

section \<open>Integers as decimal text\<close>

text \<open>
  The servers put integers into SQL statements with \<open>operator<<\<close> and \<open>snprintf("%d")\<close> and read
  them back from result rows with \<open>atoi\<close>. An \<open>int32_t\<close> is modelled as \<open>int\<close> here; \<open>wrap32\<close>
  is the conversion of a wider value to it.
\<close>

definition wrap32 :: "int \<Rightarrow> int" where
  "wrap32 i = (i + 2 ^ 31) mod 2 ^ 32 - 2 ^ 31"

definition is_int32 :: "int \<Rightarrow> bool" where
  "is_int32 i \<longleftrightarrow> - (2 ^ 31) \<le> i \<and> i < 2 ^ 31"

lemma wrap32_id [simp]: "is_int32 i \<Longrightarrow> wrap32 i = i"
  by (simp add: wrap32_def is_int32_def)

lemma wrap32_range [simp]: "is_int32 (wrap32 i)"
  by (simp add: wrap32_def is_int32_def pos_mod_bound [of "2 ^ 32", simplified])

subsection \<open>Printing\<close>

fun dec_digits :: "nat \<Rightarrow> bytes" where
  "dec_digits n =
     (if n < 10 then [48 + of_nat n] else dec_digits (n div 10) @ [48 + of_nat (n mod 10)])"

declare dec_digits.simps [simp del]

definition show_int :: "int \<Rightarrow> bytes" where
  "show_int i = (if i < 0 then 45 # dec_digits (nat (- i)) else dec_digits (nat i))"

subsection \<open>\<open>atoi\<close> and \<open>atoll\<close>\<close>

definition is_space :: "byte \<Rightarrow> bool" where
  "is_space c \<longleftrightarrow> c = 32 \<or> 9 \<le> c \<and> c \<le> 13"

definition is_digit :: "byte \<Rightarrow> bool" where
  "is_digit c \<longleftrightarrow> 48 \<le> c \<and> c \<le> 57"

definition digits_value :: "bytes \<Rightarrow> nat" where
  "digits_value = foldl (\<lambda>v c. 10 * v + (unat c - 48)) 0"

text \<open>The leading number of a C string: blanks, an optional sign, digits up to the first other
  byte (the terminating zero at the latest).\<close>

definition leading_int :: "bytes \<Rightarrow> int" where
  "leading_int s =
     (case dropWhile is_space s of
        [] \<Rightarrow> 0
      | c # cs \<Rightarrow>
          if c = 45 then - int (digits_value (takeWhile is_digit cs))
          else if c = 43 then int (digits_value (takeWhile is_digit cs))
          else int (digits_value (takeWhile is_digit (c # cs))))"

text \<open>\<open>strtol\<close>/\<open>strtoll\<close> saturate at 64 bits; \<open>atoi\<close> converts the \<open>long\<close> to \<open>int\<close>.\<close>

definition saturate64 :: "int \<Rightarrow> int" where
  "saturate64 i = max (- (2 ^ 63)) (min (2 ^ 63 - 1) i)"

definition atoll :: "bytes \<Rightarrow> int" where
  "atoll s = saturate64 (leading_int s)"

definition atoi :: "bytes \<Rightarrow> int" where
  "atoi s = wrap32 (atoll s)"

subsection \<open>Printed integers read back\<close>

lemma is_digit_char: "d < 10 \<Longrightarrow> is_digit (48 + of_nat d) \<and> unat (48 + of_nat d :: byte) = 48 + d"
proof -
  assume d: "d < 10"
  then have "(48 + of_nat d :: byte) = of_nat (48 + d)" by simp
  moreover have "unat (of_nat (48 + d) :: byte) = 48 + d"
    using d by (simp add: unsigned_of_nat take_bit_nat_eq_self del: of_nat_add)
  ultimately have "unat (48 + of_nat d :: byte) = 48 + d" by simp
  with d show ?thesis by (simp add: is_digit_def word_le_nat_alt)
qed

lemma dec_digits_digits: "c \<in> set (dec_digits n) \<Longrightarrow> is_digit c"
proof (induction n rule: dec_digits.induct)
  case (1 n)
  then show ?case
    using is_digit_char [of n] is_digit_char [of "n mod 10"]
    by (subst (asm) (2) dec_digits.simps) (auto split: if_splits)
qed

lemma digits_value_dec_digits: "digits_value (dec_digits n) = n"
proof (induction n rule: dec_digits.induct)
  case (1 n)
  show ?case
  proof (cases "n < 10")
    case True
    then show ?thesis
      using is_digit_char [of n] by (simp add: dec_digits.simps digits_value_def)
  next
    case False
    then show ?thesis
      using 1 is_digit_char [of "n mod 10"]
      by (subst dec_digits.simps) (simp add: digits_value_def)
  qed
qed

lemma dec_digits_nonempty [simp]: "dec_digits n \<noteq> []"
  by (subst dec_digits.simps) simp

lemma takeWhile_dec_digits [simp]: "takeWhile is_digit (dec_digits n) = dec_digits n"
  by (simp add: dec_digits_digits takeWhile_eq_all_conv)

lemma digit_no_sign: "is_digit c \<Longrightarrow> c \<noteq> 45 \<and> c \<noteq> 43 \<and> \<not> is_space c"
  by (auto simp: is_digit_def is_space_def word_le_nat_alt)

lemma leading_int_show_int: "leading_int (show_int i) = i"
proof (cases "i < 0")
  case True
  then show ?thesis
    by (simp add: show_int_def leading_int_def is_space_def digits_value_dec_digits)
next
  case False
  obtain c cs where d: "dec_digits (nat i) = c # cs"
    by (cases "dec_digits (nat i)") auto
  then have "is_digit c" using dec_digits_digits [of c "nat i"] by simp
  with d False show ?thesis
    using takeWhile_dec_digits [of "nat i"] digits_value_dec_digits [of "nat i"]
    by (simp add: show_int_def leading_int_def digit_no_sign takeWhile_eq_all_conv [THEN iffD2])
qed

lemma atoi_show_int: "is_int32 i \<Longrightarrow> atoi (show_int i) = i"
  by (auto simp: atoi_def atoll_def saturate64_def leading_int_show_int is_int32_def max_def min_def)

lemma show_int_inject: "show_int i = show_int j \<longleftrightarrow> i = j"
  by (metis leading_int_show_int)

lemma length_dec_digits: "n < 10 ^ Suc m \<Longrightarrow> length (dec_digits n) \<le> Suc m"
proof (induction m arbitrary: n)
  case 0
  then show ?case by (subst dec_digits.simps) simp
next
  case (Suc m)
  have "length (dec_digits (n div 10)) \<le> Suc m"
    by (rule Suc.IH) (use Suc.prems in auto)
  then show ?case by (subst dec_digits.simps) simp
qed

end
