(* ===== verification/Db_Result.thy ===== *)
theory Db_Result
  imports Decimal
begin

section \<open>Result sets\<close>

text \<open>
  \<open>Field\<close> (\<open>Field.h\<close>, \<open>Field.cpp\<close>) is one cell of a row, \<open>QueryResult\<close> (\<open>QueryResult.h\<close>,
  \<open>QueryResult.cpp\<close>) a cursor over the rows of a stored MySQL result. The result handle of the
  MySQL client is the list of its columns and of the rows not yet fetched; \<open>mysql_fetch_row\<close>
  takes the next one, a \<open>NULL\<close> cell is \<open>None\<close>. \<open>Field::toFloat\<close> is not modelled.
\<close>

subsection \<open>\<open>Field\<close>\<close>

datatype DataTypes =
    ENY_TYPE_NONE | ENY_TYPE_STRING | ENY_TYPE_INTEGER | ENY_TYPE_FLOAT | ENY_TYPE_BOOL | ENY_TYPE_NULL

record Field =
  m_value :: bytes
  m_name :: bytes
  m_type :: DataTypes
  m_isNull :: bool

definition new_Field :: Field where
  "new_Field = \<lparr>m_value = [], m_name = [], m_type = ENY_TYPE_NULL, m_isNull = True\<rparr>"

definition SetType :: "DataTypes \<Rightarrow> Field \<Rightarrow> Field" where
  "SetType tp f = f\<lparr>m_type := tp\<rparr>"

definition SetName :: "bytes \<Rightarrow> Field \<Rightarrow> Field" where
  "SetName name f = f\<lparr>m_name := name\<rparr>"

definition SetValue :: "bytes option \<Rightarrow> Field \<Rightarrow> Field" where
  "SetValue val f =
     (case val of
        None \<Rightarrow> f\<lparr>m_isNull := True, m_value := []\<rparr>
      | Some v \<Rightarrow>
          if length v = 0 then f\<lparr>m_isNull := True, m_value := []\<rparr>
          else f\<lparr>m_value := v, m_isNull := False\<rparr>)"

definition GetString :: "Field \<Rightarrow> bytes" where
  "GetString f = m_value f"

definition toBool :: "Field \<Rightarrow> bool" where
  "toBool f \<longleftrightarrow> atoi (c_string (m_value f)) \<noteq> 0"

definition toInt8 :: "Field \<Rightarrow> 8 word" where
  "toInt8 f = word_of_int (atoi (c_string (m_value f)))"

definition toUInt8 :: "Field \<Rightarrow> 8 word" where
  "toUInt8 f = toInt8 f"

definition toInt32 :: "Field \<Rightarrow> int" where
  "toInt32 f = atoi (c_string (m_value f))"

definition toUInt32 :: "Field \<Rightarrow> 32 word" where
  "toUInt32 f = word_of_int (atoi (c_string (m_value f)))"

definition toInt64 :: "Field \<Rightarrow> int" where
  "toInt64 f = atoll (c_string (m_value f))"

definition toUInt64 :: "Field \<Rightarrow> 64 word" where
  "toUInt64 f = word_of_int (atoll (c_string (m_value f)))"

subsection \<open>\<open>QueryResult\<close>\<close>

datatype enum_field_types =
    FIELD_TYPE_TIMESTAMP | FIELD_TYPE_DATE | FIELD_TYPE_TIME | FIELD_TYPE_DATETIME | FIELD_TYPE_YEAR
  | FIELD_TYPE_STRING | FIELD_TYPE_VAR_STRING | FIELD_TYPE_BLOB | FIELD_TYPE_SET | FIELD_TYPE_NULL
  | FIELD_TYPE_TINY | FIELD_TYPE_SHORT | FIELD_TYPE_LONG | FIELD_TYPE_LONGLONG | FIELD_TYPE_INT24
  | FIELD_TYPE_ENUM | FIELD_TYPE_DECIMAL | FIELD_TYPE_FLOAT | FIELD_TYPE_DOUBLE | FIELD_TYPE_OTHER

record mysql_res =
  res_fields :: "(bytes \<times> enum_field_types) list"
  res_rows :: "bytes option list list"

definition mysql_fetch_row :: "mysql_res \<Rightarrow> bytes option list option \<times> mysql_res" where
  "mysql_fetch_row r =
     (case res_rows r of [] \<Rightarrow> (None, r) | row # rows \<Rightarrow> (Some row, r\<lparr>res_rows := rows\<rparr>))"

text \<open>\<open>row_storage\<close> says whether the vector \<open>m_CurrentRow\<close> ever allocated: \<open>clear()\<close> destroys
  the elements and keeps the storage, and \<open>data()\<close> still points to it.\<close>

record QueryResult =
  m_CurrentRow :: "Field list"
  row_storage :: bool
  m_vecFieldName :: "bytes list"
  m_result :: "mysql_res option"
  m_rowcount :: "32 word"
  m_cloumncout :: "32 word"

fun toEDYType :: "enum_field_types \<Rightarrow> DataTypes" where
  "toEDYType FIELD_TYPE_TIMESTAMP = ENY_TYPE_STRING"
| "toEDYType FIELD_TYPE_DATE = ENY_TYPE_STRING"
| "toEDYType FIELD_TYPE_TIME = ENY_TYPE_STRING"
| "toEDYType FIELD_TYPE_DATETIME = ENY_TYPE_STRING"
| "toEDYType FIELD_TYPE_YEAR = ENY_TYPE_STRING"
| "toEDYType FIELD_TYPE_STRING = ENY_TYPE_STRING"
| "toEDYType FIELD_TYPE_VAR_STRING = ENY_TYPE_STRING"
| "toEDYType FIELD_TYPE_BLOB = ENY_TYPE_STRING"
| "toEDYType FIELD_TYPE_SET = ENY_TYPE_STRING"
| "toEDYType FIELD_TYPE_NULL = ENY_TYPE_NULL"
| "toEDYType FIELD_TYPE_TINY = ENY_TYPE_INTEGER"
| "toEDYType FIELD_TYPE_SHORT = ENY_TYPE_INTEGER"
| "toEDYType FIELD_TYPE_LONG = ENY_TYPE_INTEGER"
| "toEDYType FIELD_TYPE_LONGLONG = ENY_TYPE_INTEGER"
| "toEDYType FIELD_TYPE_INT24 = ENY_TYPE_INTEGER"
| "toEDYType FIELD_TYPE_ENUM = ENY_TYPE_INTEGER"
| "toEDYType FIELD_TYPE_DECIMAL = ENY_TYPE_FLOAT"
| "toEDYType FIELD_TYPE_FLOAT = ENY_TYPE_FLOAT"
| "toEDYType FIELD_TYPE_DOUBLE = ENY_TYPE_FLOAT"
| "toEDYType FIELD_TYPE_OTHER = ENY_TYPE_NONE"

definition EndQuery :: "QueryResult \<Rightarrow> QueryResult" where
  "EndQuery q = q\<lparr>m_CurrentRow := [], m_vecFieldName := [], m_result := None,
     m_cloumncout := 0, m_rowcount := 0\<rparr>"

definition new_QueryResult :: "mysql_res option \<Rightarrow> 32 word \<Rightarrow> 32 word \<Rightarrow> QueryResult result" where
  "new_QueryResult res rowcount cloumncout =
     (let n = unat cloumncout;
          q = \<lparr>m_CurrentRow = replicate n new_Field, row_storage = (n > 0),
               m_vecFieldName = replicate n [], m_result = res, m_rowcount = rowcount,
               m_cloumncout = cloumncout\<rparr>
      in case res of
           None \<Rightarrow> Inl NullDeref
         | Some r \<Rightarrow>
             (case mysql_fetch_row r of
                (None, r') \<Rightarrow> Inr (EndQuery (q\<lparr>m_result := Some r'\<rparr>))
              | (Some row, r') \<Rightarrow>
                  if length (res_fields r) < n \<or> length row < n then Inl OutOfBounds
                  else Inr (q\<lparr>m_result := Some r',
                    m_vecFieldName := map fst (take n (res_fields r)),
                    m_CurrentRow :=
                      map2 (\<lambda>(name, tp) cell.
                          SetValue cell (SetName name (SetType (toEDYType tp) new_Field)))
                        (take n (res_fields r)) row\<rparr>)))"

definition NextRow :: "QueryResult \<Rightarrow> (bool \<times> QueryResult) result" where
  "NextRow q =
     (case m_result q of
        None \<Rightarrow> Inr (False, q)
      | Some r \<Rightarrow>
          (case mysql_fetch_row r of
             (None, r') \<Rightarrow> Inr (False, EndQuery (q\<lparr>m_result := Some r'\<rparr>))
           | (Some row, r') \<Rightarrow>
               let n = unat (m_cloumncout q)
               in if length (m_CurrentRow q) < n \<or> length row < n then Inl OutOfBounds
                  else Inr (True, q\<lparr>m_result := Some r',
                    m_CurrentRow :=
                      map2 (\<lambda>f cell. SetValue cell f) (take n (m_CurrentRow q)) row
                        @ drop n (m_CurrentRow q)\<rparr>)))"

text \<open>\<open>Fetch\<close> returns a pointer to the row: \<open>Fetch\<close> here is whether it is not null, \<open>row_at q i\<close>
  is \<open>pRow[i]\<close>.\<close>

definition Fetch :: "QueryResult \<Rightarrow> bool" where
  "Fetch q = row_storage q"

definition row_at :: "QueryResult \<Rightarrow> nat \<Rightarrow> Field result" where
  "row_at q i = (if i < length (m_CurrentRow q) then Inr (m_CurrentRow q ! i) else Inl OutOfBounds)"

fun index_of :: "bytes list \<Rightarrow> bytes \<Rightarrow> nat \<Rightarrow> int" where
  "index_of [] name i = -1"
| "index_of (n # ns) name i = (if n = name then int i else index_of ns name (Suc i))"

definition GetFieldIndexByName :: "bytes \<Rightarrow> QueryResult \<Rightarrow> int" where
  "GetFieldIndexByName name q = index_of (m_vecFieldName q) name 0"

definition field_named :: "bytes \<Rightarrow> QueryResult \<Rightarrow> Field result" where
  "field_named name q =
     (let i = GetFieldIndexByName name q in if i < 0 then Inl OutOfBounds else row_at q (nat i))"

subsection \<open>Cells keep integers\<close>

lemma c_string_no_zero: "0 \<notin> set s \<Longrightarrow> c_string s = s"
  unfolding c_string_def by (rule takeWhile_eq_all_conv [THEN iffD2]) auto

lemma show_int_no_zero: "0 \<notin> set (show_int i)"
  using dec_digits_digits [of 0] by (auto simp: show_int_def is_digit_def split: if_splits)

lemma show_int_nonempty [simp]: "show_int i \<noteq> []"
  by (simp add: show_int_def)

lemma toInt32_show_int: "is_int32 i \<Longrightarrow> toInt32 (SetValue (Some (show_int i)) f) = i"
  by (simp add: toInt32_def SetValue_def c_string_no_zero show_int_no_zero atoi_show_int)

subsection \<open>The cursor walks the rows\<close>

text \<open>
  \<open>cells\<close> is what the current row shows to \<open>GetString\<close>; \<open>at_row n row rest q\<close> says that the
  cursor stands on \<open>row\<close> of an \<open>n\<close>-column result with the rows \<open>rest\<close> to come.
\<close>

definition cell :: "bytes option \<Rightarrow> bytes" where
  "cell c = (case c of None \<Rightarrow> [] | Some v \<Rightarrow> v)"

definition at_row :: "nat \<Rightarrow> bytes option list \<Rightarrow> bytes option list list \<Rightarrow> QueryResult \<Rightarrow> bool" where
  "at_row n row rest q \<longleftrightarrow> 0 < n \<and> row_storage q \<and> unat (m_cloumncout q) = n \<and>
     map m_value (m_CurrentRow q) = map cell row \<and> length row = n \<and>
     (\<exists>r. m_result q = Some r \<and> res_rows r = rest)"

definition well_shaped :: "nat \<Rightarrow> mysql_res \<Rightarrow> bool" where
  "well_shaped n r \<longleftrightarrow> 0 < n \<and> n < 2 ^ 32 \<and> length (res_fields r) = n \<and> (\<forall>row \<in> set (res_rows r). length row = n)"

lemma m_value_SetValue [simp]: "m_value (SetValue c f) = cell c"
  by (auto simp: SetValue_def cell_def split: option.split)

lemma map_value_map2:
  "length fs = length row \<Longrightarrow> map m_value (map2 (\<lambda>f c. SetValue c (g f)) fs row) = map cell row"
  by (induction fs row rule: list_induct2) simp_all

lemma new_QueryResult_row:
  assumes "well_shaped n r" "res_rows r = row # rest" "unat cols = n"
  shows "\<exists>q. new_QueryResult (Some r) cnt cols = Inr q \<and> at_row n row rest q"
  using assms map_value_map2 [of "res_fields r" row
      "\<lambda>p. SetName (fst p) (SetType (toEDYType (snd p)) new_Field)"]
  by (simp add: new_QueryResult_def Let_def mysql_fetch_row_def at_row_def well_shaped_def split_def)

lemma NextRow_row:
  assumes "at_row n row (row' # rest) q" "length row' = n"
  shows "\<exists>q'. NextRow q = Inr (True, q') \<and> at_row n row' rest q'"
proof -
  have "length (m_CurrentRow q) = n"
    using assms(1) by (auto simp: at_row_def dest: arg_cong [of _ _ length])
  with assms map_value_map2 [of "m_CurrentRow q" row' "\<lambda>f. f"] show ?thesis
    by (auto simp: NextRow_def mysql_fetch_row_def at_row_def)
qed

lemma NextRow_last:
  assumes "at_row n row [] q"
  shows "\<exists>q'. NextRow q = Inr (False, q')"
  using assms by (auto simp: NextRow_def mysql_fetch_row_def at_row_def)

lemma row_at_row:
  assumes "at_row n row rest q" "i < n"
  shows "\<exists>f. row_at q i = Inr f \<and> m_value f = cell (row ! i)"
proof -
  have len: "length (m_CurrentRow q) = n" "length row = n"
    and "map m_value (m_CurrentRow q) ! i = map cell row ! i"
    using assms(1) by (auto simp: at_row_def dest: arg_cong [of _ _ length])
  then have "m_value (m_CurrentRow q ! i) = cell (row ! i)"
    using assms(2) by simp
  with len assms(2) show ?thesis by (simp add: row_at_def)
qed

lemma at_row_Fetch: "at_row n row rest q \<Longrightarrow> Fetch q"
  by (simp add: at_row_def Fetch_def)

definition rows_left :: "QueryResult \<Rightarrow> nat" where
  "rows_left q = (case m_result q of None \<Rightarrow> 0 | Some r \<Rightarrow> length (res_rows r))"

lemma NextRow_decreases: "NextRow q = Inr (True, q') \<Longrightarrow> rows_left q' < rows_left q"
  by (auto simp: NextRow_def rows_left_def mysql_fetch_row_def Let_def
      split: option.splits list.splits if_splits)

end
