(* ===== verification/Ordered_Map.thy ===== *)
theory Ordered_Map
  imports Prelude "HOL-Library.List_Lexorder"
begin

section \<open>\<open>std::map\<close>\<close>

text \<open>
  \<open>std::map\<close> keeps its entries sorted by key and iterates over them in that order, which is
  visible in the SQL text and the JSON text the servers produce. It is modelled as the list of
  its entries in iteration order. \<open>insert\<close> keeps an existing entry, \<open>operator[]\<close> followed by
  an assignment replaces it. The order of \<open>std::string\<close> keys is lexicographic on unsigned
  bytes, the order of \<open>HOL-Library.List_Lexorder\<close>.
\<close>

type_synonym ('k, 'v) omap = "('k \<times> 'v) list"

definition omap_ok :: "('k::linorder, 'v) omap \<Rightarrow> bool" where
  "omap_ok m \<longleftrightarrow> sorted_wrt (<) (map fst m)"

definition omap_find :: "'k \<Rightarrow> ('k, 'v) omap \<Rightarrow> 'v option" where
  "omap_find k m = map_of m k"

fun omap_insert :: "'k::linorder \<Rightarrow> 'v \<Rightarrow> ('k, 'v) omap \<Rightarrow> ('k, 'v) omap" where
  "omap_insert k v [] = [(k, v)]"
| "omap_insert k v ((k', v') # m) =
     (if k < k' then (k, v) # (k', v') # m
      else if k = k' then (k', v') # m
      else (k', v') # omap_insert k v m)"

fun omap_assign :: "'k::linorder \<Rightarrow> 'v \<Rightarrow> ('k, 'v) omap \<Rightarrow> ('k, 'v) omap" where
  "omap_assign k v [] = [(k, v)]"
| "omap_assign k v ((k', v') # m) =
     (if k < k' then (k, v) # (k', v') # m
      else if k = k' then (k, v) # m
      else (k', v') # omap_assign k v m)"

definition omap_erase :: "'k \<Rightarrow> ('k, 'v) omap \<Rightarrow> ('k, 'v) omap" where
  "omap_erase k m = filter (\<lambda>e. fst e \<noteq> k) m"

lemma keys_insert [simp]: "fst ` set (omap_insert k v m) = insert k (fst ` set m)"
  by (induction k v m rule: omap_insert.induct) auto

lemma keys_assign [simp]: "fst ` set (omap_assign k v m) = insert k (fst ` set m)"
  by (induction k v m rule: omap_assign.induct) auto

lemma omap_ok_Nil [simp]: "omap_ok []"
  by (simp add: omap_ok_def)

lemma omap_ok_Cons: "omap_ok ((k, v) # m) \<longleftrightarrow> (\<forall>k' \<in> fst ` set m. k < k') \<and> omap_ok m"
  by (auto simp: omap_ok_def)

lemma omap_ok_insert [simp]: "omap_ok m \<Longrightarrow> omap_ok (omap_insert k v m)"
proof (induction k v m rule: omap_insert.induct)
  case (2 k v k' v' m)
  then show ?case
    by (auto simp: omap_ok_Cons simp flip: ball_simps(9)) fastforce+
qed (simp add: omap_ok_def)

lemma omap_ok_assign [simp]: "omap_ok m \<Longrightarrow> omap_ok (omap_assign k v m)"
proof (induction k v m rule: omap_assign.induct)
  case (2 k v k' v' m)
  then show ?case
    by (auto simp: omap_ok_Cons simp flip: ball_simps(9)) fastforce+
qed (simp add: omap_ok_def)

lemma omap_ok_erase [simp]: "omap_ok m \<Longrightarrow> omap_ok (omap_erase k m)"
  by (induction m) (auto simp: omap_erase_def omap_ok_Cons)

lemma omap_find_none: "omap_find k m = None \<longleftrightarrow> k \<notin> fst ` set m"
  by (simp add: omap_find_def map_of_eq_None_iff)

lemma omap_find_insert:
  "omap_ok m \<Longrightarrow> omap_find k' (omap_insert k v m) =
     (if k' = k \<and> omap_find k m = None then Some v else omap_find k' m)"
proof (induction k v m rule: omap_insert.induct)
  case (2 k v k0 v0 m)
  then show ?case
    by (auto simp: omap_find_def omap_ok_Cons map_of_eq_None_iff dest!: map_of_SomeD)
      (force dest: not_less_iff_gr_or_eq [THEN iffD1])+
qed (simp add: omap_find_def)

lemma omap_find_assign:
  "omap_find k' (omap_assign k v m) = (if k' = k then Some v else omap_find k' m)"
  by (induction k v m rule: omap_assign.induct) (auto simp: omap_find_def)

lemma omap_find_erase:
  "omap_find k' (omap_erase k m) = (if k' = k then None else omap_find k' m)"
  by (induction m) (auto simp: omap_find_def omap_erase_def)

end
