(* ===== verification/Db.thy ===== *)
theory Db
  imports Db_Result Ordered_Map
begin

section \<open>The database layer\<close>

text \<open>
  \<open>MySQLTool\<close> (\<open>mysqltool.h\<close>, \<open>mysqltool.cpp\<close>) wraps one connection of the MySQL client
  library and \<open>MySqlManager\<close> (\<open>MySqlManager.h\<close>, \<open>MySqlManager.cpp\<close>) keeps the schema and
  creates or repairs the tables. The client library is the parameter \<open>mysql_api\<close>: its functions
  act on the state \<open>'w\<close> of the database server and the connection. \<open>mysql_query\<close> is
  \<open>mysql_real_query\<close> on the C string, as its manual says. Calling the library with a null
  handle faults.
\<close>

subsection \<open>\<open>MySQLTool\<close>\<close>

record 'w mysql_api =
  mysql_real_connect :: "bytes \<Rightarrow> bytes \<Rightarrow> bytes \<Rightarrow> bytes \<Rightarrow> 32 word \<Rightarrow> 'w \<Rightarrow> bool \<times> 'w"
  mysql_close :: "'w \<Rightarrow> 'w"
  mysql_real_query :: "bytes \<Rightarrow> 'w \<Rightarrow> bool \<times> 'w"  \<comment> \<open>true when the return value is not zero\<close>
  mysql_errno :: "'w \<Rightarrow> 32 word"
  mysql_store_result :: "'w \<Rightarrow> mysql_res option \<times> 'w"
  mysql_affected_rows :: "'w \<Rightarrow> 64 word"
  mysql_field_count :: "'w \<Rightarrow> 32 word"

definition mysql_query :: "'w mysql_api \<Rightarrow> bytes \<Rightarrow> 'w \<Rightarrow> bool \<times> 'w" where
  "mysql_query api sql = mysql_real_query api (c_string sql)"

definition CR_SERVER_GONE_ERROR :: "32 word" where
  "CR_SERVER_GONE_ERROR = 2006"

record MySQLTool =
  m_handle :: bool  \<comment> \<open>\<open>m_mysql != nullptr\<close>\<close>
  m_host :: bytes
  m_user :: bytes
  m_passwd :: bytes
  m_dbname :: bytes
  m_port :: "32 word"

definition new_MySQLTool :: MySQLTool where
  "new_MySQLTool =
     \<lparr>m_handle = False, m_host = [], m_user = [], m_passwd = [], m_dbname = [], m_port = 3306\<rparr>"

definition connect ::
  "'w mysql_api \<Rightarrow> bytes \<Rightarrow> bytes \<Rightarrow> bytes \<Rightarrow> bytes \<Rightarrow> 32 word \<Rightarrow> MySQLTool \<Rightarrow> 'w \<Rightarrow>
    bool \<times> MySQLTool \<times> 'w" where
  "connect api host user passwd db port t w =
     (let w1 = (if m_handle t then mysql_close api w else w);
          (ok, w2) = mysql_real_connect api (c_string host) (c_string user) (c_string passwd)
            (c_string db) port w1
      in if ok
         then (True, t\<lparr>m_handle := True, m_host := host, m_user := user, m_passwd := passwd,
                 m_dbname := db\<rparr>, snd (mysql_query api (lit ''set name utf8;'') w2))
         else (False, t\<lparr>m_handle := False\<rparr>, w2))"

text \<open>The destructor, run when the manager replaces its tool.\<close>

definition drop_tool :: "'w mysql_api \<Rightarrow> MySQLTool option \<Rightarrow> 'w \<Rightarrow> 'w" where
  "drop_tool api t w =
     (case t of None \<Rightarrow> w | Some t \<Rightarrow> if m_handle t then mysql_close api w else w)"

text \<open>The reconnections in \<open>Query\<close> and \<open>Execute\<close> use the stored parameters and the default
  port.\<close>

definition reconnect :: "'w mysql_api \<Rightarrow> MySQLTool \<Rightarrow> 'w \<Rightarrow> bool \<times> MySQLTool \<times> 'w" where
  "reconnect api t w = connect api (m_host t) (m_user t) (m_passwd t) (m_dbname t) 3306 t w"

definition fetch_result :: "'w mysql_api \<Rightarrow> MySQLTool \<Rightarrow> 'w \<Rightarrow> (QueryResult option \<times> MySQLTool \<times> 'w) result" where
  "fetch_result api t w =
     (let (res, w1) = mysql_store_result api w
      in bind_result (new_QueryResult res (ucast (mysql_affected_rows api w1)) (mysql_field_count api w1))
           (\<lambda>q. Inr (Some q, t, w1)))"

definition tool_Query ::
  "'w mysql_api \<Rightarrow> bytes \<Rightarrow> MySQLTool \<Rightarrow> 'w \<Rightarrow> (QueryResult option \<times> MySQLTool \<times> 'w) result" where
  "tool_Query api sql t w =
     (if \<not> m_handle t then
        (case reconnect api t w of
           (True, t1, w1) \<Rightarrow> Inr (None, t1, w1)
         | (False, t1, w1) \<Rightarrow> Inl NullDeref)
      else
        (case mysql_real_query api sql w of
           (False, w1) \<Rightarrow> fetch_result api t w1
         | (True, w1) \<Rightarrow>
             if mysql_errno api w1 = CR_SERVER_GONE_ERROR then
               (case reconnect api t w1 of
                  (False, t2, w2) \<Rightarrow> Inr (None, t2, w2)
                | (True, t2, w2) \<Rightarrow>
                    (case mysql_real_query api sql w2 of
                       (True, w3) \<Rightarrow> Inr (None, t2, w3)
                     | (False, w3) \<Rightarrow> fetch_result api t2 w3))
             else Inr (None, t, w1)))"

text \<open>The overload of \<open>Execute\<close> with out-parameters: \<open>n\<close> is \<open>nAffectedCount\<close>. A local variable
  hides \<open>nErrno\<close>, so that the caller's is never assigned.\<close>

definition Execute_counted ::
  "'w mysql_api \<Rightarrow> bytes \<Rightarrow> 32 word \<Rightarrow> MySQLTool \<Rightarrow> 'w \<Rightarrow> (bool \<times> 32 word \<times> MySQLTool \<times> 'w) result" where
  "Execute_counted api sql n t w =
     (if \<not> m_handle t then
        (case reconnect api t w of
           (True, t1, w1) \<Rightarrow> Inr (False, n, t1, w1)
         | (False, t1, w1) \<Rightarrow> Inl NullDeref)
      else
        (case mysql_query api sql w of
           (False, w1) \<Rightarrow> Inr (True, n, t, w1)
         | (True, w1) \<Rightarrow>
             if mysql_errno api w1 = CR_SERVER_GONE_ERROR then
               (case reconnect api t w1 of
                  (False, t2, w2) \<Rightarrow> Inr (False, n, t2, w2)
                | (True, t2, w2) \<Rightarrow>
                    (case mysql_query api sql w2 of
                       (True, w3) \<Rightarrow> Inr (False, n, t2, w3)
                     | (False, w3) \<Rightarrow> Inr (True, ucast (mysql_affected_rows api w3), t2, w3)))
             else Inr (False, n, t, w1)))"

definition Execute ::
  "'w mysql_api \<Rightarrow> bytes \<Rightarrow> MySQLTool \<Rightarrow> 'w \<Rightarrow> (bool \<times> MySQLTool \<times> 'w) result" where
  "Execute api sql t w =
     bind_result (Execute_counted api sql 0 t w) (\<lambda>(ok, n, t', w'). Inr (ok, t', w'))"

definition GetDBName :: "MySQLTool \<Rightarrow> bytes" where
  "GetDBName t = m_dbname t"

subsection \<open>The schema\<close>

record sFieldInfo =
  f_sName :: bytes
  sType :: bytes
  sDesc :: bytes

record sTableInfo =
  t_sName :: bytes
  mapField :: "(bytes, sFieldInfo) omap"
  sKey :: bytes

definition fill_fields :: "(bytes \<times> sFieldInfo) list \<Rightarrow> (bytes, sFieldInfo) omap" where
  "fill_fields = foldl (\<lambda>m (k, i). omap_assign k i m) []"

definition t_user_info :: sTableInfo where
  "t_user_info =
     \<lparr>t_sName = lit ''t_user'',
      mapField = fill_fields [
        (lit ''f_id'', \<lparr>f_sName = lit ''f_id'',
          sType = lit ''bigint(20) NOT NULL AUTO_INCREMENT COMMENT  '' @ [39, 232, 135, 170, 229, 162, 158] @ lit ''ID'' @ [39],
          sDesc = lit ''bigint(20)''\<rparr>),
        (lit ''f_user_id'', \<lparr>f_sName = lit ''f_user_id'',
          sType = lit ''bigint(20) NOT NULL COMMENT  '' @ [39, 231, 148, 168, 230, 136, 183] @ lit ''ID'' @ [39],
          sDesc = lit ''bigint(20)''\<rparr>),
        (lit ''f_username'', \<lparr>f_sName = lit ''f_username'',
          sType = lit ''varchar(64) NOT NULL COMMENT  '' @ [39, 231, 148, 168, 230, 136, 183, 229, 144, 141, 39],
          sDesc = lit ''varchar(64)''\<rparr>),
        (lit ''f_nickname'', \<lparr>f_sName = lit ''f_nickname'',
          sType = lit ''varchar(64) NOT NULL COMMENT  '' @ [39, 231, 148, 168, 230, 136, 183, 230, 152, 181, 231, 167, 176, 39],
          sDesc = lit ''varchar(64)''\<rparr>),
        (lit ''f_password'', \<lparr>f_sName = lit ''f_password'',
          sType = lit ''varchar(64) NOT NULL COMMENT  '' @ [39, 231, 148, 168, 230, 136, 183, 229, 175, 134, 231, 160, 129, 39],
          sDesc = lit ''varchar(64)''\<rparr>),
        (lit ''f_facetype'', \<lparr>f_sName = lit ''f_facetype'',
          sType = lit ''int(10) DEFAULT 0 COMMENT  '' @ [39, 231, 148, 168, 230, 136, 183, 229, 164, 180, 229, 131, 143, 231, 177, 187, 229, 158, 139, 39],
          sDesc = lit ''int(10)''\<rparr>),
        (lit ''f_customface'', \<lparr>f_sName = lit ''f_customface'',
          sType = lit ''varchar(32) DEFAULT NULL COMMENT  '' @ [39, 232, 135, 170, 229, 174, 154, 228, 185, 137, 229, 164, 180, 229, 131, 143, 229, 144, 141, 39],
          sDesc = lit ''varchar(32)''\<rparr>),
        (lit ''f_customfacefmt'', \<lparr>f_sName = lit ''f_customfacefmt'',
          sType = lit ''varchar(6) DEFAULT NULL COMMENT  '' @ [39, 232, 135, 170, 229, 174, 154, 228, 185, 137, 229, 164, 180, 229, 131, 143, 230, 160, 188, 229, 188, 143, 39],
          sDesc = lit ''varchar(6)''\<rparr>),
        (lit ''f_gender'', \<lparr>f_sName = lit ''f_gender'',
          sType = lit ''int(2) DEFAULT 0 COMMENT  '' @ [39, 230, 128, 167, 229, 136, 171, 39],
          sDesc = lit ''int(2)''\<rparr>),
        (lit ''f_birthday'', \<lparr>f_sName = lit ''f_birthday'',
          sType = lit ''bigint(20) DEFAULT 19900101 COMMENT  '' @ [39, 231, 148, 159, 230, 151, 165, 39],
          sDesc = lit ''bigint(20)''\<rparr>),
        (lit ''f_signature'', \<lparr>f_sName = lit ''f_signature'',
          sType = lit ''varchar(256) DEFAULT NULL COMMENT  '' @ [39, 229, 156, 176, 229, 157, 128, 39],
          sDesc = lit ''varchar(256)''\<rparr>),
        (lit ''f_address'', \<lparr>f_sName = lit ''f_address'',
          sType = lit ''varchar(256) DEFAULT NULL COMMENT  '' @ [39, 229, 156, 176, 229, 157, 128, 39],
          sDesc = lit ''varchar(256)''\<rparr>),
        (lit ''f_phonenumber'', \<lparr>f_sName = lit ''f_phonenumber'',
          sType = lit ''varchar(64) DEFAULT NULL COMMENT  '' @ [39, 231, 148, 181, 232, 175, 157, 39],
          sDesc = lit ''varchar(64)''\<rparr>),
        (lit ''f_mail'', \<lparr>f_sName = lit ''f_mail'',
          sType = lit ''varchar(256) DEFAULT NULL COMMENT  '' @ [39, 233, 130, 174, 231, 174, 177, 39],
          sDesc = lit ''varchar(256)''\<rparr>),
        (lit ''f_owner'', \<lparr>f_sName = lit ''f_owner'',
          sType = lit ''bigint(20) DEFAULT 0 COMMENT  '' @ [39, 231, 190, 164, 232, 180, 166, 229, 143, 183, 231, 190, 164, 228, 184, 187] @ lit ''userid'' @ [39],
          sDesc = lit ''bigint(20)''\<rparr>),
        (lit ''f_register_time'', \<lparr>f_sName = lit ''f_register_time'',
          sType = lit ''datetime NOT NULL  COMMENT  '' @ [39, 230, 179, 168, 229, 134, 140, 230, 151, 182, 233, 151, 180, 39],
          sDesc = lit ''datetime''\<rparr>),
        (lit ''f_remark'', \<lparr>f_sName = lit ''f_remark'',
          sType = lit ''varchar(64) NULL COMMENT  '' @ [39, 229, 164, 135, 230, 179, 168, 39],
          sDesc = lit ''varchar(64)''\<rparr>),
        (lit ''f_update_time'', \<lparr>f_sName = lit ''f_update_time'',
          sType = lit ''timestamp NOT NULL DEFAULT CURRENT_TIMESTAMP ON UPDATE CURRENT_TIMESTAMP COMMENT '' @ [39, 230, 155, 180, 230, 150, 176, 230, 151, 182, 233, 151, 180, 39],
          sDesc = lit ''timestamp''\<rparr>)],
      sKey = lit ''PRIMARY KEY (f_user_id),INDEX f_user_id (f_user_id),KEY f_id (f_id)''\<rparr>"

definition t_chatmsg_info :: sTableInfo where
  "t_chatmsg_info =
     \<lparr>t_sName = lit ''t_chatmsg'',
      mapField = fill_fields [
        (lit ''f_id'', \<lparr>f_sName = lit ''f_id'',
          sType = lit ''bigint(20) NOT NULL AUTO_INCREMENT COMMENT  '' @ [39, 232, 135, 170, 229, 162, 158] @ lit ''ID'' @ [39],
          sDesc = lit ''bigint(20)''\<rparr>),
        (lit ''f_senderid'', \<lparr>f_sName = lit ''f_senderid'',
          sType = lit ''bigint(20) NOT NULL COMMENT  '' @ [39, 229, 143, 145, 233, 128, 129, 232, 128, 133] @ lit ''id'' @ [39],
          sDesc = lit ''bigint(20)''\<rparr>),
        (lit ''f_targetid'', \<lparr>f_sName = lit ''f_targetid'',
          sType = lit ''bigint(20) NOT NULL COMMENT  '' @ [39, 230, 142, 165, 230, 148, 182, 232, 128, 133] @ lit ''id'' @ [39],
          sDesc = lit ''bigint(20)''\<rparr>),
        (lit ''f_msgcontent'', \<lparr>f_sName = lit ''f_msgcontent'',
          sType = lit ''blob NOT NULL COMMENT  '' @ [39, 232, 129, 138, 229, 164, 169, 229, 134, 133, 229, 174, 185, 39],
          sDesc = lit ''blob''\<rparr>),
        (lit ''f_create_time'', \<lparr>f_sName = lit ''f_create_time'',
          sType = lit ''timestamp NOT NULL DEFAULT CURRENT_TIMESTAMP ON UPDATE CURRENT_TIMESTAMP COMMENT '' @ [39, 230, 155, 180, 230, 150, 176, 230, 151, 182, 233, 151, 180, 39],
          sDesc = lit ''timestamp''\<rparr>),
        (lit ''f_remark'', \<lparr>f_sName = lit ''f_remark'',
          sType = lit ''varchar(64) NULL COMMENT  '' @ [39, 229, 164, 135, 230, 179, 168, 39],
          sDesc = lit ''varchar(64)''\<rparr>)],
      sKey = lit ''PRIMARY KEY (f_id),INDEX f_id (f_id)''\<rparr>"

definition t_user_relationship_info :: sTableInfo where
  "t_user_relationship_info =
     \<lparr>t_sName = lit ''t_user_relationship'',
      mapField = fill_fields [
        (lit ''f_id'', \<lparr>f_sName = lit ''f_id'',
          sType = lit ''bigint(20) NOT NULL AUTO_INCREMENT COMMENT  '' @ [39, 232, 135, 170, 229, 162, 158] @ lit ''ID'' @ [39],
          sDesc = lit ''bigint(20)''\<rparr>),
        (lit ''f_user_id1'', \<lparr>f_sName = lit ''f_user_id1'',
          sType = lit ''bigint(20) NOT NULL COMMENT  '' @ [39, 231, 148, 168, 230, 136, 183] @ lit ''ID'' @ [39],
          sDesc = lit ''bigint(20)''\<rparr>),
        (lit ''f_user_id2'', \<lparr>f_sName = lit ''f_user_id2'',
          sType = lit ''bigint(20) NOT NULL COMMENT  '' @ [39, 231, 148, 168, 230, 136, 183] @ lit ''ID'' @ [39],
          sDesc = lit ''bigint(20)''\<rparr>),
        (lit ''f_remark'', \<lparr>f_sName = lit ''f_remark'',
          sType = lit ''varchar(64) NULL COMMENT  '' @ [39, 229, 164, 135, 230, 179, 168, 39],
          sDesc = lit ''varchar(64)''\<rparr>),
        (lit ''f_create_time'', \<lparr>f_sName = lit ''f_create_time'',
          sType = lit ''timestamp NOT NULL DEFAULT CURRENT_TIMESTAMP ON UPDATE CURRENT_TIMESTAMP COMMENT '' @ [39, 230, 155, 180, 230, 150, 176, 230, 151, 182, 233, 151, 180, 39],
          sDesc = lit ''timestamp''\<rparr>)],
      sKey = lit ''PRIMARY KEY (f_id),INDEX f_id (f_id)''\<rparr>"

record MySqlManager =
  m_mapTable :: "(bytes, sTableInfo) omap"
  m_mysql :: "MySQLTool option"

definition new_MySqlManager :: MySqlManager where
  "new_MySqlManager =
     \<lparr>m_mapTable = foldl (\<lambda>m i. omap_insert (t_sName i) i m) []
        [t_user_info, t_chatmsg_info, t_user_relationship_info],
      m_mysql = None\<rparr>"

subsection \<open>\<open>MySqlManager\<close>\<close>

type_synonym 'w db = "MySqlManager \<times> 'w"

definition with_tool :: "MySQLTool \<Rightarrow> MySqlManager \<Rightarrow> MySqlManager" where
  "with_tool t m = m\<lparr>m_mysql := Some t\<rparr>"

definition Query :: "'w mysql_api \<Rightarrow> bytes \<Rightarrow> 'w db \<Rightarrow> (QueryResult option \<times> 'w db) result" where
  "Query api sql = (\<lambda>(m, w).
     (case m_mysql m of
        None \<Rightarrow> Inr (None, m, w)
      | Some t \<Rightarrow> bind_result (tool_Query api sql t w) (\<lambda>(q, t', w'). Inr (q, with_tool t' m, w'))))"

definition Excute :: "'w mysql_api \<Rightarrow> bytes \<Rightarrow> 'w db \<Rightarrow> (bool \<times> 'w db) result" where
  "Excute api sql = (\<lambda>(m, w).
     (case m_mysql m of
        None \<Rightarrow> Inr (False, m, w)
      | Some t \<Rightarrow> bind_result (Execute api sql t w) (\<lambda>(ok, t', w'). Inr (ok, with_tool t' m, w'))))"

function find_database :: "bytes \<Rightarrow> QueryResult \<Rightarrow> bool result" where
  "find_database dbname q =
     (if \<not> Fetch q then Inr False
      else (case row_at q 0 of
              Inl e \<Rightarrow> Inl e
            | Inr f \<Rightarrow>
                if GetString f = dbname then Inr True
                else (case NextRow q of
                        Inl e \<Rightarrow> Inl e
                      | Inr (False, q') \<Rightarrow> Inr False
                      | Inr (True, q') \<Rightarrow> find_database dbname q')))"
  by pat_completeness auto
termination
  by (relation "measure (\<lambda>(dbname, q). rows_left q)") (auto simp: NextRow_decreases)

declare find_database.simps [simp del]

definition CheckDatabase :: "'w mysql_api \<Rightarrow> 'w db \<Rightarrow> (bool \<times> 'w db) result" where
  "CheckDatabase api = (\<lambda>(m, w).
     (case m_mysql m of
        None \<Rightarrow> Inr (False, m, w)
      | Some t \<Rightarrow>
          bind_result (tool_Query api (lit ''show databases;'') t w) (\<lambda>(r, t', w').
            (case r of
               None \<Rightarrow> Inr (False, with_tool t' m, w')
             | Some q \<Rightarrow>
                 bind_result (find_database (GetDBName t') q) (\<lambda>found.
                   Inr (found, with_tool t' m, w'))))))"

definition CreateDatabase :: "'w mysql_api \<Rightarrow> 'w db \<Rightarrow> (bool \<times> 'w db) result" where
  "CreateDatabase api = (\<lambda>(m, w).
     (case m_mysql m of
        None \<Rightarrow> Inr (False, m, w)
      | Some t \<Rightarrow>
          let sql = lit '' create database '' @ GetDBName t @ lit '';''
          in bind_result (Execute_counted api sql 0 t w) (\<lambda>(ok, naffect, t', w').
               Inr (ok \<and> naffect = 1, with_tool t' m, w'))))"

fun column_list :: "bool \<Rightarrow> (bytes, sFieldInfo) omap \<Rightarrow> bytes" where
  "column_list first [] = []"
| "column_list first ((k, i) # m) =
     (if first then [] else lit '','') @ f_sName i @ lit '' '' @ sType i @ column_list False m"

definition CreateTable :: "'w mysql_api \<Rightarrow> sTableInfo \<Rightarrow> 'w db \<Rightarrow> (bool \<times> 'w db) result" where
  "CreateTable api info = (\<lambda>(m, w).
     (case m_mysql m of
        None \<Rightarrow> Inr (False, m, w)
      | Some t \<Rightarrow>
          if length (mapField info) = 0 then Inr (False, m, w)
          else
            let sql = lit '' create table if not exists '' @ t_sName info @ lit '' ('' @
                  column_list True (mapField info) @
                  (if length (sKey info) > 0 then lit '','' @ sKey info else []) @
                  lit '') default charset=utf8,ENGINE=InnoDB;''
            in bind_result (Execute api sql t w) (\<lambda>(ok, t', w'). Inr (ok, with_tool t' m, w'))))"

text \<open>The loop of \<open>CheckTable\<close> over the columns the server reports. \<open>continue\<close> on an unknown
  column goes back to the loop condition without fetching the next row; a run that never leaves
  the loop is \<open>None\<close>.\<close>

partial_function (option) check_columns ::
  "sTableInfo \<Rightarrow> QueryResult \<Rightarrow> (bytes, sFieldInfo) omap \<Rightarrow>
    ((bytes, sFieldInfo) omap \<times> (bytes, sFieldInfo) omap) result option" where
  "check_columns info q rest =
     (if \<not> Fetch q then Some (Inr (rest, []))
      else (case row_at q 0 of
              Inl e \<Rightarrow> Some (Inl e)
            | Inr f0 \<Rightarrow>
                (case row_at q 1 of
                   Inl e \<Rightarrow> Some (Inl e)
                 | Inr f1 \<Rightarrow>
                     (case omap_find (GetString f0) (mapField info) of
                        None \<Rightarrow> check_columns info q rest
                      | Some i \<Rightarrow>
                          if sDesc i \<noteq> GetString f1
                          then Some (Inr (omap_erase (GetString f0) rest, [(GetString f0, i)]))
                          else (case NextRow q of
                                  Inl e \<Rightarrow> Some (Inl e)
                                | Inr (b, q') \<Rightarrow>
                                    if b then check_columns info q' (omap_erase (GetString f0) rest)
                                    else Some (Inr (omap_erase (GetString f0) rest, [])))))))"

text \<open>The two loops that issue one \<open>alter table\<close> per entry and stop at the first failure.\<close>

fun alter_table ::
  "'w mysql_api \<Rightarrow> bytes \<Rightarrow> bytes \<Rightarrow> (bytes, sFieldInfo) omap \<Rightarrow> MySQLTool \<Rightarrow> 'w \<Rightarrow>
    (bool \<times> MySQLTool \<times> 'w) result" where
  "alter_table api table action [] t w = Inr (True, t, w)"
| "alter_table api table action ((k, i) # m) t w =
     bind_result (Execute api (lit '' alter table '' @ table @ action @ f_sName i @ lit '' '' @
         sType i @ lit '';'') t w)
       (\<lambda>(ok, t', w'). if ok then alter_table api table action m t' w' else Inr (False, t', w'))"

definition CheckTable :: "'w mysql_api \<Rightarrow> sTableInfo \<Rightarrow> 'w db \<Rightarrow> (bool \<times> 'w db) result option" where
  "CheckTable api info = (\<lambda>(m, w).
     (case m_mysql m of
        None \<Rightarrow> Some (Inr (False, m, w))
      | Some t \<Rightarrow>
          (case tool_Query api (lit '' desc '' @ t_sName info @ lit '';'') t w of
             Inl e \<Rightarrow> Some (Inl e)
           | Inr (None, t1, w1) \<Rightarrow> Some (CreateTable api info (with_tool t1 m, w1))
           | Inr (Some q, t1, w1) \<Rightarrow>
               (case check_columns info q (mapField info) of
                  None \<Rightarrow> None
                | Some (Inl e) \<Rightarrow> Some (Inl e)
                | Some (Inr (rest, change)) \<Rightarrow>
                    Some (bind_result (alter_table api (t_sName info) (lit '' add colum '') rest t1 w1)
                      (\<lambda>(ok, t2, w2).
                        if \<not> ok then Inr (False, with_tool t2 m, w2)
                        else bind_result
                          (alter_table api (t_sName info) (lit '' modify column '') change t2 w2)
                          (\<lambda>(ok, t3, w3). Inr (ok, with_tool t3 m, w3))))))))"

definition UpdateTable :: "'w mysql_api \<Rightarrow> sTableInfo \<Rightarrow> 'w db \<Rightarrow> (bool \<times> 'w db) result option" where
  "UpdateTable api info s =
     (case CheckTable api info s of
        None \<Rightarrow> None
      | Some (Inl e) \<Rightarrow> Some (Inl e)
      | Some (Inr (ok, s')) \<Rightarrow> Some (if ok then Inr (True, s') else CreateTable api info s'))"

fun check_tables :: "'w mysql_api \<Rightarrow> (bytes, sTableInfo) omap \<Rightarrow> 'w db \<Rightarrow> (bool \<times> 'w db) result option" where
  "check_tables api [] s = Some (Inr (True, s))"
| "check_tables api ((k, info) # m) s =
     (case CheckTable api info s of
        None \<Rightarrow> None
      | Some (Inl e) \<Rightarrow> Some (Inl e)
      | Some (Inr (True, s1)) \<Rightarrow> check_tables api m s1
      | Some (Inr (False, s1)) \<Rightarrow>
          (case CreateTable api info s1 of
             Inl e \<Rightarrow> Some (Inl e)
           | Inr (False, s2) \<Rightarrow> Some (Inr (False, s2))
           | Inr (True, s2) \<Rightarrow> check_tables api m s2))"

definition MySqlManager_Init ::
  "'w mysql_api \<Rightarrow> bytes \<Rightarrow> bytes \<Rightarrow> bytes \<Rightarrow> bytes \<Rightarrow> 32 word \<Rightarrow> 'w db \<Rightarrow>
    (bool \<times> 'w db) result option" where
  "MySqlManager_Init api host user passwd dbname port = (\<lambda>(m, w).
     (case connect api host user passwd dbname port new_MySQLTool (drop_tool api (m_mysql m) w) of
        (False, t, w1) \<Rightarrow> Some (Inr (False, with_tool t m, w1))
      | (True, t, w1) \<Rightarrow>
          (case CheckDatabase api (with_tool t m, w1) of
             Inl e \<Rightarrow> Some (Inl e)
           | Inr (True, s) \<Rightarrow> check_tables api (m_mapTable m) s
           | Inr (False, s) \<Rightarrow>
               (case CreateDatabase api s of
                  Inl e \<Rightarrow> Some (Inl e)
                | Inr (False, s1) \<Rightarrow> Some (Inr (False, s1))
                | Inr (True, s1) \<Rightarrow> check_tables api (m_mapTable m) s1))))"

subsection \<open>Checking a table\<close>

definition column_matches :: "sTableInfo \<Rightarrow> bytes option list \<Rightarrow> bool" where
  "column_matches info row \<longleftrightarrow>
     (case omap_find (cell (row ! 0)) (mapField info) of
        None \<Rightarrow> False | Some i \<Rightarrow> sDesc i = cell (row ! 1))"

definition column_known :: "sTableInfo \<Rightarrow> bytes option list \<Rightarrow> bool" where
  "column_known info row \<longleftrightarrow> omap_find (cell (row ! 0)) (mapField info) \<noteq> None"

definition missing_columns ::
  "bytes option list list \<Rightarrow> (bytes, sFieldInfo) omap \<Rightarrow> (bytes, sFieldInfo) omap" where
  "missing_columns rows m = foldl (\<lambda>m row. omap_erase (cell (row ! 0)) m) m rows"

lemma missing_columns_filter:
  "missing_columns rows m = filter (\<lambda>e. fst e \<notin> (\<lambda>r. cell (r ! 0)) ` set rows) m"
  by (induction rows arbitrary: m) (auto simp: missing_columns_def omap_erase_def intro!: filter_cong)

lemma missing_columns_Nil:
  "missing_columns rows m = [] \<longleftrightarrow> fst ` set m \<subseteq> (\<lambda>r. cell (r ! 0)) ` set rows"
  by (auto simp: missing_columns_filter filter_empty_conv)

lemma first_two_cells:
  assumes "at_row n row rest q" "2 \<le> n"
  obtains f0 f1 where "row_at q 0 = Inr f0" "GetString f0 = cell (row ! 0)"
    "row_at q 1 = Inr f1" "GetString f1 = cell (row ! 1)"
  using row_at_row [OF assms(1), of 0] row_at_row [OF assms(1), of 1] assms(2)
  by (auto simp: GetString_def)

lemma check_columns_step:
  assumes "at_row n row (row' # rest) q" "2 \<le> n" "length row' = n" "column_matches info row"
  obtains q' where "check_columns info q m = check_columns info q' (omap_erase (cell (row ! 0)) m)"
    "at_row n row' rest q'"
proof -
  obtain f0 f1 where "row_at q 0 = Inr f0" "GetString f0 = cell (row ! 0)"
    "row_at q 1 = Inr f1" "GetString f1 = cell (row ! 1)"
    using assms(1,2) by (rule first_two_cells)
  moreover obtain q' where "NextRow q = Inr (True, q')" "at_row n row' rest q'"
    using NextRow_row [OF assms(1,3)] by blast
  moreover have "Fetch q" using assms(1) by (rule at_row_Fetch)
  ultimately show thesis
    using that [of q'] assms(4)
    by (subst (asm) check_columns.simps) (auto simp: column_matches_def split: option.splits)
qed

lemma check_columns_last:
  assumes "at_row n row [] q" "2 \<le> n" "column_matches info row"
  shows "check_columns info q m = Some (Inr (omap_erase (cell (row ! 0)) m, []))"
proof -
  obtain f0 f1 where "row_at q 0 = Inr f0" "GetString f0 = cell (row ! 0)"
    "row_at q 1 = Inr f1" "GetString f1 = cell (row ! 1)"
    using assms(1,2) by (rule first_two_cells)
  moreover obtain q' where "NextRow q = Inr (False, q')"
    using NextRow_last [OF assms(1)] by blast
  moreover have "Fetch q" using assms(1) by (rule at_row_Fetch)
  ultimately show ?thesis
    using assms(3)
    by (subst check_columns.simps) (auto simp: column_matches_def split: option.splits)
qed

lemma check_columns_all:
  assumes "at_row n row rest q" "2 \<le> n" "\<forall>r \<in> set (row # rest). length r = n \<and> column_matches info r"
  shows "check_columns info q m = Some (Inr (missing_columns (row # rest) m, []))"
  using assms
proof (induction rest arbitrary: row q m)
  case Nil
  then show ?case by (simp add: check_columns_last missing_columns_def)
next
  case (Cons row' rest)
  then obtain q' where "check_columns info q m = check_columns info q' (omap_erase (cell (row ! 0)) m)"
    "at_row n row' rest q'"
    using check_columns_step [OF Cons.prems(1,2)] by (metis list.set_intros(1,2))
  with Cons show ?case by (simp add: missing_columns_def)
qed

lemma check_columns_stuck:
  assumes "check_columns info q m = Some r"
  shows "at_row n row rest q \<Longrightarrow> 2 \<le> n \<Longrightarrow> column_known info row"
proof (induction rule: check_columns.raw_induct [OF _ assms, consumes 0])
  case (1 f info q m r)
  obtain f0 f1 where "row_at q 0 = Inr f0" "GetString f0 = cell (row ! 0)" "row_at q 1 = Inr f1"
    using 1(3,4) by (rule first_two_cells)
  with 1(2) at_row_Fetch [OF 1(3)] 1(1) [of info q m r] 1(3,4) show ?case
    by (cases "omap_find (cell (row ! 0)) (mapField info)") (simp_all add: column_known_def)
qed

lemma check_columns_unknown:
  assumes "at_row n row rest q" "2 \<le> n" "row # rest = pre @ bad # post"
    and "\<forall>r \<in> set (row # rest). length r = n" "\<forall>r \<in> set pre. column_matches info r"
    and "\<not> column_known info bad"
  shows "check_columns info q m = None"
  using assms
proof (induction pre arbitrary: row rest q m)
  case Nil
  then show ?case
    using check_columns_stuck [of info q m _ n row rest] by (cases "check_columns info q m") auto
next
  case (Cons r pre)
  then obtain row' rest' where rest: "rest = row' # rest'" by (cases rest) auto
  have step: "at_row n row (row' # rest') q" "length row' = n" "column_matches info row"
    using Cons.prems(1,4) unfolding rest apply simp_all
    using Cons.prems(3,5) by simp
  obtain q' where
    "check_columns info q m = check_columns info q' (omap_erase (cell (row ! 0)) m)" "at_row n row' rest' q'"
    using check_columns_step [OF step(1) \<open>2 \<le> n\<close> step(2,3)] by blast
  with Cons rest show ?case by simp
qed

subsection \<open>A scripted server\<close>

text \<open>A concrete client library for examples: every connection attempt and statement succeeds,
  statements are logged, and every result set is the scripted answer.\<close>

record script_db =
  sql_log :: "bytes list"
  answer :: mysql_res

definition script_api :: "script_db mysql_api" where
  "script_api =
     \<lparr>mysql_real_connect = (\<lambda>_ _ _ _ _ w. (True, w)), mysql_close = (\<lambda>w. w),
      mysql_real_query = (\<lambda>sql w. (False, w\<lparr>sql_log := sql_log w @ [sql]\<rparr>)),
      mysql_errno = (\<lambda>_. 0), mysql_store_result = (\<lambda>w. (Some (answer w), w)),
      mysql_affected_rows = (\<lambda>w. of_nat (length (res_rows (answer w)))),
      mysql_field_count = (\<lambda>w. of_nat (length (res_fields (answer w))))\<rparr>"

definition script_manager :: MySqlManager where
  "script_manager = with_tool (new_MySQLTool\<lparr>m_handle := True\<rparr>) new_MySqlManager"

lemma script_tool_Query:
  assumes "m_handle t" "well_shaped n (answer w)" "res_rows (answer w) = row # rest"
  obtains q where "tool_Query script_api sql t w = Inr (Some q, t, w\<lparr>sql_log := sql_log w @ [sql]\<rparr>)"
    "at_row n row rest q"
proof -
  have "unat (of_nat (length (res_fields (answer w))) :: 32 word) = n"
    using assms(2) by (simp add: well_shaped_def unsigned_of_nat take_bit_nat_eq_self)
  from new_QueryResult_row [OF assms(2,3) this] obtain q where
    "new_QueryResult (Some (answer w)) (of_nat (length (res_rows (answer w))))
      (of_nat (length (res_fields (answer w)))) = Inr q" "at_row n row rest q"
    by blast
  with assms(1,3) that show thesis
    by (simp add: tool_Query_def fetch_result_def script_api_def ucast_of_nat_32)
qed

definition chatmsg_desc :: "(bytes \<times> bytes) list \<Rightarrow> script_db" where
  "chatmsg_desc extra =
     \<lparr>sql_log = [],
      answer = \<lparr>res_fields = [(lit ''Field'', FIELD_TYPE_VAR_STRING), (lit ''Type'', FIELD_TYPE_BLOB)],
        res_rows = map (\<lambda>(n, ty). [Some n, Some ty])
          ([(lit ''f_id'', lit ''bigint(20)''), (lit ''f_senderid'', lit ''bigint(20)''),
            (lit ''f_targetid'', lit ''bigint(20)''), (lit ''f_msgcontent'', lit ''blob''),
            (lit ''f_create_time'', lit ''timestamp''), (lit ''f_remark'', lit ''varchar(64)'')] @ extra)\<rparr>\<rparr>"

definition databases_db :: "bytes list \<Rightarrow> script_db" where
  "databases_db log =
     \<lparr>sql_log = log, answer = \<lparr>res_fields = [(lit ''Database'', FIELD_TYPE_VAR_STRING)],
        res_rows = [[Some (lit ''mysql'')]]\<rparr>\<rparr>"

definition chat_tool :: MySQLTool where
  "chat_tool = \<lparr>m_handle = True, m_host = [104], m_user = [117], m_passwd = [112],
     m_dbname = lit ''chat'', m_port = 3306\<rparr>"

subsection \<open>Properties\<close>

text \<open>A table that already agrees with the schema is left alone: when the columns reported by
  \<open>desc\<close> are all known with their types and none is missing, \<open>CheckTable\<close> succeeds and issues no
  statement after the \<open>desc\<close>.\<close>

theorem CheckTable_agrees:
  assumes "m_mysql m = Some t"
    and "tool_Query api (lit '' desc '' @ t_sName info @ lit '';'') t w = Inr (Some q, t1, w1)"
    and "at_row n row rest q" "2 \<le> n"
    and "\<forall>r \<in> set (row # rest). length r = n \<and> column_matches info r"
    and "fst ` set (mapField info) \<subseteq> (\<lambda>r. cell (r ! 0)) ` set (row # rest)"
  shows "CheckTable api info (m, w) = Some (Inr (True, with_tool t1 m, w1))"
proof -
  have "missing_columns (row # rest) (mapField info) = []"
    using assms(6) by (simp only: missing_columns_Nil)
  with assms check_columns_all [OF assms(3-5)] show ?thesis
    by (simp add: CheckTable_def)
qed

theorem CheckTable_agrees_witness:
  "CheckTable script_api t_chatmsg_info (script_manager, chatmsg_desc []) =
     Some (Inr (True, script_manager, (chatmsg_desc [])\<lparr>sql_log := [lit '' desc t_chatmsg;'']\<rparr>))"
proof -
  let ?t = "new_MySQLTool\<lparr>m_handle := True\<rparr>" and ?w = "chatmsg_desc []"
  let ?rows = "res_rows (answer ?w)"
  have shape: "well_shaped 2 (answer ?w)" "?rows = hd ?rows # tl ?rows"
    by (simp_all add: well_shaped_def chatmsg_desc_def)
  have "m_handle ?t" by simp
  then obtain q where q: "tool_Query script_api (lit '' desc '' @ t_sName t_chatmsg_info @ lit '';'') ?t ?w =
      Inr (Some q, ?t, ?w\<lparr>sql_log := sql_log ?w @ [lit '' desc '' @ t_sName t_chatmsg_info @ lit '';'']\<rparr>)"
    "at_row 2 (hd ?rows) (tl ?rows) q"
    using script_tool_Query [OF _ shape, of ?t] by metis
  have "\<forall>r \<in> set ?rows. length r = 2 \<and> column_matches t_chatmsg_info r"
    "fst ` set (mapField t_chatmsg_info) \<subseteq> (\<lambda>r. cell (r ! 0)) ` set ?rows"
    by (simp_all add: chatmsg_desc_def t_chatmsg_info_def fill_fields_def lit_def
        column_matches_def column_known_def omap_find_def cell_def)
  then have "CheckTable script_api t_chatmsg_info (script_manager, ?w) = Some (Inr (True, with_tool ?t script_manager,
      ?w\<lparr>sql_log := sql_log ?w @ [lit '' desc '' @ t_sName t_chatmsg_info @ lit '';'']\<rparr>))"
    using shape(2) q by (intro CheckTable_agrees [OF _ q]) (simp_all add: script_manager_def with_tool_def)
  moreover have "lit '' desc '' @ t_sName t_chatmsg_info @ lit '';'' = lit '' desc t_chatmsg;''"
    by code_simp
  ultimately show ?thesis
    by (simp add: script_manager_def with_tool_def chatmsg_desc_def)
qed

text \<open>C39: A column the program does not know hangs it: when \<open>desc\<close> reports a column that is not
  in the schema, after columns that agree with it, \<open>CheckTable\<close> never returns (\<open>continue\<close> does
  not fetch the next row).\<close>

theorem CheckTable_unknown_column:
  assumes "m_mysql m = Some t"
    and "tool_Query api (lit '' desc '' @ t_sName info @ lit '';'') t w = Inr (Some q, t1, w1)"
    and "at_row n row rest q" "2 \<le> n" "\<forall>r \<in> set (row # rest). length r = n"
    and "row # rest = pre @ bad # post" "\<forall>r \<in> set pre. column_matches info r"
    and "\<not> column_known info bad"
  shows "CheckTable api info (m, w) = None"
  using assms check_columns_unknown [OF assms(3,4,6,5,7,8)] by (simp add: CheckTable_def)

theorem CheckTable_unknown_column_witness:
  "CheckTable script_api t_chatmsg_info (script_manager, chatmsg_desc [(lit ''f_extra'', lit ''int(10)'')]) = None"
proof -
  let ?t = "new_MySQLTool\<lparr>m_handle := True\<rparr>" and ?w = "chatmsg_desc [(lit ''f_extra'', lit ''int(10)'')]"
  let ?rows = "res_rows (answer ?w)"
  have shape: "well_shaped 2 (answer ?w)" "?rows = hd ?rows # tl ?rows" "?rows = butlast ?rows @ [last ?rows]"
    by (simp_all add: well_shaped_def chatmsg_desc_def)
  have "m_handle ?t" by simp
  then obtain q where q: "tool_Query script_api (lit '' desc '' @ t_sName t_chatmsg_info @ lit '';'') ?t ?w =
      Inr (Some q, ?t, ?w\<lparr>sql_log := sql_log ?w @ [lit '' desc '' @ t_sName t_chatmsg_info @ lit '';'']\<rparr>)"
    "at_row 2 (hd ?rows) (tl ?rows) q"
    using script_tool_Query [OF _ shape(1,2), of ?t] by metis
  have "\<forall>r \<in> set ?rows. length r = 2" "\<forall>r \<in> set (butlast ?rows). column_matches t_chatmsg_info r"
    "\<not> column_known t_chatmsg_info (last ?rows)"
    by (simp_all add: chatmsg_desc_def t_chatmsg_info_def fill_fields_def lit_def
        column_matches_def column_known_def omap_find_def cell_def)
  then show ?thesis
    using shape(2,3) q by (intro CheckTable_unknown_column [OF _ q, where pre = "butlast ?rows" and bad = "last ?rows" and post = "[]"])
      (simp_all add: script_manager_def with_tool_def)
qed

text \<open>A lost connection is not repaired but makes things worse. When a statement finds the
  server gone and the reconnection fails, the handle is null; the next statement is then dropped
  without being sent if the reconnection succeeds, and the library is called with a null handle
  if it fails.\<close>

theorem Execute_after_lost_connection:
  assumes "m_handle t" "mysql_query api sql w = (True, w1)" "mysql_errno api w1 = CR_SERVER_GONE_ERROR"
    and "reconnect api t w1 = (False, t2, w2)"
  shows "Execute api sql t w = Inr (False, t2, w2) \<and>
    Execute api sql' t2 w3 =
      (case reconnect api t2 w3 of (True, t3, w4) \<Rightarrow> Inr (False, t3, w4) | _ \<Rightarrow> Inl NullDeref)"
proof -
  have "\<not> m_handle t2"
    using assms(4) by (auto simp: reconnect_def connect_def Let_def split: prod.splits if_splits)
  with assms show ?thesis
    by (auto simp: Execute_def Execute_counted_def split: prod.splits bool.splits)
qed

theorem Execute_after_lost_connection_witness:
  "\<exists>api :: nat mysql_api. \<exists>t t2 w2. m_handle t \<and> Execute api [1] t 0 = Inr (False, t2, w2) \<and>
     Execute api [2] t2 0 = Inl NullDeref"
proof -
  let ?api = "\<lparr>mysql_real_connect = (\<lambda>_ _ _ _ _ w. (False, w)), mysql_close = Suc,
    mysql_real_query = (\<lambda>_ w. (True, w)), mysql_errno = (\<lambda>_. 2006),
    mysql_store_result = Pair None, mysql_affected_rows = (\<lambda>_. 0), mysql_field_count = (\<lambda>_. 0)\<rparr>"
  let ?t = "new_MySQLTool\<lparr>m_handle := True\<rparr>"
  have "Execute ?api [1] ?t 0 = Inr (False, new_MySQLTool, 1) \<and>
      Execute ?api [2] new_MySQLTool 0 =
        (case reconnect ?api new_MySQLTool 0 of (True, t3, w4) \<Rightarrow> Inr (False, t3, w4) | _ \<Rightarrow> Inl NullDeref)"
    by (rule Execute_after_lost_connection [where ?w1.0 = 0])
      (simp_all add: mysql_query_def CR_SERVER_GONE_ERROR_def reconnect_def connect_def new_MySQLTool_def)
  then show ?thesis
    by (intro exI [of _ ?api] exI [of _ ?t] exI [of _ new_MySQLTool] exI [of _ 1])
      (simp add: reconnect_def connect_def new_MySQLTool_def)
qed

text \<open>\<open>Init\<close> fails on a server that lacks the database although it creates it:
  \<open>CreateDatabase\<close> asks for one affected row, but \<open>Execute\<close> reports the count only after a
  reconnection, so that a statement that succeeds at once leaves it zero.\<close>

theorem Init_fresh_database:
  assumes "connect api host user passwd dbname port new_MySQLTool (drop_tool api (m_mysql m) w) = (True, t, w1)"
    and "CheckDatabase api (with_tool t m, w1) = Inr (False, m2, w2)"
    and "m_mysql m2 = Some t2" "m_handle t2"
    and "mysql_query api (lit '' create database '' @ GetDBName t2 @ lit '';'') w2 = (False, w3)"
  shows "MySqlManager_Init api host user passwd dbname port (m, w) = Some (Inr (False, with_tool t2 m2, w3))"
  using assms
  by (simp add: MySqlManager_Init_def CreateDatabase_def Execute_counted_def Let_def)

theorem Init_fresh_database_witness:
  "MySqlManager_Init script_api [104] [117] [112] (lit ''chat'') 3306 (new_MySqlManager, databases_db []) =
     Some (Inr (False, with_tool chat_tool new_MySqlManager,
       databases_db [lit ''set name utf8;'', lit ''show databases;'', lit '' create database chat;'']))"
proof -
  let ?m = "with_tool chat_tool new_MySqlManager"
  have con: "connect script_api [104] [117] [112] (lit ''chat'') 3306 new_MySQLTool
      (drop_tool script_api (m_mysql new_MySqlManager) (databases_db [])) = (True, chat_tool, databases_db [lit ''set name utf8;''])"
    by (simp add: connect_def drop_tool_def new_MySqlManager_def new_MySQLTool_def chat_tool_def mysql_query_def
        script_api_def databases_db_def c_string_def lit_def)
  have shape: "well_shaped 1 (answer (databases_db l))"
    "res_rows (answer (databases_db l)) = [Some (lit ''mysql'')] # []" "m_handle chat_tool" for l
    by (simp_all add: well_shaped_def databases_db_def chat_tool_def)
  have log: "(databases_db l)\<lparr>sql_log := sql_log (databases_db l) @ [x]\<rparr> = databases_db (l @ [x])" for l x
    by (simp add: databases_db_def)
  obtain q where q: "tool_Query script_api (lit ''show databases;'') chat_tool (databases_db [lit ''set name utf8;'']) =
      Inr (Some q, chat_tool, databases_db [lit ''set name utf8;'', lit ''show databases;''])"
    "at_row 1 [Some (lit ''mysql'')] [] q"
    using script_tool_Query [OF shape(3,1,2), of "lit ''show databases;''" "[lit ''set name utf8;'']"]
    unfolding log append_Cons append_Nil by metis
  have "find_database (lit ''chat'') q = Inr False"
    using row_at_row [OF q(2), of 0] NextRow_last [OF q(2)] at_row_Fetch [OF q(2)]
    by (subst find_database.simps) (auto simp: GetString_def cell_def lit_def)
  then have chk: "CheckDatabase script_api (?m, databases_db [lit ''set name utf8;'']) =
      Inr (False, ?m, databases_db [lit ''set name utf8;'', lit ''show databases;''])"
    using q(1) by (simp add: CheckDatabase_def with_tool_def GetDBName_def chat_tool_def)
  have m: "m_mysql ?m = Some chat_tool" "with_tool chat_tool ?m = ?m"
    by (simp_all add: with_tool_def chat_tool_def)
  have "mysql_query script_api (lit '' create database '' @ GetDBName chat_tool @ lit '';'')
      (databases_db [lit ''set name utf8;'', lit ''show databases;'']) =
      (False, databases_db [lit ''set name utf8;'', lit ''show databases;'', lit '' create database chat;''])"
    by code_simp
  from Init_fresh_database [OF con chk m(1) shape(3) this] show ?thesis
    by (simp only: m(2))
qed

end
