(* ===== verification/User_Manager.thy ===== *)
theory User_Manager
  imports Db
begin

section \<open>Users, friends and groups\<close>

text \<open>
  \<open>UserManager\<close> (\<open>UserManager.h\<close>, \<open>UserManager.cpp\<close>) caches all users and groups of the
  database in a list, hands out user and group ids, and keeps the friend relation on both sides.
  Every change is first sent to the database and applied to the cache only if that succeeds.
  Ids are \<open>int32_t\<close>, modelled as \<open>int\<close> with \<open>wrap32\<close> where they are incremented; the members
  \<open>clienttype\<close> and \<open>status\<close>, which the constructor leaves uninitialised, are \<open>None\<close> until
  assigned. \<open>std::set<int32_t>\<close> is iterated in ascending order. Each operation is one critical
  section; the SQL text is built as the code builds it.
\<close>

subsection \<open>Data\<close>

definition GROUPID_BOUBDARY :: int where
  "GROUPID_BOUBDARY = 0x0FFFFFFF"

record User =
  userid :: int
  username :: bytes
  password :: bytes
  nickname :: bytes
  facetype :: int
  custimface :: bytes
  customfacefmt :: bytes
  gender :: int
  birthday :: int
  signature :: bytes
  address :: bytes
  phonenumber :: bytes
  mail :: bytes
  ownerid :: int
  clienttype :: "int option"
  status :: "int option"
  friends :: "int set"

definition new_User :: User where
  "new_User =
     \<lparr>userid = -1, username = [], password = [], nickname = [], facetype = -1, custimface = [],
      customfacefmt = [], gender = -1, birthday = -1, signature = [], address = [],
      phonenumber = [], mail = [], ownerid = -1, clienttype = None, status = None, friends = {}\<rparr>"

record UserManager =
  m_cachedUsers :: "User list"
  m_mapUsers :: "(int, User) omap"
  m_baseUserID :: int
  m_baseGrupID :: int

definition new_UserManager :: UserManager where
  "new_UserManager =
     \<lparr>m_cachedUsers = [], m_mapUsers = [], m_baseUserID = 0, m_baseGrupID = 0xFFFFFFF\<rparr>"

text \<open>\<open>snprintf(buf, size, ...)\<close> keeps at most \<open>size - 1\<close> bytes.\<close>

definition snprintf :: "nat \<Rightarrow> bytes \<Rightarrow> bytes" where
  "snprintf bufsize text = take (bufsize - 1) text"

subsection \<open>Loading from the database\<close>

definition user_of_row :: "QueryResult \<Rightarrow> User result" where
  "user_of_row q =
     bind_result (row_at q 0) (\<lambda>c0. bind_result (row_at q 1) (\<lambda>c1.
     bind_result (row_at q 2) (\<lambda>c2. bind_result (row_at q 3) (\<lambda>c3.
     bind_result (row_at q 4) (\<lambda>c4. bind_result (row_at q 5) (\<lambda>c5.
     bind_result (row_at q 6) (\<lambda>c6. bind_result (row_at q 7) (\<lambda>c7.
     bind_result (row_at q 8) (\<lambda>c8. bind_result (row_at q 9) (\<lambda>c9.
     bind_result (row_at q 10) (\<lambda>c10. bind_result (row_at q 11) (\<lambda>c11.
       Inr (new_User\<lparr>userid := toInt32 c0, username := GetString c1, nickname := GetString c2,
         password := GetString c3, facetype := toInt32 c4, custimface := GetString c5,
         gender := toInt32 c6, birthday := toInt32 c7, signature := GetString c8,
         address := GetString c9, phonenumber := GetString c10, mail := GetString c11\<rparr>)))))))))))))"

function load_users :: "QueryResult \<Rightarrow> UserManager \<Rightarrow> UserManager result" where
  "load_users q m =
     (if \<not> Fetch q then Inr m
      else (case user_of_row q of
              Inl e \<Rightarrow> Inl e
            | Inr u \<Rightarrow>
                let m1 = m\<lparr>m_cachedUsers := m_cachedUsers m @ [u],
                      m_baseUserID := (if userid u > m_baseUserID m then userid u else m_baseUserID m)\<rparr>
                in (case NextRow q of
                      Inl e \<Rightarrow> Inl e
                    | Inr (b, q') \<Rightarrow> if b then load_users q' m1 else Inr m1)))"
  by pat_completeness auto
termination
  by (relation "measure (\<lambda>(q, m). rows_left q)") (auto simp: NextRow_decreases)

declare load_users.simps [simp del]

definition LoadUserFromDB :: "'w mysql_api \<Rightarrow> UserManager \<Rightarrow> 'w db \<Rightarrow> (bool \<times> UserManager \<times> 'w db) result" where
  "LoadUserFromDB api m d =
     bind_result (Query api (lit ''SELECT f_user_id,f_username,f_nickname,f_password,f_facetype,f_customface,f_gender,f_birthday,f_signature,f_address,f_phonenumber,f_mail FROM t_user ORDER BY f_user_id DESC;'') d)
       (\<lambda>(r, d'). case r of
          None \<Rightarrow> Inr (False, m, d')
        | Some q \<Rightarrow> bind_result (load_users q m) (\<lambda>m'. Inr (True, m', d')))"

function load_friends :: "int \<Rightarrow> QueryResult \<Rightarrow> int set \<Rightarrow> int set result" where
  "load_friends uid q fs =
     (if \<not> Fetch q then Inr fs
      else (case row_at q 0 of
              Inl e \<Rightarrow> Inl e
            | Inr c0 \<Rightarrow>
                (case row_at q 1 of
                   Inl e \<Rightarrow> Inl e
                 | Inr c1 \<Rightarrow>
                     let fs1 = insert (if toInt32 c0 = uid then toInt32 c1 else toInt32 c0) fs
                     in (case NextRow q of
                           Inl e \<Rightarrow> Inl e
                         | Inr (b, q') \<Rightarrow> if b then load_friends uid q' fs1 else Inr fs1))))"
  by pat_completeness auto
termination
  by (relation "measure (\<lambda>(uid, q, fs). rows_left q)") (auto simp: NextRow_decreases)

declare load_friends.simps [simp del]

definition LoadRelationshipFromDB ::
  "'w mysql_api \<Rightarrow> int \<Rightarrow> int set \<Rightarrow> 'w db \<Rightarrow> (bool \<times> int set \<times> 'w db) result" where
  "LoadRelationshipFromDB api uid fs d =
     bind_result (Query api (lit ''SELECT f_user_id1,f_user_id2 FROM t_user_relationship WHERE f_user_id1='' @
         show_int uid @ lit '' OR f_user_id2='' @ show_int uid @ lit '';'') d)
       (\<lambda>(r, d'). case r of
          None \<Rightarrow> Inr (False, fs, d')
        | Some q \<Rightarrow> bind_result (load_friends uid q fs) (\<lambda>fs'. Inr (True, fs', d')))"

fun load_relationships :: "'w mysql_api \<Rightarrow> User list \<Rightarrow> 'w db \<Rightarrow> (User list \<times> 'w db) result" where
  "load_relationships api [] d = Inr ([], d)"
| "load_relationships api (u # us) d =
     bind_result (LoadRelationshipFromDB api (userid u) (friends u) d) (\<lambda>(ok, fs, d1).
       bind_result (load_relationships api us d1) (\<lambda>(us', d2). Inr (u\<lparr>friends := fs\<rparr> # us', d2)))"

definition UserManager_Init :: "'w mysql_api \<Rightarrow> UserManager \<Rightarrow> 'w db \<Rightarrow> (bool \<times> UserManager \<times> 'w db) result" where
  "UserManager_Init api m d =
     bind_result (LoadUserFromDB api m d) (\<lambda>(ok, m1, d1).
       if \<not> ok then Inr (False, m1, d1)
       else bind_result (load_relationships api (m_cachedUsers m1) d1) (\<lambda>(us, d2).
         Inr (True, m1\<lparr>m_cachedUsers := us\<rparr>, d2)))"

subsection \<open>Lookup\<close>

definition GetUserInfoByUsername :: "bytes \<Rightarrow> UserManager \<Rightarrow> User option" where
  "GetUserInfoByUsername name m = find (\<lambda>u. username u = name) (m_cachedUsers m)"

definition GetUserInfoByUserId :: "int \<Rightarrow> UserManager \<Rightarrow> User option" where
  "GetUserInfoByUserId uid m = find (\<lambda>u. userid u = uid) (m_cachedUsers m)"

definition GetUserByID :: "int \<Rightarrow> UserManager \<Rightarrow> User option" where
  "GetUserByID uid m = omap_find uid (m_mapUsers m)"

definition GetFriendInfoByUserId :: "int \<Rightarrow> UserManager \<Rightarrow> User list" where
  "GetFriendInfoByUserId uid m =
     (let friendsId = (case find (\<lambda>u. userid u = uid) (m_cachedUsers m) of
                         None \<Rightarrow> {} | Some u \<Rightarrow> friends u)
      in concat (map (\<lambda>i. case find (\<lambda>u. userid u = i) (m_cachedUsers m) of None \<Rightarrow> [] | Some u \<Rightarrow> [u])
           (sorted_list_of_set friendsId)))"

subsection \<open>Changes\<close>

definition AddUser :: "'w mysql_api \<Rightarrow> User \<Rightarrow> UserManager \<Rightarrow> 'w db \<Rightarrow> (bool \<times> UserManager \<times> 'w db) result" where
  "AddUser api user m d =
     (let m1 = m\<lparr>m_baseUserID := wrap32 (m_baseUserID m + 1)\<rparr>;
          sql = lit ''INSERT INTO t_user (f_user_id,f_username,f_nickname,f_password,f_register_time)'' @
            lit '' VALUES('' @ show_int (m_baseUserID m1) @ lit '','' @ [39] @ username user @ [39] @
            lit '','' @ [39] @ nickname user @ [39] @ lit '','' @ [39] @ password user @ [39] @ lit '',NOW());''
      in bind_result (Excute api sql d) (\<lambda>(ok, d').
           if \<not> ok then Inr (False, m1, d')
           else
             let u = user\<lparr>userid := m_baseUserID m1, facetype := 0, birthday := 20000101,
                   gender := 0, ownerid := 0\<rparr>
             in Inr (True, m1\<lparr>m_cachedUsers := m_cachedUsers m1 @ [u]\<rparr>, d')))"

fun add_friend_loop :: "int \<Rightarrow> int \<Rightarrow> bool \<Rightarrow> bool \<Rightarrow> User list \<Rightarrow> bool \<times> User list" where
  "add_friend_loop uid fid f1 f2 [] = (False, [])"
| "add_friend_loop uid fid f1 f2 (u # us) =
     (let u1 = (if userid u = uid then u\<lparr>friends := insert fid (friends u)\<rparr> else u);
          f1' = (f1 \<or> userid u = uid);
          u2 = (if userid u1 = fid then u1\<lparr>friends := insert uid (friends u1)\<rparr> else u1);
          f2' = (f2 \<or> userid u1 = fid)
      in if f1' \<and> f2' then (True, u2 # us)
         else (let (r, us') = add_friend_loop uid fid f1' f2' us in (r, u2 # us')))"

definition AddFriendToUser :: "int \<Rightarrow> int \<Rightarrow> UserManager \<Rightarrow> bool \<times> UserManager" where
  "AddFriendToUser uid fid m =
     (let (r, us) = add_friend_loop uid fid False False (m_cachedUsers m)
      in (r, m\<lparr>m_cachedUsers := us\<rparr>))"

fun delete_friend_loop :: "int \<Rightarrow> int \<Rightarrow> bool \<Rightarrow> bool \<Rightarrow> User list \<Rightarrow> bool \<times> User list" where
  "delete_friend_loop uid fid f1 f2 [] = (False, [])"
| "delete_friend_loop uid fid f1 f2 (u # us) =
     (let u1 = (if userid u = uid then u\<lparr>friends := friends u - {fid}\<rparr> else u);
          f1' = (f1 \<or> userid u = uid);
          u2 = (if userid u1 = fid then u1\<lparr>friends := friends u1 - {uid}\<rparr> else u1);
          f2' = (f2 \<or> userid u1 = fid)
      in if f1' \<and> f2' then (True, u2 # us)
         else (let (r, us') = delete_friend_loop uid fid f1' f2' us in (r, u2 # us')))"

definition DeleteFriendToUser :: "int \<Rightarrow> int \<Rightarrow> UserManager \<Rightarrow> bool \<times> UserManager" where
  "DeleteFriendToUser uid fid m =
     (let (r, us) = delete_friend_loop uid fid False False (m_cachedUsers m)
      in (r, m\<lparr>m_cachedUsers := us\<rparr>))"

definition MakeFriendRelationship ::
  "'w mysql_api \<Rightarrow> int \<Rightarrow> int \<Rightarrow> UserManager \<Rightarrow> 'w db \<Rightarrow> (bool \<times> UserManager \<times> 'w db) result" where
  "MakeFriendRelationship api smallid greatid m d =
     (if smallid \<ge> greatid then Inr (False, m, d)
      else bind_result (Excute api (lit ''INSERT INTO t_user_relationship(f_user_id1, f_user_id2) VALUES('' @
             show_int smallid @ lit '','' @ show_int greatid @ lit '') ;'') d)
        (\<lambda>(ok, d'). if \<not> ok then Inr (False, m, d')
           else let (r, m') = AddFriendToUser smallid greatid m in Inr (r, m', d')))"

definition ReleaseFriendRelationship ::
  "'w mysql_api \<Rightarrow> int \<Rightarrow> int \<Rightarrow> UserManager \<Rightarrow> 'w db \<Rightarrow> (bool \<times> UserManager \<times> 'w db) result" where
  "ReleaseFriendRelationship api smallid greatid m d =
     (if smallid \<ge> greatid then Inr (False, m, d)
      else bind_result (Excute api (snprintf 256 (lit ''DELETE FROM t_user_relationship WHERE f_user_id1 = '' @
             show_int smallid @ lit '' AND f_user_id2 = '' @ show_int greatid @ lit '' ;'')) d)
        (\<lambda>(ok, d'). if \<not> ok then Inr (False, m, d')
           else let (r, m') = DeleteFriendToUser smallid greatid m in Inr (r, m', d')))"

text \<open>The loops that change the first user with the given id.\<close>

fun update_user :: "int \<Rightarrow> (User \<Rightarrow> User) \<Rightarrow> User list \<Rightarrow> bool \<times> User list" where
  "update_user uid f [] = (False, [])"
| "update_user uid f (u # us) =
     (if userid u = uid then (True, f u # us)
      else (let (r, us') = update_user uid f us in (r, u # us')))"

definition UpdateUserInfo ::
  "'w mysql_api \<Rightarrow> int \<Rightarrow> User \<Rightarrow> UserManager \<Rightarrow> 'w db \<Rightarrow> (bool \<times> UserManager \<times> 'w db) result" where
  "UpdateUserInfo api uid newuserinfo m d =
     (let sql = lit ''UPDATE t_user SET f_nickname='' @ [39] @ nickname newuserinfo @ [39] @
            lit '', f_facetype='' @ show_int (facetype newuserinfo) @ lit '', f_customface='' @ [39] @
            custimface newuserinfo @ [39] @ lit '', f_gender='' @ show_int (gender newuserinfo) @
            lit '', f_birthday='' @ show_int (birthday newuserinfo) @ lit '', f_signature='' @ [39] @
            signature newuserinfo @ [39] @ lit '', f_address='' @ [39] @ address newuserinfo @ [39] @
            lit '', f_phonenumber='' @ [39] @ phonenumber newuserinfo @ [39] @ lit '', f_mail='' @ [39] @
            mail newuserinfo @ [39] @ lit '' WHERE f_user_id='' @ show_int uid @ lit '';''
      in bind_result (Excute api sql d) (\<lambda>(ok, d').
           if \<not> ok then Inr (False, m, d')
           else
             let (r, us) = update_user uid (\<lambda>u. u\<lparr>nickname := nickname newuserinfo,
                   facetype := facetype newuserinfo, custimface := custimface newuserinfo,
                   gender := gender newuserinfo, birthday := birthday newuserinfo,
                   signature := signature newuserinfo, address := address newuserinfo,
                   phonenumber := phonenumber newuserinfo, mail := mail newuserinfo\<rparr>) (m_cachedUsers m)
             in Inr (r, m\<lparr>m_cachedUsers := us\<rparr>, d')))"

definition ModifyUserPassword ::
  "'w mysql_api \<Rightarrow> int \<Rightarrow> bytes \<Rightarrow> UserManager \<Rightarrow> 'w db \<Rightarrow> (bool \<times> UserManager \<times> 'w db) result" where
  "ModifyUserPassword api uid newpassword m d =
     (let sql = lit ''UPDATE t_user SET f_password='' @ [39] @ newpassword @ [39] @
            lit '' WHERE f_user_id='' @ show_int uid @ lit '';''
      in bind_result (Excute api sql d) (\<lambda>(ok, d').
           if \<not> ok then Inr (False, m, d')
           else
             let (r, us) = update_user uid (\<lambda>u. u\<lparr>password := newpassword\<rparr>) (m_cachedUsers m)
             in Inr (r, m\<lparr>m_cachedUsers := us\<rparr>, d')))"

text \<open>\<open>AddGroup\<close>: \<open>groupname\<close> is a C string; \<open>groupid0\<close> is the value of the out-parameter before
  the call, which is assigned only on success.\<close>

definition group_sql :: "int \<Rightarrow> bytes \<Rightarrow> int \<Rightarrow> bytes" where
  "group_sql gid groupname owner =
     snprintf 256 (lit ''INSERT INTO t_user(f_user_id, f_username, f_nickname, f_password, f_owner_id, f_register_time) VALUES('' @
       show_int gid @ lit '', '' @ [39] @ show_int gid @ [39] @ lit '', '' @ [39] @ groupname @ [39] @ lit '', '' @
       [39, 39] @ lit '', '' @ show_int owner @ lit '',  NOW());'')"

definition AddGroup ::
  "'w mysql_api \<Rightarrow> bytes \<Rightarrow> int \<Rightarrow> int \<Rightarrow> UserManager \<Rightarrow> 'w db \<Rightarrow> (bool \<times> int \<times> UserManager \<times> 'w db) result" where
  "AddGroup api groupname owner groupid0 m d =
     (let m1 = m\<lparr>m_baseGrupID := wrap32 (m_baseGrupID m + 1)\<rparr>
      in bind_result (Excute api (group_sql (m_baseGrupID m1) groupname owner) d) (\<lambda>(ok, d').
           if \<not> ok then Inr (False, groupid0, m1, d')
           else
             let groupid = m_baseGrupID m1;
                 u = new_User\<lparr>userid := groupid, username := snprintf 12 (show_int groupid),
                   nickname := groupname, ownerid := owner\<rparr>
             in Inr (True, groupid, m1\<lparr>m_cachedUsers := m_cachedUsers m1 @ [u]\<rparr>, d')))"

definition SaveChatMsgToDb ::
  "'w mysql_api \<Rightarrow> int \<Rightarrow> int \<Rightarrow> bytes \<Rightarrow> 'w db \<Rightarrow> (bool \<times> 'w db) result" where
  "SaveChatMsgToDb api senderid targetid chatmsg d =
     Excute api (lit ''INSERT INTO t_chatmsg(f_senderid, f_targetid, f_msgcontent) VALUES('' @
       show_int senderid @ lit '', '' @ show_int targetid @ lit '', '' @ [39] @ chatmsg @ [39] @ lit '');'') d"

subsection \<open>The friend relation\<close>

definition user_ids :: "UserManager \<Rightarrow> int set" where
  "user_ids m = userid ` set (m_cachedUsers m)"

definition distinct_ids :: "UserManager \<Rightarrow> bool" where
  "distinct_ids m \<longleftrightarrow> distinct (map userid (m_cachedUsers m))"

definition friend_graph :: "UserManager \<Rightarrow> (int \<times> int) set" where
  "friend_graph m = (\<Union>u \<in> set (m_cachedUsers m). Pair (userid u) ` friends u)"

definition link_user :: "int \<Rightarrow> int \<Rightarrow> User \<Rightarrow> User" where
  "link_user a b u = u\<lparr>friends := friends u \<union> {f. (userid u, f) \<in> {(a, b), (b, a)}}\<rparr>"

definition unlink_user :: "int \<Rightarrow> int \<Rightarrow> User \<Rightarrow> User" where
  "unlink_user a b u = u\<lparr>friends := friends u - {f. (userid u, f) \<in> {(a, b), (b, a)}}\<rparr>"

lemma userid_link [simp]: "userid (link_user a b u) = userid u" "userid (unlink_user a b u) = userid u"
  by (simp_all add: link_user_def unlink_user_def)

lemma link_user_other [simp]:
  "userid u \<noteq> a \<Longrightarrow> userid u \<noteq> b \<Longrightarrow> link_user a b u = u"
  "userid u \<noteq> a \<Longrightarrow> userid u \<noteq> b \<Longrightarrow> unlink_user a b u = u"
  by (simp_all add: link_user_def unlink_user_def)

lemma map_link_other:
  "a \<notin> userid ` set us \<Longrightarrow> b \<notin> userid ` set us \<Longrightarrow> map (link_user a b) us = us"
  "a \<notin> userid ` set us \<Longrightarrow> b \<notin> userid ` set us \<Longrightarrow> map (unlink_user a b) us = us"
  by (induction us) auto

lemma add_friend_loop_spec:
  assumes "a \<noteq> b" "distinct (map userid us)" "\<not> (f1 \<and> f2)"
    and "f1 \<Longrightarrow> a \<notin> userid ` set us" "f2 \<Longrightarrow> b \<notin> userid ` set us"
  shows "add_friend_loop a b f1 f2 us =
    ((f1 \<or> a \<in> userid ` set us) \<and> (f2 \<or> b \<in> userid ` set us), map (link_user a b) us)"
  using assms
proof (induction us arbitrary: f1 f2)
  case (Cons u us)
  have here: "link_user a b u =
      (if userid u = a then u\<lparr>friends := insert b (friends u)\<rparr>
       else if userid u = b then u\<lparr>friends := insert a (friends u)\<rparr> else u)"
    using Cons.prems(1) by (auto simp: link_user_def)
  have rest: "add_friend_loop a b g1 g2 us =
      ((g1 \<or> a \<in> userid ` set us) \<and> (g2 \<or> b \<in> userid ` set us), map (link_user a b) us)"
    if "\<not> (g1 \<and> g2)" "g1 \<Longrightarrow> a \<notin> userid ` set us" "g2 \<Longrightarrow> b \<notin> userid ` set us" for g1 g2
    using Cons.prems(1,2) that by (intro Cons.IH) simp_all
  show ?case
    using Cons.prems rest [of "f1 \<or> userid u = a" "f2 \<or> userid u = b"] map_link_other(1) [of a us b]
    by (cases f1; cases f2) (auto simp: here Let_def)
qed simp

lemma delete_friend_loop_spec:
  assumes "a \<noteq> b" "distinct (map userid us)" "\<not> (f1 \<and> f2)"
    and "f1 \<Longrightarrow> a \<notin> userid ` set us" "f2 \<Longrightarrow> b \<notin> userid ` set us"
  shows "delete_friend_loop a b f1 f2 us =
    ((f1 \<or> a \<in> userid ` set us) \<and> (f2 \<or> b \<in> userid ` set us), map (unlink_user a b) us)"
  using assms
proof (induction us arbitrary: f1 f2)
  case (Cons u us)
  have here: "unlink_user a b u =
      (if userid u = a then u\<lparr>friends := friends u - {b}\<rparr>
       else if userid u = b then u\<lparr>friends := friends u - {a}\<rparr> else u)"
    using Cons.prems(1) by (auto simp: unlink_user_def)
  have rest: "delete_friend_loop a b g1 g2 us =
      ((g1 \<or> a \<in> userid ` set us) \<and> (g2 \<or> b \<in> userid ` set us), map (unlink_user a b) us)"
    if "\<not> (g1 \<and> g2)" "g1 \<Longrightarrow> a \<notin> userid ` set us" "g2 \<Longrightarrow> b \<notin> userid ` set us" for g1 g2
    using Cons.prems(1,2) that by (intro Cons.IH) simp_all
  show ?case
    using Cons.prems rest [of "f1 \<or> userid u = a" "f2 \<or> userid u = b"] map_link_other(2) [of a us b]
    by (cases f1; cases f2) (auto simp: here Let_def)
qed simp

lemma AddFriendToUser_spec:
  assumes "a \<noteq> b" "distinct_ids m"
  shows "AddFriendToUser a b m = (a \<in> user_ids m \<and> b \<in> user_ids m,
    m\<lparr>m_cachedUsers := map (link_user a b) (m_cachedUsers m)\<rparr>)"
  using assms by (simp add: AddFriendToUser_def add_friend_loop_spec distinct_ids_def user_ids_def)

lemma DeleteFriendToUser_spec:
  assumes "a \<noteq> b" "distinct_ids m"
  shows "DeleteFriendToUser a b m = (a \<in> user_ids m \<and> b \<in> user_ids m,
    m\<lparr>m_cachedUsers := map (unlink_user a b) (m_cachedUsers m)\<rparr>)"
  using assms by (simp add: DeleteFriendToUser_def delete_friend_loop_spec distinct_ids_def user_ids_def)

lemma friend_graph_link:
  "friend_graph (m\<lparr>m_cachedUsers := map (link_user a b) (m_cachedUsers m)\<rparr>) =
     friend_graph m \<union> {p \<in> {(a, b), (b, a)}. fst p \<in> user_ids m}"
proof -
  have "Pair (userid u) ` friends (link_user a b u) =
      Pair (userid u) ` friends u \<union> {p \<in> {(a, b), (b, a)}. fst p = userid u}" for u
    by (auto simp: link_user_def)
  then show ?thesis
    by (simp add: friend_graph_def user_ids_def UN_Un_distrib) blast
qed

lemma friend_graph_unlink:
  "friend_graph (m\<lparr>m_cachedUsers := map (unlink_user a b) (m_cachedUsers m)\<rparr>) =
     friend_graph m - {(a, b), (b, a)}"
proof -
  have "Pair (userid u) ` friends (unlink_user a b u) =
      Pair (userid u) ` friends u - {(a, b), (b, a)}" for u
    by (auto simp: unlink_user_def)
  then show ?thesis
    by (simp add: friend_graph_def)
qed

lemma ids_link [simp]:
  "user_ids (m\<lparr>m_cachedUsers := map (link_user a b) (m_cachedUsers m)\<rparr>) = user_ids m"
  "user_ids (m\<lparr>m_cachedUsers := map (unlink_user a b) (m_cachedUsers m)\<rparr>) = user_ids m"
  "distinct_ids (m\<lparr>m_cachedUsers := map (link_user a b) (m_cachedUsers m)\<rparr>) = distinct_ids m"
  "distinct_ids (m\<lparr>m_cachedUsers := map (unlink_user a b) (m_cachedUsers m)\<rparr>) = distinct_ids m"
  by (simp_all add: user_ids_def distinct_ids_def image_image comp_def)

subsection \<open>The contract of the friend store\<close>

text \<open>
  What the sessions rely on: linking two known users adds both directions, unlinking removes
  both, and neither changes who is known. \<open>apply_friend_ops\<close> is the specification on the
  abstract relation.
\<close>

datatype friend_op = Befriend int int | Unfriend int int

fun apply_friend_op :: "friend_op \<Rightarrow> (int \<times> int) set \<Rightarrow> (int \<times> int) set" where
  "apply_friend_op (Befriend a b) G = G \<union> {(a, b), (b, a)}"
| "apply_friend_op (Unfriend a b) G = G - {(a, b), (b, a)}"

fun friend_op_ids :: "friend_op \<Rightarrow> int set" where
  "friend_op_ids (Befriend a b) = {a, b}"
| "friend_op_ids (Unfriend a b) = {a, b}"

fun friend_op_proper :: "friend_op \<Rightarrow> bool" where
  "friend_op_proper (Befriend a b) = (a \<noteq> b)"
| "friend_op_proper (Unfriend a b) = (a \<noteq> b)"

fun run_friend_op ::
  "(int \<Rightarrow> int \<Rightarrow> 's \<Rightarrow> bool \<times> 's) \<Rightarrow> (int \<Rightarrow> int \<Rightarrow> 's \<Rightarrow> bool \<times> 's) \<Rightarrow> friend_op \<Rightarrow> 's \<Rightarrow> 's" where
  "run_friend_op link unlink (Befriend a b) s = snd (link a b s)"
| "run_friend_op link unlink (Unfriend a b) s = snd (unlink a b s)"

lemma sym_apply_friend_op: "sym G \<Longrightarrow> sym (apply_friend_op op G)"
  by (cases op) (auto simp: sym_def)

lemma sym_fold_friend_ops: "sym G \<Longrightarrow> sym (fold apply_friend_op ops G)"
  by (induction ops arbitrary: G) (simp_all add: sym_apply_friend_op)

locale friend_store =
  fixes link :: "int \<Rightarrow> int \<Rightarrow> 's \<Rightarrow> bool \<times> 's"
    and unlink :: "int \<Rightarrow> int \<Rightarrow> 's \<Rightarrow> bool \<times> 's"
    and inv :: "'s \<Rightarrow> bool"
    and known :: "'s \<Rightarrow> int set"
    and graph :: "'s \<Rightarrow> (int \<times> int) set"
  assumes link_spec: "inv s \<Longrightarrow> a \<noteq> b \<Longrightarrow> a \<in> known s \<Longrightarrow> b \<in> known s \<Longrightarrow>
      fst (link a b s) \<and> inv (snd (link a b s)) \<and> known (snd (link a b s)) = known s \<and>
      graph (snd (link a b s)) = graph s \<union> {(a, b), (b, a)}"
    and unlink_spec: "inv s \<Longrightarrow> a \<noteq> b \<Longrightarrow> a \<in> known s \<Longrightarrow> b \<in> known s \<Longrightarrow>
      fst (unlink a b s) \<and> inv (snd (unlink a b s)) \<and> known (snd (unlink a b s)) = known s \<and>
      graph (snd (unlink a b s)) = graph s - {(a, b), (b, a)}"
begin

lemma run_friend_op_spec:
  assumes "inv s" "friend_op_proper op" "friend_op_ids op \<subseteq> known s"
  shows "inv (run_friend_op link unlink op s)" "known (run_friend_op link unlink op s) = known s"
    "graph (run_friend_op link unlink op s) = apply_friend_op op (graph s)"
  using assms link_spec unlink_spec by (cases op; simp)+

lemma run_friend_ops_refine:
  assumes "inv s" "\<forall>op \<in> set ops. friend_op_proper op \<and> friend_op_ids op \<subseteq> known s"
  shows "inv (fold (run_friend_op link unlink) ops s) \<and> known (fold (run_friend_op link unlink) ops s) = known s \<and>
    graph (fold (run_friend_op link unlink) ops s) = fold apply_friend_op ops (graph s)"
  using assms by (induction ops arbitrary: s) (simp_all add: run_friend_op_spec)

lemma run_friend_ops_sym:
  assumes "inv s" "\<forall>op \<in> set ops. friend_op_proper op \<and> friend_op_ids op \<subseteq> known s" "sym (graph s)"
  shows "sym (graph (fold (run_friend_op link unlink) ops s))"
  using run_friend_ops_refine [OF assms(1,2)] assms(3) by (simp add: sym_fold_friend_ops)

end

interpretation user_friends:
  friend_store AddFriendToUser DeleteFriendToUser distinct_ids user_ids friend_graph
  by unfold_locales
    (auto simp: AddFriendToUser_spec DeleteFriendToUser_spec friend_graph_link friend_graph_unlink)

subsection \<open>The manager as a state machine\<close>

text \<open>One step is one completed call of an operation that changes the manager, with any arguments
  and any answer of the database.\<close>

inductive um_step :: "'w mysql_api \<Rightarrow> UserManager \<Rightarrow> UserManager \<Rightarrow> bool" for api where
  add_user: "AddUser api u m d = Inr (r, m', d') \<Longrightarrow> um_step api m m'"
| add_group: "AddGroup api name owner g m d = Inr (r, g', m', d') \<Longrightarrow> um_step api m m'"
| make_friend: "MakeFriendRelationship api a b m d = Inr (r, m', d') \<Longrightarrow> um_step api m m'"
| release_friend: "ReleaseFriendRelationship api a b m d = Inr (r, m', d') \<Longrightarrow> um_step api m m'"
| update_info: "UpdateUserInfo api uid u m d = Inr (r, m', d') \<Longrightarrow> um_step api m m'"
| modify_password: "ModifyUserPassword api uid pw m d = Inr (r, m', d') \<Longrightarrow> um_step api m m'"

inductive um_reach :: "'w mysql_api \<Rightarrow> UserManager \<Rightarrow> nat \<Rightarrow> UserManager \<Rightarrow> bool" for api m0 where
  start: "um_reach api m0 0 m0"
| step: "um_reach api m0 n m \<Longrightarrow> um_step api m m' \<Longrightarrow> um_reach api m0 (Suc n) m'"

text \<open>\<open>b\<close> is the largest id that was loaded, \<open>n\<close> the number of calls since.\<close>

definition ids_inv :: "int \<Rightarrow> nat \<Rightarrow> UserManager \<Rightarrow> bool" where
  "ids_inv b n m \<longleftrightarrow> distinct_ids m \<and>
     0 \<le> m_baseUserID m \<and> m_baseUserID m \<le> b + int n \<and>
     GROUPID_BOUBDARY \<le> m_baseGrupID m \<and> m_baseGrupID m \<le> GROUPID_BOUBDARY + int n \<and>
     (\<forall>i \<in> user_ids m. 0 < i \<and> i \<le> m_baseUserID m \<or> GROUPID_BOUBDARY < i \<and> i \<le> m_baseGrupID m)"

definition same_ids :: "UserManager \<Rightarrow> UserManager \<Rightarrow> bool" where
  "same_ids m m' \<longleftrightarrow> map userid (m_cachedUsers m') = map userid (m_cachedUsers m) \<and>
     m_baseUserID m' = m_baseUserID m \<and> m_baseGrupID m' = m_baseGrupID m"

lemma same_ids_inv: "same_ids m m' \<Longrightarrow> ids_inv b n m \<Longrightarrow> ids_inv b (Suc n) m'"
  by (auto simp: same_ids_def ids_inv_def distinct_ids_def user_ids_def simp flip: set_map)

lemma userid_loops [simp]:
  "map userid (snd (add_friend_loop a b f1 f2 us)) = map userid us"
  "map userid (snd (delete_friend_loop a b f1 f2 us)) = map userid us"
  by (induction us arbitrary: f1 f2) (simp_all add: Let_def split_def)

lemma userid_update_user:
  "(\<And>u. userid (f u) = userid u) \<Longrightarrow> map userid (snd (update_user uid f us)) = map userid us"
  by (induction us) (simp_all add: Let_def split_def)

lemma make_same_ids: "MakeFriendRelationship api a b m d = Inr (r, m', d') \<Longrightarrow> same_ids m m'"
  by (auto simp: MakeFriendRelationship_def AddFriendToUser_def same_ids_def bind_result_eq_Inr split_def Let_def
      split: if_splits)

lemma release_same_ids: "ReleaseFriendRelationship api a b m d = Inr (r, m', d') \<Longrightarrow> same_ids m m'"
  by (auto simp: ReleaseFriendRelationship_def DeleteFriendToUser_def same_ids_def bind_result_eq_Inr split_def Let_def
      split: if_splits)

lemma update_same_ids: "UpdateUserInfo api uid u m d = Inr (r, m', d') \<Longrightarrow> same_ids m m'"
  by (auto simp: UpdateUserInfo_def same_ids_def bind_result_eq_Inr split_def Let_def userid_update_user
      split: if_splits)

lemma password_same_ids: "ModifyUserPassword api uid pw m d = Inr (r, m', d') \<Longrightarrow> same_ids m m'"
  by (auto simp: ModifyUserPassword_def same_ids_def bind_result_eq_Inr split_def Let_def userid_update_user
      split: if_splits)

lemma AddUser_result:
  "AddUser api u m d = Inr (r, m', d') \<Longrightarrow>
     m_baseUserID m' = wrap32 (m_baseUserID m + 1) \<and> m_baseGrupID m' = m_baseGrupID m \<and>
     m_cachedUsers m' = m_cachedUsers m @ (if r then [u\<lparr>userid := wrap32 (m_baseUserID m + 1), facetype := 0,
       birthday := 20000101, gender := 0, ownerid := 0\<rparr>] else [])"
  by (auto simp: AddUser_def bind_result_eq_Inr Let_def split: if_splits)

lemma AddGroup_result:
  "AddGroup api name owner g m d = Inr (r, g', m', d') \<Longrightarrow>
     m_baseUserID m' = m_baseUserID m \<and> m_baseGrupID m' = wrap32 (m_baseGrupID m + 1) \<and>
     g' = (if r then wrap32 (m_baseGrupID m + 1) else g) \<and>
     m_cachedUsers m' = m_cachedUsers m @ (if r then [new_User\<lparr>userid := wrap32 (m_baseGrupID m + 1),
       username := snprintf 12 (show_int (wrap32 (m_baseGrupID m + 1))), nickname := name, ownerid := owner\<rparr>] else [])"
  by (auto simp: AddGroup_def bind_result_eq_Inr Let_def split: if_splits)

lemma ids_inv_add:
  assumes "ids_inv b n m" "0 \<le> b" "b + int (Suc n) < GROUPID_BOUBDARY" "AddUser api u m d = Inr (r, m', d')"
  shows "ids_inv b (Suc n) m'"
proof -
  have "wrap32 (m_baseUserID m + 1) = m_baseUserID m + 1"
    using assms(1-3) by (intro wrap32_id) (simp add: ids_inv_def is_int32_def GROUPID_BOUBDARY_def)
  moreover have "m_baseUserID m + 1 \<notin> user_ids m"
    using assms(1-3) by (force simp: ids_inv_def)
  ultimately show ?thesis
    using assms(1) AddUser_result [OF assms(4)]
    by (force simp: ids_inv_def distinct_ids_def user_ids_def split: if_splits)
qed

lemma ids_inv_group:
  assumes "ids_inv b n m" "0 \<le> b" "b + int (Suc n) < GROUPID_BOUBDARY" "AddGroup api name owner g m d = Inr (r, g', m', d')"
  shows "ids_inv b (Suc n) m'"
proof -
  have "wrap32 (m_baseGrupID m + 1) = m_baseGrupID m + 1"
    using assms(1-3) by (intro wrap32_id) (simp add: ids_inv_def is_int32_def GROUPID_BOUBDARY_def)
  moreover have "m_baseGrupID m + 1 \<notin> user_ids m"
    using assms(1-3) by (force simp: ids_inv_def)
  ultimately show ?thesis
    using assms(1) AddGroup_result [OF assms(4)]
    by (force simp: ids_inv_def distinct_ids_def user_ids_def split: if_splits)
qed

lemma ids_inv_step:
  "um_step api m m' \<Longrightarrow> ids_inv b n m \<Longrightarrow> 0 \<le> b \<Longrightarrow> b + int (Suc n) < GROUPID_BOUBDARY \<Longrightarrow> ids_inv b (Suc n) m'"
  by (induction rule: um_step.induct)
    (auto intro: ids_inv_add ids_inv_group same_ids_inv make_same_ids release_same_ids
      update_same_ids password_same_ids)

lemma ids_inv_reach:
  "um_reach api m0 n m \<Longrightarrow> ids_inv b 0 m0 \<Longrightarrow> 0 \<le> b \<Longrightarrow> b + int n < GROUPID_BOUBDARY \<Longrightarrow> ids_inv b n m"
  by (induction rule: um_reach.induct) (auto intro: ids_inv_step)

subsection \<open>Loading\<close>

definition user_of_cells :: "bytes option list \<Rightarrow> User" where
  "user_of_cells row = new_User\<lparr>userid := atoi (c_string (cell (row ! 0))), username := cell (row ! 1),
     nickname := cell (row ! 2), password := cell (row ! 3),
     facetype := atoi (c_string (cell (row ! 4))), custimface := cell (row ! 5),
     gender := atoi (c_string (cell (row ! 6))), birthday := atoi (c_string (cell (row ! 7))),
     signature := cell (row ! 8), address := cell (row ! 9), phonenumber := cell (row ! 10),
     mail := cell (row ! 11)\<rparr>"

lemma user_of_row_cells: "at_row 12 row rest q \<Longrightarrow> user_of_row q = Inr (user_of_cells row)"
  using row_at_row [of 12 row rest q 0] row_at_row [of 12 row rest q 1] row_at_row [of 12 row rest q 2]
    row_at_row [of 12 row rest q 3] row_at_row [of 12 row rest q 4] row_at_row [of 12 row rest q 5]
    row_at_row [of 12 row rest q 6] row_at_row [of 12 row rest q 7] row_at_row [of 12 row rest q 8]
    row_at_row [of 12 row rest q 9] row_at_row [of 12 row rest q 10] row_at_row [of 12 row rest q 11]
  by (auto simp: user_of_row_def user_of_cells_def GetString_def toInt32_def)

definition cache_user :: "UserManager \<Rightarrow> User \<Rightarrow> UserManager" where
  "cache_user m u = m\<lparr>m_cachedUsers := m_cachedUsers m @ [u], m_baseUserID := max (m_baseUserID m) (userid u)\<rparr>"

lemma load_users_cache:
  "load_users q m =
     (if \<not> Fetch q then Inr m
      else bind_result (user_of_row q) (\<lambda>u.
        bind_result (NextRow q) (\<lambda>(b, q').
          if b then load_users q' (cache_user m u) else Inr (cache_user m u))))"
proof -
  have "m\<lparr>m_cachedUsers := m_cachedUsers m @ [u],
      m_baseUserID := (if userid u > m_baseUserID m then userid u else m_baseUserID m)\<rparr> = cache_user m u" for u
    by (simp add: cache_user_def max_def)
  then show ?thesis
    by (subst load_users.simps) (auto simp: Let_def bind_result_def split: sum.split)
qed

lemma load_users_rows:
  assumes "at_row 12 row rest q" "\<forall>r \<in> set rest. length r = 12"
  shows "load_users q m = Inr (foldl cache_user m (map user_of_cells (row # rest)))"
  using assms
proof (induction rest arbitrary: row q m)
  case Nil
  then obtain q' where "NextRow q = Inr (False, q')"
    using NextRow_last by blast
  with Nil show ?case
    by (subst load_users_cache) (simp add: user_of_row_cells at_row_Fetch)
next
  case (Cons row' rest)
  obtain q' where "NextRow q = Inr (True, q')" "at_row 12 row' rest q'"
    using NextRow_row [OF Cons.prems(1)] Cons.prems(2) by auto
  with Cons show ?case
    by (subst load_users_cache) (simp add: user_of_row_cells at_row_Fetch)
qed

lemma foldl_cache_user:
  "foldl cache_user m us = m\<lparr>m_cachedUsers := m_cachedUsers m @ us,
     m_baseUserID := foldl max (m_baseUserID m) (map userid us)\<rparr>"
  by (induction us arbitrary: m) (simp_all add: cache_user_def)

lemma load_users_foldl: "load_users q m = Inr m' \<Longrightarrow> \<exists>us. m' = foldl cache_user m us"
proof (induction "rows_left q" arbitrary: q m rule: less_induct)
  case less
  show ?case
  proof (cases "Fetch q")
    case True
    with less.prems obtain u b q' where u: "user_of_row q = Inr u" and n: "NextRow q = Inr (b, q')"
      and r: "(if b then load_users q' (cache_user m u) else Inr (cache_user m u)) = Inr m'"
      by (subst (asm) load_users_cache) (auto simp: bind_result_eq_Inr)
    show ?thesis
    proof (cases b)
      case True
      with less.hyps [of q' "cache_user m u"] n r obtain us where "m' = foldl cache_user (cache_user m u) us"
        by (auto simp: NextRow_decreases)
      then show ?thesis by (intro exI [of _ "u # us"]) simp
    next
      case False
      with r show ?thesis by (intro exI [of _ "[u]"]) simp
    qed
  next
    case False
    with less.prems show ?thesis
      by (intro exI [of _ "[]"]) (simp add: load_users_cache)
  qed
qed

lemma foldl_cache_base:
  "\<forall>i \<in> user_ids m. i \<le> m_baseUserID m \<Longrightarrow>
     \<forall>i \<in> user_ids (foldl cache_user m us). i \<le> m_baseUserID (foldl cache_user m us)"
proof (induction us arbitrary: m)
  case (Cons u us)
  then have "\<forall>i \<in> user_ids (cache_user m u). i \<le> m_baseUserID (cache_user m u)"
    by (auto simp: user_ids_def cache_user_def)
  then show ?case using Cons.IH by simp
qed simp

lemma foldl_max_start: "(x :: int) \<le> foldl max x xs"
proof (induction xs arbitrary: x)
  case (Cons a xs)
  from Cons.IH [of "max x a"] show ?case by simp
qed simp

lemma foldl_max_element: "y \<in> set xs \<Longrightarrow> (y :: int) \<le> foldl max x xs"
proof (induction xs arbitrary: x)
  case (Cons a xs)
  then show ?case using foldl_max_start [of "max x a" xs] by auto
qed simp

lemma load_relationships_ids: "load_relationships api us d = Inr (us', d') \<Longrightarrow> map userid us' = map userid us"
  by (induction us arbitrary: d us' d') (auto simp: bind_result_eq_Inr)

lemma UserManager_Init_ids:
  assumes "UserManager_Init api new_UserManager d0 = Inr (True, m0, d1)"
  shows "m_baseUserID m0 = foldl max 0 (map userid (m_cachedUsers m0))" "0 \<le> m_baseUserID m0" "m_baseGrupID m0 = GROUPID_BOUBDARY"
    "\<forall>i \<in> user_ids m0. i \<le> m_baseUserID m0"
proof -
  obtain q m1 where m1: "load_users q new_UserManager = Inr m1" "map userid (m_cachedUsers m0) = map userid (m_cachedUsers m1)"
    "m_baseUserID m0 = m_baseUserID m1" "m_baseGrupID m0 = m_baseGrupID m1"
    using assms by (auto simp: UserManager_Init_def LoadUserFromDB_def bind_result_eq_Inr split: option.splits dest!: load_relationships_ids)
  moreover obtain us where us: "m1 = foldl cache_user new_UserManager us"
    using load_users_foldl [OF m1(1)] by blast
  ultimately show base: "m_baseUserID m0 = foldl max 0 (map userid (m_cachedUsers m0))" "m_baseGrupID m0 = GROUPID_BOUBDARY"
    by (simp_all add: foldl_cache_user new_UserManager_def GROUPID_BOUBDARY_def)
  show "0 \<le> m_baseUserID m0" "\<forall>i \<in> user_ids m0. i \<le> m_baseUserID m0"
    using foldl_max_start [of 0] foldl_max_element [of _ "map userid (m_cachedUsers m0)" 0] by (auto simp: base user_ids_def)
qed

lemma empty_result_row:
  assumes "res_rows r = []" "new_QueryResult (Some r) cnt cols = Inr q" "0 < unat cols"
  shows "Fetch q" "row_at q i = Inl OutOfBounds"
  using assms by (auto simp: new_QueryResult_def mysql_fetch_row_def Let_def EndQuery_def Fetch_def row_at_def)

subsection \<open>Lookup\<close>

lemma find_append: "find P (xs @ ys) = (case find P xs of None \<Rightarrow> find P ys | Some x \<Rightarrow> Some x)"
  by (induction xs) simp_all

lemma update_user_spec:
  "fst (update_user uid f us) \<longleftrightarrow> uid \<in> userid ` set us"
  "(\<And>u. userid (f u) = userid u) \<Longrightarrow>
    find (\<lambda>u. userid u = i) (snd (update_user uid f us)) =
      (if i = uid then map_option f (find (\<lambda>u. userid u = i) us) else find (\<lambda>u. userid u = i) us)"
  by (induction us) (auto simp: Let_def split_def)

lemma find_id: "find (\<lambda>u. userid u = i) us = Some u \<Longrightarrow> userid u = i \<and> u \<in> set us"
  by (auto simp: find_Some_iff)

lemma friend_info_ids:
  "map userid (GetFriendInfoByUserId uid m) =
     (case GetUserInfoByUserId uid m of None \<Rightarrow> []
      | Some u \<Rightarrow> filter (\<lambda>i. i \<in> user_ids m) (sorted_list_of_set (friends u)))"
proof -
  have "map userid (concat (map (\<lambda>i. case find (\<lambda>u. userid u = i) us of None \<Rightarrow> [] | Some u \<Rightarrow> [u]) is)) =
      filter (\<lambda>i. i \<in> userid ` set us) is" for us "is"
    by (induction "is") (auto split: option.split simp: find_None_iff find_Some_iff)
  then show ?thesis
    by (auto simp: GetFriendInfoByUserId_def GetUserInfoByUserId_def user_ids_def split: option.split)
qed

lemma userid_user_of_cells [simp]: "userid (user_of_cells r) = atoi (c_string (cell (r ! 0)))"
  by (simp add: user_of_cells_def)

lemma user_ids_new [simp]: "user_ids new_UserManager = {}"
  by (simp add: user_ids_def new_UserManager_def)

lemma LoadUserFromDB_load:
  assumes "Query api (lit ''SELECT f_user_id,f_username,f_nickname,f_password,f_facetype,f_customface,f_gender,f_birthday,f_signature,f_address,f_phonenumber,f_mail FROM t_user ORDER BY f_user_id DESC;'') d = Inr (Some q, d')"
    and "at_row 12 row rest q" "\<forall>r \<in> set rest. length r = 12"
  shows "LoadUserFromDB api m d = Inr (True, foldl cache_user m (map user_of_cells (row # rest)), d')"
  using assms(1) by (simp add: LoadUserFromDB_def load_users_rows [OF assms(2,3)])

subsection \<open>Examples\<close>

lemma script_Query:
  assumes "well_shaped n (answer w)" "res_rows (answer w) = row # rest"
  obtains q where "Query script_api sql (script_manager, w) = Inr (Some q, script_manager, w\<lparr>sql_log := sql_log w @ [sql]\<rparr>)"
    "at_row n row rest q"
proof -
  have t: "m_mysql script_manager = Some (new_MySQLTool\<lparr>m_handle := True\<rparr>)"
    "with_tool (new_MySQLTool\<lparr>m_handle := True\<rparr>) script_manager = script_manager"
    by (simp_all add: script_manager_def with_tool_def)
  have "m_handle (new_MySQLTool\<lparr>m_handle := True\<rparr>)" by simp
  from script_tool_Query [OF this assms] obtain q where
    "tool_Query script_api sql (new_MySQLTool\<lparr>m_handle := True\<rparr>) w =
       Inr (Some q, new_MySQLTool\<lparr>m_handle := True\<rparr>, w\<lparr>sql_log := sql_log w @ [sql]\<rparr>)" "at_row n row rest q"
    by metis
  with t that show thesis by (simp add: Query_def)
qed

lemma script_Excute:
  "Excute script_api sql (script_manager, w) = Inr (True, script_manager, w\<lparr>sql_log := sql_log w @ [c_string sql]\<rparr>)"
  by (simp add: Excute_def Execute_def Execute_counted_def script_manager_def with_tool_def mysql_query_def script_api_def)

lemma script_AddUser:
  obtains w' where "AddUser script_api u m (script_manager, w) =
    Inr (True, m\<lparr>m_baseUserID := wrap32 (m_baseUserID m + 1), m_cachedUsers := m_cachedUsers m @
      [u\<lparr>userid := wrap32 (m_baseUserID m + 1), facetype := 0, birthday := 20000101, gender := 0, ownerid := 0\<rparr>]\<rparr>,
      script_manager, w')"
  by (simp add: AddUser_def Let_def script_Excute)

definition three_users :: UserManager where
  "three_users = new_UserManager\<lparr>m_cachedUsers := map (\<lambda>i. new_User\<lparr>userid := i\<rparr>) [3, 1, 2], m_baseUserID := 3\<rparr>"

text \<open>A table with one group and one user, as the loader selects it.\<close>

definition user_row :: "int \<Rightarrow> bytes \<Rightarrow> bytes option list" where
  "user_row i name = [Some (show_int i), Some name, Some name, Some [], Some (show_int 0), None,
     Some (show_int 0), Some (show_int 19900101), None, None, None, None]"

definition users_db :: script_db where
  "users_db = \<lparr>sql_log = [], answer = \<lparr>res_fields = replicate 12 ([], FIELD_TYPE_VAR_STRING),
     res_rows = [user_row 268435456 (lit ''group''), user_row 7 (lit ''alice'')]\<rparr>\<rparr>"

lemma users_db_shape:
  "well_shaped 12 (answer users_db)"
  "res_rows (answer users_db) = user_row 268435456 (lit ''group'') # [user_row 7 (lit ''alice'')]"
  by (simp_all add: well_shaped_def users_db_def user_row_def)

definition single_db :: script_db where
  "single_db = \<lparr>sql_log = [], answer = \<lparr>res_fields = replicate 12 ([], FIELD_TYPE_VAR_STRING), res_rows = [user_row 7 (lit ''alice'')]\<rparr>\<rparr>"

lemma single_db_shape: "well_shaped 12 (answer single_db)" "res_rows (answer single_db) = user_row 7 (lit ''alice'') # []"
  "answer (single_db\<lparr>sql_log := l\<rparr>) = answer single_db"
  by (simp_all add: single_db_def well_shaped_def user_row_def)

lemma cell_user_row: "cell (user_row i name ! 0) = show_int i" "length (user_row i name) = 12"
  by (simp_all add: user_row_def cell_def)

lemma user_row_id: "is_int32 i \<Longrightarrow> atoi (c_string (cell (user_row i name ! 0))) = i"
  by (simp add: cell_user_row c_string_no_zero show_int_no_zero atoi_show_int)

lemma take_keeps_prefix:
  "length (a @ b) \<le> n \<Longrightarrow> take n (a @ b @ c) = a @ b @ take (n - length (a @ b)) c"
  by simp

subsection \<open>Properties\<close>



text \<open>\<open>MakeFriendRelationship\<close> with every answer of the database: it succeeds exactly when
  the statement succeeds and both users are known. When only one of them is known the statement
  has already been executed and the known user keeps the unknown id as a friend, although the
  call reports failure.\<close>

theorem MakeFriendRelationship_spec:
  assumes "distinct_ids m" "a < b"
    and "Excute api (lit ''INSERT INTO t_user_relationship(f_user_id1, f_user_id2) VALUES('' @
      show_int a @ lit '','' @ show_int b @ lit '') ;'') d = Inr (ok, d')"
  shows "\<exists>m'. MakeFriendRelationship api a b m d = Inr (ok \<and> a \<in> user_ids m \<and> b \<in> user_ids m, m', d') \<and>
    distinct_ids m' \<and> user_ids m' = user_ids m \<and>
    friend_graph m' = friend_graph m \<union> (if ok then {p \<in> {(a, b), (b, a)}. fst p \<in> user_ids m} else {})"
  using assms
  by (auto simp: MakeFriendRelationship_def AddFriendToUser_spec friend_graph_link)

theorem MakeFriendRelationship_spec_witness:
  "\<exists>m' d'. MakeFriendRelationship script_api 2 9 three_users (script_manager, databases_db []) = Inr (False, m', d') \<and>
     friend_graph m' = {(2, 9)}"
proof -
  let ?sql = "lit ''INSERT INTO t_user_relationship(f_user_id1, f_user_id2) VALUES('' @
      show_int 2 @ lit '','' @ show_int 9 @ lit '') ;''"
  obtain d' where "Excute script_api ?sql (script_manager, databases_db []) = Inr (True, d')"
    using script_Excute by blast
  moreover have "distinct_ids three_users" "user_ids three_users = {1, 2, 3}" "friend_graph three_users = {}"
    by code_simp+
  ultimately show ?thesis
    using MakeFriendRelationship_spec [of three_users 2 9 script_api "(script_manager, databases_db [])" True]
    by auto
qed

lemma single_Init:
  obtains m0 d1 where "UserManager_Init script_api new_UserManager (script_manager, single_db) = Inr (True, m0, d1)"
    "map userid (m_cachedUsers m0) = [7]" "m_baseUserID m0 = 7"
proof -
  let ?row = "user_row 7 (lit ''alice'')"
  let ?sql = "lit ''SELECT f_user_id,f_username,f_nickname,f_password,f_facetype,f_customface,f_gender,f_birthday,f_signature,f_address,f_phonenumber,f_mail FROM t_user ORDER BY f_user_id DESC;''"
  let ?u = "user_of_cells ?row" and ?w = "single_db\<lparr>sql_log := sql_log single_db @ [?sql]\<rparr>"
  obtain q where q: "Query script_api ?sql (script_manager, single_db) = Inr (Some q, script_manager, ?w)" "at_row 12 ?row [] q"
    using single_db_shape(1,2) by (rule script_Query)
  have "well_shaped 12 (answer ?w)" "res_rows (answer ?w) = ?row # []" using single_db_shape by simp_all
  note rel = script_Query [OF this]
  have id: "userid ?u = 7" using user_row_id [of 7 "lit ''alice''"] by (simp add: is_int32_def)
  obtain fs d where "LoadRelationshipFromDB script_api (userid ?u) (friends ?u) (script_manager, ?w) = Inr (True, fs, d)"
  proof -
    let ?sql' = "lit ''SELECT f_user_id1,f_user_id2 FROM t_user_relationship WHERE f_user_id1='' @
         show_int (userid ?u) @ lit '' OR f_user_id2='' @ show_int (userid ?u) @ lit '';''"
    obtain q' d where q': "Query script_api ?sql' (script_manager, ?w) = Inr (Some q', d)" "at_row 12 ?row [] q'"
      using rel [of ?sql'] by metis
    moreover obtain fs where "load_friends (userid ?u) q' (friends ?u) = Inr fs"
      using row_at_row [OF q'(2), of 0] row_at_row [OF q'(2), of 1] NextRow_last [OF q'(2)] at_row_Fetch [OF q'(2)]
      by (subst (asm) load_friends.simps) auto
    ultimately show thesis using that by (simp add: LoadRelationshipFromDB_def)
  qed
  moreover have "LoadUserFromDB script_api new_UserManager (script_manager, single_db) = Inr (True, foldl cache_user new_UserManager [?u], script_manager, ?w)"
    using LoadUserFromDB_load [OF q] by simp
  ultimately show thesis
    using that id by (simp add: UserManager_Init_def cache_user_def new_UserManager_def)
qed

text \<open>C31: Ids are unique until the program is started on a table with groups. If \<open>Init\<close> has loaded a table whose ids are positive and
  distinct, then after any number of calls, whatever their arguments and the answers of the database, as long as the largest
  id loaded and the number of calls together stay below the group boundary, no two cached entries have the
  same id, users have ids up to the user counter, below the boundary, and groups above it; the counter starts at the
  largest id loaded. A table that holds a group is excluded by the bound: there
  \<open>reload_confuses_ids\<close> shows that new users get group ids.\<close>

theorem ids_unique:
  assumes "UserManager_Init api new_UserManager d0 = Inr (True, m0, d1)"
    and "distinct (map userid (m_cachedUsers m0))" "\<forall>u \<in> set (m_cachedUsers m0). 0 < userid u"
    and "um_reach api m0 n m" "m_baseUserID m0 + int n < GROUPID_BOUBDARY"
  shows "distinct (map userid (m_cachedUsers m)) \<and> m_baseUserID m0 = foldl max 0 (map userid (m_cachedUsers m0)) \<and>
    (\<forall>u \<in> set (m_cachedUsers m). 0 < userid u \<and> userid u \<noteq> GROUPID_BOUBDARY \<and> userid u < 2 ^ 29 \<and>
       (userid u < GROUPID_BOUBDARY \<longleftrightarrow> userid u \<le> m_baseUserID m))"
proof -
  note load = UserManager_Init_ids [OF assms(1)]
  have "ids_inv (m_baseUserID m0) 0 m0"
    using load assms(2,3) by (auto simp: ids_inv_def distinct_ids_def user_ids_def)
  from ids_inv_reach [OF assms(4) this load(2) assms(5)] assms(5) load(1,2) show ?thesis
    by (fastforce simp: ids_inv_def distinct_ids_def user_ids_def GROUPID_BOUBDARY_def)
qed

theorem ids_unique_witness:
  "\<exists>m0 d1 m. UserManager_Init script_api new_UserManager (script_manager, single_db) = Inr (True, m0, d1) \<and> um_reach script_api m0 1 m \<and>
     map userid (m_cachedUsers m) = [7, 8] \<and> 7 < GROUPID_BOUBDARY"
proof -
  obtain m0 d1 where m0: "UserManager_Init script_api new_UserManager (script_manager, single_db) = Inr (True, m0, d1)"
    "map userid (m_cachedUsers m0) = [7]" "m_baseUserID m0 = 7" by (rule single_Init)
  have id: "wrap32 8 = 8" by (rule wrap32_id) (simp add: is_int32_def)
  obtain m d where m: "AddUser script_api new_User m0 (script_manager, users_db) = Inr (True, m, d)" "map userid (m_cachedUsers m) = [7, 8]"
    by (rule script_AddUser [of new_User m0 users_db]) (use m0(2,3) in \<open>auto simp: id\<close>)
  then have reach: "um_reach script_api m0 (Suc 0) m"
    by (intro um_reach.step [OF um_reach.start] um_step.add_user)
  have "distinct (map userid (m_cachedUsers m0))" "\<forall>u \<in> set (m_cachedUsers m0). 0 < userid u"
    "m_baseUserID m0 + int (Suc 0) < GROUPID_BOUBDARY" using m0(2,3) by (auto simp: GROUPID_BOUBDARY_def)
  from ids_unique [OF m0(1) this(1,2) reach this(3)] show ?thesis using m0(1) m(2) reach by (auto simp: GROUPID_BOUBDARY_def)
qed

text \<open>Loading the users appends one cached user per row of the result, in the order of the
  rows, and raises the id counter to the largest id read.\<close>

theorem LoadUserFromDB_rows:
  assumes "Query api (lit ''SELECT f_user_id,f_username,f_nickname,f_password,f_facetype,f_customface,f_gender,f_birthday,f_signature,f_address,f_phonenumber,f_mail FROM t_user ORDER BY f_user_id DESC;'') d = Inr (Some q, d')"
    and "at_row 12 row rest q" "\<forall>r \<in> set rest. length r = 12"
  shows "LoadUserFromDB api m d = Inr (True,
    m\<lparr>m_cachedUsers := m_cachedUsers m @ map user_of_cells (row # rest),
      m_baseUserID := foldl max (m_baseUserID m) (map (\<lambda>r. atoi (c_string (cell (r ! 0)))) (row # rest))\<rparr>, d')"
  using LoadUserFromDB_load [OF assms, of m]
  by (simp only: foldl_cache_user map_map comp_def userid_user_of_cells)

theorem LoadUserFromDB_rows_witness:
  "\<exists>m d'. LoadUserFromDB script_api new_UserManager (script_manager, users_db) = Inr (True, m, d') \<and>
     map userid (m_cachedUsers m) = [268435456, 7] \<and> m_baseUserID m = 268435456"
proof -
  obtain q where q: "Query script_api (lit ''SELECT f_user_id,f_username,f_nickname,f_password,f_facetype,f_customface,f_gender,f_birthday,f_signature,f_address,f_phonenumber,f_mail FROM t_user ORDER BY f_user_id DESC;'')
      (script_manager, users_db) = Inr (Some q, script_manager, users_db\<lparr>sql_log := sql_log users_db @
        [lit ''SELECT f_user_id,f_username,f_nickname,f_password,f_facetype,f_customface,f_gender,f_birthday,f_signature,f_address,f_phonenumber,f_mail FROM t_user ORDER BY f_user_id DESC;'']\<rparr>)"
    "at_row 12 (user_row 268435456 (lit ''group'')) [user_row 7 (lit ''alice'')] q"
    using users_db_shape by (rule script_Query)
  have "\<forall>r \<in> set [user_row 7 (lit ''alice'')]. length r = 12" by (simp add: cell_user_row)
  from LoadUserFromDB_rows [OF q this, of new_UserManager] show ?thesis
    by (simp add: new_UserManager_def user_row_id is_int32_def)
qed

text \<open>An empty user table is fatal: the result set releases its row at once, \<open>Fetch\<close> still
  returns the old storage, and the first column is read from a destroyed object.\<close>

theorem LoadUserFromDB_empty_table:
  assumes "Query api (lit ''SELECT f_user_id,f_username,f_nickname,f_password,f_facetype,f_customface,f_gender,f_birthday,f_signature,f_address,f_phonenumber,f_mail FROM t_user ORDER BY f_user_id DESC;'') d = Inr (Some q, d')"
    and "new_QueryResult (Some r) cnt 12 = Inr q" "res_rows r = []"
  shows "LoadUserFromDB api m d = Inl OutOfBounds"
  using assms(1) empty_result_row [OF assms(3,2)]
  by (simp add: LoadUserFromDB_def load_users_cache user_of_row_def)

theorem LoadUserFromDB_empty_table_witness:
  "LoadUserFromDB script_api new_UserManager
     (script_manager, \<lparr>sql_log = [], answer = \<lparr>res_fields = replicate 12 ([], FIELD_TYPE_LONG), res_rows = []\<rparr>\<rparr>) =
   Inl OutOfBounds"
proof -
  let ?w = "\<lparr>sql_log = [], answer = \<lparr>res_fields = replicate 12 ([], FIELD_TYPE_LONG), res_rows = []\<rparr>\<rparr>"
  obtain q where q: "new_QueryResult (Some (answer ?w)) 0 12 = Inr q"
    by (simp add: new_QueryResult_def mysql_fetch_row_def Let_def)
  then have "Query script_api sql (script_manager, ?w) = Inr (Some q, script_manager, ?w\<lparr>sql_log := [sql]\<rparr>)" for sql
    by (simp add: Query_def tool_Query_def fetch_result_def script_api_def script_manager_def with_tool_def)
  from LoadUserFromDB_empty_table [OF this q] show ?thesis by simp
qed

text \<open>After a restart with a group in the table, new users get group ids: the loader raises
  the user counter to the largest id of all rows, groups included.\<close>

theorem reload_confuses_ids:
  assumes "LoadUserFromDB api new_UserManager d = Inr (True, m, d1)"
    and "g \<in> user_ids m" "GROUPID_BOUBDARY < g" "m_baseUserID m < 2 ^ 31 - 1"
    and "AddUser api u m d2 = Inr (True, m', d3)"
  shows "GROUPID_BOUBDARY < userid (last (m_cachedUsers m'))"
proof -
  obtain q where "load_users q new_UserManager = Inr m"
    using assms(1) by (auto simp: LoadUserFromDB_def bind_result_eq_Inr split: option.splits)
  then obtain us where "m = foldl cache_user new_UserManager us"
    using load_users_foldl by blast
  then have "g \<le> m_baseUserID m"
    using foldl_cache_base [of new_UserManager us] assms(2) by simp
  moreover have "wrap32 (m_baseUserID m + 1) = m_baseUserID m + 1"
    using calculation assms(3,4) by (intro wrap32_id) (simp add: is_int32_def GROUPID_BOUBDARY_def)
  ultimately show ?thesis
    using AddUser_result [OF assms(5)] assms(3) by simp
qed

theorem reload_confuses_ids_witness:
  "\<exists>m m' d1 d3. LoadUserFromDB script_api new_UserManager (script_manager, users_db) = Inr (True, m, d1) \<and>
     AddUser script_api new_User m (script_manager, users_db) = Inr (True, m', d3) \<and>
     GROUPID_BOUBDARY < userid (last (m_cachedUsers m'))"
proof -
  obtain q d1 where q: "Query script_api (lit ''SELECT f_user_id,f_username,f_nickname,f_password,f_facetype,f_customface,f_gender,f_birthday,f_signature,f_address,f_phonenumber,f_mail FROM t_user ORDER BY f_user_id DESC;'')
      (script_manager, users_db) = Inr (Some q, d1)"
    "at_row 12 (user_row 268435456 (lit ''group'')) [user_row 7 (lit ''alice'')] q"
    using users_db_shape by (rule script_Query)
  let ?m = "foldl cache_user new_UserManager (map user_of_cells
    [user_row 268435456 (lit ''group''), user_row 7 (lit ''alice'')])"
  have "\<forall>r \<in> set [user_row 7 (lit ''alice'')]. length r = 12" by (simp add: cell_user_row)
  note load = LoadUserFromDB_load [OF q this, of new_UserManager]
  moreover have "268435456 \<in> user_ids ?m" "m_baseUserID ?m < 2 ^ 31 - 1"
    by (simp_all add: foldl_cache_user cache_user_def user_ids_def new_UserManager_def user_row_id is_int32_def)
  moreover obtain m' d3 where "AddUser script_api new_User ?m (script_manager, users_db) = Inr (True, m', d3)"
    by (rule script_AddUser [of new_User ?m users_db]) blast
  ultimately show ?thesis
    using reload_confuses_ids [of script_api "(script_manager, users_db)" ?m d1 268435456]
    by (fastforce simp: GROUPID_BOUBDARY_def)
qed

text \<open>Registration and lookup by name. After a successful \<open>AddUser\<close> a lookup of the name
  yields the new user with the next id, unless an older user has the same name: then the older
  one is found, and the new account cannot be logged into.\<close>

theorem AddUser_lookup:
  assumes "AddUser api u m d = Inr (True, m', d')" "username u = name"
  shows "GetUserInfoByUsername name m' =
    (case GetUserInfoByUsername name m of
       Some old \<Rightarrow> Some old
     | None \<Rightarrow> Some (u\<lparr>userid := wrap32 (m_baseUserID m + 1), facetype := 0, birthday := 20000101,
         gender := 0, ownerid := 0\<rparr>))"
  using AddUser_result [OF assms(1)] assms(2)
  by (simp add: GetUserInfoByUsername_def find_append split: option.split)

theorem AddUser_lookup_witness:
  "\<exists>m' d'. AddUser script_api (new_User\<lparr>username := lit ''bob''\<rparr>) three_users (script_manager, users_db) = Inr (True, m', d') \<and>
     map_option userid (GetUserInfoByUsername (lit ''bob'') m') = Some 4"
proof -
  obtain m' d' where add: "AddUser script_api (new_User\<lparr>username := lit ''bob''\<rparr>) three_users (script_manager, users_db) =
      Inr (True, m', d')"
    by (rule script_AddUser [of "new_User\<lparr>username := lit ''bob''\<rparr>" three_users users_db]) blast
  have "GetUserInfoByUsername (lit ''bob'') three_users = None" "m_baseUserID three_users = 3"
    by code_simp+
  with AddUser_lookup [OF add, of "lit ''bob''"] add show ?thesis
    by (simp add: is_int32_def)
qed

text \<open>A successful password change is visible for exactly that user: the user then has the new
  password and is otherwise unchanged, and every other user is found as before.\<close>

theorem ModifyUserPassword_lookup:
  assumes "ModifyUserPassword api uid pw m d = Inr (True, m', d')"
  shows "GetUserInfoByUserId i m' =
    (if i = uid then map_option (\<lambda>u. u\<lparr>password := pw\<rparr>) (GetUserInfoByUserId i m)
     else GetUserInfoByUserId i m) \<and> GetUserInfoByUserId uid m \<noteq> None"
  using assms update_user_spec(2) [of "\<lambda>u. u\<lparr>password := pw\<rparr>" i uid "m_cachedUsers m"]
    update_user_spec(1) [of uid "\<lambda>u. u\<lparr>password := pw\<rparr>" "m_cachedUsers m"]
  by (auto simp: ModifyUserPassword_def GetUserInfoByUserId_def bind_result_eq_Inr Let_def split_def
      find_None_iff split: if_splits)

theorem ModifyUserPassword_lookup_witness:
  "\<exists>m' d'. ModifyUserPassword script_api 1 (lit ''new'') three_users (script_manager, users_db) = Inr (True, m', d') \<and>
     map_option password (GetUserInfoByUserId 1 m') = Some (lit ''new'')"
proof -
  let ?m = "three_users\<lparr>m_cachedUsers := snd (update_user 1 (\<lambda>u. u\<lparr>password := lit ''new''\<rparr>) (m_cachedUsers three_users))\<rparr>"
  have "fst (update_user 1 (\<lambda>u. u\<lparr>password := lit ''new''\<rparr>) (m_cachedUsers three_users))"
    by code_simp
  then obtain d' where change: "ModifyUserPassword script_api 1 (lit ''new'') three_users (script_manager, users_db) = Inr (True, ?m, d')"
    by (simp add: ModifyUserPassword_def script_Excute Let_def split_def)
  have "map_option userid (GetUserInfoByUserId 1 three_users) = Some 1"
    by code_simp
  with ModifyUserPassword_lookup [OF change, of 1] change show ?thesis
    by (auto simp: option.map_comp comp_def)
qed

text \<open>The friend list of a user consists of exactly the known friends, each once, in
  ascending order of their ids; ids without a cached user are left out silently.\<close>

theorem GetFriendInfo_ids:
  "map userid (GetFriendInfoByUserId uid m) =
     (case GetUserInfoByUserId uid m of None \<Rightarrow> []
      | Some u \<Rightarrow> filter (\<lambda>i. i \<in> user_ids m) (sorted_list_of_set (friends u)))"
  by (rule friend_info_ids)

text \<open>The statement of \<open>AddGroup\<close> names a column that the schema does not have: for a group
  name that fits the buffer the statement sets \<open>f_owner_id\<close>, and \<open>t_user\<close> has no such column.\<close>

theorem AddGroup_unknown_column:
  "omap_find (lit ''f_owner_id'') (mapField t_user_info) = None \<and>
   (\<exists>pre post. group_sql gid groupname owner = pre @ lit ''f_owner_id'' @ post)"
proof
  show "omap_find (lit ''f_owner_id'') (mapField t_user_info) = None"
    by (simp add: t_user_info_def fill_fields_def lit_def omap_find_def)
  have "lit ''INSERT INTO t_user(f_user_id, f_username, f_nickname, f_password, f_owner_id, f_register_time) VALUES('' =
      lit ''INSERT INTO t_user(f_user_id, f_username, f_nickname, f_password, '' @ lit ''f_owner_id'' @
      lit '', f_register_time) VALUES(''"
    by (simp add: lit_def)
  moreover have "length (lit ''INSERT INTO t_user(f_user_id, f_username, f_nickname, f_password, '' @ lit ''f_owner_id'') \<le> 255"
    by (simp add: lit_def)
  ultimately show "\<exists>pre post. group_sql gid groupname owner = pre @ lit ''f_owner_id'' @ post"
    unfolding group_sql_def snprintf_def
    using take_keeps_prefix [of "lit ''INSERT INTO t_user(f_user_id, f_username, f_nickname, f_password, ''"
      "lit ''f_owner_id''" "256 - 1"]
    by (simp only: append_assoc) force
qed

end
