(* ===== verification/Json.thy ===== *)
theory Json
  imports Decimal Ordered_Map "HOL-Library.Log_Nat" Complex_Main
begin

section \<open>JSON values and text\<close>

text \<open>
  The part of \<open>newJson/jsoncpp.cpp\<close> the chat server uses: \<open>Json::Value\<close>, \<open>Json::Reader::parse\<close>
  with the default features, and \<open>Value::toStyledString\<close> with the default stream writer.
  Objects are \<open>std::map\<close>s from keys to values; arrays are only extended at the end and are lists.
  Comments are kept for the root value, the only one whose comments can appear in a reply;
  source offsets and error messages, which the server never reads, are left out.
\<close>

subsection \<open>Values\<close>

text \<open>\<open>JReal neg x\<close> is the finite double with sign \<open>neg\<close> and magnitude \<open>x\<close>, \<open>JInf neg\<close> an
  infinity.\<close>

datatype JValue =
    JNull
  | JInt int
  | JUInt int
  | JReal bool rat
  | JInf bool
  | JString bytes
  | JBool bool
  | JArray "JValue list"
  | JObject "(bytes \<times> JValue) list"

definition minInt :: int where "minInt = - (2 ^ 31)"
definition maxInt :: int where "maxInt = 2 ^ 31 - 1"

definition real_value :: "bool \<Rightarrow> rat \<Rightarrow> rat" where
  "real_value neg x = (if neg then - x else x)"

fun isInt :: "JValue \<Rightarrow> bool" where
  "isInt (JInt i) = (minInt \<le> i \<and> i \<le> maxInt)"
| "isInt (JUInt u) = (u \<le> maxInt)"
| "isInt (JReal neg x) =
     (of_int minInt \<le> real_value neg x \<and> real_value neg x \<le> of_int maxInt \<and> x = of_int \<lfloor>x\<rfloor>)"
| "isInt v = False"

fun isString :: "JValue \<Rightarrow> bool" where
  "isString (JString s) = True"
| "isString v = False"

fun isArray :: "JValue \<Rightarrow> bool" where
  "isArray (JArray vs) = True"
| "isArray v = False"

text \<open>A conversion from \<open>double\<close> to \<open>Int\<close> truncates towards zero.\<close>

fun asInt :: "JValue \<Rightarrow> int result" where
  "asInt (JInt i) = (if isInt (JInt i) then Inr i else Inl JsonLogicError)"
| "asInt (JUInt u) = (if isInt (JUInt u) then Inr u else Inl JsonLogicError)"
| "asInt (JReal neg x) =
     (if of_int minInt \<le> real_value neg x \<and> real_value neg x \<le> of_int maxInt
      then Inr (if neg then - \<lfloor>x\<rfloor> else \<lfloor>x\<rfloor>) else Inl JsonLogicError)"
| "asInt JNull = Inr 0"
| "asInt (JBool b) = Inr (if b then 1 else 0)"
| "asInt v = Inl JsonLogicError"

fun json_size :: "JValue \<Rightarrow> nat" where
  "json_size (JArray vs) = length vs"
| "json_size (JObject m) = length m"
| "json_size v = 0"

text \<open>Reading \<open>value[key]\<close> on a value that is not constant: a missing member appears as null (the
  null member that is inserted is never seen again), anything but null or an object throws.\<close>

fun member :: "bytes \<Rightarrow> JValue \<Rightarrow> JValue result" where
  "member k JNull = Inr JNull"
| "member k (JObject m) = Inr (case omap_find k m of None \<Rightarrow> JNull | Some v \<Rightarrow> v)"
| "member k v = Inl JsonLogicError"

text \<open>\<open>value[key] = v\<close> and \<open>value.append(v)\<close>.\<close>

fun set_member :: "bytes \<Rightarrow> JValue \<Rightarrow> JValue \<Rightarrow> JValue result" where
  "set_member k v JNull = Inr (JObject [(k, v)])"
| "set_member k v (JObject m) = Inr (JObject (omap_assign k v m))"
| "set_member k v w = Inl JsonLogicError"

fun json_append :: "JValue \<Rightarrow> JValue \<Rightarrow> JValue result" where
  "json_append v JNull = Inr (JArray [v])"
| "json_append v (JArray vs) = Inr (JArray (vs @ [v]))"
| "json_append v w = Inl JsonLogicError"

text \<open>\<open>value.clear()\<close> keeps the kind of an array or object.\<close>

fun json_clear :: "JValue \<Rightarrow> JValue result" where
  "json_clear JNull = Inr JNull"
| "json_clear (JArray vs) = Inr (JArray [])"
| "json_clear (JObject m) = Inr (JObject [])"
| "json_clear v = Inl JsonLogicError"

text \<open>A sequence of assignments to members.\<close>

fun set_members :: "(bytes \<times> JValue) list \<Rightarrow> JValue \<Rightarrow> JValue result" where
  "set_members [] v = Inr v"
| "set_members ((k, x) # kvs) v = bind_result (set_member k x v) (set_members kvs)"

record JsonDoc =
  doc_root :: JValue
  commentBefore :: bytes
  commentAfterOnSameLine :: bytes
  commentAfter :: bytes

definition plain_doc :: "JValue \<Rightarrow> JsonDoc" where
  "plain_doc v = \<lparr>doc_root = v, commentBefore = [], commentAfterOnSameLine = [], commentAfter = []\<rparr>"

definition setComment :: "bytes \<Rightarrow> bytes" where
  "setComment c = (if c \<noteq> [] \<and> last c = 10 then butlast c else c)"

subsection \<open>Unicode\<close>

definition codePointToUTF8 :: "32 word \<Rightarrow> bytes" where
  "codePointToUTF8 cp =
     (if cp \<le> 0x7f then [ucast cp]
      else if cp \<le> 0x7FF then
        [ucast (0xC0 OR (0x1f AND drop_bit 6 cp)), ucast (0x80 OR (0x3f AND cp))]
      else if cp \<le> 0xFFFF then
        [ucast (0xE0 OR (0xf AND drop_bit 12 cp)), ucast (0x80 OR (0x3f AND drop_bit 6 cp)),
         ucast (0x80 OR (0x3f AND cp))]
      else if cp \<le> 0x10FFFF then
        [ucast (0xF0 OR (0x7 AND drop_bit 18 cp)), ucast (0x80 OR (0x3f AND drop_bit 12 cp)),
         ucast (0x80 OR (0x3f AND drop_bit 6 cp)), ucast (0x80 OR (0x3f AND cp))]
      else [])"

text \<open>\<open>utf8ToCodepoint\<close> returns the code point and the number of bytes it takes.\<close>

definition REPLACEMENT_CHARACTER :: "32 word" where
  "REPLACEMENT_CHARACTER = 0xFFFD"

definition utf8ToCodepoint :: "bytes \<Rightarrow> 32 word \<times> nat" where
  "utf8ToCodepoint s =
     (let firstByte = (ucast (s ! 0) :: 32 word); b = (\<lambda>i. ucast (s ! i) AND (0x3F :: 32 word))
      in if firstByte < 0x80 then (firstByte, 1)
         else if firstByte < 0xE0 then
           (if length s < 2 then (REPLACEMENT_CHARACTER, 1)
            else let c = push_bit 6 (firstByte AND 0x1F) OR b 1
                 in (if c < 0x80 then REPLACEMENT_CHARACTER else c, 2))
         else if firstByte < 0xF0 then
           (if length s < 3 then (REPLACEMENT_CHARACTER, 1)
            else let c = push_bit 12 (firstByte AND 0x0F) OR push_bit 6 (b 1) OR b 2
                 in (if 0xD800 \<le> c \<and> c \<le> 0xDFFF then REPLACEMENT_CHARACTER
                     else if c < 0x800 then REPLACEMENT_CHARACTER else c, 3))
         else if firstByte < 0xF8 then
           (if length s < 4 then (REPLACEMENT_CHARACTER, 1)
            else let c = push_bit 18 (firstByte AND 0x07) OR push_bit 12 (b 1) OR push_bit 6 (b 2) OR b 3
                 in (if c < 0x10000 then REPLACEMENT_CHARACTER else c, 4))
         else (REPLACEMENT_CHARACTER, 1))"

lemma utf8ToCodepoint_pos: "0 < snd (utf8ToCodepoint s)"
  by (simp add: utf8ToCodepoint_def Let_def)

subsection \<open>Writing strings and numbers\<close>

definition hex_digit :: "32 word \<Rightarrow> byte" where
  "hex_digit d = (if d < 10 then 48 + ucast d else 87 + ucast d)"

definition toHex16Bit :: "32 word \<Rightarrow> bytes" where
  "toHex16Bit x =
     (let hi = drop_bit 8 x AND 0xff; lo = x AND 0xff
      in [hex_digit (drop_bit 4 hi), hex_digit (hi AND 0xf), hex_digit (drop_bit 4 lo), hex_digit (lo AND 0xf)])"

definition appendHex :: "32 word \<Rightarrow> bytes" where
  "appendHex ch = [92, 117] @ toHex16Bit ch"

definition doesAnyCharRequireEscaping :: "bytes \<Rightarrow> bool" where
  "doesAnyCharRequireEscaping s \<longleftrightarrow> (\<exists>c \<in> set s. c = 92 \<or> c = 34 \<or> c < 0x20 \<or> c > 0x7F)"

definition escape_codepoint :: "32 word \<Rightarrow> bytes" where
  "escape_codepoint cp =
     (if cp < 0x20 then appendHex cp
      else if cp < 0x80 then [ucast cp]
      else if cp < 0x10000 then appendHex cp
      else let c = cp - 0x10000
           in appendHex (0xd800 + (drop_bit 10 c AND 0x3ff)) @ appendHex (0xdc00 + (c AND 0x3ff)))"

function escape_chars :: "bytes \<Rightarrow> bytes" where
  "escape_chars [] = []"
| "escape_chars (c # cs) =
     (if c = 34 then [92, 34] @ escape_chars cs
      else if c = 92 then [92, 92] @ escape_chars cs
      else if c = 8 then [92, 98] @ escape_chars cs
      else if c = 12 then [92, 102] @ escape_chars cs
      else if c = 10 then [92, 110] @ escape_chars cs
      else if c = 13 then [92, 114] @ escape_chars cs
      else if c = 9 then [92, 116] @ escape_chars cs
      else let (cp, n) = utf8ToCodepoint (c # cs)
           in escape_codepoint cp @ escape_chars (drop n (c # cs)))"
  by pat_completeness auto
termination
proof (relation "measure length", goal_cases)
  case (9 c cs x cp n)
  then have "snd (utf8ToCodepoint (c # cs)) = n"
    by (metis snd_conv)
  then show ?case
    using utf8ToCodepoint_pos [of "c # cs"] by (cases n) auto
qed auto

definition valueToQuotedStringN :: "bytes \<Rightarrow> bytes" where
  "valueToQuotedStringN s =
     (if \<not> doesAnyCharRequireEscaping s then [34] @ s @ [34] else [34] @ escape_chars s @ [34])"

text \<open>Doubles. \<open>round_double\<close> is the nearest double of a magnitude, ties to even, with the
  subnormal range; \<open>None\<close> on overflow. \<open>g17\<close> is \<open>printf("%.17g")\<close>.\<close>

definition round_half_even :: "rat \<Rightarrow> int" where
  "round_half_even x =
     (let f = \<lfloor>x\<rfloor>; d = x - of_int f
      in if d < 1 / 2 then f else if d > 1 / 2 then f + 1 else if even f then f else f + 1)"

definition pow_int :: "rat \<Rightarrow> int \<Rightarrow> rat" where
  "pow_int b e = (if e < 0 then inverse (b ^ nat (- e)) else b ^ nat e)"

definition flog2 :: "rat \<Rightarrow> int" where
  "flog2 x =
     (let (a, b) = quotient_of x; k = int (floorlog 2 (nat a)) - int (floorlog 2 (nat b))
      in if pow_int 2 k \<le> x then k else k - 1)"

definition round_double :: "rat \<Rightarrow> rat option" where
  "round_double x =
     (if x = 0 then Some 0
      else let e = max (- 1074) (flog2 x - 52);
               y = of_int (round_half_even (x / pow_int 2 e)) * pow_int 2 e
           in if y \<ge> 2 ^ 1024 then None else Some y)"

definition flog10 :: "rat \<Rightarrow> int" where
  "flog10 x =
     (let (a, b) = quotient_of x;
          k = int (length (dec_digits (nat a))) - int (length (dec_digits (nat b)))
      in if pow_int 10 k \<le> x then k else k - 1)"

definition strip_zeros :: "bytes \<Rightarrow> bytes" where
  "strip_zeros s = rev (dropWhile (\<lambda>c. c = 48) (rev s))"

definition with_fraction :: "bytes \<Rightarrow> bytes \<Rightarrow> bytes" where
  "with_fraction ip fp = (if strip_zeros fp = [] then ip else ip @ [46] @ strip_zeros fp)"

definition g17 :: "rat \<Rightarrow> bytes" where
  "g17 x =
     (if x = 0 then [48]
      else
        let e0 = flog10 x; m0 = round_half_even (x * pow_int 10 (16 - e0));
            (e, m) = (if m0 = 10 ^ 17 then (e0 + 1, 10 ^ 16) else (e0, m0));
            ds = dec_digits (nat m)
        in if e < - 4 \<or> e \<ge> 17 then
             with_fraction (take 1 ds) (drop 1 ds) @ [101, if e < 0 then 45 else 43] @
               (if abs e < 10 then [48] else []) @ dec_digits (nat (abs e))
           else if e < 0 then with_fraction [48] (replicate (nat (- e - 1)) 48 @ ds)
           else with_fraction (take (nat e + 1) ds) (drop (nat e + 1) ds))"

definition valueToString_double :: "bool \<Rightarrow> rat \<Rightarrow> bytes" where
  "valueToString_double neg x =
     (let buffer = (if neg then [45] else []) @ g17 x
      in if 46 \<notin> set buffer \<and> 101 \<notin> set buffer then buffer @ [46, 48] else buffer)"

subsection \<open>The styled writer\<close>

text \<open>\<open>write_value n indented v\<close> is what \<open>BuiltStyledStreamWriter::writeValue\<close> puts out at
  indentation \<open>n\<close> (in tabs) and the flag \<open>indented_\<close> afterwards; \<open>CommentStyle::All\<close> makes every
  non-empty array a multi-line one.\<close>

definition writeIndent :: "nat \<Rightarrow> bytes" where
  "writeIndent n = [10] @ replicate n 9"

definition writeWithIndent :: "nat \<Rightarrow> bool \<Rightarrow> bytes \<Rightarrow> bytes" where
  "writeWithIndent n indented s = (if indented then [] else writeIndent n) @ s"

fun write_value :: "nat \<Rightarrow> bool \<Rightarrow> JValue \<Rightarrow> bytes \<times> bool"
  and write_members :: "nat \<Rightarrow> (bytes \<times> JValue) list \<Rightarrow> bytes"
  and write_items :: "nat \<Rightarrow> JValue list \<Rightarrow> bytes" where
  "write_value n indented JNull = (lit ''null'', indented)"
| "write_value n indented (JInt i) = (show_int i, indented)"
| "write_value n indented (JUInt u) = (show_int u, indented)"
| "write_value n indented (JReal neg x) = (valueToString_double neg x, indented)"
| "write_value n indented (JInf neg) = (if neg then lit ''-1e+9999'' else lit ''1e+9999'', indented)"
| "write_value n indented (JString s) = (valueToQuotedStringN s, indented)"
| "write_value n indented (JBool b) = (if b then lit ''true'' else lit ''false'', indented)"
| "write_value n indented (JArray vs) =
     (if vs = [] then (lit ''[]'', indented)
      else (writeWithIndent n indented [91] @ write_items (Suc n) vs @ writeWithIndent n False [93], False))"
| "write_value n indented (JObject m) =
     (if m = [] then (lit ''{}'', indented)
      else (writeWithIndent n indented [123] @ write_members (Suc n) m @ writeWithIndent n False [125], False))"
| "write_members n [] = []"
| "write_members n ((k, v) # m) =
     writeWithIndent n False (valueToQuotedStringN k) @ lit '' : '' @ fst (write_value n False v) @
     (if m = [] then [] else lit '','') @ write_members n m"
| "write_items n [] = []"
| "write_items n (v # vs) =
     writeIndent n @ fst (write_value n True v) @ (if vs = [] then [] else lit '','') @ write_items n vs"

definition write_doc :: "JsonDoc \<Rightarrow> bytes" where
  "write_doc d =
     (let cb = commentBefore d
      in cb @ (if cb = [] then [] else writeIndent 0) @ fst (write_value 0 True (doc_root d)) @
         (if commentAfterOnSameLine d = [] then [] else [32] @ commentAfterOnSameLine d) @
         (if commentAfter d = [] then [] else writeIndent 0 @ commentAfter d))"

definition toStyledString_doc :: "JsonDoc \<Rightarrow> bytes" where
  "toStyledString_doc d = (if commentBefore d = [] then [] else [10]) @ write_doc d @ [10]"

definition toStyledString :: "JValue \<Rightarrow> bytes" where
  "toStyledString v = toStyledString_doc (plain_doc v)"

text \<open>\<open>asString\<close> needs the number formats above.\<close>

fun asString :: "JValue \<Rightarrow> bytes result" where
  "asString JNull = Inr []"
| "asString (JString s) = Inr s"
| "asString (JBool b) = Inr (if b then lit ''true'' else lit ''false'')"
| "asString (JInt i) = Inr (show_int i)"
| "asString (JUInt u) = Inr (show_int u)"
| "asString (JReal neg x) = Inr (valueToString_double neg x)"
| "asString (JInf neg) = Inr (if neg then lit ''-1e+9999'' else lit ''1e+9999'')"
| "asString v = Inl JsonLogicError"

subsection \<open>Access by key\<close>

definition get_str :: "bytes \<Rightarrow> JValue \<Rightarrow> bytes result" where
  "get_str k v = bind_result (member k v) asString"

definition get_int :: "bytes \<Rightarrow> JValue \<Rightarrow> int result" where
  "get_int k v = bind_result (member k v) asInt"

text \<open>\<open>!v[k1].is1() || !v[k2].is2() || ...\<close>, negated.\<close>

fun check_members :: "(bytes \<times> (JValue \<Rightarrow> bool)) list \<Rightarrow> JValue \<Rightarrow> bool result" where
  "check_members [] v = Inr True"
| "check_members ((k, p) # ks) v =
     bind_result (member k v) (\<lambda>x. if p x then check_members ks v else Inr False)"

text \<open>\<open>v[k].append(x)\<close>.\<close>

definition append_member :: "bytes \<Rightarrow> JValue \<Rightarrow> JValue \<Rightarrow> JValue result" where
  "append_member k x v =
     bind_result (member k v) (\<lambda>a. bind_result (json_append x a) (\<lambda>a'. set_member k a' v))"

fun append_members :: "bytes \<Rightarrow> JValue list \<Rightarrow> JValue \<Rightarrow> JValue result" where
  "append_members k [] v = Inr v"
| "append_members k (x # xs) v = bind_result (append_member k x v) (append_members k xs)"

lemma set_members_object:
  "set_members kvs (JObject m) = Inr (JObject (foldl (\<lambda>m (k, v). omap_assign k v m) m kvs))"
  by (induction kvs arbitrary: m) auto

lemma set_members_null:
  "kvs \<noteq> [] \<Longrightarrow> set_members kvs JNull = Inr (JObject (foldl (\<lambda>m (k, v). omap_assign k v m) [] kvs))"
  by (cases kvs) (auto simp: set_members_object)

lemma append_members_object:
  "xs \<noteq> [] \<Longrightarrow> omap_find k m = None \<Longrightarrow>
     append_members k xs (JObject m) = Inr (JObject (omap_assign k (JArray xs) m))"
proof -
  have again: "omap_assign k (JArray ys) (omap_assign k x m) = omap_assign k (JArray ys) m" for ys x
    by (induction k x m rule: omap_assign.induct) auto
  have "append_members k xs (JObject (omap_assign k (JArray ys) m)) =
      Inr (JObject (omap_assign k (JArray (ys @ xs)) m))" for xs ys
    by (induction xs arbitrary: ys)
      (simp_all add: append_member_def omap_find_assign again)
  then show "xs \<noteq> [] \<Longrightarrow> omap_find k m = None \<Longrightarrow> ?thesis"
    by (cases xs) (simp_all add: append_member_def)
qed

end
