(* ===== verification/Json_Reader.thy ===== *)
theory Json_Reader
  imports Json
begin

section \<open>Parsing JSON text\<close>

text \<open>
  \<open>Json::Reader\<close> of \<open>newJson/jsoncpp.cpp\<close> with \<open>Features::all()\<close> (comments allowed, any root,
  no dropped nulls, no numeric keys). The state is the input from \<open>current_\<close> on and the comment
  bookkeeping. \<open>readValue\<close> and the loops of \<open>readObject\<close> and \<open>readArray\<close> call each other; the
  model gives them fuel, and a theorem below shows that the fuel \<open>parse\<close> provides is enough.
\<close>

subsection \<open>State and tokens\<close>

datatype TokenType =
    tokenEndOfStream | tokenObjectBegin | tokenObjectEnd | tokenArrayBegin | tokenArrayEnd
  | tokenString | tokenNumber | tokenTrue | tokenFalse | tokenNull | tokenArraySeparator
  | tokenMemberSeparator | tokenComment | tokenError

text \<open>\<open>lastEnd\<close> is the input that was left at \<open>lastValueEnd_\<close>, \<open>lastIsRoot\<close> whether
  \<open>lastValue_\<close> is the root value.\<close>

record rstate =
  cur :: bytes
  commentsBefore :: bytes
  lastEnd :: "bytes option"
  lastIsRoot :: bool
  rootBefore :: bytes
  rootSameLine :: bytes

definition start_state :: "bytes \<Rightarrow> rstate" where
  "start_state doc = \<lparr>cur = doc, commentsBefore = [], lastEnd = None, lastIsRoot = False,
     rootBefore = [], rootSameLine = []\<rparr>"

text \<open>The input consumed between two positions.\<close>

definition between :: "bytes \<Rightarrow> bytes \<Rightarrow> bytes" where
  "between start rest = take (length start - length rest) start"

definition containsNewLine :: "bytes \<Rightarrow> bool" where
  "containsNewLine s \<longleftrightarrow> 10 \<in> set s \<or> 13 \<in> set s"

fun normalizeEOL :: "bytes \<Rightarrow> bytes" where
  "normalizeEOL [] = []"
| "normalizeEOL (c # cs) =
     (if c = 13 then
        (case cs of
           [] \<Rightarrow> [10]
         | d # ds \<Rightarrow> 10 # normalizeEOL (if d = 10 then ds else cs))
      else c # normalizeEOL cs)"

definition skipSpaces :: "bytes \<Rightarrow> bytes" where
  "skipSpaces s = dropWhile (\<lambda>c. c = 32 \<or> c = 9 \<or> c = 13 \<or> c = 10) s"

definition match_pattern :: "bytes \<Rightarrow> bytes \<Rightarrow> bool \<times> bytes" where
  "match_pattern pat s =
     (if take (length pat) s = pat then (True, drop (length pat) s) else (False, s))"

fun readCStyleComment :: "bytes \<Rightarrow> bool \<times> bytes" where
  "readCStyleComment (c # d # cs) =
     (if c = 42 \<and> d = 47 then (True, cs) else readCStyleComment (d # cs))"
| "readCStyleComment [c] = (c = 47, [])"
| "readCStyleComment [] = (False, [])"

fun readCppStyleComment :: "bytes \<Rightarrow> bytes" where
  "readCppStyleComment [] = []"
| "readCppStyleComment (c # cs) =
     (if c = 10 then cs
      else if c = 13 then (case cs of [] \<Rightarrow> [] | d # ds \<Rightarrow> if d = 10 then ds else cs)
      else readCppStyleComment cs)"

definition addComment :: "bytes \<Rightarrow> bool \<Rightarrow> rstate \<Rightarrow> rstate" where
  "addComment text sameLine st =
     (let normalized = normalizeEOL text
      in if sameLine
         then (if lastIsRoot st then st\<lparr>rootSameLine := setComment normalized\<rparr> else st)
         else st\<lparr>commentsBefore := commentsBefore st @ normalized\<rparr>)"

text \<open>\<open>readComment\<close>: \<open>start\<close> is the input at the slash, \<open>s\<close> the input behind it.\<close>

definition readComment :: "bytes \<Rightarrow> bytes \<Rightarrow> rstate \<Rightarrow> bool \<times> rstate" where
  "readComment start s st =
     (let c = (case s of [] \<Rightarrow> 0 | c # _ \<Rightarrow> c); s1 = drop 1 s;
          (ok, s2) = (if c = 42 then readCStyleComment s1
                      else if c = 47 then (True, readCppStyleComment s1) else (False, s1));
          st1 = st\<lparr>cur := s2\<rparr>
      in if \<not> ok then (False, st1)
         else
           let text = between start s2;
               sameLine = (case lastEnd st of
                   None \<Rightarrow> False
                 | Some e \<Rightarrow> \<not> containsNewLine (between e start) \<and> (c \<noteq> 42 \<or> \<not> containsNewLine text))
           in (True, addComment text sameLine st1))"

definition readNumber :: "bytes \<Rightarrow> bytes" where
  "readNumber s =
     (let s1 = dropWhile is_digit s;
          s2 = (case s1 of c # cs \<Rightarrow> if c = 46 then dropWhile is_digit cs else s1 | [] \<Rightarrow> s1)
      in (case s2 of
            [] \<Rightarrow> s2
          | c # cs \<Rightarrow>
              if c = 101 \<or> c = 69
              then dropWhile is_digit (case cs of d # ds \<Rightarrow> if d = 43 \<or> d = 45 then ds else cs | [] \<Rightarrow> cs)
              else s2))"

fun readString :: "bytes \<Rightarrow> bool \<times> bytes" where
  "readString [] = (False, [])"
| "readString (c # cs) =
     (if c = 92 then (case cs of [] \<Rightarrow> (False, []) | d # ds \<Rightarrow> readString ds)
      else if c = 34 then (True, cs)
      else readString cs)"

text \<open>\<open>readToken\<close> returns the type (\<open>tokenError\<close> exactly when it returns false), the text of
  the token and the new state.\<close>

definition readToken :: "rstate \<Rightarrow> TokenType \<times> bytes \<times> rstate" where
  "readToken st =
     (let s0 = skipSpaces (cur st);
          fin = (\<lambda>ty s. (ty, between s0 s, st\<lparr>cur := s\<rparr>))
      in case s0 of
           [] \<Rightarrow> fin tokenEndOfStream []
         | c # cs \<Rightarrow>
             if c = 123 then fin tokenObjectBegin cs
             else if c = 125 then fin tokenObjectEnd cs
             else if c = 91 then fin tokenArrayBegin cs
             else if c = 93 then fin tokenArrayEnd cs
             else if c = 34 then
               (let (ok, s) = readString cs in fin (if ok then tokenString else tokenError) s)
             else if c = 47 then
               (let (ok, st1) = readComment s0 cs st
                in (if ok then tokenComment else tokenError, between s0 (cur st1), st1))
             else if is_digit c \<or> c = 45 then fin tokenNumber (readNumber cs)
             else if c = 116 then
               (let (ok, s) = match_pattern (lit ''rue'') cs in fin (if ok then tokenTrue else tokenError) s)
             else if c = 102 then
               (let (ok, s) = match_pattern (lit ''alse'') cs in fin (if ok then tokenFalse else tokenError) s)
             else if c = 110 then
               (let (ok, s) = match_pattern (lit ''ull'') cs in fin (if ok then tokenNull else tokenError) s)
             else if c = 44 then fin tokenArraySeparator cs
             else if c = 58 then fin tokenMemberSeparator cs
             else if c = 0 then fin tokenEndOfStream cs
             else fin tokenError cs)"

subsection \<open>Reading makes progress\<close>

lemma skipSpaces_le: "length (skipSpaces s) \<le> length s"
  by (simp add: skipSpaces_def length_dropWhile_le)

lemma match_le: "length (snd (match_pattern p s)) \<le> length s"
  by (simp add: match_pattern_def)

lemma cstyle_le: "length (snd (readCStyleComment s)) \<le> length s"
  by (induction s rule: readCStyleComment.induct) auto

lemma cpp_le: "length (readCppStyleComment s) \<le> length s"
proof (induction s rule: readCppStyleComment.induct)
  case (2 c cs)
  then show ?case by (cases cs) auto
qed simp

lemma readString_le: "length (snd (readString s)) \<le> length s"
proof (induction s rule: readString.induct)
  case (2 c cs)
  then show ?case by (cases cs; cases "c = 92") (auto intro: le_SucI)
qed simp

lemma readNumber_le: "length (readNumber s) \<le> length s"
proof -
  have *: "length (dropWhile is_digit t) \<le> length t" for t
    by (rule length_dropWhile_le)
  have 1: "length (case t of c # cs \<Rightarrow> if c = 46 then dropWhile is_digit cs else t | [] \<Rightarrow> t) \<le> length t" for t
    using * by (auto split: list.split intro: le_SucI)
  have 2: "length (case t of [] \<Rightarrow> t | c # cs \<Rightarrow> if c = 101 \<or> c = 69
      then dropWhile is_digit (case cs of d # ds \<Rightarrow> if d = 43 \<or> d = 45 then ds else cs | [] \<Rightarrow> cs) else t)
      \<le> length t" for t
    using * by (auto split: list.split intro: le_SucI)
  show ?thesis
    unfolding readNumber_def Let_def using * 1 2 by (meson le_trans)
qed

lemma readComment_le: "length (cur (snd (readComment start s st))) \<le> length s"
  using cstyle_le [of "drop 1 s"] cpp_le [of "drop 1 s"]
  by (auto simp: readComment_def addComment_def Let_def split_def)

lemma readToken_le:
  "readToken st = (ty, text, st') \<Longrightarrow> length (cur st') \<le> length (cur st) \<and>
     (ty \<noteq> tokenEndOfStream \<longrightarrow> length (cur st') < length (cur st))"
proof (cases "skipSpaces (cur st)")
  case Nil
  then show "readToken st = (ty, text, st') \<Longrightarrow> ?thesis"
    by (auto simp: readToken_def Let_def)
next
  case (Cons c cs)
  then have len: "length cs < length (cur st)"
    using skipSpaces_le [of "cur st"] by simp
  have sub: "length (snd (readString cs)) \<le> length cs" "length (readNumber cs) \<le> length cs"
    "length (snd (match_pattern p cs)) \<le> length cs"
    "length (cur (snd (readComment (c # cs) cs st))) \<le> length cs" for p
    by (fact readString_le readNumber_le match_le readComment_le)+
  assume "readToken st = (ty, text, st')"
  then have "length (cur st') \<le> length cs"
    using Cons sub(1,2,4) sub(3) [of "lit ''rue''"] sub(3) [of "lit ''alse''"] sub(3) [of "lit ''ull''"]
    by (auto simp: readToken_def Let_def split_def split: if_splits)
  with len show ?thesis by simp
qed

function skipCommentTokens :: "rstate \<Rightarrow> TokenType \<times> bytes \<times> rstate" where
  "skipCommentTokens st =
     (case readToken st of (ty, text, st') \<Rightarrow>
        if ty = tokenComment then skipCommentTokens st' else (ty, text, st'))"
  by pat_completeness auto
termination
  by (relation "measure (\<lambda>st. length (cur st))") (auto dest: readToken_le [OF sym])

declare skipCommentTokens.simps [simp del]

subsection \<open>Decoding tokens\<close>

definition hex_value :: "byte \<Rightarrow> nat option" where
  "hex_value c =
     (if is_digit c then Some (unat c - 48)
      else if 97 \<le> c \<and> c \<le> 102 then Some (unat c - 97 + 10)
      else if 65 \<le> c \<and> c \<le> 70 then Some (unat c - 65 + 10)
      else None)"

fun decodeUnicodeEscapeSequence :: "bytes \<Rightarrow> (32 word \<times> bytes) option" where
  "decodeUnicodeEscapeSequence (a # b # c # d # rest) =
     (case (hex_value a, hex_value b, hex_value c, hex_value d) of
        (Some w, Some x, Some y, Some z) \<Rightarrow> Some (of_nat (((w * 16 + x) * 16 + y) * 16 + z), rest)
      | _ \<Rightarrow> None)"
| "decodeUnicodeEscapeSequence s = None"

definition decodeUnicodeCodePoint :: "bytes \<Rightarrow> (32 word \<times> bytes) option" where
  "decodeUnicodeCodePoint s =
     (case decodeUnicodeEscapeSequence s of
        None \<Rightarrow> None
      | Some (u, rest) \<Rightarrow>
          if 0xD800 \<le> u \<and> u \<le> 0xDBFF then
            (if length rest < 6 then None
             else if rest ! 0 = 92 \<and> rest ! 1 = 117 then
               (case decodeUnicodeEscapeSequence (drop 2 rest) of
                  None \<Rightarrow> None
                | Some (p, rest') \<Rightarrow> Some (0x10000 + push_bit 10 (u AND 0x3FF) + (p AND 0x3FF), rest'))
             else None)
          else Some (u, rest))"

lemma decodeUnicodeEscapeSequence_less:
  "decodeUnicodeEscapeSequence s = Some (u, rest) \<Longrightarrow> length rest < length s"
  by (induction s rule: decodeUnicodeEscapeSequence.induct) (auto split: option.splits)

lemma decodeUnicodeCodePoint_less:
  "decodeUnicodeCodePoint s = Some (u, rest) \<Longrightarrow> length rest < length s"
  by (fastforce simp: decodeUnicodeCodePoint_def split: option.splits if_splits
      dest: decodeUnicodeEscapeSequence_less)

definition simple_escape :: "byte \<Rightarrow> byte option" where
  "simple_escape c =
     (if c = 34 then Some 34 else if c = 47 then Some 47 else if c = 92 then Some 92
      else if c = 98 then Some 8 else if c = 102 then Some 12 else if c = 110 then Some 10
      else if c = 114 then Some 13 else if c = 116 then Some 9 else None)"

function decode_chars :: "bytes \<Rightarrow> bytes \<Rightarrow> bytes option" where
  "decode_chars [] acc = Some acc"
| "decode_chars (c # cs) acc =
     (if c = 34 then Some acc
      else if c = 92 then
        (case cs of
           [] \<Rightarrow> None
         | e # es \<Rightarrow>
             if e = 117 then
               (case decodeUnicodeCodePoint es of
                  None \<Rightarrow> None
                | Some (u, rest) \<Rightarrow> decode_chars rest (acc @ codePointToUTF8 u))
             else (case simple_escape e of None \<Rightarrow> None | Some b \<Rightarrow> decode_chars es (acc @ [b])))
      else decode_chars cs (acc @ [c]))"
  by pat_completeness auto
termination
  by (relation "measure (\<lambda>(s, acc). length s)") (auto dest!: decodeUnicodeCodePoint_less)

definition decodeString :: "bytes \<Rightarrow> bytes option" where
  "decodeString token = decode_chars (butlast (drop 1 token)) []"

text \<open>\<open>decodeDouble\<close>: reading a \<open>double\<close> from the text of the token fails when there is no digit
  before the exponent or none in it; a value beyond the range becomes an infinity.\<close>

definition decodeDouble :: "bytes \<Rightarrow> JValue option" where
  "decodeDouble token =
     (let neg = (token \<noteq> [] \<and> hd token = 45); s = (if neg then drop 1 token else token);
          ip = takeWhile is_digit s; s1 = dropWhile is_digit s;
          (fp, s2) = (case s1 of
              c # cs \<Rightarrow> if c = 46 then (takeWhile is_digit cs, dropWhile is_digit cs) else ([], s1)
            | [] \<Rightarrow> ([], s1));
          mant = of_nat (digits_value (ip @ fp)) * pow_int 10 (- int (length fp));
          result = (\<lambda>e. case round_double (mant * pow_int 10 e) of
              None \<Rightarrow> Some (JInf neg) | Some x \<Rightarrow> Some (JReal neg x))
      in if ip @ fp = [] then None
         else (case s2 of
                 [] \<Rightarrow> result 0
               | c # cs \<Rightarrow>
                   let sign = (cs \<noteq> [] \<and> (hd cs = 43 \<or> hd cs = 45));
                       es = takeWhile is_digit (if sign then drop 1 cs else cs)
                   in if es = [] then None
                      else result (if sign \<and> hd cs = 45 then - int (digits_value es)
                                   else int (digits_value es))))"

fun decode_digits :: "int \<Rightarrow> bytes \<Rightarrow> int \<Rightarrow> int option" where
  "decode_digits mx [] v = Some v"
| "decode_digits mx (c # cs) v =
     (if \<not> is_digit c then None
      else let digit = uint c - 48
           in if v \<ge> mx div 10 \<and> (v > mx div 10 \<or> cs \<noteq> [] \<or> digit > mx mod 10) then None
              else decode_digits mx cs (v * 10 + digit))"

definition decodeNumber :: "bytes \<Rightarrow> JValue option" where
  "decodeNumber token =
     (let neg = (hd token = 45); mx = (if neg then 2 ^ 63 else 2 ^ 64 - 1)
      in case decode_digits mx (if neg then drop 1 token else token) 0 of
           None \<Rightarrow> decodeDouble token
         | Some v \<Rightarrow>
             if neg then Some (JInt (- v))
             else if v \<le> maxInt then Some (JInt v) else Some (JUInt v))"

subsection \<open>The recursive reader\<close>

text \<open>\<open>Fail\<close> is the result \<open>false\<close>, with the state the reader is left in.\<close>

datatype 'a outcome = Ok 'a | Fail rstate | Throw fault | OutOfFuel

definition stackLimit_g :: nat where
  "stackLimit_g = 1000"

text \<open>The comments collected before a value go to that value; only the root's are kept. Behind a
  value, the position is recorded.\<close>

definition take_comments :: "nat \<Rightarrow> rstate \<Rightarrow> rstate" where
  "take_comments depth st =
     (if commentsBefore st = [] then st
      else (if depth = 1 then st\<lparr>rootBefore := setComment (commentsBefore st), commentsBefore := []\<rparr>
            else st\<lparr>commentsBefore := []\<rparr>))"

definition end_state :: "nat \<Rightarrow> rstate \<Rightarrow> rstate" where
  "end_state depth st = st\<lparr>lastEnd := Some (cur st), lastIsRoot := (depth = 1)\<rparr>"

definition value_end :: "nat \<Rightarrow> JValue \<Rightarrow> rstate \<Rightarrow> (JValue \<times> rstate) outcome" where
  "value_end depth v st = Ok (v, end_state depth st)"

definition of_decoded :: "nat \<Rightarrow> JValue option \<Rightarrow> rstate \<Rightarrow> (JValue \<times> rstate) outcome" where
  "of_decoded depth v st = (case v of None \<Rightarrow> Fail (end_state depth st) | Some v \<Rightarrow> value_end depth v st)"

fun bind_outcome :: "'a outcome \<Rightarrow> ('a \<Rightarrow> 'b outcome) \<Rightarrow> 'b outcome" where
  "bind_outcome (Ok a) f = f a"
| "bind_outcome (Fail st) f = Fail st"
| "bind_outcome (Throw e) f = Throw e"
| "bind_outcome OutOfFuel f = OutOfFuel"

lemma bind_outcome_cong [fundef_cong]:
  "x = y \<Longrightarrow> (\<And>a. y = Ok a \<Longrightarrow> f a = g a) \<Longrightarrow> bind_outcome x f = bind_outcome y g"
  by (cases y) auto

text \<open>What the caller does when a call has returned \<open>false\<close>.\<close>

fun on_fail :: "'a outcome \<Rightarrow> (rstate \<Rightarrow> 'a outcome) \<Rightarrow> 'a outcome" where
  "on_fail (Fail st) r = r st"
| "on_fail (Ok a) r = Ok a"
| "on_fail (Throw e) r = Throw e"
| "on_fail OutOfFuel r = OutOfFuel"

text \<open>\<open>recoverFromError\<close> reads tokens, bad ones too, until the one it looks for or the end of the text, and returns \<open>false\<close>.
  The enclosing objects and arrays recover in turn, each from where the inner one has stopped.\<close>

fun recoverFromError :: "TokenType \<Rightarrow> nat \<Rightarrow> rstate \<Rightarrow> 'a outcome" where
  "recoverFromError skipUntilToken 0 st = OutOfFuel"
| "recoverFromError skipUntilToken (Suc n) st =
     (case readToken st of (ty, text, st') \<Rightarrow>
        if ty = skipUntilToken \<or> ty = tokenEndOfStream then Fail st' else recoverFromError skipUntilToken n st')"

text \<open>The end of \<open>readValue\<close>, whether \<open>readObject\<close> or \<open>readArray\<close> has succeeded or not.\<close>

definition finish_value :: "nat \<Rightarrow> (JValue \<times> rstate) outcome \<Rightarrow> (JValue \<times> rstate) outcome" where
  "finish_value depth x = bind_outcome (on_fail x (\<lambda>st. Fail (end_state depth st))) (\<lambda>(v, st). value_end depth v st)"

text \<open>\<open>readObject\<close> after its opening brace: \<open>name\<close> is the name of the previous member. A comment
  between a value and what follows it is skipped together with other comments; whatever token
  comes then is taken for a separator unless it closes the object.\<close>

fun readValue :: "nat \<Rightarrow> nat \<Rightarrow> rstate \<Rightarrow> (JValue \<times> rstate) outcome"
  and readObject :: "nat \<Rightarrow> nat \<Rightarrow> bytes \<Rightarrow> (bytes, JValue) omap \<Rightarrow> rstate \<Rightarrow> (JValue \<times> rstate) outcome"
  and readArray :: "nat \<Rightarrow> nat \<Rightarrow> JValue list \<Rightarrow> rstate \<Rightarrow> (JValue \<times> rstate) outcome" where
  "readValue 0 depth st = OutOfFuel"
| "readValue (Suc n) depth st =
     (if depth > stackLimit_g then Throw JsonRuntimeError
      else (case skipCommentTokens st of (ty, text, st0) \<Rightarrow>
        let st1 = take_comments depth st0
        in if ty = tokenObjectBegin then
             finish_value depth (readObject n depth [] [] st1)
           else if ty = tokenArrayBegin then
             (case skipSpaces (cur st1) of
                c # cs \<Rightarrow>
                  if c = 93 then value_end depth (JArray []) (st1\<lparr>cur := cs\<rparr>)
                  else finish_value depth (readArray n depth [] st1)
              | [] \<Rightarrow> finish_value depth (readArray n depth [] st1))
           else if ty = tokenNumber then of_decoded depth (decodeNumber text) st1
           else if ty = tokenString then of_decoded depth (map_option JString (decodeString text)) st1
           else if ty = tokenTrue then value_end depth (JBool True) st1
           else if ty = tokenFalse then value_end depth (JBool False) st1
           else if ty = tokenNull then value_end depth JNull st1
           else Fail st1))"
| "readObject 0 depth name m st = OutOfFuel"
| "readObject (Suc n) depth name m st =
     (case skipCommentTokens st of (ty, text, st1) \<Rightarrow>
        if ty = tokenObjectEnd \<and> name = [] then Ok (JObject m, st1)
        else if ty \<noteq> tokenString then recoverFromError tokenObjectEnd (Suc n) st1
        else (case decodeString text of
                None \<Rightarrow> recoverFromError tokenObjectEnd (Suc n) st1
              | Some name' \<Rightarrow>
                  (case readToken st1 of (ty2, text2, st2) \<Rightarrow>
                     if ty2 \<noteq> tokenMemberSeparator then recoverFromError tokenObjectEnd (Suc n) st2
                     else bind_outcome (on_fail (readValue n (Suc depth) st2) (recoverFromError tokenObjectEnd (Suc n))) (\<lambda>(v, st3).
                       let m' = omap_assign name' v m
                       in (case readToken st3 of (ty4, text4, st4) \<Rightarrow>
                             if ty4 = tokenObjectEnd then Ok (JObject m', st4)
                             else if ty4 = tokenArraySeparator then readObject n depth name' m' st4
                             else if ty4 = tokenComment then
                               (case skipCommentTokens st4 of (ty5, text5, st5) \<Rightarrow>
                                  if ty5 = tokenObjectEnd then Ok (JObject m', st5)
                                  else readObject n depth name' m' st5)
                             else recoverFromError tokenObjectEnd (Suc n) st4)))))"
| "readArray 0 depth vs st = OutOfFuel"
| "readArray (Suc n) depth vs st =
     bind_outcome (on_fail (readValue n (Suc depth) st) (recoverFromError tokenArrayEnd (Suc n))) (\<lambda>(v, st1).
       (case skipCommentTokens st1 of (ty, text, st2) \<Rightarrow>
          if ty = tokenArrayEnd then Ok (JArray (vs @ [v]), st2)
          else if ty = tokenArraySeparator then readArray n depth (vs @ [v]) st2
          else recoverFromError tokenArrayEnd (Suc n) st2))"

text \<open>\<open>Reader::parse(document, root)\<close>: \<open>Inr None\<close> is the result \<open>false\<close>. Text behind the value is
  not looked at, except for comments.\<close>

definition parse_fuel :: "bytes \<Rightarrow> nat" where
  "parse_fuel doc = 2 * length doc + 3"

definition parse_outcome :: "bytes \<Rightarrow> JsonDoc outcome" where
  "parse_outcome doc =
     bind_outcome (on_fail (readValue (parse_fuel doc) 1 (start_state doc)) (\<lambda>st. Fail (snd (snd (skipCommentTokens st))))) (\<lambda>(v, st).
       case skipCommentTokens st of (ty, text, st1) \<Rightarrow>
         Ok \<lparr>doc_root = v, commentBefore = rootBefore st1, commentAfterOnSameLine = rootSameLine st1,
              commentAfter = (if commentsBefore st1 = [] then [] else setComment (commentsBefore st1))\<rparr>)"

definition parse :: "bytes \<Rightarrow> JsonDoc option result" where
  "parse doc =
     (case parse_outcome doc of
        Ok d \<Rightarrow> Inr (Some d) | Fail st \<Rightarrow> Inr None | Throw e \<Rightarrow> Inl e | OutOfFuel \<Rightarrow> Inr None)"

subsection \<open>The fuel is enough\<close>

lemma bind_outcome_Ok: "bind_outcome x f = Ok b \<longleftrightarrow> (\<exists>a. x = Ok a \<and> f a = Ok b)"
  by (cases x) auto

lemma bind_outcome_fuel: "bind_outcome x f = OutOfFuel \<longleftrightarrow> x = OutOfFuel \<or> (\<exists>a. x = Ok a \<and> f a = OutOfFuel)"
  by (cases x) auto

lemma on_fail_Ok: "on_fail x r = Ok a \<longleftrightarrow> x = Ok a \<or> (\<exists>st. x = Fail st \<and> r st = Ok a)"
  by (cases x) auto

lemma on_fail_fuel: "on_fail x r = OutOfFuel \<longleftrightarrow> x = OutOfFuel \<or> (\<exists>st. x = Fail st \<and> r st = OutOfFuel)"
  by (cases x) auto

lemma recoverFromError_not_Ok [simp]: "recoverFromError k n st \<noteq> Ok a"
  by (induction k n st rule: recoverFromError.induct) (auto split: prod.split)

text \<open>Recovery ends: every token but the end of the text shortens what is left of it.\<close>

lemma recoverFromError_ends:
  "length (cur st) < n \<Longrightarrow> \<exists>st'. recoverFromError k n st = Fail st' \<and> length (cur st') \<le> length (cur st)"
proof (induction k n st rule: recoverFromError.induct)
  case (2 k n st)
  obtain ty tx st1 where r: "readToken st = (ty, tx, st1)" by (metis prod_cases3)
  show ?case
  proof (cases "ty = k \<or> ty = tokenEndOfStream")
    case True
    then show ?thesis using r readToken_le [OF r] by auto
  next
    case False
    then have "length (cur st1) < length (cur st)" using readToken_le [OF r] by simp
    moreover have "recoverFromError k (Suc n) st = (recoverFromError k n st1 :: 'a outcome)" using r False by simp
    ultimately show ?thesis using 2(1) [OF r [symmetric] refl False] 2(2) by force
  qed
qed simp

declare recoverFromError.simps [simp del]

lemma recoverFromError_fuel: "length (cur st) < n \<Longrightarrow> recoverFromError k n st \<noteq> OutOfFuel"
  using recoverFromError_ends [of st n k, where 'a = 'a] by fastforce

lemma skipCommentTokens_less:
  "skipCommentTokens st = (ty, tx, st') \<Longrightarrow> length (cur st') \<le> length (cur st) \<and>
     (ty \<noteq> tokenEndOfStream \<longrightarrow> length (cur st') < length (cur st))"
proof (induction st rule: skipCommentTokens.induct)
  case (1 st)
  obtain ty1 text1 st1 where r: "readToken st = (ty1, text1, st1)" by (metis prod_cases3)
  show ?case
  proof (cases "ty1 = tokenComment")
    case True
    then show ?thesis
      using 1 r readToken_le [OF r] by (subst (asm) (2) skipCommentTokens.simps) fastforce
  next
    case False
    then show ?thesis
      using 1(2) r readToken_le [OF r] by (subst (asm) skipCommentTokens.simps) auto
  qed
qed

lemma cur_take_comments [simp]: "cur (take_comments d st) = cur st"
  by (simp add: take_comments_def)

lemma cur_end_state [simp]: "cur (end_state d st) = cur st"
  by (simp add: end_state_def)

lemma value_end_Ok [simp]: "value_end d v st = Ok (w, st') \<longleftrightarrow> w = v \<and> st' = end_state d st"
  by (auto simp: value_end_def)

lemma value_end_fuel [simp]: "value_end d v st \<noteq> OutOfFuel"
  by (simp add: value_end_def)

lemma of_decoded_Ok: "of_decoded d v st = Ok (w, st') \<Longrightarrow> cur st' = cur st"
  by (auto simp: of_decoded_def split: option.splits)

lemma of_decoded_fuel [simp]: "of_decoded d v st \<noteq> OutOfFuel"
  by (simp add: of_decoded_def split: option.split)

lemma finish_value_Ok: "finish_value d x = Ok (w, st') \<longleftrightarrow> (\<exists>st. x = Ok (w, st) \<and> st' = end_state d st)"
  by (cases x) (auto simp: finish_value_def split: prod.split)

lemma finish_value_of_Ok [simp]: "finish_value d (Ok (v, st)) = value_end d v st"
  by (simp add: finish_value_def)

lemma finish_value_fuel: "finish_value d x = OutOfFuel \<longleftrightarrow> x = OutOfFuel"
  by (cases x) (auto simp: finish_value_def split: prod.split)

lemma readObject_step:
  assumes obj: "\<And>d nm m st v st'. readObject n d nm m st = Ok (v, st') \<Longrightarrow> length (cur st') < length (cur st)"
    and val: "\<And>d st v st'. readValue n d st = Ok (v, st') \<Longrightarrow> length (cur st') < length (cur st)"
    and r: "readObject (Suc n) d nm m st = Ok (v, st')"
  shows "length (cur st') < length (cur st)"
proof -
  obtain ty tx st1 where s1: "skipCommentTokens st = (ty, tx, st1)" by (metis prod_cases3)
  obtain ty2 text2 st2 where s2: "readToken st1 = (ty2, text2, st2)" by (metis prod_cases3)
  show ?thesis
  proof (cases "ty = tokenObjectEnd \<and> nm = []")
    case True
    then show ?thesis using r s1 skipCommentTokens_less [OF s1] by auto
  next
    case False
    then obtain nm' w st3 where v: "readValue n (Suc d) st2 = Ok (w, st3)"
      and rest: "(let m' = omap_assign nm' w m
         in (case readToken st3 of (ty4, text4, st4) \<Rightarrow>
               if ty4 = tokenObjectEnd then Ok (JObject m', st4)
               else if ty4 = tokenArraySeparator then readObject n d nm' m' st4
               else if ty4 = tokenComment then
                 (case skipCommentTokens st4 of (ty5, text5, st5) \<Rightarrow>
                    if ty5 = tokenObjectEnd then Ok (JObject m', st5) else readObject n d nm' m' st5)
               else recoverFromError tokenObjectEnd (Suc n) st4)) = Ok (v, st')"
      using r s1 s2 by (auto simp: bind_outcome_Ok on_fail_Ok split: if_splits option.splits)
    obtain ty4 text4 st4 where s4: "readToken st3 = (ty4, text4, st4)" by (metis prod_cases3)
    obtain ty5 text5 st5 where s5: "skipCommentTokens st4 = (ty5, text5, st5)" by (metis prod_cases3)
    have "length (cur st') \<le> length (cur st3)"
      using rest s4 s5 readToken_le [OF s4] skipCommentTokens_less [OF s5] obj
      by (fastforce simp: Let_def split: if_splits)
    then show ?thesis
      using val [OF v] skipCommentTokens_less [OF s1] readToken_le [OF s2] by simp
  qed
qed

lemma readArray_step:
  assumes arr: "\<And>d vs st v st'. readArray n d vs st = Ok (v, st') \<Longrightarrow> length (cur st') < length (cur st)"
    and val: "\<And>d st v st'. readValue n d st = Ok (v, st') \<Longrightarrow> length (cur st') < length (cur st)"
    and r: "readArray (Suc n) d vs st = Ok (v, st')"
  shows "length (cur st') < length (cur st)"
proof -
  obtain w st1 where v: "readValue n (Suc d) st = Ok (w, st1)"
    using r by (auto simp: bind_outcome_Ok on_fail_Ok)
  obtain ty tx st2 where s2: "skipCommentTokens st1 = (ty, tx, st2)" by (metis prod_cases3)
  have "length (cur st') \<le> length (cur st1)"
    using r v s2 skipCommentTokens_less [OF s2] arr by (fastforce split: if_splits)
  then show ?thesis using val [OF v] by simp
qed

lemma readValue_step:
  assumes obj: "\<And>d nm m st v st'. readObject n d nm m st = Ok (v, st') \<Longrightarrow> length (cur st') < length (cur st)"
    and arr: "\<And>d vs st v st'. readArray n d vs st = Ok (v, st') \<Longrightarrow> length (cur st') < length (cur st)"
    and r: "readValue (Suc n) d st = Ok (v, st')"
  shows "length (cur st') < length (cur st)"
proof -
  obtain ty tx st1 where s1: "skipCommentTokens st = (ty, tx, st1)" by (metis prod_cases3)
  have sp: "length cs < length (cur st1)" if "skipSpaces (cur st1) = c # cs" for c cs
    using that skipSpaces_le [of "cur st1"] by simp
  have "length (cur st') \<le> length (cur st1)" "ty \<noteq> tokenEndOfStream"
    using r s1 obj [of d "[]" "[]" "take_comments d st1"] arr [of d "[]" "take_comments d st1"]
    by (auto simp: finish_value_Ok Let_def dest!: of_decoded_Ok sp less_imp_le split: if_splits list.splits)
  then show ?thesis
    using skipCommentTokens_less [OF s1] by simp
qed

lemma reader_shrinks:
  "(\<forall>d st v st'. readValue n d st = Ok (v, st') \<longrightarrow> length (cur st') < length (cur st)) \<and>
   (\<forall>d nm m st v st'. readObject n d nm m st = Ok (v, st') \<longrightarrow> length (cur st') < length (cur st)) \<and>
   (\<forall>d vs st v st'. readArray n d vs st = Ok (v, st') \<longrightarrow> length (cur st') < length (cur st))"
proof (induction n)
  case (Suc n)
  then have v: "\<And>d st v st'. readValue n d st = Ok (v, st') \<Longrightarrow> length (cur st') < length (cur st)"
    and o: "\<And>d nm m st v st'. readObject n d nm m st = Ok (v, st') \<Longrightarrow> length (cur st') < length (cur st)"
    and a: "\<And>d vs st v st'. readArray n d vs st = Ok (v, st') \<Longrightarrow> length (cur st') < length (cur st)"
    by blast+
  have "readValue (Suc n) d st = Ok (x, st') \<Longrightarrow> length (cur st') < length (cur st)" for d st x st'
    by (erule readValue_step [rotated 2]) (erule o a)+
  moreover have "readObject (Suc n) d nm m st = Ok (x, st') \<Longrightarrow> length (cur st') < length (cur st)" for d nm m st x st'
    by (erule readObject_step [rotated 2]) (erule o v)+
  moreover have "readArray (Suc n) d vs st = Ok (x, st') \<Longrightarrow> length (cur st') < length (cur st)" for d vs st x st'
    by (erule readArray_step [rotated 2]) (erule a v)+
  ultimately show ?case by blast
qed simp

lemmas readValue_shrinks = reader_shrinks [THEN conjunct1, rule_format]

text \<open>A failure does not give input back either.\<close>

definition fails_within :: "rstate \<Rightarrow> 'a outcome \<Rightarrow> bool" where
  "fails_within st x \<longleftrightarrow> (\<forall>st'. x = Fail st' \<longrightarrow> length (cur st') \<le> length (cur st))"

lemma fails_within_Ok [simp]: "fails_within st (Ok a)" and fails_within_Throw [simp]: "fails_within st (Throw e)"
  and fails_within_fuel [simp]: "fails_within st OutOfFuel"
  and fails_within_Fail [simp]: "fails_within st (Fail st') \<longleftrightarrow> length (cur st') \<le> length (cur st)"
  by (simp_all add: fails_within_def)

lemma fails_within_bind: "fails_within st x \<Longrightarrow> (\<And>a. x = Ok a \<Longrightarrow> fails_within st (f a)) \<Longrightarrow> fails_within st (bind_outcome x f)"
  by (cases x) simp_all

lemma fails_within_mono: "fails_within st1 x \<Longrightarrow> length (cur st1) \<le> length (cur st) \<Longrightarrow> fails_within st x"
  by (cases x) simp_all

lemma fails_within_recover: "length (cur st1) \<le> length (cur st) \<Longrightarrow> fails_within st (recoverFromError k n st1)"
proof (induction k n st1 rule: recoverFromError.induct)
  case (2 k n st1)
  obtain ty tx st2 where r: "readToken st1 = (ty, tx, st2)" by (metis prod_cases3)
  show ?case using 2(1) [OF r [symmetric] refl] 2(2) readToken_le [OF r] by (simp add: recoverFromError.simps r)
qed (simp add: recoverFromError.simps)

lemma fails_within_or_recover: "fails_within st x \<Longrightarrow> fails_within st (on_fail x (recoverFromError k n))"
  by (cases x) (simp_all add: fails_within_recover)

lemma fails_within_finish: "fails_within st x \<Longrightarrow> fails_within st (finish_value d x)"
  by (cases x) (auto simp: finish_value_def value_end_def)

lemma fails_within_decoded: "length (cur st1) \<le> length (cur st) \<Longrightarrow> fails_within st (of_decoded d v st1)"
  by (auto simp: of_decoded_def value_end_def split: option.split)

lemma readValue_fails:
  assumes obj: "\<And>d nm m st. fails_within st (readObject n d nm m st)"
    and arr: "\<And>d vs st. fails_within st (readArray n d vs st)"
  shows "fails_within st (readValue (Suc n) d st)"
proof -
  obtain ty tx st1 where s1: "skipCommentTokens st = (ty, tx, st1)" by (metis prod_cases3)
  have le: "length (cur (take_comments d st1)) \<le> length (cur st)" using skipCommentTokens_less [OF s1] by simp
  note fails_within_finish [OF fails_within_mono [OF obj le]] fails_within_finish [OF fails_within_mono [OF arr le]]
  then show ?thesis
    using s1 le fails_within_decoded [OF le] by (simp add: Let_def value_end_def split: list.split)
qed

lemma readObject_fails:
  assumes obj: "\<And>d nm m st. fails_within st (readObject n d nm m st)"
    and val: "\<And>d st. fails_within st (readValue n d st)"
  shows "fails_within st (readObject (Suc n) d nm m st)"
proof -
  obtain ty tx st1 where s1: "skipCommentTokens st = (ty, tx, st1)" by (metis prod_cases3)
  obtain ty2 tx2 st2 where s2: "readToken st1 = (ty2, tx2, st2)" by (metis prod_cases3)
  have le1: "length (cur st1) \<le> length (cur st)" using skipCommentTokens_less [OF s1] by simp
  then have le2: "length (cur st2) \<le> length (cur st)" using readToken_le [OF s2] by simp
  have tail: "fails_within st (case readToken st3 of (ty4, text4, st4) \<Rightarrow>
      if ty4 = tokenObjectEnd then Ok (JObject m', st4)
      else if ty4 = tokenArraySeparator then readObject n d nm' m' st4
      else if ty4 = tokenComment then
        (case skipCommentTokens st4 of (ty5, text5, st5) \<Rightarrow>
           if ty5 = tokenObjectEnd then Ok (JObject m', st5) else readObject n d nm' m' st5)
      else recoverFromError tokenObjectEnd (Suc n) st4)" if "length (cur st3) \<le> length (cur st)" for st3 nm' m'
  proof -
    obtain ty4 tx4 st4 where s4: "readToken st3 = (ty4, tx4, st4)" by (metis prod_cases3)
    obtain ty5 tx5 st5 where s5: "skipCommentTokens st4 = (ty5, tx5, st5)" by (metis prod_cases3)
    have "length (cur st4) \<le> length (cur st)" "length (cur st5) \<le> length (cur st)"
      using that readToken_le [OF s4] skipCommentTokens_less [OF s5] by simp_all
    then show ?thesis by (auto simp: s4 s5 intro: fails_within_mono [OF obj] fails_within_recover)
  qed
  have "fails_within st (on_fail (readValue n (Suc d) st2) (recoverFromError tokenObjectEnd (Suc n)))"
    by (rule fails_within_or_recover [OF fails_within_mono [OF val le2]])
  moreover have "length (cur st3) \<le> length (cur st)"
    if "on_fail (readValue n (Suc d) st2) (recoverFromError tokenObjectEnd (Suc n)) = Ok (v, st3)" for v st3
    using that le2 by (auto simp: on_fail_Ok dest: readValue_shrinks)
  ultimately show ?thesis
    using s1 s2 le1 le2 tail by (auto simp: Let_def intro!: fails_within_bind fails_within_recover split: option.split)
qed

lemma readArray_fails:
  assumes arr: "\<And>d vs st. fails_within st (readArray n d vs st)"
    and val: "\<And>d st. fails_within st (readValue n d st)"
  shows "fails_within st (readArray (Suc n) d vs st)"
proof -
  have tail: "fails_within st (case skipCommentTokens st1 of (ty, text, st2) \<Rightarrow>
      if ty = tokenArrayEnd then Ok (JArray (vs @ [v]), st2)
      else if ty = tokenArraySeparator then readArray n d (vs @ [v]) st2 else recoverFromError tokenArrayEnd (Suc n) st2)"
    if "length (cur st1) \<le> length (cur st)" for st1 v
  proof -
    obtain ty tx st2 where s2: "skipCommentTokens st1 = (ty, tx, st2)" by (metis prod_cases3)
    have "length (cur st2) \<le> length (cur st)" using that skipCommentTokens_less [OF s2] by simp
    then show ?thesis by (auto simp: s2 intro: fails_within_mono [OF arr] fails_within_recover)
  qed
  have "fails_within st (on_fail (readValue n (Suc d) st) (recoverFromError tokenArrayEnd (Suc n)))"
    by (rule fails_within_or_recover [OF val])
  then show ?thesis using tail by (auto simp: on_fail_Ok intro!: fails_within_bind dest!: readValue_shrinks)
qed

lemma reader_fails:
  "(\<forall>d st. fails_within st (readValue n d st)) \<and> (\<forall>d nm m st. fails_within st (readObject n d nm m st)) \<and>
   (\<forall>d vs st. fails_within st (readArray n d vs st))"
proof (induction n)
  case (Suc n)
  then show ?case using readValue_fails [of n] readObject_fails [of n] readArray_fails [of n] by blast
qed simp

lemma readValue_recovers:
  assumes "readValue n d st \<noteq> OutOfFuel" "length (cur st) \<le> n"
  shows "on_fail (readValue n d st) (recoverFromError k (Suc n)) \<noteq> OutOfFuel"
proof -
  have "fails_within st (readValue n d st)" using reader_fails by blast
  then have "recoverFromError k (Suc n) st' \<noteq> (OutOfFuel :: (JValue \<times> rstate) outcome)" if "readValue n d st = Fail st'" for st'
    using that assms(2) by (intro recoverFromError_fuel) simp
  then show ?thesis using assms(1) by (simp add: on_fail_fuel)
qed

lemma readObject_fuel:
  assumes obj: "\<And>d nm m st. n \<ge> 2 * length (cur st) + 1 \<Longrightarrow> readObject n d nm m st \<noteq> OutOfFuel"
    and val: "\<And>d st. n \<ge> 2 * length (cur st) + 2 \<Longrightarrow> readValue n d st \<noteq> OutOfFuel"
    and n: "Suc n \<ge> 2 * length (cur st) + 1"
  shows "readObject (Suc n) d nm m st \<noteq> OutOfFuel"
proof -
  obtain ty tx st1 where s1: "skipCommentTokens st = (ty, tx, st1)" by (metis prod_cases3)
  obtain ty2 tx2 st2 where s2: "readToken st1 = (ty2, tx2, st2)" by (metis prod_cases3)
  note le = skipCommentTokens_less [OF s1] readToken_le [OF s2]
  have again: "readObject n d nm' m' st4 \<noteq> OutOfFuel" if "length (cur st4) < length (cur st)" for nm' m' st4
    using that n by (intro obj) simp
  have rec: "recoverFromError tokenObjectEnd (Suc n) st1 \<noteq> (OutOfFuel :: (JValue \<times> rstate) outcome)"
    "recoverFromError tokenObjectEnd (Suc n) st2 \<noteq> (OutOfFuel :: (JValue \<times> rstate) outcome)"
    using le n by (simp_all add: recoverFromError_fuel)
  have vfuel: "on_fail (readValue n (Suc d) st2) (recoverFromError tokenObjectEnd (Suc n)) \<noteq> OutOfFuel" if "ty = tokenString" "ty2 = tokenMemberSeparator"
    using that n le by (intro readValue_recovers val) simp_all
  have tail: "(case readToken st3 of (ty4, text4, st4) \<Rightarrow>
      if ty4 = tokenObjectEnd then Ok (JObject m', st4)
      else if ty4 = tokenArraySeparator then readObject n d nm' m' st4
      else if ty4 = tokenComment then
        (case skipCommentTokens st4 of (ty5, text5, st5) \<Rightarrow>
           if ty5 = tokenObjectEnd then Ok (JObject m', st5) else readObject n d nm' m' st5)
      else recoverFromError tokenObjectEnd (Suc n) st4) \<noteq> OutOfFuel" if "length (cur st3) < length (cur st)" for st3 nm' m'
  proof -
    obtain ty4 tx4 st4 where s4: "readToken st3 = (ty4, tx4, st4)" by (metis prod_cases3)
    obtain ty5 tx5 st5 where s5: "skipCommentTokens st4 = (ty5, tx5, st5)" by (metis prod_cases3)
    show ?thesis
      using that n readToken_le [OF s4] skipCommentTokens_less [OF s5] again [of st4] again [of st5]
        recoverFromError_fuel [of st4 "Suc n" tokenObjectEnd, where 'a = "JValue \<times> rstate"]
      by (simp add: s4 s5)
  qed
  show ?thesis
    using s1 s2 vfuel tail le rec
    by (auto simp: bind_outcome_fuel on_fail_Ok Let_def dest!: readValue_shrinks split: option.split)
qed

lemma readArray_fuel:
  assumes arr: "\<And>d vs st. n \<ge> 2 * length (cur st) + 3 \<Longrightarrow> readArray n d vs st \<noteq> OutOfFuel"
    and val: "\<And>d st. n \<ge> 2 * length (cur st) + 2 \<Longrightarrow> readValue n d st \<noteq> OutOfFuel"
    and n: "Suc n \<ge> 2 * length (cur st) + 3"
  shows "readArray (Suc n) d vs st \<noteq> OutOfFuel"
proof -
  have tail: "(case skipCommentTokens st1 of (ty, text, st2) \<Rightarrow>
      if ty = tokenArrayEnd then Ok (JArray (vs @ [v]), st2)
      else if ty = tokenArraySeparator then readArray n d (vs @ [v]) st2 else recoverFromError tokenArrayEnd (Suc n) st2) \<noteq> OutOfFuel"
    if "length (cur st1) < length (cur st)" for st1 v
  proof -
    obtain ty tx st2 where s2: "skipCommentTokens st1 = (ty, tx, st2)" by (metis prod_cases3)
    show ?thesis
      using that n skipCommentTokens_less [OF s2] arr [of st2]
        recoverFromError_fuel [of st2 "Suc n" tokenArrayEnd, where 'a = "JValue \<times> rstate"] by (simp add: s2)
  qed
  moreover have "on_fail (readValue n (Suc d) st) (recoverFromError tokenArrayEnd (Suc n)) \<noteq> OutOfFuel"
    using val [of st] n by (intro readValue_recovers) simp_all
  ultimately show ?thesis
    using n by (auto simp: bind_outcome_fuel on_fail_Ok dest!: readValue_shrinks)
qed

lemma readValue_fuel:
  assumes obj: "\<And>d nm m st. n \<ge> 2 * length (cur st) + 1 \<Longrightarrow> readObject n d nm m st \<noteq> OutOfFuel"
    and arr: "\<And>d vs st. n \<ge> 2 * length (cur st) + 3 \<Longrightarrow> readArray n d vs st \<noteq> OutOfFuel"
    and n: "Suc n \<ge> 2 * length (cur st) + 2"
  shows "readValue (Suc n) d st \<noteq> OutOfFuel"
proof -
  obtain ty tx st1 where s1: "skipCommentTokens st = (ty, tx, st1)" by (metis prod_cases3)
  have "readObject n d [] [] (take_comments d st1) \<noteq> OutOfFuel" "readArray n d [] (take_comments d st1) \<noteq> OutOfFuel"
    if "ty \<noteq> tokenEndOfStream"
    using that n skipCommentTokens_less [OF s1] obj [of "take_comments d st1"] arr [of "take_comments d st1"]
    by simp_all
  with s1 show ?thesis
    by (auto simp: finish_value_fuel Let_def split: list.split)
qed

lemma reader_fuel:
  "(\<forall>d st. n \<ge> 2 * length (cur st) + 2 \<longrightarrow> readValue n d st \<noteq> OutOfFuel) \<and>
   (\<forall>d nm m st. n \<ge> 2 * length (cur st) + 1 \<longrightarrow> readObject n d nm m st \<noteq> OutOfFuel) \<and>
   (\<forall>d vs st. n \<ge> 2 * length (cur st) + 3 \<longrightarrow> readArray n d vs st \<noteq> OutOfFuel)"
proof (induction n)
  case (Suc n)
  then have v: "\<And>d st. n \<ge> 2 * length (cur st) + 2 \<Longrightarrow> readValue n d st \<noteq> OutOfFuel"
    and o: "\<And>d nm m st. n \<ge> 2 * length (cur st) + 1 \<Longrightarrow> readObject n d nm m st \<noteq> OutOfFuel"
    and a: "\<And>d vs st. n \<ge> 2 * length (cur st) + 3 \<Longrightarrow> readArray n d vs st \<noteq> OutOfFuel"
    by blast+
  have "Suc n \<ge> 2 * length (cur st) + 2 \<Longrightarrow> readValue (Suc n) d st \<noteq> OutOfFuel" for d st
    by (erule readValue_fuel [rotated 2]) (erule o a)+
  moreover have "Suc n \<ge> 2 * length (cur st) + 1 \<Longrightarrow> readObject (Suc n) d nm m st \<noteq> OutOfFuel" for d nm m st
    by (erule readObject_fuel [rotated 2]) (erule o v)+
  moreover have "Suc n \<ge> 2 * length (cur st) + 3 \<Longrightarrow> readArray (Suc n) d vs st \<noteq> OutOfFuel" for d vs st
    by (erule readArray_fuel [rotated 2]) (erule a v)+
  ultimately show ?case by blast
qed simp

subsection \<open>Properties\<close>

text \<open>C36: Parsing always ends: whatever bytes a client sends, the reader stops within the fuel of
  \<open>parse\<close>, so that its answer is a document, a syntax error or an exception.\<close>

theorem parse_total: "parse_outcome doc \<noteq> OutOfFuel"
  using reader_fuel [of "parse_fuel doc", THEN conjunct1, rule_format, of "start_state doc" 1]
  by (simp add: parse_outcome_def bind_outcome_fuel on_fail_fuel parse_fuel_def start_state_def split: prod.split)

end
