(* ===== verification/Session_Keys.thy ===== *)
theory Session_Keys
  imports Json
begin

section \<open>Connections as session keys\<close>

text \<open>
  Both servers keep their sessions in a \<open>map<string, ...>\<close> whose key is the address of the connection
  object, printed by a \<open>stringstream\<close>. A connection is identified by its address here. Different
  connections have different keys.
\<close>

type_synonym conn = nat

text \<open>\<open>ss << (void*)conn.get()\<close>: hexadecimal with the prefix \<open>0x\<close>.\<close>

fun hex_text :: "nat \<Rightarrow> bytes" where
  "hex_text n =
     (if n < 16 then [hex_digit (of_nat n)] else hex_text (n div 16) @ [hex_digit (of_nat (n mod 16))])"

declare hex_text.simps [simp del]

definition ptr_text :: "conn \<Rightarrow> bytes" where
  "ptr_text c = lit ''0x'' @ hex_text c"

definition digit_of_hex :: "byte \<Rightarrow> nat" where
  "digit_of_hex b = (if b < 97 then unat b - 48 else unat b - 87)"

lemma digit_of_hex_digit: "n < 16 \<Longrightarrow> digit_of_hex (hex_digit (of_nat n)) = n"
proof -
  have "\<forall>n \<in> set [0..<16]. digit_of_hex (hex_digit (of_nat n)) = n" by code_simp
  then show "n < 16 \<Longrightarrow> ?thesis" by simp
qed

lemma foldl_hex_text: "foldl (\<lambda>a b. 16 * a + digit_of_hex b) 0 (hex_text n) = n"
  by (induction n rule: hex_text.induct)
    (subst hex_text.simps, simp add: digit_of_hex_digit)

lemma ptr_text_inject [simp]: "ptr_text c = ptr_text c' \<longleftrightarrow> c = c'"
  using foldl_hex_text by (auto simp: ptr_text_def) metis

end
