(* ===== verification/Client_Session.thy ===== *)
theory Client_Session
  imports Framing Msg_Cache User_Manager Json_Reader Session_Keys
begin

section \<open>Sessions and the chat server\<close>

text \<open>
  \<open>ClientSession\<close> (\<open>ClientSession.h\<close>, \<open>ClientSession.cpp\<close>) handles the requests of one
  connection; \<open>IMServer\<close> (\<open>IMServer.h\<close>, \<open>IMServer.cpp\<close>) keeps the map of all sessions. The
  singletons \<open>UserManager\<close>, \<open>MsgCacheManager\<close>, \<open>MySqlManager\<close> and \<open>IMServer\<close> are components of
  one state; \<open>output\<close> lists the byte strings handed to \<open>TcpConnection::send\<close> in order with their
  connection, \<open>closed\<close> the connections on which \<open>forceClose\<close> was called. A connection is
  identified by its address, whose text is the key of the session map. A session that is no
  longer in the map has been destroyed; its callback faults. Values the code leaves
  uninitialised (\<open>m_target\<close> of a new session, \<open>groupid\<close> when creating a group fails) are
  parameters. Log output is not modelled.
\<close>

subsection \<open>State\<close>

definition msg_type_headerbeart :: "32 word" where "msg_type_headerbeart = 1000"
definition msg_type_register :: "32 word" where "msg_type_register = 1001"
definition msg_type_login :: "32 word" where "msg_type_login = 1002"
definition msg_type_getofriendlist :: "32 word" where "msg_type_getofriendlist = 1003"
definition msg_type_finduser :: "32 word" where "msg_type_finduser = 1004"
definition msg_type_operatefriend :: "32 word" where "msg_type_operatefriend = 1005"
definition msg_type_userstatuschange :: "32 word" where "msg_type_userstatuschange = 1006"
definition msg_type_updateuserinfo :: "32 word" where "msg_type_updateuserinfo = 1007"
definition msg_type_modifypassword :: "32 word" where "msg_type_modifypassword = 1008"
definition msg_type_creategroup :: "32 word" where "msg_type_creategroup = 1009"
definition msg_type_getgroupmembers :: "32 word" where "msg_type_getgroupmembers = 1010"
definition msg_type_chat :: "32 word" where "msg_type_chat = 1100"
definition msg_type_multichat :: "32 word" where "msg_type_multichat = 1101"

lemmas msg_types = msg_type_headerbeart_def msg_type_register_def msg_type_login_def
  msg_type_getofriendlist_def msg_type_finduser_def msg_type_operatefriend_def
  msg_type_userstatuschange_def msg_type_updateuserinfo_def msg_type_modifypassword_def
  msg_type_creategroup_def msg_type_getgroupmembers_def msg_type_chat_def msg_type_multichat_def

record ClientSession =
  m_sessionid :: bytes
  m_seq :: "32 word"
  m_user :: User
  m_target :: int
  m_targets :: bytes
  m_conn :: conn

record 'w server =
  m_mapclient :: "(bytes, ClientSession) omap"
  users :: UserManager
  cache :: MsgCacheManager
  database :: "'w db"
  outputs :: "(conn \<times> bytes) list"
  closed :: "conn list"

definition new_ClientSession :: "int \<Rightarrow> conn \<Rightarrow> ClientSession" where
  "new_ClientSession garbage c =
     \<lparr>m_sessionid = ptr_text c, m_seq = 0, m_user = new_User, m_target = garbage, m_targets = [],
      m_conn = c\<rparr>"

definition UserID :: "ClientSession \<Rightarrow> int" where
  "UserID se = userid (m_user se)"

subsection \<open>\<open>IMServer\<close>\<close>

definition OnClose :: "conn \<Rightarrow> 'w server \<Rightarrow> 'w server" where
  "OnClose c s =
     (case omap_find (ptr_text c) (m_mapclient s) of
        None \<Rightarrow> s
      | Some se \<Rightarrow> s\<lparr>m_mapclient := omap_erase (ptr_text c) (m_mapclient s)\<rparr>)"

definition OnConnection :: "int \<Rightarrow> bool \<Rightarrow> conn \<Rightarrow> 'w server \<Rightarrow> 'w server" where
  "OnConnection garbage up c s =
     (if up
      then let client = new_ClientSession garbage c
           in s\<lparr>m_mapclient := omap_insert (m_sessionid client) client (m_mapclient s)\<rparr>
      else OnClose c s)"

definition GetSessionByID :: "int \<Rightarrow> 'w server \<Rightarrow> ClientSession option" where
  "GetSessionByID uid s = map_option snd (find (\<lambda>e. UserID (snd e) = uid) (m_mapclient s))"

definition IsUserSessionExsit :: "int \<Rightarrow> 'w server \<Rightarrow> bool" where
  "IsUserSessionExsit uid s \<longleftrightarrow> (\<exists>e \<in> set (m_mapclient s). UserID (snd e) = uid)"

subsection \<open>Sending\<close>

definition Send_conn :: "conn \<Rightarrow> BinaryWriter \<Rightarrow> 'w server \<Rightarrow> BinaryWriter \<times> 'w server" where
  "Send_conn c write s =
     (let (out, write') = TcpSession_Send write in (write', s\<lparr>outputs := outputs s @ [(c, out)]\<rparr>))"

definition Send :: "ClientSession \<Rightarrow> BinaryWriter \<Rightarrow> 'w server \<Rightarrow> BinaryWriter \<times> 'w server" where
  "Send se = Send_conn (m_conn se)"

text \<open>The writer every reply starts with: command, sequence number, a string.\<close>

definition message :: "32 word \<Rightarrow> 32 word \<Rightarrow> bytes \<Rightarrow> BinaryWriter" where
  "message cmd seq body =
     WriteData_string body (WriteData (htonl seq) (WriteData (htonl cmd) new_writer))"

definition this_session :: "conn \<Rightarrow> 'w server \<Rightarrow> ClientSession result" where
  "this_session c s =
     (case omap_find (ptr_text c) (m_mapclient s) of None \<Rightarrow> Inl NullDeref | Some se \<Rightarrow> Inr se)"

definition set_session :: "conn \<Rightarrow> ClientSession \<Rightarrow> 'w server \<Rightarrow> 'w server" where
  "set_session c se s = s\<lparr>m_mapclient := omap_assign (ptr_text c) se (m_mapclient s)\<rparr>"

fun for_each :: "('a \<Rightarrow> 's \<Rightarrow> 's result) \<Rightarrow> 'a list \<Rightarrow> 's \<Rightarrow> 's result" where
  "for_each f [] s = Inr s"
| "for_each f (x # xs) s = bind_result (f x s) (for_each f xs)"

definition SendUserStatusChangeMsg :: "ClientSession \<Rightarrow> int \<Rightarrow> int \<Rightarrow> 'w server \<Rightarrow> 'w server result" where
  "SendUserStatusChangeMsg se uid type s =
     bind_result
       (if type = 1 then set_members [(lit ''type'', JInt 1), (lit ''onlinestatus'', JInt 1)] JNull
        else if type = 2 then set_members [(lit ''type'', JInt 2), (lit ''onlinestatus'', JInt 0)] JNull
        else if type = 3 then set_members [(lit ''type'', JInt 3)] JNull
        else Inr JNull)
       (\<lambda>data.
         let writer = WriteData (htonl (word_of_int uid))
               (message msg_type_userstatuschange (m_seq se) (toStyledString data))
         in Inr (snd (Send se writer s)))"

text \<open>The loops that tell every friend of \<open>uid\<close> who is online about a change of \<open>about\<close>.\<close>

definition notify_friends :: "int \<Rightarrow> int \<Rightarrow> int \<Rightarrow> 'w server \<Rightarrow> 'w server result" where
  "notify_friends uid about type s =
     for_each (\<lambda>u s. case GetSessionByID (userid u) s of
         None \<Rightarrow> Inr s | Some target \<Rightarrow> SendUserStatusChangeMsg target about type s)
       (GetFriendInfoByUserId uid (users s)) s"

text \<open>A reply on the session itself.\<close>

definition reply :: "conn \<Rightarrow> ClientSession \<Rightarrow> 32 word \<Rightarrow> bytes \<Rightarrow> 'w server \<Rightarrow> 'w server" where
  "reply c se cmd body s = snd (Send_conn c (message cmd (m_seq se) body) s)"

definition reply_code :: "conn \<Rightarrow> ClientSession \<Rightarrow> 32 word \<Rightarrow> int \<Rightarrow> bytes \<Rightarrow> 'w server \<Rightarrow> 'w server result" where
  "reply_code c se cmd code msg s =
     bind_result (set_members [(lit ''code'', JInt code), (lit ''msg'', JString msg)] JNull)
       (\<lambda>v. Inr (reply c se cmd (toStyledString v) s))"

subsection \<open>Handlers: accounts\<close>

definition OnHeartbeatResponse :: "conn \<Rightarrow> bytes \<Rightarrow> 'w server \<Rightarrow> 'w server result" where
  "OnHeartbeatResponse c data s =
     bind_result (this_session c s) (\<lambda>se. Inr (reply c se msg_type_headerbeart [] s))"

definition OnRegisterResponse :: "'w mysql_api \<Rightarrow> conn \<Rightarrow> bytes \<Rightarrow> 'w server \<Rightarrow> 'w server result" where
  "OnRegisterResponse api c data s =
     bind_result (this_session c s) (\<lambda>se.
     bind_result (parse data) (\<lambda>doc.
       case doc of
         None \<Rightarrow> reply_code c se msg_type_register 101 (lit ''json pares failed!'') s
       | Some d \<Rightarrow>
           let root = doc_root d
           in bind_result (check_members [(lit ''username'', isString), (lit ''nickname'', isString),
                  (lit ''password'', isString)] root) (\<lambda>ok.
                if \<not> ok then reply_code c se msg_type_register 102 (lit ''json data type error!'') s
                else
                  bind_result (get_str (lit ''username'') root) (\<lambda>name.
                  bind_result (get_str (lit ''nickname'') root) (\<lambda>nick.
                  bind_result (get_str (lit ''password'') root) (\<lambda>pass.
                  bind_result (AddUser api (new_User\<lparr>username := name, nickname := nick, password := pass\<rparr>)
                      (users s) (database s)) (\<lambda>(r, us, d').
                    let s1 = s\<lparr>users := us, database := d'\<rparr>
                    in if \<not> r then reply_code c se msg_type_register 100 (lit ''register failed!'') s1
                       else reply_code c se msg_type_register 0 (lit ''ok'') s1)))))))"

text \<open>The loops of the login that push what was cached: \<open>Send\<close> on the session's connection.\<close>

fun push_cached :: "ClientSession \<Rightarrow> bytes list \<Rightarrow> 'w server \<Rightarrow> 'w server" where
  "push_cached se [] s = s"
| "push_cached se (m # ms) s =
     (let write = WriteData_string m (Clear new_writer) in push_cached se ms (snd (Send se write s)))"

definition login_reply :: "User \<Rightarrow> bytes \<Rightarrow> JValue result" where
  "login_reply user name =
     set_members [(lit ''code'', JInt 0), (lit ''msg'', JString (lit ''ok'')),
       (lit ''userid'', JInt (userid user)), (lit ''nickname'', JString (nickname user)),
       (lit ''facetype'', JInt (facetype user)), (lit ''customface'', JString (custimface user)),
       (lit ''gender'', JInt (gender user)), (lit ''birthday'', JInt (birthday user)),
       (lit ''signature'', JString (signature user)), (lit ''address'', JString (address user)),
       (lit ''phonenumber'', JString (phonenumber user)), (lit ''mail'', JString (mail user)),
       (lit ''username'', JString name)] JNull"

definition OnLoginResponse :: "conn \<Rightarrow> bytes \<Rightarrow> 'w server \<Rightarrow> 'w server result" where
  "OnLoginResponse c data s =
     bind_result (this_session c s) (\<lambda>se.
     bind_result (parse data) (\<lambda>doc.
       case doc of
         None \<Rightarrow> reply_code c se msg_type_login 101 (lit ''json pares failed!'') s
       | Some d \<Rightarrow>
           let root = doc_root d
           in bind_result (check_members [(lit ''username'', isString), (lit ''password'', isString),
                  (lit ''clienttype'', isInt), (lit ''status'', isInt)] root) (\<lambda>ok.
                if \<not> ok then reply_code c se msg_type_login 102 (lit ''json data type error!'') s
                else
                  bind_result (get_str (lit ''username'') root) (\<lambda>name.
                  bind_result (get_str (lit ''password'') root) (\<lambda>pass.
                    case GetUserInfoByUsername name (users s) of
                      None \<Rightarrow> reply_code c se msg_type_login 103
                        (lit ''user is not exist or password is incorrest!'') s
                    | Some user \<Rightarrow>
                        if pass \<noteq> password user
                        then reply_code c se msg_type_login 104
                          (lit ''user is not exist or password is incorrest!'') s
                        else
                          bind_result (get_int (lit ''clienttype'') root) (\<lambda>ct.
                          bind_result (login_reply user name) (\<lambda>response.
                            let se1 = se\<lparr>m_user := (m_user se)\<lparr>userid := userid user, username := name,
                                  nickname := nickname user, password := pass, clienttype := Some ct,
                                  status := Some 1\<rparr>\<rparr>;
                                s1 = reply c se1 msg_type_login (toStyledString response) (set_session c se1 s);
                                (nc, cache1) = GetNotifyMsgCache (userid user) [] (cache s1);
                                s2 = push_cached se1 (map notifymsg nc) (s1\<lparr>cache := cache1\<rparr>);
                                (cc, cache2) = GetChatMagCache (userid user) [] (cache s2);
                                s3 = push_cached se1 (map chatmsg cc) (s2\<lparr>cache := cache2\<rparr>)
                            in notify_friends (userid user) (userid user) 1 s3)))))))"

subsection \<open>Handlers: friends and groups\<close>

definition friend_entry :: "bool \<Rightarrow> User \<Rightarrow> JValue result" where
  "friend_entry userOnline u =
     set_members [(lit ''userid'', JInt (userid u)), (lit ''username'', JString (username u)),
       (lit ''nickname'', JString (nickname u)), (lit ''facetype'', JInt (facetype u)),
       (lit ''customface'', JString (custimface u)), (lit ''gender'', JInt (gender u)),
       (lit ''birthday'', JInt (birthday u)), (lit ''signature'', JString (signature u)),
       (lit ''address'', JString (address u)), (lit ''phonenumber'', JString (phonenumber u)),
       (lit ''mail'', JString (mail u)), (lit ''clienttype'', JInt 1),
       (lit ''status'', JInt (if userOnline then 1 else 0))] JNull"

definition member_entry :: "bool \<Rightarrow> User \<Rightarrow> JValue result" where
  "member_entry userOnline u =
     set_members [(lit ''userid'', JInt (userid u)), (lit ''username'', JString (username u)),
       (lit ''nickname'', JString (nickname u)), (lit ''facetype'', JInt (facetype u)),
       (lit ''customface'', JString (custimface u)), (lit ''gender'', JInt (gender u)),
       (lit ''birthday'', JInt (birthday u)), (lit ''signature'', JString (signature u)),
       (lit ''phonenumber'', JString (phonenumber u)),
       (lit ''mail'', JString (mail u)), (lit ''clienttype'', JInt 1),
       (lit ''status'', JInt (if userOnline then 1 else 0))] JNull"

text \<open>The loop over the friends: one entry each, appended to the member \<open>k\<close> of the reply.\<close>

fun append_entries ::
  "(bool \<Rightarrow> User \<Rightarrow> JValue result) \<Rightarrow> bytes \<Rightarrow> User list \<Rightarrow> 'w server \<Rightarrow> JValue \<Rightarrow> JValue result" where
  "append_entries entry k [] s response = Inr response"
| "append_entries entry k (u # us) s response =
     bind_result (entry (IsUserSessionExsit (userid u) s) u) (\<lambda>re.
     bind_result (append_member k re response) (append_entries entry k us s))"

definition OnGetFriendListResponse :: "conn \<Rightarrow> bytes \<Rightarrow> 'w server \<Rightarrow> 'w server result" where
  "OnGetFriendListResponse c data s =
     bind_result (this_session c s) (\<lambda>se.
       let friends = GetFriendInfoByUserId (UserID se) (users s)
       in bind_result (set_members [(lit ''code'', JInt 0), (lit ''msg'', JString (lit ''ok''))] JNull) (\<lambda>v.
          bind_result (append_entries friend_entry (lit ''userinfo'') friends s v) (\<lambda>response.
            Inr (snd (Send se (message msg_type_getofriendlist (m_seq se) (toStyledString response)) s)))))"

definition OnFindUserResponse :: "conn \<Rightarrow> bytes \<Rightarrow> 'w server \<Rightarrow> 'w server result" where
  "OnFindUserResponse c data s =
     bind_result (this_session c s) (\<lambda>se.
     bind_result (parse data) (\<lambda>doc.
       case doc of
         None \<Rightarrow> Inr s
       | Some d \<Rightarrow>
           bind_result (check_members [(lit ''type'', isInt), (lit ''username'', isString)] (doc_root d)) (\<lambda>ok.
             if \<not> ok then Inr s
             else
               bind_result (get_str (lit ''username'') (doc_root d)) (\<lambda>name.
               bind_result (json_clear (doc_root d)) (\<lambda>v0.
               bind_result (set_members [(lit ''code'', JInt 0), (lit ''msg'', JString (lit ''ok''))] v0) (\<lambda>v1.
               bind_result
                 (case GetUserInfoByUsername name (users s) of
                    None \<Rightarrow> set_member (lit ''userinfo'') (JString (lit ''[]'')) v1
                  | Some u \<Rightarrow>
                      bind_result (set_members [(lit ''userid'', JInt (userid u)),
                        (lit ''username'', JString (username u)), (lit ''nickname'', JString (nickname u)),
                        (lit ''facetype'', JInt (facetype u))] JNull) (\<lambda>re.
                          append_member (lit ''userinfo'') re v1))
                 (\<lambda>v2. Inr (snd (Send se (message msg_type_finduser (m_seq se)
                    (toStyledString_doc (d\<lparr>doc_root := v2\<rparr>))) s)))))))))"

definition operate_body :: "int \<Rightarrow> int \<Rightarrow> bytes \<Rightarrow> (bytes \<times> JValue) list" where
  "operate_body uid type name =
     [(lit ''userid'', JInt uid), (lit ''type'', JInt type), (lit ''username'', JString name)]"

definition DeleteFriend :: "'w mysql_api \<Rightarrow> conn \<Rightarrow> int \<Rightarrow> 'w server \<Rightarrow> 'w server result" where
  "DeleteFriend api c friendid s =
     bind_result (this_session c s) (\<lambda>se.
       let uid = UserID se;
           smallerid = (if friendid > uid then uid else friendid);
           greaterid = (if friendid > uid then friendid else uid)
       in bind_result (ReleaseFriendRelationship api smallerid greaterid (users s) (database s)) (\<lambda>(r, us, d').
            let s1 = s\<lparr>users := us, database := d'\<rparr>
            in if \<not> r then Inr s1
               else (case GetUserInfoByUserId friendid us of
                  None \<Rightarrow> Inr s1
                | Some cachedUser \<Rightarrow>
                    bind_result (set_members (operate_body friendid 5 (username cachedUser)) JNull) (\<lambda>root.
                      let s2 = snd (Send se (message msg_type_operatefriend (m_seq se) (toStyledString root)) s1)
                      in if friendid < GROUPID_BOUBDARY then
                           (case GetSessionByID friendid s2 of
                              None \<Rightarrow> Inr s2
                            | Some target \<Rightarrow>
                                bind_result (json_clear root) (\<lambda>v.
                                bind_result (set_members (operate_body uid 5 (username (m_user se))) v) (\<lambda>root2.
                                  Inr (snd (Send target
                                    (message msg_type_operatefriend (m_seq se) (toStyledString root2)) s2)))))
                         else notify_friends friendid friendid 3 s2))))"

definition OnAddGroupResponse :: "'w mysql_api \<Rightarrow> conn \<Rightarrow> int \<Rightarrow> 'w server \<Rightarrow> 'w server result" where
  "OnAddGroupResponse api c groupid s =
     bind_result (this_session c s) (\<lambda>se.
     bind_result (MakeFriendRelationship api (UserID se) groupid (users s) (database s)) (\<lambda>(r, us, d').
       let s1 = s\<lparr>users := us, database := d'\<rparr>
       in if \<not> r then Inr s1
          else (case GetUserInfoByUserId groupid us of
             None \<Rightarrow> Inr s1
           | Some groupUser \<Rightarrow>
               bind_result (set_members (operate_body (userid groupUser) 3 (username groupUser) @
                   [(lit ''accept'', JInt 3)]) JNull) (\<lambda>root.
                 notify_friends groupid groupid 3
                   (snd (Send se (message msg_type_operatefriend (m_seq se) (toStyledString root)) s1))))))"

text \<open>The end of \<open>OnOperateFriendResponse\<close>: tell the other user, or keep the notification for the
  next login.\<close>

definition notify_target :: "ClientSession \<Rightarrow> int \<Rightarrow> bytes \<Rightarrow> 'w server \<Rightarrow> 'w server" where
  "notify_target se targetUserid outbuf s =
     (let writer = message msg_type_operatefriend (m_seq se) outbuf
      in case GetSessionByID targetUserid s of
           None \<Rightarrow> s\<lparr>cache := snd (AddNotifyMsgCache targetUserid outbuf (cache s))\<rparr>
         | Some target \<Rightarrow> snd (Send target writer s))"

definition OnOperateFriendResponse :: "'w mysql_api \<Rightarrow> conn \<Rightarrow> bytes \<Rightarrow> 'w server \<Rightarrow> 'w server result" where
  "OnOperateFriendResponse api c data s =
     bind_result (this_session c s) (\<lambda>se.
     bind_result (parse data) (\<lambda>doc.
       case doc of
         None \<Rightarrow> Inr s
       | Some d \<Rightarrow>
           let root = doc_root d
           in bind_result (check_members [(lit ''type'', isInt), (lit ''userid'', isInt)] root) (\<lambda>ok.
                if \<not> ok then Inr s
                else
                  bind_result (get_int (lit ''type'') root) (\<lambda>type.
                  bind_result (get_int (lit ''userid'') root) (\<lambda>target.
                    if target \<ge> GROUPID_BOUBDARY then
                      (if type = 4 then DeleteFriend api c target s else OnAddGroupResponse api c target s)
                    else if type = 4 then DeleteFriend api c target s
                    else if type = 1 then
                      bind_result (set_members (operate_body (UserID se) 2 (username (m_user se))) JNull) (\<lambda>v.
                        Inr (notify_target se target (toStyledString v) s))
                    else if type = 3 then
                      bind_result (member (lit ''accept'') root) (\<lambda>av.
                        if \<not> isInt av then Inr s
                        else
                          bind_result (asInt av) (\<lambda>accept.
                          bind_result
                            (if accept = 1
                             then MakeFriendRelationship api (min (UserID se) target) (max (UserID se) target)
                               (users s) (database s)
                             else Inr (True, users s, database s))
                            (\<lambda>(r, us, d').
                              let s1 = s\<lparr>users := us, database := d'\<rparr>
                              in if \<not> r then Inr s1
                                 else
                                   bind_result (set_members (operate_body (UserID se) 3 (username (m_user se)) @
                                       [(lit ''accept'', JInt accept)]) JNull) (\<lambda>v.
                                     case GetUserInfoByUserId target us of
                                       None \<Rightarrow> Inr s1
                                     | Some targetUser \<Rightarrow>
                                         bind_result (set_members (operate_body (userid targetUser) 3
                                             (username targetUser) @ [(lit ''accept'', JInt accept)]) JNull) (\<lambda>re.
                                           Inr (notify_target se target (toStyledString v)
                                             (snd (Send se (message msg_type_operatefriend (m_seq se)
                                               (toStyledString re)) s1))))))))
                    else Inr (notify_target se target (toStyledString JNull) s))))))"

definition OnUpdateUserInfoResponse :: "'w mysql_api \<Rightarrow> conn \<Rightarrow> bytes \<Rightarrow> 'w server \<Rightarrow> 'w server result" where
  "OnUpdateUserInfoResponse api c data s =
     bind_result (this_session c s) (\<lambda>se.
     bind_result (parse data) (\<lambda>doc.
       case doc of
         None \<Rightarrow> Inr s
       | Some d \<Rightarrow>
           let root = doc_root d
           in bind_result (check_members [(lit ''nickname'', isString), (lit ''facetype'', isInt),
                (lit ''customface'', isString), (lit ''gender'', isInt), (lit ''birthday'', isInt),
                (lit ''signature'', isString), (lit ''address'', isString), (lit ''phonenumber'', isString),
                (lit ''mail'', isString)] root) (\<lambda>ok.
                if \<not> ok then Inr s
                else
                  bind_result (get_str (lit ''nickname'') root) (\<lambda>nick.
                  bind_result (get_int (lit ''facetype'') root) (\<lambda>face.
                  bind_result (get_str (lit ''customface'') root) (\<lambda>cface.
                  bind_result (get_int (lit ''gender'') root) (\<lambda>gend.
                  bind_result (get_int (lit ''birthday'') root) (\<lambda>birth.
                  bind_result (get_str (lit ''signature'') root) (\<lambda>sig.
                  bind_result (get_str (lit ''address'') root) (\<lambda>addr.
                  bind_result (get_str (lit ''phonenumber'') root) (\<lambda>phone.
                  bind_result (get_str (lit ''mail'') root) (\<lambda>ml.
                  bind_result (json_clear root) (\<lambda>v0.
                  bind_result (UpdateUserInfo api (UserID se) (new_User\<lparr>nickname := nick, facetype := face,
                      custimface := cface, gender := gend, birthday := birth, signature := sig, address := addr,
                      phonenumber := phone, mail := ml\<rparr>) (users s) (database s)) (\<lambda>(r, us, d').
                  bind_result
                    (if \<not> r then set_members [(lit ''code'', JInt 104),
                         (lit ''msg'', JString (lit ''update user info failed''))] v0
                     else set_members [(lit ''code'', JInt 0), (lit ''msg'', JString (lit ''ok'')),
                         (lit ''userid'', JInt (UserID se)), (lit ''username'', JString (username (m_user se))),
                         (lit ''nickname'', JString nick), (lit ''facetype'', JInt face),
                         (lit ''customface'', JString cface), (lit ''gender'', JInt gend),
                         (lit ''birthday'', JInt birth), (lit ''signature'', JString sig),
                         (lit ''address'', JString addr), (lit ''phonenumber'', JString phone),
                         (lit ''mail'', JString ml)] v0)
                    (\<lambda>v. notify_friends (UserID se) (UserID se) 3
                       (snd (Send se (message msg_type_updateuserinfo (m_seq se)
                         (toStyledString_doc (d\<lparr>doc_root := v\<rparr>))) (s\<lparr>users := us, database := d'\<rparr>))))))))))))))))))"

definition OnModifyPasswordResponse :: "'w mysql_api \<Rightarrow> conn \<Rightarrow> bytes \<Rightarrow> 'w server \<Rightarrow> 'w server result" where
  "OnModifyPasswordResponse api c data s =
     bind_result (this_session c s) (\<lambda>se.
     bind_result (parse data) (\<lambda>doc.
       case doc of
         None \<Rightarrow> Inr s
       | Some d \<Rightarrow>
           let root = doc_root d
           in bind_result (check_members [(lit ''oldpassword'', isString), (lit ''newpassword'', isString)] root) (\<lambda>ok.
                if \<not> ok then Inr s
                else
                  bind_result (get_str (lit ''oldpassword'') root) (\<lambda>oldpass.
                  bind_result (get_str (lit ''newpassword'') root) (\<lambda>newpass.
                  bind_result (json_clear root) (\<lambda>v0.
                    case GetUserInfoByUserId (UserID se) (users s) of
                      None \<Rightarrow> Inr s
                    | Some cachedUser \<Rightarrow>
                        bind_result
                          (if password cachedUser \<noteq> oldpass
                           then Inr ((103, lit ''incorrect old password''), users s, database s)
                           else bind_result (ModifyUserPassword api (UserID se) newpass (users s) (database s))
                             (\<lambda>(r, us, d'). Inr (if r then (0, lit ''ok'') else (105, lit ''modify password error''), us, d')))
                          (\<lambda>((code, msg), us, d').
                            bind_result (set_members [(lit ''code'', JInt code), (lit ''msg'', JString msg)] v0) (\<lambda>v.
                              Inr (snd (Send se (message msg_type_modifypassword (m_seq se)
                                (toStyledString_doc (d\<lparr>doc_root := v\<rparr>))) (s\<lparr>users := us, database := d'\<rparr>)))))))))))"

definition OnCreateGroupResponse :: "'w mysql_api \<Rightarrow> int \<Rightarrow> conn \<Rightarrow> bytes \<Rightarrow> 'w server \<Rightarrow> 'w server result" where
  "OnCreateGroupResponse api garbage c data s =
     bind_result (this_session c s) (\<lambda>se.
     bind_result (parse data) (\<lambda>doc.
       case doc of
         None \<Rightarrow> Inr s
       | Some d \<Rightarrow>
           let root = doc_root d
           in bind_result (check_members [(lit ''groupname'', isString)] root) (\<lambda>ok.
                if \<not> ok then Inr s
                else
                  bind_result (get_str (lit ''groupname'') root) (\<lambda>groupname.
                  bind_result (json_clear root) (\<lambda>v0.
                  bind_result (AddGroup api (c_string groupname) (UserID se) garbage (users s) (database s))
                    (\<lambda>(r, groupid, us, d').
                  bind_result
                    (if \<not> r then set_members [(lit ''code'', JInt 106),
                         (lit ''msg'', JString (lit ''create group error''))] v0
                     else set_members [(lit ''code'', JInt 0), (lit ''msg'', JString (lit ''ok'')),
                         (lit ''groupid'', JInt groupid), (lit ''groupname'', JString groupname)] v0)
                    (\<lambda>v.
                  bind_result (MakeFriendRelationship api (UserID se) groupid us d') (\<lambda>(r2, us2, d2).
                    let s1 = s\<lparr>users := us2, database := d2\<rparr>
                    in if \<not> r2 then Inr s1
                       else
                         let s2 = snd (Send se (message msg_type_creategroup (m_seq se)
                               (toStyledString_doc (d\<lparr>doc_root := v\<rparr>))) s1)
                         in bind_result (set_members (operate_body groupid 3 groupname) JNull) (\<lambda>re.
                              Inr (snd (Send se (message msg_type_operatefriend (m_seq se)
                                (toStyledString re)) s2)))))))))))"

definition OnGetGroupMemberResponse :: "conn \<Rightarrow> bytes \<Rightarrow> 'w server \<Rightarrow> 'w server result" where
  "OnGetGroupMemberResponse c data s =
     bind_result (this_session c s) (\<lambda>se.
     bind_result (parse data) (\<lambda>doc.
       case doc of
         None \<Rightarrow> Inr s
       | Some d \<Rightarrow>
           let root = doc_root d
           in bind_result (check_members [(lit ''groupid'', isInt)] root) (\<lambda>ok.
                if \<not> ok then Inr s
                else
                  bind_result (get_int (lit ''groupid'') root) (\<lambda>groupid.
                  bind_result (json_clear root) (\<lambda>v0.
                  bind_result (set_members [(lit ''code'', JInt 0), (lit ''msg'', JString (lit ''ok'')),
                      (lit ''groupid'', JInt groupid)] v0) (\<lambda>v1.
                  bind_result (append_entries member_entry (lit ''members'')
                      (GetFriendInfoByUserId groupid (users s)) s v1) (\<lambda>v.
                    Inr (snd (Send se (message msg_type_getgroupmembers (m_seq se)
                      (toStyledString_doc (d\<lparr>doc_root := v\<rparr>))) s)))))))))"

subsection \<open>Handlers: chat\<close>

text \<open>The loop of a group message: the writer is passed on from member to member.\<close>

fun group_chat :: "User list \<Rightarrow> BinaryWriter \<Rightarrow> 'w server \<Rightarrow> 'w server" where
  "group_chat [] writer s = s"
| "group_chat (u # us) writer s =
     (case GetSessionByID (userid u) s of
        None \<Rightarrow> group_chat us writer
          (s\<lparr>cache := snd (AddChatMsgCache (userid u) (toString writer) (cache s))\<rparr>)
      | Some target \<Rightarrow> (let (writer', s') = Send target writer s in group_chat us writer' s'))"

definition OnChatResponse :: "'w mysql_api \<Rightarrow> conn \<Rightarrow> bytes \<Rightarrow> 'w server \<Rightarrow> 'w server result" where
  "OnChatResponse api c data s =
     bind_result (this_session c s) (\<lambda>se.
       let writer = WriteData (htonl (word_of_int (m_target se)))
             (WriteData (htonl (word_of_int (UserID se))) (message msg_type_chat (m_seq se) data))
       in bind_result (SaveChatMsgToDb api (UserID se) (m_target se) data (database s)) (\<lambda>(r, d').
            let s1 = s\<lparr>database := d'\<rparr>
            in if m_target se < GROUPID_BOUBDARY then
                 (case GetSessionByID (m_target se) s1 of
                    None \<Rightarrow> Inr (s1\<lparr>cache := snd (AddChatMsgCache (m_target se) (toString writer) (cache s1))\<rparr>)
                  | Some target \<Rightarrow> Inr (snd (Send target writer s1)))
               else Inr (group_chat (GetFriendInfoByUserId (m_target se) (users s1)) writer s1)))"

definition set_target :: "conn \<Rightarrow> int \<Rightarrow> 'w server \<Rightarrow> 'w server result" where
  "set_target c t s = bind_result (this_session c s) (\<lambda>se. Inr (set_session c (se\<lparr>m_target := t\<rparr>) s))"

definition OnMultiChatResponse :: "'w mysql_api \<Rightarrow> conn \<Rightarrow> bytes \<Rightarrow> 'w server \<Rightarrow> 'w server result" where
  "OnMultiChatResponse api c data s =
     bind_result (this_session c s) (\<lambda>se.
     bind_result (parse (m_targets se)) (\<lambda>doc.
       case doc of
         None \<Rightarrow> Inr s
       | Some d \<Rightarrow>
           bind_result (member (lit ''targets'') (doc_root d)) (\<lambda>targets.
             case targets of
               JArray vs \<Rightarrow>
                 for_each (\<lambda>v s. bind_result (asInt v) (\<lambda>t.
                     bind_result (set_target c t s) (OnChatResponse api c data))) vs s
             | _ \<Rightarrow> Inr s)))"

subsection \<open>Dispatch\<close>

definition dispatch ::
  "'w mysql_api \<Rightarrow> int \<Rightarrow> conn \<Rightarrow> 32 word \<Rightarrow> bytes \<Rightarrow> BinaryReader \<Rightarrow> 'w server \<Rightarrow> 'w server result" where
  "dispatch api garbage c cmd data reader s =
     (if cmd = msg_type_headerbeart then OnHeartbeatResponse c data s
      else if cmd = msg_type_register then OnRegisterResponse api c data s
      else if cmd = msg_type_login then OnLoginResponse c data s
      else if cmd = msg_type_getofriendlist then OnGetFriendListResponse c data s
      else if cmd = msg_type_finduser then OnFindUserResponse c data s
      else if cmd = msg_type_operatefriend then OnOperateFriendResponse api c data s
      else if cmd = msg_type_updateuserinfo then OnUpdateUserInfoResponse api c data s
      else if cmd = msg_type_modifypassword then OnModifyPasswordResponse api c data s
      else if cmd = msg_type_creategroup then OnCreateGroupResponse api garbage c data s
      else if cmd = msg_type_getgroupmembers then OnGetGroupMemberResponse c data s
      else if cmd = msg_type_chat then
        bind_result
          (case (ReadData reader :: (32 word \<times> BinaryReader) option) of
             None \<Rightarrow> Inr s | Some (t, _) \<Rightarrow> set_target c (sint t) s)
          (OnChatResponse api c data)
      else if cmd = msg_type_multichat then
        bind_result (ReadData_string reader) (\<lambda>(targets, _).
        bind_result (this_session c s) (\<lambda>se.
          OnMultiChatResponse api c data (set_session c (se\<lparr>m_targets := targets\<rparr>) s)))
      else Inr s)"

definition Process :: "'w mysql_api \<Rightarrow> int \<Rightarrow> conn \<Rightarrow> bytes \<Rightarrow> 'w server \<Rightarrow> (bool \<times> 'w server) result" where
  "Process api garbage c msgbuff s =
     (case (ReadData (mk_reader msgbuff) :: (32 word \<times> BinaryReader) option) of
        None \<Rightarrow> Inr (False, s)
      | Some (cmd, r1) \<Rightarrow>
          (case (ReadData r1 :: (32 word \<times> BinaryReader) option) of
             None \<Rightarrow> Inr (False, s)
           | Some (seq, r2) \<Rightarrow>
               bind_result (this_session c s) (\<lambda>se.
                 let s1 = set_session c (se\<lparr>m_seq := seq\<rparr>) s
                 in bind_result (ReadData_string r2) (\<lambda>(data, r3).
                    bind_result (dispatch api garbage c cmd data r3 s1) (\<lambda>s2. Inr (True, s2))))))"

definition force_close :: "conn \<Rightarrow> 'w server \<Rightarrow> 'w server" where
  "force_close c s = s\<lparr>closed := closed s @ [c]\<rparr>"

definition session_OnRead :: "'w mysql_api \<Rightarrow> int \<Rightarrow> conn \<Rightarrow> Buffer \<Rightarrow> 'w server \<Rightarrow> (Buffer \<times> 'w server) result" where
  "session_OnRead api garbage c = ClientSession_OnRead (Process api garbage c) (force_close c)"

end
