(* ===== verification/Chat_Server.thy ===== *)
theory Chat_Server
  imports Client_Session
begin

section \<open>The chat server as a state machine\<close>

text \<open>
  What the handlers of \<open>ClientSession\<close> may change (frame lemmas), the server as a transition system
  (connections opened and closed, messages processed), its invariant, and the properties of the
  requests: login, chat, group chat, friend requests.
\<close>

named_theorems frame_intros \<open>what an operation of the server may change\<close>

subsection \<open>Frames\<close>

definition accounts :: "UserManager \<Rightarrow> (int \<times> bytes) set" where
  "accounts m = (\<lambda>u. (userid u, username u)) ` set (m_cachedUsers m)"

text \<open>A handler that keeps the frame leaves the session map and the list of closed connections
  alone, only appends to the output, and changes the users only through operations of
  \<open>UserManager\<close>.\<close>

definition frame :: "'w mysql_api \<Rightarrow> 'w server \<Rightarrow> 'w server \<Rightarrow> bool" where
  "frame api s s' \<longleftrightarrow> m_mapclient s' = m_mapclient s \<and> closed s' = closed s \<and>
     (\<exists>out. outputs s' = outputs s @ out) \<and> (um_step api)\<^sup>*\<^sup>* (users s) (users s')"

definition frames :: "'w mysql_api \<Rightarrow> 'w server \<Rightarrow> 'w server result \<Rightarrow> bool" where
  "frames api s r \<longleftrightarrow> (\<forall>s'. r = Inr s' \<longrightarrow> frame api s s')"

lemma frame_refl [simp]: "frame api s s"
  by (simp add: frame_def)

lemma frame_trans: "frame api s s1 \<Longrightarrow> frame api s1 s2 \<Longrightarrow> frame api s s2"
  by (fastforce simp: frame_def)

lemma frames_Inl [frame_intros]: "frames api s (Inl e)"
  by (simp add: frames_def)

lemma frames_Inr: "frames api s (Inr s') \<longleftrightarrow> frame api s s'"
  by (simp add: frames_def)

lemma frames_bind [frame_intros]:
  "(\<And>a. m = Inr a \<Longrightarrow> frames api s (f a)) \<Longrightarrow> frames api s (bind_result m f)"
  by (auto simp: frames_def bind_result_eq_Inr)

lemma frames_bind_server:
  "frames api s m \<Longrightarrow> (\<And>s1. m = Inr s1 \<Longrightarrow> frames api s1 (f s1)) \<Longrightarrow> frames api s (bind_result m f)"
  by (auto simp: frames_def bind_result_eq_Inr intro: frame_trans)

lemma frames_trans: "frame api s s1 \<Longrightarrow> frames api s1 r \<Longrightarrow> frames api s r"
  by (auto simp: frames_def intro: frame_trans)

lemma Send_conn_state:
  "snd (Send_conn c w s) = s\<lparr>outputs := outputs s @ [(c, im_packet (toString w))]\<rparr>"
  by (simp add: Send_conn_def split_def TcpSession_Send_packet)

lemma Send_state:
  "snd (Send se w s) = s\<lparr>outputs := outputs s @ [(m_conn se, im_packet (toString w))]\<rparr>"
  by (simp add: Send_def Send_conn_state)

lemma frame_output [frame_intros]: "frame api s (s\<lparr>outputs := outputs s @ out\<rparr>)"
  by (simp add: frame_def)

lemma frame_cache [frame_intros]: "frame api s (s\<lparr>cache := ch\<rparr>)" "frame api s (s\<lparr>database := d\<rparr>)"
  by (simp_all add: frame_def)

lemma frame_users [frame_intros]:
  "(um_step api)\<^sup>*\<^sup>* (users s) us \<Longrightarrow> frame api s (s\<lparr>users := us, database := d\<rparr>)"
  by (simp add: frame_def)

lemma frame_Send [frame_intros]:
  "frame api s (snd (Send se w s))" "frame api s (snd (Send_conn c w s))"
  by (simp_all add: Send_state Send_conn_state frame_output)

lemma frame_reply [frame_intros]: "frame api s (reply c se cmd body s)"
  by (simp add: reply_def frame_Send)

lemma frames_reply_code [frame_intros]: "frames api s (reply_code c se cmd code msg s)"
  by (auto simp: reply_code_def frames_def bind_result_eq_Inr intro: frame_reply)

lemma frames_status [frame_intros]: "frames api s (SendUserStatusChangeMsg se uid type s)"
  unfolding SendUserStatusChangeMsg_def
  by (intro frames_bind) (simp add: frames_Inr Let_def frame_Send)

lemma frames_for_each: "(\<And>x s. frames api s (f x s)) \<Longrightarrow> frames api s (for_each f xs s)"
  by (induction xs arbitrary: s) (auto simp: frames_Inr intro: frames_bind_server)

lemma frames_notify_friends [frame_intros]: "frames api s (notify_friends uid about type s)"
  unfolding notify_friends_def
  by (rule frames_for_each) (auto simp: frames_Inr intro: frames_status split: option.split)

lemma frame_push_cached [frame_intros]: "frame api s (push_cached se ms s)"
  by (induction ms arbitrary: s) (auto simp: Let_def intro: frame_trans [OF frame_Send(1)])

lemma frame_notify_target [frame_intros]: "frame api s (notify_target se t out s)"
  by (auto simp: notify_target_def Let_def intro: frame_intros split: option.split)

lemma frame_group_chat [frame_intros]: "frame api s (group_chat us w s)"
proof (induction us arbitrary: w s)
  case (Cons u us)
  then show ?case
    by (auto simp: split_def Let_def intro: frame_trans [OF frame_Send(1)] frame_trans [OF frame_cache(1)]
        split: option.split)
qed simp

lemma frames_any: "(\<And>a. frames api s (f a)) \<Longrightarrow> frames api s (bind_result m f)"
  by (rule frames_bind)

lemma frames_if: "frames api s a \<Longrightarrow> frames api s b \<Longrightarrow> frames api s (if P then a else b)"
  by simp

lemma frames_option:
  "frames api s a \<Longrightarrow> (\<And>x. frames api s (f x)) \<Longrightarrow> frames api s (case v of None \<Rightarrow> a | Some x \<Rightarrow> f x)"
  by (simp split: option.split)

lemma frames_pair: "(\<And>x y. frames api s (f x y)) \<Longrightarrow> frames api s (case p of (x, y) \<Rightarrow> f x y)"
  by (simp split: prod.split)

lemma frames_done: "frame api s s' \<Longrightarrow> frames api s (Inr s')"
  by (simp add: frames_Inr)

text \<open>Operations of the user manager, with their result written back.\<close>

lemma frames_um:
  assumes "\<And>r us d. m = Inr (r, us, d) \<Longrightarrow> (um_step api)\<^sup>*\<^sup>* (users s) us"
    and "\<And>r us d. frames api (s\<lparr>users := us, database := d\<rparr>) (f r us d)"
  shows "frames api s (bind_result m (\<lambda>(r, us, d). f r us d))"
proof (rule frames_bind)
  fix x assume "m = Inr x"
  obtain r us d where x: "x = (r, us, d)" by (cases x)
  show "frames api s (case x of (r, us, d) \<Rightarrow> f r us d)"
    using frames_trans [OF frame_users assms(2), OF assms(1)] \<open>m = Inr x\<close> x by simp
qed

lemma frames_um_code:
  assumes "\<And>r us d. m = Inr (r, us, d) \<Longrightarrow> (um_step api)\<^sup>*\<^sup>* (users s) us"
    and "\<And>code msg us d. frames api (s\<lparr>users := us, database := d\<rparr>) (f code msg us d)"
  shows "frames api s (bind_result m (\<lambda>((code, msg), us, d). f code msg us d))"
  using frames_um [of m api s "\<lambda>r us d. f (fst r) (snd r) us d"] assms by (simp add: split_def)

lemma um_ops:
  "AddUser api u m d = Inr (r, m', d') \<Longrightarrow> (um_step api)\<^sup>*\<^sup>* m m'"
  "MakeFriendRelationship api a b m d = Inr (r, m', d') \<Longrightarrow> (um_step api)\<^sup>*\<^sup>* m m'"
  "ReleaseFriendRelationship api a b m d = Inr (r, m', d') \<Longrightarrow> (um_step api)\<^sup>*\<^sup>* m m'"
  "UpdateUserInfo api uid u m d = Inr (r, m', d') \<Longrightarrow> (um_step api)\<^sup>*\<^sup>* m m'"
  "ModifyUserPassword api uid pw m d = Inr (r, m', d') \<Longrightarrow> (um_step api)\<^sup>*\<^sup>* m m'"
  "AddGroup api name owner g m d = Inr (r, g', m', d') \<Longrightarrow> (um_step api)\<^sup>*\<^sup>* m m'"
  by (blast intro: um_step.intros)+

lemmas frames_ops = um_ops(1-4) [THEN frames_um]

lemma frames_group:
  assumes "\<And>r gid v r2 us d. frames api (s\<lparr>users := us, database := d\<rparr>) (f r gid v r2 us d)"
  shows "frames api s (bind_result (AddGroup api name owner g (users s) (database s)) (\<lambda>(r, gid, us, d).
    bind_result (k r gid) (\<lambda>v. bind_result (MakeFriendRelationship api a gid us d) (\<lambda>(r2, us2, d2).
      f r gid v r2 us2 d2))))"
proof (rule frames_bind)
  fix x assume x: "AddGroup api name owner g (users s) (database s) = Inr x"
  obtain r gid us d where x': "x = (r, gid, us, d)" by (cases x)
  have "frames api s (bind_result (MakeFriendRelationship api a gid us d) (\<lambda>(r2, us2, d2). f r gid v r2 us2 d2))" for v
    using um_ops(6) [OF x [unfolded x']] um_ops(2) by (intro frames_um assms) (blast intro: rtranclp_trans)
  then show "frames api s (case x of (r, gid, us, d) \<Rightarrow> bind_result (k r gid) (\<lambda>v.
      bind_result (MakeFriendRelationship api a gid us d) (\<lambda>(r2, us2, d2). f r gid v r2 us2 d2)))"
    by (simp add: x' frames_any)
qed

lemma frame_more:
  "frame api s s1 \<Longrightarrow> frame api s (snd (Send se w s1))"
  "frame api s s1 \<Longrightarrow> frame api s (notify_target se t out s1)"
  "frame api s s1 \<Longrightarrow> frame api s (s1\<lparr>cache := ch\<rparr>)"
  "frame api s s1 \<Longrightarrow> frame api s (group_chat us w s1)"
  by (blast intro: frame_trans frame_intros)+

lemmas frames_rules = frames_ops frames_group frames_reply_code frames_notify_friends
  frames_trans [OF _ frames_notify_friends] frames_if frames_option frames_any frames_done
  frame_more frame_cache frame_refl

subsection \<open>Handlers that keep the frame\<close>

lemma frames_Heartbeat: "frames api s (OnHeartbeatResponse c data s)"
  unfolding OnHeartbeatResponse_def by (intro frames_any frames_done frame_reply)

lemma frames_Register: "frames api s (OnRegisterResponse api c data s)"
  unfolding OnRegisterResponse_def Let_def by (intro frames_rules)

lemma frames_GetFriendList: "frames api s (OnGetFriendListResponse c data s)"
  unfolding OnGetFriendListResponse_def Let_def by (intro frames_rules)

lemma frames_FindUser: "frames api s (OnFindUserResponse c data s)"
  unfolding OnFindUserResponse_def Let_def by (intro frames_rules)

lemma frames_GetGroupMember: "frames api s (OnGetGroupMemberResponse c data s)"
  unfolding OnGetGroupMemberResponse_def Let_def by (intro frames_rules)

lemma frames_DeleteFriend: "frames api s (DeleteFriend api c i s)"
  unfolding DeleteFriend_def Let_def by (intro frames_rules)

lemma frames_AddGroup: "frames api s (OnAddGroupResponse api c i s)"
  unfolding OnAddGroupResponse_def Let_def by (intro frames_rules)

lemma frames_OperateFriend: "frames api s (OnOperateFriendResponse api c data s)"
  unfolding OnOperateFriendResponse_def Let_def
  by (intro frames_DeleteFriend frames_AddGroup frames_um frames_rules)
    (auto intro: um_ops split: if_splits)

lemma frames_UpdateUserInfo: "frames api s (OnUpdateUserInfoResponse api c data s)"
  unfolding OnUpdateUserInfoResponse_def Let_def by (intro frames_rules)

lemma frames_ModifyPassword: "frames api s (OnModifyPasswordResponse api c data s)"
  unfolding OnModifyPasswordResponse_def Let_def
  by (intro frames_um_code frames_rules) (auto simp: bind_result_eq_Inr intro: um_ops split: if_splits)

lemma frames_CreateGroup: "frames api s (OnCreateGroupResponse api g c data s)"
  unfolding OnCreateGroupResponse_def Let_def by (intro frames_rules)

lemma frames_Chat: "frames api s (OnChatResponse api c data s)"
  unfolding OnChatResponse_def Let_def by (intro frames_rules frames_pair)

subsection \<open>Changes of the own session\<close>

text \<open>The other handlers may also change the session they run on, but not its identity; the user of
  the session stays the same or becomes one of \<open>A\<close>. Other sessions are not touched.\<close>

definition session_change :: "'w mysql_api \<Rightarrow> conn \<Rightarrow> User set \<Rightarrow> 'w server \<Rightarrow> 'w server \<Rightarrow> bool" where
  "session_change api c A s s' \<longleftrightarrow> closed s' = closed s \<and> (\<exists>out. outputs s' = outputs s @ out) \<and>
     (um_step api)\<^sup>*\<^sup>* (users s) (users s') \<and>
     (omap_ok (m_mapclient s) \<longrightarrow> omap_ok (m_mapclient s')) \<and>
     (\<forall>k. k \<noteq> ptr_text c \<longrightarrow> omap_find k (m_mapclient s') = omap_find k (m_mapclient s)) \<and>
     (omap_find (ptr_text c) (m_mapclient s) = None \<longrightarrow> omap_find (ptr_text c) (m_mapclient s') = None) \<and>
     (\<forall>se. omap_find (ptr_text c) (m_mapclient s) = Some se \<longrightarrow>
        (\<exists>se'. omap_find (ptr_text c) (m_mapclient s') = Some se' \<and> m_conn se' = m_conn se \<and>
           m_sessionid se' = m_sessionid se \<and> (m_user se' = m_user se \<or> m_user se' \<in> A)))"

definition changes :: "'w mysql_api \<Rightarrow> conn \<Rightarrow> User set \<Rightarrow> 'w server \<Rightarrow> 'w server result \<Rightarrow> bool" where
  "changes api c A s r \<longleftrightarrow> (\<forall>s'. r = Inr s' \<longrightarrow> session_change api c A s s')"

lemma frame_change: "frame api s s' \<Longrightarrow> session_change api c A s s'"
  by (auto simp: frame_def session_change_def)

lemma session_change_trans:
  assumes "session_change api c A s s1" "session_change api c A s1 s2"
  shows "session_change api c A s s2"
proof -
  have "\<exists>se'. omap_find (ptr_text c) (m_mapclient s2) = Some se' \<and> m_conn se' = m_conn se \<and>
      m_sessionid se' = m_sessionid se \<and> (m_user se' = m_user se \<or> m_user se' \<in> A)"
    if "omap_find (ptr_text c) (m_mapclient s) = Some se" for se
    using that assms unfolding session_change_def by metis
  moreover have "\<exists>out. outputs s2 = outputs s @ out"
    using assms by (auto simp: session_change_def)
  ultimately show ?thesis
    using assms by (auto simp: session_change_def)
qed

lemma changes_simps:
  "changes api c A s (Inl e)"
  "changes api c A s (Inr s') \<longleftrightarrow> session_change api c A s s'"
  by (simp_all add: changes_def)

lemma frames_changes: "frames api s r \<Longrightarrow> changes api c A s r"
  by (auto simp: frames_def changes_def frame_change)

lemma changes_bind:
  "(\<And>a. m = Inr a \<Longrightarrow> changes api c A s (f a)) \<Longrightarrow> changes api c A s (bind_result m f)"
  by (auto simp: changes_def bind_result_eq_Inr)

lemma changes_bind_server:
  "changes api c A s m \<Longrightarrow> (\<And>s1. changes api c A s1 (f s1)) \<Longrightarrow> changes api c A s (bind_result m f)"
  by (auto simp: changes_def bind_result_eq_Inr intro: session_change_trans)

lemma changes_trans:
  "session_change api c A s s1 \<Longrightarrow> changes api c A s1 r \<Longrightarrow> changes api c A s r"
  by (auto simp: changes_def intro: session_change_trans)

lemma set_session_change:
  assumes "this_session c s = Inr se" "m_conn se' = m_conn se" "m_sessionid se' = m_sessionid se"
    and "m_user se' = m_user se \<or> m_user se' \<in> A"
  shows "session_change api c A s (set_session c se' s)"
  using assms
  by (auto simp: session_change_def set_session_def this_session_def omap_find_assign split: option.splits)

lemma changes_set_target: "changes api c A s (set_target c t s)"
  unfolding set_target_def
  by (rule changes_bind) (simp add: changes_simps set_session_change)

lemma changes_for_each: "(\<And>x s. changes api c A s (f x s)) \<Longrightarrow> changes api c A s (for_each f xs s)"
proof (induction xs arbitrary: s)
  case (Cons x xs)
  then show ?case by (auto intro: changes_bind_server)
qed (simp add: changes_simps frame_change)

lemma changes_MultiChat: "changes api c A s (OnMultiChatResponse api c data s)"
proof -
  have one: "changes api c A s (bind_result (asInt v) (\<lambda>t. bind_result (set_target c t s) (OnChatResponse api c data)))"
    for v s
    by (intro changes_bind changes_bind_server changes_set_target frames_changes frames_Chat)
  show ?thesis
    unfolding OnMultiChatResponse_def
    by (auto intro!: changes_bind changes_for_each one simp: changes_simps frame_change split: option.split JValue.split)
qed

text \<open>The users a login request proves to be: it names them with their password.\<close>

definition credentials :: "bytes \<Rightarrow> UserManager \<Rightarrow> User set" where
  "credentials data us =
     {u'. \<exists>d name u. parse data = Inr (Some d) \<and> get_str (lit ''username'') (doc_root d) = Inr name \<and>
        GetUserInfoByUsername name us = Some u \<and>
        get_str (lit ''password'') (doc_root d) = Inr (password u) \<and>
        userid u' = userid u \<and> username u' = name}"

lemma changes_if: "(P \<Longrightarrow> changes api c A s a) \<Longrightarrow> (\<not> P \<Longrightarrow> changes api c A s b) \<Longrightarrow> changes api c A s (if P then a else b)"
  by simp

lemma changes_option:
  "changes api c A s a \<Longrightarrow> (\<And>x. v = Some x \<Longrightarrow> changes api c A s (f x)) \<Longrightarrow>
     changes api c A s (case v of None \<Rightarrow> a | Some x \<Rightarrow> f x)"
  by (simp split: option.split)

lemma frame_login_pushes:
  "frame api s (push_cached se cs ((push_cached se ns ((reply c se cmd body s)\<lparr>cache := ch\<rparr>))\<lparr>cache := ch'\<rparr>))"
  by (rule frame_trans [OF frame_trans [OF frame_trans [OF frame_trans [OF frame_reply frame_cache(1)]
    frame_push_cached] frame_cache(1)] frame_push_cached])

lemmas changes_login_pushes =
  frames_changes [OF frames_trans [OF frame_login_pushes frames_notify_friends]]

lemma changes_Login: "changes api c (credentials data (users s)) s (OnLoginResponse c data s)"
  unfolding OnLoginResponse_def Let_def split_def
  apply (intro changes_bind changes_option changes_if frames_changes [OF frames_reply_code])
  apply (rule changes_trans [OF set_session_change changes_login_pushes], assumption)
  apply (auto simp: credentials_def)
  done

text \<open>What \<open>Process\<close> reads of a message.\<close>

definition decode_request :: "bytes \<Rightarrow> (32 word \<times> 32 word \<times> bytes \<times> BinaryReader) option" where
  "decode_request msgbuff =
     (case (ReadData (mk_reader msgbuff) :: (32 word \<times> BinaryReader) option) of
        None \<Rightarrow> None
      | Some (cmd, r1) \<Rightarrow>
          (case (ReadData r1 :: (32 word \<times> BinaryReader) option) of
             None \<Rightarrow> None
           | Some (seq, r2) \<Rightarrow>
               (case ReadData_string r2 of Inl _ \<Rightarrow> None | Inr (data, r3) \<Rightarrow> Some (cmd, seq, data, r3))))"

definition proven_users :: "bytes \<Rightarrow> UserManager \<Rightarrow> User set" where
  "proven_users msgbuff us =
     (case decode_request msgbuff of
        None \<Rightarrow> {}
      | Some (cmd, seq, data, r) \<Rightarrow> if cmd = msg_type_login then credentials data us else {})"

lemma dispatch_login: "dispatch api g c msg_type_login data r s = OnLoginResponse c data s"
  by (simp add: dispatch_def msg_types)

lemma changes_dispatch:
  "changes api c (if cmd = msg_type_login then credentials data (users s) else {}) s
     (dispatch api g c cmd data r s)"
proof (cases "cmd = msg_type_login")
  case True
  then show ?thesis by (simp add: dispatch_login changes_Login)
next
  case False
  have "changes api c {} s (bind_result (case (ReadData r :: (32 word \<times> BinaryReader) option) of
      None \<Rightarrow> Inr s | Some (t, _) \<Rightarrow> set_target c (sint t) s) (OnChatResponse api c data))"
    by (rule changes_bind_server)
      (auto simp: changes_simps frame_change frames_changes frames_Chat changes_set_target split: option.split)
  moreover have "changes api c {} s (bind_result (ReadData_string r) (\<lambda>(targets, _).
      bind_result (this_session c s) (\<lambda>se.
        OnMultiChatResponse api c data (set_session c (se\<lparr>m_targets := targets\<rparr>) s))))"
    by (auto intro!: changes_bind changes_trans [OF set_session_change changes_MultiChat])
  ultimately show ?thesis
    using False unfolding dispatch_def
    by (simp add: frames_changes frames_Heartbeat frames_Register frames_GetFriendList frames_FindUser
      frames_OperateFriend frames_UpdateUserInfo frames_ModifyPassword frames_CreateGroup
      frames_GetGroupMember changes_simps frame_change)
qed

lemma Process_request:
  assumes "decode_request msgbuff = Some (cmd, seq, data, r)" "this_session c s = Inr se"
  shows "Process api g c msgbuff s =
    bind_result (dispatch api g c cmd data r (set_session c (se\<lparr>m_seq := seq\<rparr>) s)) (\<lambda>s2. Inr (True, s2))"
  using assms by (auto simp: Process_def decode_request_def Let_def split: option.splits sum.splits prod.splits)

lemma Process_rejects:
  "decode_request msgbuff = None \<Longrightarrow> Process api g c msgbuff s = Inr (ok, s') \<Longrightarrow> \<not> ok \<and> s' = s"
  by (auto simp: Process_def decode_request_def bind_result_eq_Inr Let_def split: option.splits sum.splits prod.splits)

lemma users_set_session [simp]: "users (set_session c se s) = users s"
  by (simp add: set_session_def)

lemma Process_no_session:
  "decode_request msgbuff = Some p \<Longrightarrow> this_session c s = Inl e \<Longrightarrow> Process api g c msgbuff s = Inl e"
  by (auto simp: Process_def decode_request_def split: option.splits sum.splits prod.splits)

lemma Process_change:
  assumes "Process api g c msgbuff s = Inr (ok, s')"
  shows "session_change api c (proven_users msgbuff (users s)) s s'"
proof (cases "decode_request msgbuff")
  case None
  then show ?thesis
    using Process_rejects [OF None assms] by (simp add: frame_change)
next
  case (Some p)
  obtain cmd seq data r where p: "p = (cmd, seq, data, r)" by (cases p)
  obtain se where se: "this_session c s = Inr se"
    using assms Process_no_session [OF Some, of c s _ api g] by (cases "this_session c s") auto
  let ?s = "set_session c (se\<lparr>m_seq := seq\<rparr>) s"
  have "dispatch api g c cmd data r ?s = Inr s'"
    using assms Process_request [OF Some [unfolded p] se] by (simp add: bind_result_eq_Inr)
  then have "session_change api c (proven_users msgbuff (users s)) ?s s'"
    using changes_dispatch [of api c cmd data ?s g r] Some p
    by (auto simp: changes_def proven_users_def split: if_splits)
  moreover have "session_change api c (proven_users msgbuff (users s)) s ?s"
    using se by (rule set_session_change) simp_all
  ultimately show ?thesis
    by (blast intro: session_change_trans)
qed

subsection \<open>Steps of the server\<close>

inductive server_step :: "'w mysql_api \<Rightarrow> 'w server \<Rightarrow> 'w server \<Rightarrow> bool" for api where
  connect: "server_step api s (OnConnection garbage True c s)"
| disconnect: "server_step api s (OnConnection garbage False c s)"
| request: "Process api garbage c msgbuff s = Inr (ok, s') \<Longrightarrow>
    server_step api s (if ok then s' else force_close c s')"

definition session_ok :: "UserManager \<Rightarrow> bytes \<Rightarrow> ClientSession \<Rightarrow> bool" where
  "session_ok us k se \<longleftrightarrow> m_sessionid se = k \<and> k = ptr_text (m_conn se) \<and>
     (UserID se = -1 \<or> (UserID se, username (m_user se)) \<in> accounts us)"

definition server_inv :: "'w server \<Rightarrow> bool" where
  "server_inv s \<longleftrightarrow> omap_ok (m_mapclient s) \<and>
     (\<forall>k se. omap_find k (m_mapclient s) = Some se \<longrightarrow> session_ok (users s) k se)"

lemma accounts_loops:
  "map (\<lambda>u. (userid u, username u)) (snd (add_friend_loop a b f1 f2 us)) = map (\<lambda>u. (userid u, username u)) us"
  "map (\<lambda>u. (userid u, username u)) (snd (delete_friend_loop a b f1 f2 us)) = map (\<lambda>u. (userid u, username u)) us"
  "(\<And>u. userid (f u) = userid u \<and> username (f u) = username u) \<Longrightarrow>
     map (\<lambda>u. (userid u, username u)) (snd (update_user uid f us)) = map (\<lambda>u. (userid u, username u)) us"
  by (induction us arbitrary: f1 f2) (simp_all add: Let_def split_def)

lemma accounts_map: "accounts m = set (map (\<lambda>u. (userid u, username u)) (m_cachedUsers m))"
  by (simp add: accounts_def)

lemma um_step_accounts: "um_step api m m' \<Longrightarrow> accounts m \<subseteq> accounts m'"
proof (induction rule: um_step.induct)
  case (add_user u m d r m' d')
  then show ?case by (auto simp: accounts_def dest: AddUser_result)
next
  case (add_group name owner g m d r g' m' d')
  then show ?case by (auto simp: accounts_def dest: AddGroup_result)
qed (auto simp: MakeFriendRelationship_def ReleaseFriendRelationship_def UpdateUserInfo_def ModifyUserPassword_def
    AddFriendToUser_def DeleteFriendToUser_def accounts_map accounts_loops bind_result_eq_Inr Let_def split_def
    simp del: set_map split: if_splits)

lemma um_steps_accounts: "(um_step api)\<^sup>*\<^sup>* m m' \<Longrightarrow> accounts m \<subseteq> accounts m'"
  by (induction rule: rtranclp_induct) (auto dest: um_step_accounts)

lemma credentials_account: "u \<in> proven_users msgbuff us \<Longrightarrow> (userid u, username u) \<in> accounts us"
  by (auto simp: proven_users_def credentials_def accounts_def GetUserInfoByUsername_def find_Some_iff
      split: option.splits if_splits) (metis (mono_tags, lifting) image_eqI nth_mem)

lemma session_ok_mono: "session_ok us k se \<Longrightarrow> accounts us \<subseteq> accounts us' \<Longrightarrow> session_ok us' k se"
  by (auto simp: session_ok_def)

lemma server_inv_Process:
  assumes "server_inv s" "Process api g c msgbuff s = Inr (ok, s')"
  shows "server_inv s'"
proof -
  have ch: "session_change api c (proven_users msgbuff (users s)) s s'"
    using assms(2) by (rule Process_change)
  then have acc: "accounts (users s) \<subseteq> accounts (users s')"
    by (auto simp: session_change_def dest: um_steps_accounts)
  have "session_ok (users s') k se'" if k: "omap_find k (m_mapclient s') = Some se'" for k se'
  proof (cases "k = ptr_text c")
    case True
    obtain se where se: "omap_find k (m_mapclient s) = Some se"
      using True k ch by (cases "omap_find k (m_mapclient s)") (auto simp: session_change_def)
    then have "session_ok (users s) k se"
      using assms(1) by (simp add: server_inv_def)
    moreover have "m_conn se' = m_conn se" "m_sessionid se' = m_sessionid se"
      "m_user se' = m_user se \<or> m_user se' \<in> proven_users msgbuff (users s)"
      using ch True k se by (auto simp: session_change_def)
    ultimately show ?thesis
      using acc by (auto simp: session_ok_def UserID_def dest: credentials_account)
  next
    case False
    then show ?thesis
      using assms(1) ch k acc by (auto simp: session_change_def server_inv_def intro: session_ok_mono)
  qed
  with assms(1) ch show ?thesis
    by (simp add: server_inv_def session_change_def)
qed

lemma server_inv_step: "server_step api s s' \<Longrightarrow> server_inv s \<Longrightarrow> server_inv s'"
proof (induction rule: server_step.induct)
  case (connect s garbage c)
  then show ?case
    by (auto simp: OnConnection_def server_inv_def new_ClientSession_def omap_find_insert session_ok_def UserID_def
        new_User_def Let_def)
next
  case (disconnect s garbage c)
  then show ?case
    by (auto simp: OnConnection_def OnClose_def server_inv_def omap_find_erase split: option.split)
next
  case (request garbage c msgbuff s ok s')
  then have "server_inv s'" by (blast intro: server_inv_Process)
  then show ?case by (simp add: server_inv_def force_close_def)
qed

lemma server_inv_steps: "(server_step api)\<^sup>*\<^sup>* s s' \<Longrightarrow> server_inv s \<Longrightarrow> server_inv s'"
  by (induction rule: rtranclp_induct) (auto intro: server_inv_step)

definition new_server :: "UserManager \<Rightarrow> 'w db \<Rightarrow> 'w server" where
  "new_server us d = \<lparr>m_mapclient = [], users = us, cache = new_MsgCacheManager, database = d,
     outputs = [], closed = []\<rparr>"

lemma new_server_inv [simp]: "server_inv (new_server us d)"
  by (simp add: server_inv_def new_server_def omap_find_def)

subsection \<open>What is sent\<close>

lemma toString_WriteData_string [simp]: "toString (WriteData_string d w) = toString w @ encode_string d"
  by (simp add: WriteData_string_def toString_def encode_string_def Let_def)

lemma toString_message: "toString (message cmd seq body) = be_bytes 4 cmd @ be_bytes 4 seq @ encode_string body"
  by (simp add: message_def WriteData_ok)

lemma decode_message:
  assumes "length body < 2 ^ 31" "length (toString (message cmd seq body) @ rest) < 2 ^ 32"
  shows "decode_request (toString (message cmd seq body) @ rest) = Some (cmd, seq, body,
    \<lparr>rd_buffer = toString (message cmd seq body) @ rest,
     rd_index = of_nat (length (toString (message cmd seq body)))\<rparr>)"
proof -
  let ?msg = "be_bytes 4 cmd @ be_bytes 4 seq @ encode_string body @ rest"
  have p0: "positioned (mk_reader ?msg) ?msg"
    using assms(2) by (intro positioned_start) (simp add: toString_message)
  note r0 = ReadData_positioned [OF p0, where 'a = 32, simplified]
  note p1 = positioned_advance [OF p0]
  note r1 = ReadData_positioned [OF p1, where 'a = 32, simplified]
  note p2 = positioned_advance [OF p1]
  note r2 = ReadData_string_positioned [OF assms(1) p2]
  show ?thesis
    using r0 r1 r2 by (simp add: decode_request_def toString_message advance_def mk_reader_def)
qed

definition status_json :: "int \<Rightarrow> JValue" where
  "status_json type =
     (if type = 1 then JObject [(lit ''onlinestatus'', JInt 1), (lit ''type'', JInt 1)]
      else if type = 2 then JObject [(lit ''onlinestatus'', JInt 0), (lit ''type'', JInt 2)]
      else if type = 3 then JObject [(lit ''type'', JInt 3)] else JNull)"

definition status_packet :: "ClientSession \<Rightarrow> int \<Rightarrow> int \<Rightarrow> bytes" where
  "status_packet se uid type = im_packet (toString (WriteData (htonl (word_of_int uid))
     (message msg_type_userstatuschange (m_seq se) (toStyledString (status_json type)))))"

lemma SendUserStatusChangeMsg_state:
  "SendUserStatusChangeMsg se uid type s =
     Inr (s\<lparr>outputs := outputs s @ [(m_conn se, status_packet se uid type)]\<rparr>)"
  by (simp add: SendUserStatusChangeMsg_def status_json_def status_packet_def Send_state lit_def Let_def)

lemma GetSessionByID_outputs [simp]:
  "GetSessionByID i (s\<lparr>outputs := out\<rparr>) = GetSessionByID i s"
  "GetSessionByID i (s\<lparr>cache := ch\<rparr>) = GetSessionByID i s"
  "GetSessionByID i (s\<lparr>database := d\<rparr>) = GetSessionByID i s"
  "GetSessionByID i (s\<lparr>users := us\<rparr>) = GetSessionByID i s"
  by (simp_all add: GetSessionByID_def)

lemma notify_friends_state:
  "notify_friends uid about type s = Inr (s\<lparr>outputs := outputs s @
     [(m_conn t, status_packet t about type). u \<leftarrow> GetFriendInfoByUserId uid (users s),
        t \<leftarrow> (case GetSessionByID (userid u) s of None \<Rightarrow> [] | Some t \<Rightarrow> [t])]\<rparr>)"
proof -
  have "for_each (\<lambda>u s. case GetSessionByID (userid u) s of None \<Rightarrow> Inr s
      | Some target \<Rightarrow> SendUserStatusChangeMsg target about type s) us s =
    Inr (s\<lparr>outputs := outputs s @ [(m_conn t, status_packet t about type). u \<leftarrow> us,
      t \<leftarrow> (case GetSessionByID (userid u) s of None \<Rightarrow> [] | Some t \<Rightarrow> [t])]\<rparr>)" for us
    by (induction us arbitrary: s) (simp_all add: SendUserStatusChangeMsg_state split: option.split)
  then show ?thesis by (simp add: notify_friends_def)
qed

definition pushed :: "bytes \<Rightarrow> bytes" where
  "pushed m = im_packet (encode_string m)"

lemma push_cached_state:
  "push_cached se ms s = s\<lparr>outputs := outputs s @ map (\<lambda>m. (m_conn se, pushed m)) ms\<rparr>"
  by (induction ms arbitrary: s) (simp_all add: Let_def Send_state pushed_def)

subsection \<open>Login\<close>

definition login_fields :: "(bytes \<times> (JValue \<Rightarrow> bool)) list" where
  "login_fields = [(lit ''username'', isString), (lit ''password'', isString), (lit ''clienttype'', isInt),
     (lit ''status'', isInt)]"

text \<open>A login request: well-formed JSON with the four members, their types as checked.\<close>

definition login_request :: "bytes \<Rightarrow> bytes \<Rightarrow> bytes \<Rightarrow> int \<Rightarrow> bool" where
  "login_request data name pass ct \<longleftrightarrow>
     (case parse data of
        Inr (Some d) \<Rightarrow> check_members login_fields (doc_root d) = Inr True \<and>
          get_str (lit ''username'') (doc_root d) = Inr name \<and>
          get_str (lit ''password'') (doc_root d) = Inr pass \<and>
          get_int (lit ''clienttype'') (doc_root d) = Inr ct
      | _ \<Rightarrow> False)"

definition login_session :: "User \<Rightarrow> bytes \<Rightarrow> int \<Rightarrow> ClientSession \<Rightarrow> ClientSession" where
  "login_session u name ct se = se\<lparr>m_user := (m_user se)\<lparr>userid := userid u, username := name,
     nickname := nickname u, password := password u, clienttype := Some ct, status := Some 1\<rparr>\<rparr>"

lemma login_reply_ok: "\<exists>v. login_reply u name = Inr v"
  by (simp add: login_reply_def set_members_null)

lemma OnLoginResponse_reply:
  assumes "login_request data name pass ct" "this_session c s = Inr se"
  shows "OnLoginResponse c data s =
    (case GetUserInfoByUsername name (users s) of
       None \<Rightarrow> reply_code c se msg_type_login 103 (lit ''user is not exist or password is incorrest!'') s
     | Some u \<Rightarrow>
         if pass \<noteq> password u
         then reply_code c se msg_type_login 104 (lit ''user is not exist or password is incorrest!'') s
         else bind_result (login_reply u name) (\<lambda>v.
           notify_friends (userid u) (userid u) 1
            (let se1 = login_session u name ct se;
                 s1 = reply c se1 msg_type_login (toStyledString v) (set_session c se1 s);
                 s2 = push_cached se1 (fst (get_notify (userid u) (cache s1)))
                   (s1\<lparr>cache := snd (get_notify (userid u) (cache s1))\<rparr>)
             in push_cached se1 (fst (get_chat (userid u) (cache s2)))
                  (s2\<lparr>cache := snd (get_chat (userid u) (cache s2))\<rparr>))))"
proof -
  obtain d where d: "parse data = Inr (Some d)" "check_members login_fields (doc_root d) = Inr True"
    "get_str (lit ''username'') (doc_root d) = Inr name" "get_str (lit ''password'') (doc_root d) = Inr pass"
    "get_int (lit ''clienttype'') (doc_root d) = Inr ct"
    using assms(1) by (auto simp: login_request_def split: sum.splits option.splits)
  show ?thesis
    unfolding OnLoginResponse_def
    by (simp add: assms(2) d d(2) [unfolded login_fields_def] login_session_def get_notify_def get_chat_def
      Let_def split_def split: option.split del: check_members.simps)
qed

lemma views_apart:
  "chat_view (snd (get_notify u m)) = chat_view m" "notify_view (snd (get_chat u m)) = notify_view m"
  by (auto simp: mail_defs fun_eq_iff)

lemma reply_state:
  "reply c se cmd body s = s\<lparr>outputs := outputs s @ [(c, im_packet (toString (message cmd (m_seq se) body)))]\<rparr>"
  by (simp add: reply_def Send_conn_state)

definition status_packets :: "int \<Rightarrow> int \<Rightarrow> int \<Rightarrow> 'w server \<Rightarrow> (conn \<times> bytes) list" where
  "status_packets uid about type s =
     [(m_conn t, status_packet t about type). u \<leftarrow> GetFriendInfoByUserId uid (users s),
        t \<leftarrow> (case GetSessionByID (userid u) s of None \<Rightarrow> [] | Some t \<Rightarrow> [t])]"

lemma status_packets_outputs [simp]:
  "status_packets uid about type (s\<lparr>outputs := out\<rparr>) = status_packets uid about type s"
  "status_packets uid about type (s\<lparr>cache := ch\<rparr>) = status_packets uid about type s"
  by (simp_all add: status_packets_def)

lemma set_session_fields [simp]:
  "cache (set_session c se s) = cache s" "outputs (set_session c se s) = outputs s"
  "closed (set_session c se s) = closed s" "database (set_session c se s) = database s"
  "m_mapclient (set_session c se s) = omap_assign (ptr_text c) se (m_mapclient s)"
  by (simp_all add: set_session_def)

lemma login_succeeds:
  assumes "this_session c s = Inr se" "login_request data name (password u) ct"
    and "GetUserInfoByUsername name (users s) = Some u"
  shows "\<exists>v s'. login_reply u name = Inr v \<and> OnLoginResponse c data s = Inr s' \<and>
    m_mapclient s' = omap_assign (ptr_text c) (login_session u name ct se) (m_mapclient s) \<and>
    outputs s' = outputs s @ [(c, im_packet (toString (message msg_type_login (m_seq se) (toStyledString v))))] @
      map (\<lambda>m. (m_conn se, pushed m)) (notify_view (cache s) (userid u) @ chat_view (cache s) (userid u)) @
      status_packets (userid u) (userid u) 1 (set_session c (login_session u name ct se) s) \<and>
    notify_view (cache s') = (notify_view (cache s))(userid u := []) \<and>
    chat_view (cache s') = (chat_view (cache s))(userid u := []) \<and> users s' = users s"
proof -
  obtain v where v: "login_reply u name = Inr v" using login_reply_ok by blast
  have seq: "m_seq (login_session u name ct se) = m_seq se" "m_conn (login_session u name ct se) = m_conn se"
    by (simp_all add: login_session_def)
  show ?thesis
    using assms(3)
    by (simp add: OnLoginResponse_reply [OF assms(2,1)] v Let_def notify_friends_state [folded status_packets_def]
      push_cached_state reply_state seq notifications.take_view notifications.view_take chats.take_view
      chats.view_take views_apart)
qed

subsection \<open>Chat\<close>

definition chat_writer :: "ClientSession \<Rightarrow> bytes \<Rightarrow> BinaryWriter" where
  "chat_writer se data = WriteData (htonl (word_of_int (m_target se)))
     (WriteData (htonl (word_of_int (UserID se))) (message msg_type_chat (m_seq se) data))"

lemma chat_writer_bytes:
  assumes "length (encode_string data) < 2 ^ 31"
  shows "toString (chat_writer se data) = toString (message msg_type_chat (m_seq se) data) @
    be_bytes 4 (word_of_int (UserID se) :: 32 word) @ be_bytes 4 (word_of_int (m_target se) :: 32 word)"
proof -
  have "writer_ok (message msg_type_chat (m_seq se) data)"
    using assms by (simp add: message_def WriteData_string_ok WriteData_ok)
  with assms show ?thesis
    by (simp add: chat_writer_def WriteData_ok toString_message)
qed

lemma encode_string_head:
  assumes "d \<noteq> []" "length d < 2 ^ 35"
  shows "\<exists>b bs. encode_string d = b # bs \<and> b \<noteq> 0"
proof -
  let ?n = "length d"
  have "\<exists>b bs. mark_groups (map of_nat (base128 ?n)) = b # bs \<and> b \<noteq> 0"
  proof (cases "?n < 128")
    case True
    then have "(of_nat ?n :: byte) \<noteq> 0"
      using assms(1) of_nat_group_0 [of ?n] by simp
    with True show ?thesis by (subst base128.simps) (simp add: mark_groups_def)
  next
    case False
    then obtain g gs where "base128 (?n div 128) = g # gs"
      using base128_nonempty by (meson list.exhaust)
    with False show ?thesis
      by (subst base128.simps) (auto simp: mark_groups_def butlast_append or_eq_0_iff)
  qed
  then show ?thesis
    using Compress_base128 [OF assms(2)] by (auto simp: encode_string_def)
qed

lemma wrapped_command:
  assumes "decode_request (encode_string m) = Some (cmd, seq, d, r)" "m \<noteq> []" "length m < 2 ^ 32"
  shows "cmd \<noteq> msg_type_chat"
proof -
  obtain b bs where e: "encode_string m = b # bs" "b \<noteq> 0"
    using encode_string_head [of m] assms(2,3) by auto
  obtain r1 where "(ReadData (mk_reader (encode_string m)) :: (32 word \<times> BinaryReader) option) = Some (cmd, r1)"
    using assms(1) by (auto simp: decode_request_def split: option.splits prod.splits sum.splits)
  then have "4 \<le> length (encode_string m)"
    "cmd = of_le_bytes (map (\<lambda>k. encode_string m ! (3 - k)) [0..<4])"
    by (auto simp: ReadData_def mk_reader_def Let_def split: if_splits)
  moreover have "map (\<lambda>k. encode_string m ! (3 - k)) [0..<4] = rev (take 4 (encode_string m))"
    using calculation(1) by (intro nth_equalityI) (auto simp: rev_nth)
  ultimately have "4 \<le> length (encode_string m)" "cmd = of_be_bytes (take 4 (encode_string m))"
    by (simp_all add: of_be_bytes_def)
  then have "be_bytes 4 cmd = take 4 (encode_string m)"
    using le_bytes_of_le_bytes [of "rev (take 4 (encode_string m))", where 'a = 32]
    by (simp add: be_bytes_def of_be_bytes_def flip: rev_swap)
  moreover have "be_bytes 4 msg_type_chat = [0, 0, 4, 76]"
    by code_simp
  ultimately show ?thesis using e by auto
qed

lemma OnChatResponse_cases:
  assumes "this_session c s = Inr se"
    and "SaveChatMsgToDb api (UserID se) (m_target se) data (database s) = Inr (ok, d')"
  shows "OnChatResponse api c data s = Inr (
    let s1 = s\<lparr>database := d'\<rparr>
    in if m_target se < GROUPID_BOUBDARY then
         (case GetSessionByID (m_target se) s of
            None \<Rightarrow> s1\<lparr>cache := put_chat (m_target se) (toString (chat_writer se data)) (cache s)\<rparr>
          | Some t \<Rightarrow> s1\<lparr>outputs := outputs s @ [(m_conn t, im_packet (toString (chat_writer se data)))]\<rparr>)
       else group_chat (GetFriendInfoByUserId (m_target se) (users s)) (chat_writer se data) s1)"
  using assms
  by (simp add: OnChatResponse_def chat_writer_def put_chat_def Send_state Let_def split: option.split)

text \<open>The sessions of the members of a group that are online, in the order of the loop.\<close>

definition online :: "User list \<Rightarrow> 'w server \<Rightarrow> ClientSession list" where
  "online us s = [t. u \<leftarrow> us, t \<leftarrow> (case GetSessionByID (userid u) s of None \<Rightarrow> [] | Some t \<Rightarrow> [t])]"

text \<open>What \<open>Send\<close> leaves in the writer it is given: the ten bytes of the header.\<close>

definition leftover :: "bytes \<Rightarrow> bytes" where
  "leftover m = take 10 (im_packet m)"

lemma online_state [simp]:
  "online us (s\<lparr>outputs := out\<rparr>) = online us s" "online us (s\<lparr>cache := ch\<rparr>) = online us s"
  by (simp_all add: online_def)

lemma Send_writer: "toString (fst (Send se w s)) = leftover (toString w)"
  by (simp add: Send_def Send_conn_def split_def TcpSession_Send_packet leftover_def)

lemma group_chat_sends:
  "outputs (group_chat us w s) =
     outputs s @ map (\<lambda>(i, t). (m_conn t, im_packet ((leftover ^^ i) (toString w)))) (enumerate 0 (online us s))"
proof (induction us arbitrary: w s)
  case Nil
  show ?case by (simp add: online_def)
next
  case (Cons u us)
  show ?case
  proof (cases "GetSessionByID (userid u) s")
    case None
    then have "online (u # us) s = online us s" by (simp add: online_def)
    with None Cons show ?thesis by simp
  next
    case (Some t)
    have "online (u # us) s = t # online us s" using Some by (simp add: online_def)
    moreover have "map (\<lambda>(i, t). (m_conn t, im_packet ((leftover ^^ i) (leftover x)))) (enumerate 0 ts) =
        map (\<lambda>(i, t). (m_conn t, im_packet ((leftover ^^ i) x))) (enumerate (Suc 0) ts)" for x ts
      by (simp add: enumerate_Suc_eq comp_def split_def funpow_swap1)
    ultimately show ?thesis
      using Some Cons [of "fst (Send t w s)" "snd (Send t w s)"]
      by (simp add: split_def Send_state Send_writer)
  qed
qed

lemma leftover_length: "length (leftover m) = 10"
  by (simp add: leftover_def im_packet_def)

subsection \<open>Accepting a friend request\<close>

definition accept_request :: "bytes \<Rightarrow> int \<Rightarrow> bool" where
  "accept_request data t \<longleftrightarrow>
     (case parse data of
        Inr (Some d) \<Rightarrow> check_members [(lit ''type'', isInt), (lit ''userid'', isInt)] (doc_root d) = Inr True \<and>
          get_int (lit ''type'') (doc_root d) = Inr 3 \<and> get_int (lit ''userid'') (doc_root d) = Inr t \<and>
          check_members [(lit ''accept'', isInt)] (doc_root d) = Inr True \<and>
          get_int (lit ''accept'') (doc_root d) = Inr 1
      | _ \<Rightarrow> False)"

definition accept_json :: "int \<Rightarrow> bytes \<Rightarrow> JValue" where
  "accept_json uid name = JObject [(lit ''accept'', JInt 1), (lit ''type'', JInt 3), (lit ''userid'', JInt uid),
     (lit ''username'', JString name)]"

lemma accept_json_members:
  "set_members (operate_body uid 3 name @ [(lit ''accept'', JInt 1)]) JNull = Inr (accept_json uid name)"
  by (simp add: operate_body_def accept_json_def lit_def)

lemma OnOperateFriend_accept:
  assumes "this_session c s = Inr se" "accept_request data t" "t < GROUPID_BOUBDARY"
    and "MakeFriendRelationship api (min (UserID se) t) (max (UserID se) t) (users s) (database s) = Inr (True, us, d')"
    and "GetUserInfoByUserId t us = Some u"
  shows "OnOperateFriendResponse api c data s = Inr (notify_target se t (toStyledString (accept_json (UserID se) (username (m_user se))))
    (s\<lparr>users := us, database := d', outputs := outputs s @ [(m_conn se, im_packet (toString
       (message msg_type_operatefriend (m_seq se) (toStyledString (accept_json t (username u))))))]\<rparr>))"
proof -
  obtain d where d: "parse data = Inr (Some d)"
    "check_members [(lit ''type'', isInt), (lit ''userid'', isInt)] (doc_root d) = Inr True"
    "get_int (lit ''type'') (doc_root d) = Inr 3" "get_int (lit ''userid'') (doc_root d) = Inr t"
    "check_members [(lit ''accept'', isInt)] (doc_root d) = Inr True" "get_int (lit ''accept'') (doc_root d) = Inr 1"
    using assms(2)
    by (auto simp: accept_request_def simp del: check_members.simps split: sum.split_asm option.split_asm)
  from d(5,6) obtain v where v: "member (lit ''accept'') (doc_root d) = Inr v" "isInt v" "asInt v = Inr 1"
    by (auto simp: get_int_def bind_result_eq_Inr split: if_splits)
  have "userid u = t" using assms(5) by (auto simp: GetUserInfoByUserId_def find_Some_iff)
  then show ?thesis
    unfolding OnOperateFriendResponse_def
    using assms(1,3-5) d(1-4) v
    by (simp add: accept_json_members Send_state not_le [symmetric] del: check_members.simps)
qed

lemma known_user:
  "t \<in> user_ids m \<Longrightarrow> \<exists>u. GetUserInfoByUserId t m = Some u"
  "GetUserInfoByUserId t m = Some u \<Longrightarrow> (t, username u) \<in> accounts m"
proof -
  assume "t \<in> user_ids m"
  then have "find (\<lambda>u. userid u = t) (m_cachedUsers m) \<noteq> None"
    by (auto simp: find_None_iff user_ids_def)
  then show "\<exists>u. GetUserInfoByUserId t m = Some u"
    by (simp add: GetUserInfoByUserId_def)
next
  assume "GetUserInfoByUserId t m = Some u"
  then have "userid u = t \<and> u \<in> set (m_cachedUsers m)"
    unfolding GetUserInfoByUserId_def by (rule find_id)
  then show "(t, username u) \<in> accounts m"
    by (auto simp: accounts_def)
qed

lemma accounts_link:
  "accounts (m\<lparr>m_cachedUsers := map (link_user a b) (m_cachedUsers m)\<rparr>) = accounts m"
  by (simp add: accounts_def image_image link_user_def)

lemma notify_target_state:
  "notify_target se t out s =
     (case GetSessionByID t s of
        None \<Rightarrow> s\<lparr>cache := put_notify t out (cache s)\<rparr>
      | Some target \<Rightarrow> s\<lparr>outputs := outputs s @ [(m_conn target, im_packet (toString
          (message msg_type_operatefriend (m_seq se) out)))]\<rparr>)"
  by (simp add: notify_target_def Let_def Send_state put_notify_def split: option.split)

subsection \<open>Requests that are not JSON objects\<close>

fun no_members :: "JValue \<Rightarrow> bool" where
  "no_members JNull = False"
| "no_members (JObject m) = False"
| "no_members v = True"

lemma member_no_members: "no_members v \<Longrightarrow> member k v = Inl JsonLogicError"
  by (cases v) simp_all

lemma check_no_members: "no_members v \<Longrightarrow> check_members ((k, p) # ks) v = Inl JsonLogicError"
  by (simp add: member_no_members)

definition json_commands :: "32 word list" where
  "json_commands = [msg_type_register, msg_type_login, msg_type_finduser, msg_type_operatefriend,
     msg_type_updateuserinfo, msg_type_modifypassword, msg_type_creategroup, msg_type_getgroupmembers]"

lemma dispatch_no_members:
  assumes "cmd \<in> set json_commands" "this_session c s = Inr se" "parse data = Inr (Some d)" "no_members (doc_root d)"
  shows "dispatch api g c cmd data r s = Inl JsonLogicError"
  using assms
  by (auto simp: json_commands_def dispatch_def OnRegisterResponse_def OnLoginResponse_def OnFindUserResponse_def
      OnOperateFriendResponse_def OnUpdateUserInfoResponse_def OnModifyPasswordResponse_def
      OnCreateGroupResponse_def OnGetGroupMemberResponse_def msg_types member_no_members Let_def)

subsection \<open>A running example\<close>

definition json_text :: "string \<Rightarrow> bytes" where
  "json_text t = map (\<lambda>b. if b = 126 then 34 else b) (lit t)"

definition demo_users :: UserManager where
  "demo_users = new_UserManager\<lparr>m_cachedUsers :=
     [new_User\<lparr>userid := 1, username := lit ''alice'', password := lit ''pw''\<rparr>,
      new_User\<lparr>userid := 2, username := lit ''bob''\<rparr>], m_baseUserID := 2\<rparr>"

definition demo_server :: "script_db server" where
  "demo_server = OnConnection 0 True 16 (new_server demo_users (script_manager, users_db))"

definition alice_login :: bytes where
  "alice_login = json_text ''{~username~:~alice~,~password~:~pw~,~clienttype~:1,~status~:1}''"

lemma alice_login_request: "login_request alice_login (lit ''alice'') (lit ''pw'') 1"
  by code_simp

lemma demo_fields:
  "m_mapclient demo_server = [(ptr_text 16, new_ClientSession 0 16)]" "users demo_server = demo_users"
  "cache demo_server = new_MsgCacheManager" "database demo_server = (script_manager, users_db)"
  "outputs demo_server = []"
  by (simp_all add: demo_server_def OnConnection_def new_server_def new_ClientSession_def Let_def)

lemma demo_session: "this_session 16 demo_server = Inr (new_ClientSession 0 16)"
  by (simp add: this_session_def omap_find_def demo_fields)

lemma demo_alice: "GetUserInfoByUsername (lit ''alice'') (users demo_server) =
    Some (new_User\<lparr>userid := 1, username := lit ''alice'', password := lit ''pw''\<rparr>)"
  by (simp add: demo_fields demo_users_def GetUserInfoByUsername_def)

lemma alice_login_message:
  "\<exists>r. decode_request (toString (message msg_type_login 7 alice_login)) = Some (msg_type_login, 7, alice_login, r)"
proof -
  have "length alice_login = 62" "length (encode_string alice_login) = 63" by code_simp+
  then show ?thesis
    using decode_message [of alice_login msg_type_login 7 "[]"] by (auto simp: toString_message)
qed

lemma alice_logs_in:
  "\<exists>s'. Process script_api 0 16 (toString (message msg_type_login 7 alice_login)) demo_server = Inr (True, s') \<and>
     omap_find (ptr_text 16) (m_mapclient s') = Some (login_session (new_User\<lparr>userid := 1, username := lit ''alice'',
       password := lit ''pw''\<rparr>) (lit ''alice'') 1 (new_ClientSession 0 16\<lparr>m_seq := 7\<rparr>))"
proof -
  let ?se = "new_ClientSession 0 16\<lparr>m_seq := 7\<rparr>"
  obtain r where "decode_request (toString (message msg_type_login 7 alice_login)) = Some (msg_type_login, 7, alice_login, r)"
    using alice_login_message by blast
  then have p: "Process script_api 0 16 (toString (message msg_type_login 7 alice_login)) demo_server =
      bind_result (OnLoginResponse 16 alice_login (set_session 16 ?se demo_server)) (\<lambda>s2. Inr (True, s2))"
    by (simp add: Process_request [OF _ demo_session] dispatch_login)
  have "this_session 16 (set_session 16 ?se demo_server) = Inr ?se"
    by (simp add: this_session_def omap_find_assign)
  from login_succeeds [OF this, of alice_login "lit ''alice''" "new_User\<lparr>userid := 1, username := lit ''alice'',
       password := lit ''pw''\<rparr>" 1] alice_login_request demo_alice
  show ?thesis
    by (auto simp: p omap_find_assign)
qed

subsection \<open>Properties\<close>

text \<open>C3: The session map stays consistent. After any sequence of connections, disconnections and
  processed messages, for any content of the messages and any behaviour of the database, the map
  is sorted by key without duplicates, the session stored under the address of a connection
  belongs to that connection, and its user is either not logged in (id \<open>-1\<close>) or an entry of
  the user manager with the same id and name.\<close>

theorem session_map_invariant:
  assumes "(server_step api)\<^sup>*\<^sup>* (new_server us d) s"
  shows "sorted_wrt (<) (map fst (m_mapclient s)) \<and>
    (\<forall>c se. omap_find (ptr_text c) (m_mapclient s) = Some se \<longrightarrow>
       m_conn se = c \<and> m_sessionid se = ptr_text c \<and>
       (UserID se = -1 \<or> (\<exists>u \<in> set (m_cachedUsers (users s)). userid u = UserID se \<and> username u = username (m_user se))))"
proof -
  have "server_inv s" using server_inv_steps [OF assms] by simp
  then show ?thesis
    by (fastforce simp: server_inv_def session_ok_def omap_ok_def accounts_def)
qed

theorem session_map_invariant_witness:
  "\<exists>s se. (server_step script_api)\<^sup>*\<^sup>* (new_server demo_users (script_manager, users_db)) s \<and>
     omap_find (ptr_text 16) (m_mapclient s) = Some se \<and> m_conn se = 16 \<and> UserID se = 1"
proof -
  obtain s' where s': "Process script_api 0 16 (toString (message msg_type_login 7 alice_login)) demo_server = Inr (True, s')"
    "omap_find (ptr_text 16) (m_mapclient s') = Some (login_session (new_User\<lparr>userid := 1, username := lit ''alice'',
       password := lit ''pw''\<rparr>) (lit ''alice'') 1 (new_ClientSession 0 16\<lparr>m_seq := 7\<rparr>))"
    using alice_logs_in by blast
  have "server_step script_api (new_server demo_users (script_manager, users_db)) demo_server"
    unfolding demo_server_def by (rule server_step.connect)
  moreover have "server_step script_api demo_server s'"
    using server_step.request [OF s'(1)] by simp
  ultimately have reach: "(server_step script_api)\<^sup>*\<^sup>* (new_server demo_users (script_manager, users_db)) s'"
    by (meson converse_rtranclp_into_rtranclp rtranclp.rtrancl_refl)
  from session_map_invariant [OF reach] s'(2) reach show ?thesis
    by (intro exI [of _ s']) (auto simp: login_session_def UserID_def)
qed

text \<open>C2: Only a login with the right password changes who a session is. If processing a message
  changes the user of any session, that session is the one the message arrived on, the message is
  a login request, and it carries the name and the stored password of the user.\<close>

theorem login_needs_password:
  assumes "Process api g c msgbuff s = Inr (ok, s')"
    and "omap_find k (m_mapclient s) = Some se" "omap_find k (m_mapclient s') = Some se'"
    and "m_user se' \<noteq> m_user se"
  shows "k = ptr_text c \<and> (\<exists>seq data r d name u.
    decode_request msgbuff = Some (msg_type_login, seq, data, r) \<and> parse data = Inr (Some d) \<and>
    get_str (lit ''username'') (doc_root d) = Inr name \<and> GetUserInfoByUsername name (users s) = Some u \<and>
    get_str (lit ''password'') (doc_root d) = Inr (password u) \<and> UserID se' = userid u)"
proof -
  have ch: "session_change api c (proven_users msgbuff (users s)) s s'"
    using assms(1) by (rule Process_change)
  then have "k = ptr_text c"
    using assms(2-4) by (auto simp: session_change_def)
  moreover have "m_user se' \<in> proven_users msgbuff (users s)"
    using ch assms(2-4) calculation by (auto simp: session_change_def)
  ultimately show ?thesis
    by (auto simp: proven_users_def credentials_def UserID_def split: option.splits if_splits)
qed

theorem login_needs_password_witness:
  "\<exists>s' u. Process script_api 0 16 (toString (message msg_type_login 7 alice_login)) demo_server = Inr (True, s') \<and>
     GetUserInfoByUsername (lit ''alice'') (users demo_server) = Some u \<and> userid u = 1 \<and>
     (\<exists>se'. omap_find (ptr_text 16) (m_mapclient s') = Some se' \<and> UserID se' = userid u)"
proof -
  obtain s' where s': "Process script_api 0 16 (toString (message msg_type_login 7 alice_login)) demo_server = Inr (True, s')"
    "omap_find (ptr_text 16) (m_mapclient s') = Some (login_session (new_User\<lparr>userid := 1, username := lit ''alice'',
       password := lit ''pw''\<rparr>) (lit ''alice'') 1 (new_ClientSession 0 16\<lparr>m_seq := 7\<rparr>))" (is "_ = Some ?se")
    using alice_logs_in by blast
  have se: "omap_find (ptr_text 16) (m_mapclient demo_server) = Some (new_ClientSession 0 16)"
    using demo_session by (simp add: this_session_def split: option.splits)
  have "m_user ?se \<noteq> m_user (new_ClientSession 0 16)"
    by (simp add: login_session_def new_ClientSession_def new_User_def)
  from login_needs_password [OF s'(1) se s'(2) this] s' demo_alice show ?thesis
    by (auto simp: login_session_def UserID_def)
qed

text \<open>C10: A login with the right password makes the session the user, answers with code 0, pushes
  the cached notifications and then the cached chat messages of the user in the order they were
  cached, removes them and nobody else's from the cache, and tells every friend with a session that
  the user is online.\<close>

theorem login_delivers:
  assumes "this_session c s = Inr se" "login_request data name (password u) ct"
    and "GetUserInfoByUsername name (users s) = Some u"
  shows "\<exists>v s'. login_reply u name = Inr v \<and> OnLoginResponse c data s = Inr s' \<and>
    m_mapclient s' = omap_assign (ptr_text c) (login_session u name ct se) (m_mapclient s) \<and>
    outputs s' = outputs s @ [(c, im_packet (toString (message msg_type_login (m_seq se) (toStyledString v))))] @
      map (\<lambda>m. (m_conn se, pushed m)) (notify_view (cache s) (userid u) @ chat_view (cache s) (userid u)) @
      status_packets (userid u) (userid u) 1 (set_session c (login_session u name ct se) s) \<and>
    notify_view (cache s') = (notify_view (cache s))(userid u := []) \<and>
    chat_view (cache s') = (chat_view (cache s))(userid u := []) \<and> users s' = users s"
  using assms by (rule login_succeeds)

theorem login_delivers_witness:
  "\<exists>s'. OnLoginResponse 16 alice_login (demo_server\<lparr>cache := put_chat 1 (lit ''hi'') new_MsgCacheManager\<rparr>) = Inr s' \<and>
     chat_view (cache s') 1 = [] \<and> (16, pushed (lit ''hi'')) \<in> set (outputs s')"
proof -
  let ?s = "demo_server\<lparr>cache := put_chat 1 (lit ''hi'') new_MsgCacheManager\<rparr>"
  have "this_session 16 ?s = Inr (new_ClientSession 0 16)" "users ?s = users demo_server"
    using demo_session by (simp_all add: this_session_def)
  moreover have "chat_view (cache ?s) 1 = [lit ''hi'']"
    by (simp add: mail_defs new_MsgCacheManager_def)
  ultimately show ?thesis
    using login_delivers [of 16 ?s "new_ClientSession 0 16" alice_login "lit ''alice''"
      "new_User\<lparr>userid := 1, username := lit ''alice'', password := lit ''pw''\<rparr>" 1]
      alice_login_request demo_alice
    by (auto simp: new_ClientSession_def)
qed

text \<open>A login with an unknown name or a wrong password is answered with code 103 or 104 and
  changes nothing else.\<close>

theorem login_rejected:
  assumes "this_session c s = Inr se" "login_request data name pass ct"
    and "\<forall>u. GetUserInfoByUsername name (users s) = Some u \<longrightarrow> pass \<noteq> password u"
  shows "OnLoginResponse c data s = Inr (s\<lparr>outputs := outputs s @ [(c, im_packet (toString (message msg_type_login
    (m_seq se) (toStyledString (JObject [(lit ''code'', JInt (if GetUserInfoByUsername name (users s) = None then 103 else 104)),
      (lit ''msg'', JString (lit ''user is not exist or password is incorrest!''))])))))]\<rparr>)"
  using assms(3)
  by (simp add: OnLoginResponse_reply [OF assms(2,1)] reply_code_def reply_state lit_def split: option.split)

theorem login_rejected_witness:
  "\<exists>p. OnLoginResponse 16 alice_login (demo_server\<lparr>users := three_users\<rparr>) =
     Inr (demo_server\<lparr>users := three_users, outputs := [(16, im_packet p)]\<rparr>)"
proof -
  have "this_session 16 (demo_server\<lparr>users := three_users\<rparr>) = Inr (new_ClientSession 0 16)"
    using demo_session by (simp add: this_session_def)
  moreover have "GetUserInfoByUsername (lit ''alice'') three_users = None"
    by (simp add: three_users_def GetUserInfoByUsername_def new_User_def lit_def)
  ultimately show ?thesis
    using login_rejected [of 16 "demo_server\<lparr>users := three_users\<rparr>" "new_ClientSession 0 16" alice_login] alice_login_request
    by (auto simp: demo_fields)
qed

text \<open>C11: A message to one user is sent exactly once: to the session of the user if there is one,
  otherwise to the user's place in the cache, with the same bytes, whether or not the database
  could record it.\<close>

theorem chat_reaches_target:
  assumes "this_session c s = Inr se" "m_target se < GROUPID_BOUBDARY"
    and "SaveChatMsgToDb api (UserID se) (m_target se) data (database s) = Inr (ok, d')"
  shows "\<exists>s'. OnChatResponse api c data s = Inr s' \<and> m_mapclient s' = m_mapclient s \<and> users s' = users s \<and>
    (case GetSessionByID (m_target se) s of
       Some t \<Rightarrow> outputs s' = outputs s @ [(m_conn t, im_packet (toString (chat_writer se data)))] \<and> cache s' = cache s
     | None \<Rightarrow> outputs s' = outputs s \<and> chat_view (cache s') =
         (chat_view (cache s))(m_target se := chat_view (cache s) (m_target se) @ [toString (chat_writer se data)]))"
  using assms by (simp add: OnChatResponse_cases [OF assms(1,3)] Let_def chats.view_add split: option.split)

theorem chat_reaches_target_witness:
  "\<exists>s'. OnChatResponse script_api 16 (lit ''hi'') demo_server = Inr s' \<and>
     chat_view (cache s') 0 = [toString (chat_writer (new_ClientSession 0 16) (lit ''hi''))]"
proof -
  let ?se = "new_ClientSession 0 16"
  have target: "m_target ?se = 0" by (simp add: new_ClientSession_def)
  obtain d' where "SaveChatMsgToDb script_api (UserID ?se) (m_target ?se) (lit ''hi'') (database demo_server) = Inr (True, d')"
    by (simp add: SaveChatMsgToDb_def demo_fields script_Excute)
  moreover have "GetSessionByID 0 demo_server = None" "chat_view (cache demo_server) 0 = []"
    by (simp_all add: demo_fields GetSessionByID_def UserID_def new_ClientSession_def new_User_def chat_view_def
      new_MsgCacheManager_def)
  ultimately show ?thesis
    using chat_reaches_target [OF demo_session, of script_api "lit ''hi''" True d'] target
    by (auto simp: GROUPID_BOUBDARY_def)
qed

text \<open>C37: A group message reaches only the first member that is online. \<open>Send\<close> empties the
  writer it is given and leaves its ten-byte header in it; the loop goes on with this writer, so
  every later member gets a packet whose message is such a header.\<close>

theorem group_chat_only_first:
  "outputs (group_chat us writer s) = outputs s @
     (case online us s of
        [] \<Rightarrow> []
      | t # ts \<Rightarrow> (m_conn t, im_packet (toString writer)) #
          map (\<lambda>(i, t). (m_conn t, im_packet ((leftover ^^ Suc i) (toString writer)))) (enumerate 0 ts)) \<and>
   (\<forall>i. length ((leftover ^^ Suc i) (toString writer)) = 10)"
proof -
  have "length ((leftover ^^ Suc i) m) = 10" for i m
    by (simp add: leftover_length)
  moreover have "enumerate (Suc 0) ts = map (\<lambda>(i, t). (Suc i, t)) (enumerate 0 ts)" for ts :: "ClientSession list"
    by (auto simp: enumerate_Suc_eq)
  ultimately show ?thesis
    by (auto simp: group_chat_sends split_def simp del: funpow.simps split: list.split)
qed

text \<open>A chat message pushed at login cannot be read as a chat message. Sent to a session that is
  online, the message decodes to the command \<open>msg_type_chat\<close>, the sender's sequence number and the
  text. Pushed from the cache, the same bytes are wrapped in a second string header, and the command
  a receiver reads is never \<open>msg_type_chat\<close>.\<close>

theorem pushed_chat_not_recognised:
  assumes "length data < 2 ^ 30"
  shows "(\<exists>r. decode_request (toString (chat_writer se data)) = Some (msg_type_chat, m_seq se, data, r)) \<and>
    (\<exists>m. pushed (toString (chat_writer se data)) = im_packet m \<and>
       (\<forall>cmd seq d r. decode_request m = Some (cmd, seq, d, r) \<longrightarrow> cmd \<noteq> msg_type_chat))"
proof
  have len: "length (encode_string data) < 2 ^ 31"
    using assms length_Compress_bound [of "of_nat (length data)"] by (simp add: encode_string_def)
  then have w: "toString (chat_writer se data) = toString (message msg_type_chat (m_seq se) data) @
      be_bytes 4 (word_of_int (UserID se) :: 32 word) @ be_bytes 4 (word_of_int (m_target se) :: 32 word)"
    using chat_writer_bytes by simp
  show "\<exists>r. decode_request (toString (chat_writer se data)) = Some (msg_type_chat, m_seq se, data, r)"
    using decode_message [of data msg_type_chat "m_seq se"
      "be_bytes 4 (word_of_int (UserID se) :: 32 word) @ be_bytes 4 (word_of_int (m_target se) :: 32 word)"] assms len
    by (auto simp: w toString_message)
  have "0 < length (toString (chat_writer se data))" "length (toString (chat_writer se data)) < 2 ^ 32"
    using len by (simp_all only: w toString_message) simp_all
  then show "\<exists>m. pushed (toString (chat_writer se data)) = im_packet m \<and>
       (\<forall>cmd seq d r. decode_request m = Some (cmd, seq, d, r) \<longrightarrow> cmd \<noteq> msg_type_chat)"
    by (intro exI [of _ "encode_string (toString (chat_writer se data))"])
      (auto simp: pushed_def dest!: wrapped_command)
qed

theorem pushed_chat_not_recognised_witness:
  "\<exists>m. pushed (toString (chat_writer (new_ClientSession 2 16) (lit ''hi''))) = im_packet m \<and>
     (\<forall>cmd seq d r. decode_request m = Some (cmd, seq, d, r) \<longrightarrow> cmd \<noteq> msg_type_chat)"
  using pushed_chat_not_recognised [of "lit ''hi''" "new_ClientSession 2 16"] by (simp add: lit_def)

text \<open>C38: A request whose JSON text is well-formed but not an object (or null) is fatal: the access to
  the first member throws \<open>Json::LogicError\<close>, which nothing catches.\<close>

theorem json_root_must_be_object:
  assumes "decode_request msgbuff = Some (cmd, seq, data, r)" "cmd \<in> set json_commands"
    and "this_session c s = Inr se" "parse data = Inr (Some d)" "no_members (doc_root d)"
  shows "Process api g c msgbuff s = Inl JsonLogicError"
proof -
  have "this_session c (set_session c (se\<lparr>m_seq := seq\<rparr>) s) = Inr (se\<lparr>m_seq := seq\<rparr>)"
    by (simp add: this_session_def omap_find_assign)
  from dispatch_no_members [OF assms(2) this assms(4,5)] show ?thesis
    by (simp add: Process_request [OF assms(1,3)])
qed

theorem json_root_must_be_object_witness:
  "Process script_api 0 16 (toString (message msg_type_login 1 (lit ''[]''))) demo_server = Inl JsonLogicError"
proof -
  have "length (encode_string (lit ''[]'')) = 3" by code_simp
  then obtain r where "decode_request (toString (message msg_type_login 1 (lit ''[]''))) = Some (msg_type_login, 1, lit ''[]'', r)"
    using decode_message [of "lit ''[]''" msg_type_login 1 "[]"] by (auto simp: toString_message lit_def)
  note decode = this
  have p: "parse (lit ''[]'') = Inr (Some (plain_doc (JArray [])))" by code_simp
  from json_root_must_be_object [OF decode _ demo_session p] show ?thesis
    by (simp add: json_commands_def plain_doc_def)
qed

text \<open>C12: Accepting makes friends. When a user who is logged in accepts a request of another known
  user and the database records it, each becomes a friend of the other, nothing else changes in the
  friend relation, and both are told: the accepting session at once, the other one now or at the
  next login. The code does not check that the other user ever sent a request.\<close>

theorem accept_makes_friends:
  assumes "this_session c s = Inr se" "accept_request data t" "t < GROUPID_BOUBDARY"
    and "distinct_ids (users s)" "UserID se \<in> user_ids (users s)" "t \<in> user_ids (users s)" "UserID se \<noteq> t"
    and "Excute api (lit ''INSERT INTO t_user_relationship(f_user_id1, f_user_id2) VALUES('' @
      show_int (min (UserID se) t) @ lit '','' @ show_int (max (UserID se) t) @ lit '') ;'') (database s) = Inr (True, d')"
  shows "\<exists>s' name. OnOperateFriendResponse api c data s = Inr s' \<and> (t, name) \<in> accounts (users s) \<and>
    friend_graph (users s') = friend_graph (users s) \<union> {(UserID se, t), (t, UserID se)} \<and>
    (let mine = (m_conn se, im_packet (toString (message msg_type_operatefriend (m_seq se)
           (toStyledString (accept_json t name)))));
         body = toStyledString (accept_json (UserID se) (username (m_user se)))
     in case GetSessionByID t s of
          Some target \<Rightarrow> outputs s' = outputs s @ [mine, (m_conn target, im_packet (toString
            (message msg_type_operatefriend (m_seq se) body)))]
        | None \<Rightarrow> outputs s' = outputs s @ [mine] \<and>
            notify_view (cache s') t = notify_view (cache s) t @ [body])"
proof -
  let ?a = "min (UserID se) t" and ?b = "max (UserID se) t"
  let ?us = "(users s)\<lparr>m_cachedUsers := map (link_user ?a ?b) (m_cachedUsers (users s))\<rparr>"
  have ids: "?a \<in> user_ids (users s)" "?b \<in> user_ids (users s)" "?a < ?b"
    using assms(5-7) by (auto simp: min_def max_def)
  have make: "MakeFriendRelationship api ?a ?b (users s) (database s) = Inr (True, ?us, d')"
    using assms(4,8) ids AddFriendToUser_spec [of ?a ?b "users s"] by (auto simp: MakeFriendRelationship_def)
  obtain u where u: "GetUserInfoByUserId t ?us = Some u"
    using known_user(1) [of t ?us] assms(6) by auto
  then have "(t, username u) \<in> accounts (users s)"
    using known_user(2) [OF u] by (simp add: accounts_link)
  moreover have "friend_graph ?us = friend_graph (users s) \<union> {(UserID se, t), (t, UserID se)}"
    using ids by (auto simp: friend_graph_link min_def max_def)
  ultimately show ?thesis
    using OnOperateFriend_accept [OF assms(1-3) make u]
    by (intro exI [of _ "notify_target se t (toStyledString (accept_json (UserID se) (username (m_user se))))
        (s\<lparr>users := ?us, database := d', outputs := outputs s @ [(m_conn se, im_packet (toString
          (message msg_type_operatefriend (m_seq se) (toStyledString (accept_json t (username u))))))]\<rparr>)"]
        exI [of _ "username u"])
      (simp add: notify_target_state notifications.view_add Let_def split: option.split)
qed

theorem accept_makes_friends_witness:
  "\<exists>s'. OnOperateFriendResponse script_api 16 (json_text ''{~type~:3,~userid~:2,~accept~:1}'')
       (set_session 16 (new_ClientSession 0 16\<lparr>m_user := new_User\<lparr>userid := 1\<rparr>\<rparr>) demo_server) = Inr s' \<and>
     friend_graph (users s') = {(1, 2), (2, 1)}"
proof -
  let ?se = "new_ClientSession 0 16\<lparr>m_user := new_User\<lparr>userid := 1\<rparr>\<rparr>"
  let ?s = "set_session 16 ?se demo_server"
  have se: "this_session 16 ?s = Inr ?se" "UserID ?se = 1"
    by (simp_all add: this_session_def omap_find_assign UserID_def)
  have us: "users ?s = demo_users" "distinct_ids demo_users" "user_ids demo_users = {1, 2}" "friend_graph demo_users = {}"
    by (simp_all add: demo_fields demo_users_def distinct_ids_def user_ids_def friend_graph_def new_User_def)
  have req: "accept_request (json_text ''{~type~:3,~userid~:2,~accept~:1}'') 2"
    by code_simp
  obtain d' where "Excute script_api (lit ''INSERT INTO t_user_relationship(f_user_id1, f_user_id2) VALUES('' @
      show_int (min (UserID ?se) 2) @ lit '','' @ show_int (max (UserID ?se) 2) @ lit '') ;'') (database ?s) = Inr (True, d')"
    by (simp add: demo_fields script_Excute)
  from accept_makes_friends [OF se(1) req _ _ _ _ _ this] show ?thesis
    using se(2) us by (auto simp: GROUPID_BOUBDARY_def)
qed

end
