(* ===== verification/End_To_End.thy ===== *)
theory End_To_End
  imports Chat_Server
begin

section \<open>Requests over TCP\<close>

text \<open>
  The composition of framing, wire format and dispatch: what the server does with the bytes of a
  connection, in terms of the requests the client encoded.
\<close>

record request =
  rq_cmd :: "32 word"
  rq_seq :: "32 word"
  rq_body :: bytes
  rq_extra :: bytes  \<comment> \<open>the fields behind the body: the target of a chat message, the targets of a multi-chat\<close>

definition request_bytes :: "request \<Rightarrow> bytes" where
  "request_bytes q = toString (message (rq_cmd q) (rq_seq q) (rq_body q)) @ rq_extra q"

definition request_reader :: "request \<Rightarrow> BinaryReader" where
  "request_reader q = \<lparr>rd_buffer = request_bytes q,
     rd_index = of_nat (length (toString (message (rq_cmd q) (rq_seq q) (rq_body q))))\<rparr>"

definition request_ok :: "request \<Rightarrow> bool" where
  "request_ok q \<longleftrightarrow> length (rq_body q) < 2 ^ 30 \<and> length (rq_extra q) < 2 ^ 29"

text \<open>The requests carried out one after the other on the session of the connection.\<close>

fun run_requests :: "'w mysql_api \<Rightarrow> int \<Rightarrow> conn \<Rightarrow> request list \<Rightarrow> 'w server \<Rightarrow> 'w server result" where
  "run_requests api g c [] s = Inr s"
| "run_requests api g c (q # qs) s =
     bind_result (this_session c s) (\<lambda>se.
     bind_result (dispatch api g c (rq_cmd q) (rq_body q) (request_reader q)
       (set_session c (se\<lparr>m_seq := rq_seq q\<rparr>) s)) (run_requests api g c qs))"

lemma length_request:
  assumes "request_ok q"
  shows "length (request_bytes q) < 2 ^ 31 + 13" "length (rq_body q) < 2 ^ 31"
  using assms length_Compress_bound [of "of_nat (length (rq_body q))"]
  by (simp_all add: request_bytes_def request_ok_def toString_message encode_string_def)

lemma decode_request_bytes:
  assumes "request_ok q"
  shows "decode_request (request_bytes q) = Some (rq_cmd q, rq_seq q, rq_body q, request_reader q)"
proof -
  have "length (rq_body q) < 2 ^ 31" "length (toString (message (rq_cmd q) (rq_seq q) (rq_body q)) @ rq_extra q) < 2 ^ 32"
    using length_request [OF assms] by (simp_all add: request_bytes_def)
  from decode_message [OF this] show ?thesis
    by (simp add: request_bytes_def request_reader_def)
qed

lemma Process_requests:
  assumes "\<forall>q \<in> set qs. request_ok q"
  shows "run_msgs (Process api g c) (force_close c) (map request_bytes qs) s = run_requests api g c qs s"
  using assms
proof (induction qs arbitrary: s)
  case (Cons q qs)
  then have dec: "decode_request (request_bytes q) = Some (rq_cmd q, rq_seq q, rq_body q, request_reader q)"
    by (simp add: decode_request_bytes)
  show ?case
  proof (cases "this_session c s")
    case (Inl e)
    with Process_no_session [OF dec Inl] show ?thesis by simp
  next
    case (Inr se)
    with Process_request [OF dec Inr] Cons show ?thesis
      by (simp add: bind_result_assoc)
  qed
qed simp

lemma im_fits_request: "request_ok q \<Longrightarrow> im_fits (request_bytes q)"
  using length_request(1) [of q] length_Compress_bound [of "of_nat (length (rq_body q))"]
  by (simp add: im_fits_def request_ok_def request_bytes_def toString_message encode_string_def)

lemma requests_received:
  assumes "concat cs = concat (map (\<lambda>w. fst (TcpSession_Send w)) ws)" "map toString ws = map request_bytes qs"
    and "\<forall>q \<in> set qs. request_ok q" "length (concat cs) < 2 ^ 63" "\<forall>d \<in> set cs. length d \<le> extrabuf_size"
  shows "\<exists>b'. buf_ok b' \<and> content b' = [] \<and>
    receive (session_OnRead api g c) cs (mk_Buffer kInitialSize) s =
      bind_result (run_requests api g c qs s) (\<lambda>s'. Inr (b', s'))"
proof -
  have "\<forall>m \<in> set (map request_bytes qs). im_fits m"
    using assms(3) by (auto intro: im_fits_request)
  moreover have "concat cs = concat (map im_packet (map request_bytes qs))"
    using assms(1) by (simp add: TcpSession_Send_packet comp_def flip: assms(2))
  ultimately show ?thesis
    using im_stream.receive_from_start [where cs = cs and ms = "map request_bytes qs" and p = "Process api g c" and c = "force_close c" and s = s] assms(3-5)
    by (simp add: session_OnRead_def Process_requests)
qed

definition heartbeat :: "32 word \<Rightarrow> request" where
  "heartbeat seq = \<lparr>rq_cmd = msg_type_headerbeart, rq_seq = seq, rq_body = [], rq_extra = []\<rparr>"

lemma run_heartbeats:
  assumes "this_session c s = Inr se"
  shows "\<exists>s'. run_requests api g c (map heartbeat seqs) s = Inr s' \<and> users s' = users s \<and> cache s' = cache s \<and>
    database s' = database s \<and> outputs s' = outputs s @
      map (\<lambda>seq. (c, im_packet (toString (message msg_type_headerbeart seq [])))) seqs"
  using assms
proof (induction seqs arbitrary: s se)
  case (Cons seq seqs)
  let ?s = "reply c (se\<lparr>m_seq := seq\<rparr>) msg_type_headerbeart [] (set_session c (se\<lparr>m_seq := seq\<rparr>) s)"
  have own: "this_session c (set_session c (se\<lparr>m_seq := seq\<rparr>) s) = Inr (se\<lparr>m_seq := seq\<rparr>)"
    by (simp add: this_session_def omap_find_assign)
  then have step: "run_requests api g c (map heartbeat (seq # seqs)) s = run_requests api g c (map heartbeat seqs) ?s"
    using Cons.prems by (simp add: heartbeat_def dispatch_def OnHeartbeatResponse_def)
  have "this_session c ?s = Inr (se\<lparr>m_seq := seq\<rparr>)"
    using own by (simp add: this_session_def reply_state)
  from Cons.IH [OF this] show ?case
    by (auto simp only: step) (auto simp: reply_state)
qed simp

subsection \<open>Properties\<close>

text \<open>C1: The server carries out exactly what its clients asked for. If a client encodes requests
  with \<open>BinaryWriter\<close> and sends them with \<open>TcpSession::Send\<close>, then however TCP cuts the stream, the
  read loop of the session carries out the requests one after the other, each once, in order and
  with the command, the sequence number, the body and the further fields the client wrote, and the
  input buffer ends up empty. A fault in one of them is the fault of the whole.\<close>

theorem requests_over_tcp:
  assumes "concat cs = concat (map (\<lambda>w. fst (TcpSession_Send w)) ws)" "map toString ws = map request_bytes qs"
    and "\<forall>q \<in> set qs. request_ok q" "length (concat cs) < 2 ^ 63" "\<forall>d \<in> set cs. length d \<le> extrabuf_size"
  shows "\<exists>b'. buf_ok b' \<and> content b' = [] \<and>
    receive (session_OnRead api g c) cs (mk_Buffer kInitialSize) s =
      bind_result (run_requests api g c qs s) (\<lambda>s'. Inr (b', s'))"
  using assms by (rule requests_received)

theorem requests_over_tcp_witness:
  "\<exists>b'. content b' = [] \<and>
     receive (session_OnRead script_api 0 16)
       [[15, 0, 0, 0, 0, 0, 0], [9, 0, 0, 0, 0, 3, 232, 0, 0, 0, 5], [0]] (mk_Buffer kInitialSize) demo_server =
     bind_result (run_requests script_api 0 16 [heartbeat 5] demo_server) (\<lambda>s'. Inr (b', s'))"
proof -
  let ?cs = "[[15, 0, 0, 0, 0, 0, 0], [9, 0, 0, 0, 0, 3, 232, 0, 0, 0, 5], [0]] :: bytes list"
  let ?ws = "[message msg_type_headerbeart 5 []]"
  have cs: "concat ?cs = concat (map (\<lambda>w. fst (TcpSession_Send w)) ?ws)"
    by code_simp
  have small: "length (concat ?cs) < 2 ^ 63" "\<forall>d \<in> set ?cs. length d \<le> extrabuf_size"
    by (simp_all add: extrabuf_size_def)
  have "map toString ?ws = map request_bytes [heartbeat 5]" "\<forall>q \<in> set [heartbeat 5]. request_ok q"
    by (simp_all add: request_bytes_def heartbeat_def request_ok_def)
  from requests_over_tcp [OF cs this small, of script_api 0 16 demo_server] show ?thesis by blast
qed

text \<open>C28: Every heartbeat is answered. On an open session, each heartbeat that arrives is answered
  with exactly one heartbeat that carries its sequence number, in order, for every segmentation of
  the stream, and nothing but the output and the sequence number of the session changes.\<close>

theorem heartbeats_answered:
  assumes "this_session c s = Inr se"
    and "concat cs = concat (map (\<lambda>seq. fst (TcpSession_Send (message msg_type_headerbeart seq []))) seqs)"
    and "length (concat cs) < 2 ^ 63" "\<forall>d \<in> set cs. length d \<le> extrabuf_size"
  shows "\<exists>b' s'. receive (session_OnRead api g c) cs (mk_Buffer kInitialSize) s = Inr (b', s') \<and> content b' = [] \<and>
    users s' = users s \<and> cache s' = cache s \<and> database s' = database s \<and>
    outputs s' = outputs s @ map (\<lambda>seq. (c, im_packet (toString (message msg_type_headerbeart seq [])))) seqs"
proof -
  let ?ws = "map (\<lambda>seq. message msg_type_headerbeart seq []) seqs"
  have "map toString ?ws = map request_bytes (map heartbeat seqs)" "\<forall>q \<in> set (map heartbeat seqs). request_ok q"
    by (auto simp: request_bytes_def heartbeat_def request_ok_def)
  from requests_received [OF _ this assms(3,4), of api g c s] assms(2)
  obtain b' where "content b' = []" "receive (session_OnRead api g c) cs (mk_Buffer kInitialSize) s =
      bind_result (run_requests api g c (map heartbeat seqs) s) (\<lambda>s'. Inr (b', s'))"
    by (auto simp: comp_def)
  with run_heartbeats [OF assms(1), of api g seqs] show ?thesis by auto
qed

theorem heartbeats_answered_witness:
  "\<exists>b' s'. receive (session_OnRead script_api 0 16)
       [[15, 0, 0, 0, 0, 0, 0], [9, 0, 0, 0, 0, 3, 232, 0, 0, 0, 5], [0]] (mk_Buffer kInitialSize) demo_server = Inr (b', s') \<and>
     outputs s' = [(16, [15, 0, 0, 0, 0, 0, 0, 9, 0, 0, 0, 0, 3, 232, 0, 0, 0, 5, 0])]"
proof -
  let ?cs = "[[15, 0, 0, 0, 0, 0, 0], [9, 0, 0, 0, 0, 3, 232, 0, 0, 0, 5], [0]] :: bytes list"
  have small: "length (concat ?cs) < 2 ^ 63" "\<forall>d \<in> set ?cs. length d \<le> extrabuf_size"
    by (simp_all add: extrabuf_size_def)
  have cs: "concat ?cs = concat (map (\<lambda>seq. fst (TcpSession_Send (message msg_type_headerbeart seq []))) [5])"
    and out: "im_packet (toString (message msg_type_headerbeart 5 [])) = [15, 0, 0, 0, 0, 0, 0, 9, 0, 0, 0, 0, 3, 232, 0, 0, 0, 5, 0]"
    by code_simp+
  from heartbeats_answered [OF demo_session cs small, of script_api 0] out show ?thesis
    by (auto simp: demo_fields simp del: receive.simps)
qed

end
