(* ===== verification/Tcp_Connection.thy ===== *)
theory Tcp_Connection
  imports Net_Buffer Ordered_Map Decimal
begin

unbundle bit_operations_syntax

section \<open>Connections, channels and the event loop\<close>

text \<open>
  The connections of a server: \<open>net/TcpConnection.cc\<close>, \<open>net/Channel.h\<close>, \<open>net/Channel.cc\<close>, the
  poller's table of channels (\<open>net/poller/EPollPoller.cc\<close>), \<open>net/TcpServer.cc\<close> and the part of
  \<open>net/EventLoop.cc\<close> that calls them. Both servers run on one loop
  (\<open>TcpServer::setThreadNum\<close> is never called; the pool that \<open>FileServer/main.cpp\<close> starts is not the server's), so the
  loop of the acceptor is the loop of every connection.

  The state is one record. A connection is an address in \<open>heap\<close>; an address without an object
  is a connection that has been destroyed, and using it is \<open>Inl DanglingPtr\<close>. Functors are data:
  the connection a functor is bound to, and the member function. What the outside sees (calls of
  \<open>write\<close>, of \<open>shutdown(SHUT_WR)\<close> and of the callbacks) is recorded in \<open>obs\<close>, together with the
  points where bytes are handed to \<open>sendInLoop\<close> and where it drops them.

  Parameters (the record \<open>tcp_env\<close>) are the system calls and the callbacks of the server: each
  may answer differently at each call, which is why they take the number of calls so far. A
  callback acts on connections through their public member functions; it reaches other connections
  through weak pointers, so that an operation on a destroyed one is skipped. \<open>epoll_ctl\<close> is taken
  to succeed; the kernel's interest list is the set of channels whose index is \<open>kAdded\<close>.
\<close>

subsection \<open>State\<close>

type_synonym cid = nat

datatype StateE = kDisconnected | kConnecting | kConnected | kDisconnecting

record Channel =
  events :: "32 word"
  ch_index :: int
  addedToLoop :: bool

record TcpConnection =
  conn_name :: bytes
  conn_fd :: int
  conn_state :: StateE
  reading :: bool
  channel :: Channel
  highWaterMark :: nat
  inputBuffer :: Buffer
  outputBuffer :: Buffer

text \<open>The member functions that are put into \<open>pendingFunctors_\<close>. The first four are bound to
  \<open>this\<close>, the others to \<open>shared_from_this()\<close>, which keeps the connection alive.\<close>

datatype Functor =
    SendInLoop bytes
  | ShutdownInLoop
  | StartReadInLoop
  | StopReadInLoop
  | ForceCloseInLoop
  | ConnectDestroyed
  | WriteComplete
  | HighWaterMark nat

fun holds_shared_ptr :: "Functor \<Rightarrow> bool" where
  "holds_shared_ptr (SendInLoop d) = False"
| "holds_shared_ptr ShutdownInLoop = False"
| "holds_shared_ptr StartReadInLoop = False"
| "holds_shared_ptr StopReadInLoop = False"
| "holds_shared_ptr _ = True"

datatype tcp_obs =
    Sent bytes          \<comment> \<open>\<open>sendInLoop\<close> is called and does not give up\<close>
  | Wrote bytes         \<comment> \<open>\<open>write\<close> took these bytes\<close>
  | Dropped             \<comment> \<open>\<open>write\<close> failed with \<open>EPIPE\<close> or \<open>ECONNRESET\<close>\<close>
  | ShutWrite           \<comment> \<open>\<open>shutdown(fd, SHUT_WR)\<close>\<close>
  | Callback bool       \<comment> \<open>the connection callback, with \<open>connected()\<close>\<close>
  | Message             \<comment> \<open>the message callback\<close>

datatype user_op =
    USend cid bytes
  | UShutdown cid
  | UForceClose cid
  | UForceCloseWithDelay cid
  | UStartRead cid
  | UStopRead cid

record tcp_env =
  server_name :: bytes
  ipPort :: bytes
  sys_write :: "nat \<Rightarrow> int \<Rightarrow> bytes \<Rightarrow> int + nat"
  sys_readv :: "nat \<Rightarrow> int \<Rightarrow> nat \<Rightarrow> int + bytes"
  connectionCallback :: "nat \<Rightarrow> cid \<Rightarrow> bool \<Rightarrow> user_op list"
  messageCallback :: "nat \<Rightarrow> cid \<Rightarrow> Buffer \<Rightarrow> Buffer \<times> user_op list"
  writeCompleteCallback :: "(nat \<Rightarrow> cid \<Rightarrow> user_op list) option"
  highWaterMarkCallback :: "(nat \<Rightarrow> cid \<Rightarrow> nat \<Rightarrow> user_op list) option"

record TcpServer =
  heap :: "cid \<Rightarrow> TcpConnection option"
  next_cid :: cid
  connections :: "(bytes, cid) omap"
  nextConnId :: int
  channels :: "int \<Rightarrow> cid option"
  pendingFunctors :: "(cid \<times> Functor) list"
  eventHandling :: bool
  activeChannels :: "cid list"
  currentActiveChannel :: "cid option"
  delayed :: "cid list"
  ticks :: nat
  obs :: "(cid \<times> tcp_obs) list"

definition init_TcpServer :: TcpServer where
  "init_TcpServer =
     \<lparr>heap = (\<lambda>c. None), next_cid = 0, connections = [], nextConnId = 1, channels = (\<lambda>fd. None),
      pendingFunctors = [], eventHandling = False, activeChannels = [], currentActiveChannel = None,
      delayed = [], ticks = 0, obs = []\<rparr>"

definition with_conn :: "cid \<Rightarrow> TcpServer \<Rightarrow> (TcpConnection \<Rightarrow> 'a result) \<Rightarrow> 'a result" where
  "with_conn c w f = (case heap w c of None \<Rightarrow> Inl DanglingPtr | Some k \<Rightarrow> f k)"

definition set_conn :: "cid \<Rightarrow> TcpConnection \<Rightarrow> TcpServer \<Rightarrow> TcpServer" where
  "set_conn c k w = w\<lparr>heap := (heap w)(c \<mapsto> k)\<rparr>"

definition observe :: "cid \<Rightarrow> tcp_obs \<Rightarrow> TcpServer \<Rightarrow> TcpServer" where
  "observe c e w = w\<lparr>obs := obs w @ [(c, e)]\<rparr>"

definition tick :: "TcpServer \<Rightarrow> TcpServer" where
  "tick w = w\<lparr>ticks := Suc (ticks w)\<rparr>"

definition queueInLoop :: "cid \<Rightarrow> Functor \<Rightarrow> TcpServer \<Rightarrow> TcpServer" where
  "queueInLoop c f w = w\<lparr>pendingFunctors := pendingFunctors w @ [(c, f)]\<rparr>"

text \<open>\<open>runInLoop\<close>: in the thread of the loop the call is made at once, in another thread it is
  queued.\<close>

definition runInLoop ::
  "bool \<Rightarrow> cid \<Rightarrow> Functor \<Rightarrow> (TcpServer \<Rightarrow> TcpServer result) \<Rightarrow> TcpServer \<Rightarrow> TcpServer result" where
  "runInLoop inLoop c f call w = (if inLoop then call w else Inr (queueInLoop c f w))"

subsection \<open>Channels\<close>

definition POLLIN :: "32 word" where "POLLIN = 0x1"
definition POLLPRI :: "32 word" where "POLLPRI = 0x2"
definition POLLOUT :: "32 word" where "POLLOUT = 0x4"
definition POLLERR :: "32 word" where "POLLERR = 0x8"
definition POLLHUP :: "32 word" where "POLLHUP = 0x10"
definition POLLNVAL :: "32 word" where "POLLNVAL = 0x20"
definition POLLRDHUP :: "32 word" where "POLLRDHUP = 0x2000"

definition kNoneEvent :: "32 word" where "kNoneEvent = 0"
definition kReadEvent :: "32 word" where "kReadEvent = POLLIN OR POLLPRI"
definition kWriteEvent :: "32 word" where "kWriteEvent = POLLOUT"

definition kNew :: int where "kNew = - 1"
definition kAdded :: int where "kAdded = 1"
definition kDeleted :: int where "kDeleted = 2"

definition new_Channel :: Channel where
  "new_Channel = \<lparr>events = 0, ch_index = kNew, addedToLoop = False\<rparr>"

definition isNoneEvent :: "Channel \<Rightarrow> bool" where
  "isNoneEvent ch \<longleftrightarrow> events ch = kNoneEvent"

definition isWriting :: "Channel \<Rightarrow> bool" where
  "isWriting ch \<longleftrightarrow> events ch AND kWriteEvent \<noteq> 0"

definition isReading :: "Channel \<Rightarrow> bool" where
  "isReading ch \<longleftrightarrow> events ch AND kReadEvent \<noteq> 0"

text \<open>\<open>EPollPoller::updateChannel\<close> and \<open>EPollPoller::removeChannel\<close>.\<close>

definition updateChannel :: "cid \<Rightarrow> TcpServer \<Rightarrow> TcpServer result" where
  "updateChannel c w = with_conn c w (\<lambda>k.
     let ch = channel k; fd = conn_fd k
     in if ch_index ch = kNew \<or> ch_index ch = kDeleted
        then bind_result
          (if ch_index ch = kNew
           then if channels w fd = None then Inr (w\<lparr>channels := (channels w)(fd \<mapsto> c)\<rparr>) else Inl AssertFail
           else if channels w fd = Some c then Inr w else Inl AssertFail)
          (\<lambda>w'. Inr (set_conn c (k\<lparr>channel := ch\<lparr>ch_index := kAdded\<rparr>\<rparr>) w'))
        else if channels w fd \<noteq> Some c \<or> ch_index ch \<noteq> kAdded then Inl AssertFail
        else if isNoneEvent ch then Inr (set_conn c (k\<lparr>channel := ch\<lparr>ch_index := kDeleted\<rparr>\<rparr>) w)
        else Inr w)"

definition poller_removeChannel :: "cid \<Rightarrow> TcpServer \<Rightarrow> TcpServer result" where
  "poller_removeChannel c w = with_conn c w (\<lambda>k.
     let ch = channel k; fd = conn_fd k
     in if channels w fd = Some c \<and> isNoneEvent ch \<and> (ch_index ch = kAdded \<or> ch_index ch = kDeleted)
        then Inr (set_conn c (k\<lparr>channel := ch\<lparr>ch_index := kNew\<rparr>\<rparr>) (w\<lparr>channels := (channels w)(fd := None)\<rparr>))
        else Inl AssertFail)"

definition removeChannel :: "cid \<Rightarrow> TcpServer \<Rightarrow> TcpServer result" where
  "removeChannel c w =
     (if eventHandling w \<and> \<not> (currentActiveChannel w = Some c \<or> c \<notin> set (activeChannels w))
      then Inl AssertFail
      else poller_removeChannel c w)"

definition chan_update :: "cid \<Rightarrow> TcpServer \<Rightarrow> TcpServer result" where
  "chan_update c w = with_conn c w (\<lambda>k.
     updateChannel c (set_conn c (k\<lparr>channel := (channel k)\<lparr>addedToLoop := True\<rparr>\<rparr>) w))"

definition set_events :: "(32 word \<Rightarrow> 32 word) \<Rightarrow> cid \<Rightarrow> TcpServer \<Rightarrow> TcpServer result" where
  "set_events f c w = with_conn c w (\<lambda>k.
     chan_update c (set_conn c (k\<lparr>channel := (channel k)\<lparr>events := f (events (channel k))\<rparr>\<rparr>) w))"

definition enableReading :: "cid \<Rightarrow> TcpServer \<Rightarrow> TcpServer result" where
  "enableReading = set_events (\<lambda>ev. ev OR kReadEvent)"
definition disableReading :: "cid \<Rightarrow> TcpServer \<Rightarrow> TcpServer result" where
  "disableReading = set_events (\<lambda>ev. ev AND NOT kReadEvent)"
definition enableWriting :: "cid \<Rightarrow> TcpServer \<Rightarrow> TcpServer result" where
  "enableWriting = set_events (\<lambda>ev. ev OR kWriteEvent)"
definition disableWriting :: "cid \<Rightarrow> TcpServer \<Rightarrow> TcpServer result" where
  "disableWriting = set_events (\<lambda>ev. ev AND NOT kWriteEvent)"
definition disableAll :: "cid \<Rightarrow> TcpServer \<Rightarrow> TcpServer result" where
  "disableAll = set_events (\<lambda>ev. kNoneEvent)"

definition chan_remove :: "cid \<Rightarrow> TcpServer \<Rightarrow> TcpServer result" where
  "chan_remove c w = with_conn c w (\<lambda>k.
     if isNoneEvent (channel k)
     then removeChannel c (set_conn c (k\<lparr>channel := (channel k)\<lparr>addedToLoop := False\<rparr>\<rparr>) w)
     else Inl AssertFail)"

subsection \<open>Sending\<close>

definition EWOULDBLOCK :: int where "EWOULDBLOCK = 11"
definition EPIPE :: int where "EPIPE = 32"
definition ECONNRESET :: int where "ECONNRESET = 104"

text \<open>The attempt to write directly: the bytes written, whether the error is final, the state.\<close>

definition write_direct :: "tcp_env \<Rightarrow> cid \<Rightarrow> TcpConnection \<Rightarrow> bytes \<Rightarrow> TcpServer \<Rightarrow> nat \<times> bool \<times> TcpServer" where
  "write_direct env c k d w =
     (case sys_write env (ticks w) (conn_fd k) d of
        Inr nwrote \<Rightarrow>
          let w1 = observe c (Wrote (take nwrote d)) (tick w)
          in (nwrote, False,
              if length d - nwrote = 0 \<and> writeCompleteCallback env \<noteq> None
              then queueInLoop c WriteComplete w1 else w1)
      | Inl err \<Rightarrow>
          if err \<noteq> EWOULDBLOCK \<and> (err = EPIPE \<or> err = ECONNRESET)
          then (0, True, observe c Dropped (tick w))
          else (0, False, tick w))"

text \<open>The second half of \<open>sendInLoop\<close>: what was not written goes to the output buffer.\<close>

definition buffer_rest :: "tcp_env \<Rightarrow> cid \<Rightarrow> bytes \<Rightarrow> TcpServer \<Rightarrow> TcpServer result" where
  "buffer_rest env c rest w = with_conn c w (\<lambda>k.
     let oldLen = readableBytes (outputBuffer k);
         w1 = (if oldLen + length rest \<ge> highWaterMark k \<and> oldLen < highWaterMark k
                  \<and> highWaterMarkCallback env \<noteq> None
               then queueInLoop c (HighWaterMark (oldLen + length rest)) w else w)
     in bind_result (buf_append rest (outputBuffer k)) (\<lambda>ob.
          let w2 = set_conn c (k\<lparr>outputBuffer := ob\<rparr>) w1
          in if isWriting (channel k) then Inr w2 else enableWriting c w2))"

definition sendInLoop :: "tcp_env \<Rightarrow> cid \<Rightarrow> bytes \<Rightarrow> TcpServer \<Rightarrow> TcpServer result" where
  "sendInLoop env c d w = with_conn c w (\<lambda>k.
     if conn_state k = kDisconnected then Inr w
     else
       let w0 = observe c (Sent d) w;
           (nwrote, faultError, w1) =
             (if \<not> isWriting (channel k) \<and> readableBytes (outputBuffer k) = 0
              then write_direct env c k d w0 else (0, False, w0))
       in if \<not> nwrote \<le> length d then Inl AssertFail
          else if \<not> faultError \<and> length d - nwrote > 0 then buffer_rest env c (drop nwrote d) w1
          else Inr w1)"

definition tcp_send :: "tcp_env \<Rightarrow> bool \<Rightarrow> cid \<Rightarrow> bytes \<Rightarrow> TcpServer \<Rightarrow> TcpServer result" where
  "tcp_send env inLoop c d w = with_conn c w (\<lambda>k.
     if conn_state k = kConnected
     then if inLoop then sendInLoop env c d w else Inr (queueInLoop c (SendInLoop d) w)
     else Inr w)"

text \<open>In another thread nothing protects the test of \<open>state_\<close> and the queueing, which binds a plain \<open>this\<close>: the loop may do anything in
  between. \<open>tcp_send env False\<close> is the case in which it does nothing; these are the two halves.\<close>

definition send_test :: "cid \<Rightarrow> TcpServer \<Rightarrow> bool result" where
  "send_test c w = with_conn c w (\<lambda>k. Inr (conn_state k = kConnected))"

definition send_queue :: "cid \<Rightarrow> bytes \<Rightarrow> TcpServer \<Rightarrow> TcpServer" where
  "send_queue c d w = queueInLoop c (SendInLoop d) w"

definition tcp_send_buffer ::
  "tcp_env \<Rightarrow> bool \<Rightarrow> cid \<Rightarrow> Buffer \<Rightarrow> TcpServer \<Rightarrow> (Buffer \<times> TcpServer) result" where
  "tcp_send_buffer env inLoop c buf w = with_conn c w (\<lambda>k.
     if conn_state k = kConnected
     then if inLoop
          then bind_result (sendInLoop env c (slice (peek buf) (readableBytes buf) buf) w) (\<lambda>w'.
                 Inr (retrieveAll buf, w'))
          else bind_result (retrieveAllAsString buf) (\<lambda>(d, buf').
                 Inr (buf', queueInLoop c (SendInLoop d) w))
     else Inr (buf, w))"

subsection \<open>Closing and pausing\<close>

definition shutdownInLoop :: "cid \<Rightarrow> TcpServer \<Rightarrow> TcpServer result" where
  "shutdownInLoop c w = with_conn c w (\<lambda>k.
     if isWriting (channel k) then Inr w else Inr (observe c ShutWrite w))"

definition tcp_shutdown :: "bool \<Rightarrow> cid \<Rightarrow> TcpServer \<Rightarrow> TcpServer result" where
  "tcp_shutdown inLoop c w = with_conn c w (\<lambda>k.
     if conn_state k = kConnected
     then runInLoop inLoop c ShutdownInLoop (shutdownInLoop c) (set_conn c (k\<lparr>conn_state := kDisconnecting\<rparr>) w)
     else Inr w)"

definition forceClose :: "cid \<Rightarrow> TcpServer \<Rightarrow> TcpServer result" where
  "forceClose c w = with_conn c w (\<lambda>k.
     if conn_state k = kConnected \<or> conn_state k = kDisconnecting
     then Inr (queueInLoop c ForceCloseInLoop (set_conn c (k\<lparr>conn_state := kDisconnecting\<rparr>) w))
     else Inr w)"

text \<open>The timer holds a weak pointer; \<open>delayed\<close> lists the calls of \<open>forceClose\<close> that are due at
  some later time.\<close>

definition forceCloseWithDelay :: "cid \<Rightarrow> TcpServer \<Rightarrow> TcpServer result" where
  "forceCloseWithDelay c w = with_conn c w (\<lambda>k.
     if conn_state k = kConnected \<or> conn_state k = kDisconnecting
     then Inr (set_conn c (k\<lparr>conn_state := kDisconnecting\<rparr>) (w\<lparr>delayed := delayed w @ [c]\<rparr>))
     else Inr w)"

definition startReadInLoop :: "cid \<Rightarrow> TcpServer \<Rightarrow> TcpServer result" where
  "startReadInLoop c w = with_conn c w (\<lambda>k.
     if \<not> reading k \<or> \<not> isReading (channel k)
     then bind_result (enableReading c w) (\<lambda>w'. with_conn c w' (\<lambda>k'. Inr (set_conn c (k'\<lparr>reading := True\<rparr>) w')))
     else Inr w)"

definition stopReadInLoop :: "cid \<Rightarrow> TcpServer \<Rightarrow> TcpServer result" where
  "stopReadInLoop c w = with_conn c w (\<lambda>k.
     if reading k \<or> isReading (channel k)
     then bind_result (disableReading c w) (\<lambda>w'. with_conn c w' (\<lambda>k'. Inr (set_conn c (k'\<lparr>reading := False\<rparr>) w')))
     else Inr w)"

definition startRead :: "bool \<Rightarrow> cid \<Rightarrow> TcpServer \<Rightarrow> TcpServer result" where
  "startRead inLoop c w = runInLoop inLoop c StartReadInLoop (startReadInLoop c) w"

definition stopRead :: "bool \<Rightarrow> cid \<Rightarrow> TcpServer \<Rightarrow> TcpServer result" where
  "stopRead inLoop c w = runInLoop inLoop c StopReadInLoop (stopReadInLoop c) w"

text \<open>What a callback does, in the thread of the loop.\<close>

fun op_conn :: "user_op \<Rightarrow> cid" where
  "op_conn (USend c d) = c"
| "op_conn (UShutdown c) = c"
| "op_conn (UForceClose c) = c"
| "op_conn (UForceCloseWithDelay c) = c"
| "op_conn (UStartRead c) = c"
| "op_conn (UStopRead c) = c"

fun call_op :: "tcp_env \<Rightarrow> user_op \<Rightarrow> TcpServer \<Rightarrow> TcpServer result" where
  "call_op env (USend c d) w = tcp_send env True c d w"
| "call_op env (UShutdown c) w = tcp_shutdown True c w"
| "call_op env (UForceClose c) w = forceClose c w"
| "call_op env (UForceCloseWithDelay c) w = forceCloseWithDelay c w"
| "call_op env (UStartRead c) w = startRead True c w"
| "call_op env (UStopRead c) w = stopRead True c w"

fun run_ops :: "tcp_env \<Rightarrow> user_op list \<Rightarrow> TcpServer \<Rightarrow> TcpServer result" where
  "run_ops env [] w = Inr w"
| "run_ops env (u # us) w =
     (if heap w (op_conn u) = None then run_ops env us w
      else bind_result (call_op env u w) (run_ops env us))"

definition call_connectionCallback :: "tcp_env \<Rightarrow> cid \<Rightarrow> TcpServer \<Rightarrow> TcpServer result" where
  "call_connectionCallback env c w = with_conn c w (\<lambda>k.
     let up = (conn_state k = kConnected)
     in run_ops env (connectionCallback env (ticks w) c up) (observe c (Callback up) (tick w)))"

subsection \<open>The server's table of connections\<close>

definition removeConnectionInLoop :: "cid \<Rightarrow> TcpServer \<Rightarrow> TcpServer result" where
  "removeConnectionInLoop c w = with_conn c w (\<lambda>k.
     if omap_find (conn_name k) (connections w) = None then Inl AssertFail
     else Inr (queueInLoop c ConnectDestroyed (w\<lparr>connections := omap_erase (conn_name k) (connections w)\<rparr>)))"

definition removeConnection :: "cid \<Rightarrow> TcpServer \<Rightarrow> TcpServer result" where
  "removeConnection c w = removeConnectionInLoop c w"

definition connectEstablished :: "tcp_env \<Rightarrow> cid \<Rightarrow> TcpServer \<Rightarrow> TcpServer result" where
  "connectEstablished env c w = with_conn c w (\<lambda>k.
     if conn_state k \<noteq> kConnecting then Inl AssertFail
     else bind_result (enableReading c (set_conn c (k\<lparr>conn_state := kConnected\<rparr>) w))
            (call_connectionCallback env c))"

definition connectDestroyed :: "tcp_env \<Rightarrow> cid \<Rightarrow> TcpServer \<Rightarrow> TcpServer result" where
  "connectDestroyed env c w = with_conn c w (\<lambda>k.
     bind_result
       (if conn_state k = kConnected
        then bind_result (disableAll c (set_conn c (k\<lparr>conn_state := kDisconnected\<rparr>) w))
               (call_connectionCallback env c)
        else Inr w)
       (chan_remove c))"

definition new_TcpConnection :: "bytes \<Rightarrow> int \<Rightarrow> TcpConnection" where
  "new_TcpConnection name fd =
     \<lparr>conn_name = name, conn_fd = fd, conn_state = kConnecting, reading = True, channel = new_Channel,
      highWaterMark = 64 * 1024 * 1024, inputBuffer = mk_Buffer kInitialSize,
      outputBuffer = mk_Buffer kInitialSize\<rparr>"

text \<open>\<open>snprintf(buf, sizeof buf, "-%s#%d", ...)\<close> with a buffer of 64 bytes.\<close>

definition connName :: "tcp_env \<Rightarrow> int \<Rightarrow> bytes" where
  "connName env i =
     server_name env @ take 63 (lit ''-'' @ c_string (ipPort env) @ lit ''#'' @ show_int i)"

definition newConnection :: "tcp_env \<Rightarrow> int \<Rightarrow> TcpServer \<Rightarrow> TcpServer result" where
  "newConnection env sockfd w =
     (let name = connName env (nextConnId w); c = next_cid w
      in connectEstablished env c
           (w\<lparr>nextConnId := wrap32 (nextConnId w + 1), next_cid := Suc c,
              heap := (heap w)(c \<mapsto> new_TcpConnection name sockfd),
              connections := omap_assign name c (connections w)\<rparr>))"

subsection \<open>Events\<close>

definition handleClose :: "tcp_env \<Rightarrow> cid \<Rightarrow> TcpServer \<Rightarrow> TcpServer result" where
  "handleClose env c w = with_conn c w (\<lambda>k.
     if \<not> (conn_state k = kConnected \<or> conn_state k = kDisconnecting) then Inl AssertFail
     else bind_result (disableAll c (set_conn c (k\<lparr>conn_state := kDisconnected\<rparr>) w)) (\<lambda>w1.
          bind_result (call_connectionCallback env c w1) (removeConnection c)))"

definition forceCloseInLoop :: "tcp_env \<Rightarrow> cid \<Rightarrow> TcpServer \<Rightarrow> TcpServer result" where
  "forceCloseInLoop env c w = with_conn c w (\<lambda>k.
     if conn_state k = kConnected \<or> conn_state k = kDisconnecting then handleClose env c w else Inr w)"

definition call_messageCallback :: "tcp_env \<Rightarrow> cid \<Rightarrow> TcpServer \<Rightarrow> TcpServer result" where
  "call_messageCallback env c w = with_conn c w (\<lambda>k.
     let (buf, us) = messageCallback env (ticks w) c (inputBuffer k)
     in run_ops env us (observe c Message (tick (set_conn c (k\<lparr>inputBuffer := buf\<rparr>) w))))"

text \<open>\<open>handleError\<close> reads the error of the socket and logs it.\<close>

definition handleError :: "TcpServer \<Rightarrow> TcpServer result" where
  "handleError w = Inr w"

definition handleRead :: "tcp_env \<Rightarrow> cid \<Rightarrow> TcpServer \<Rightarrow> TcpServer result" where
  "handleRead env c w = with_conn c w (\<lambda>k.
     bind_result (readFd (sys_readv env (ticks w) (conn_fd k)) (inputBuffer k)) (\<lambda>(buf, r).
       let w1 = tick (set_conn c (k\<lparr>inputBuffer := buf\<rparr>) w)
       in case r of
            Inr n \<Rightarrow> if n > 0 then call_messageCallback env c w1 else handleClose env c w1
          | Inl savedErrno \<Rightarrow> handleError w1))"

definition handleWrite :: "tcp_env \<Rightarrow> cid \<Rightarrow> TcpServer \<Rightarrow> TcpServer result" where
  "handleWrite env c w = with_conn c w (\<lambda>k.
     if isWriting (channel k)
     then let out = outputBuffer k; d = slice (peek out) (readableBytes out) out
          in case sys_write env (ticks w) (conn_fd k) d of
               Inr n \<Rightarrow>
                 if n > 0
                 then bind_result (retrieve n out) (\<lambda>ob.
                        let w1 = observe c (Wrote (take n d)) (tick (set_conn c (k\<lparr>outputBuffer := ob\<rparr>) w))
                        in if readableBytes ob = 0
                           then bind_result (disableWriting c w1) (\<lambda>w2.
                                  let w3 = (if writeCompleteCallback env \<noteq> None
                                            then queueInLoop c WriteComplete w2 else w2)
                                  in if conn_state k = kDisconnecting then shutdownInLoop c w3 else Inr w3)
                           else Inr w1)
                 else Inr (tick w)
             | Inl err \<Rightarrow> Inr (tick w)
     else Inr w)"

text \<open>A step of \<open>handleEventWithGuard\<close>: the callback is called when the condition on the events
  holds.\<close>

definition on_event :: "bool \<Rightarrow> (TcpServer \<Rightarrow> TcpServer result) \<Rightarrow> TcpServer \<Rightarrow> TcpServer result" where
  "on_event b callback w = (if b then callback w else Inr w)"

definition handleEventWithGuard :: "tcp_env \<Rightarrow> cid \<Rightarrow> 32 word \<Rightarrow> TcpServer \<Rightarrow> TcpServer result" where
  "handleEventWithGuard env c revents w =
     bind_result (on_event (revents AND POLLHUP \<noteq> 0 \<and> revents AND POLLIN = 0) (handleClose env c) w) (\<lambda>w1.
     bind_result (on_event (revents AND (POLLERR OR POLLNVAL) \<noteq> 0) handleError w1) (\<lambda>w2.
     bind_result (on_event (revents AND (POLLIN OR POLLPRI OR POLLRDHUP) \<noteq> 0) (handleRead env c) w2) (\<lambda>w3.
       on_event (revents AND POLLOUT \<noteq> 0) (handleWrite env c) w3)))"

text \<open>The channel of a connection is tied to it: when the weak pointer is empty nothing is done.\<close>

definition handleEvent :: "tcp_env \<Rightarrow> cid \<Rightarrow> 32 word \<Rightarrow> TcpServer \<Rightarrow> TcpServer result" where
  "handleEvent env c revents w =
     (if heap w c = None then Inr w else handleEventWithGuard env c revents w)"

subsection \<open>The loop\<close>

fun run_functor :: "tcp_env \<Rightarrow> cid \<Rightarrow> Functor \<Rightarrow> TcpServer \<Rightarrow> TcpServer result" where
  "run_functor env c (SendInLoop d) w = sendInLoop env c d w"
| "run_functor env c ShutdownInLoop w = shutdownInLoop c w"
| "run_functor env c StartReadInLoop w = startReadInLoop c w"
| "run_functor env c StopReadInLoop w = stopReadInLoop c w"
| "run_functor env c ForceCloseInLoop w = forceCloseInLoop env c w"
| "run_functor env c ConnectDestroyed w = connectDestroyed env c w"
| "run_functor env c WriteComplete w =
     (case writeCompleteCallback env of None \<Rightarrow> Inr w | Some f \<Rightarrow> run_ops env (f (ticks w) c) (tick w))"
| "run_functor env c (HighWaterMark n) w =
     (case highWaterMarkCallback env of None \<Rightarrow> Inr w | Some f \<Rightarrow> run_ops env (f (ticks w) c n) (tick w))"

fun run_functors :: "tcp_env \<Rightarrow> (cid \<times> Functor) list \<Rightarrow> TcpServer \<Rightarrow> TcpServer result" where
  "run_functors env [] w = Inr w"
| "run_functors env ((c, f) # fs) w = bind_result (run_functor env c f w) (run_functors env fs)"

definition doPendingFunctors :: "tcp_env \<Rightarrow> TcpServer \<Rightarrow> TcpServer result" where
  "doPendingFunctors env w = run_functors env (pendingFunctors w) (w\<lparr>pendingFunctors := []\<rparr>)"

text \<open>What \<open>poll\<close> reports: events of a connection, a connection that \<open>accept\<close> returns (or its
  failure, which closes and reopens the spare descriptor), timers that expire.\<close>

datatype loop_event =
    Ready cid "32 word"
  | Accept "int option"
  | Timers "cid list"

fun fire_timers :: "cid list \<Rightarrow> TcpServer \<Rightarrow> TcpServer result" where
  "fire_timers [] w = Inr w"
| "fire_timers (c # cs) w =
     (let w1 = w\<lparr>delayed := remove1 c (delayed w)\<rparr>
      in if heap w1 c = None then fire_timers cs w1
         else bind_result (forceClose c w1) (fire_timers cs))"

fun handle_event :: "tcp_env \<Rightarrow> loop_event \<Rightarrow> TcpServer \<Rightarrow> TcpServer result" where
  "handle_event env (Ready c revents) w =
     handleEvent env c revents (w\<lparr>currentActiveChannel := Some c\<rparr>)"
| "handle_event env (Accept (Some connfd)) w = newConnection env connfd (w\<lparr>currentActiveChannel := None\<rparr>)"
| "handle_event env (Accept None) w = Inr (w\<lparr>currentActiveChannel := None\<rparr>)"
| "handle_event env (Timers cs) w = fire_timers cs (w\<lparr>currentActiveChannel := None\<rparr>)"

fun handle_events :: "tcp_env \<Rightarrow> loop_event list \<Rightarrow> TcpServer \<Rightarrow> TcpServer result" where
  "handle_events env [] w = Inr w"
| "handle_events env (e # es) w = bind_result (handle_event env e w) (handle_events env es)"

fun ready_conns :: "loop_event list \<Rightarrow> cid list" where
  "ready_conns [] = []"
| "ready_conns (Ready c revents # es) = c # ready_conns es"
| "ready_conns (_ # es) = ready_conns es"

definition loop_iteration :: "tcp_env \<Rightarrow> loop_event list \<Rightarrow> TcpServer \<Rightarrow> TcpServer result" where
  "loop_iteration env active w =
     bind_result
       (handle_events env active (w\<lparr>activeChannels := ready_conns active, eventHandling := True\<rparr>)) (\<lambda>w1.
       doPendingFunctors env (w1\<lparr>currentActiveChannel := None, eventHandling := False\<rparr>))"

text \<open>\<open>EventLoop::loop\<close>, for the events that \<open>poll\<close> returns from one iteration to the next.\<close>

fun run_loop :: "tcp_env \<Rightarrow> loop_event list list \<Rightarrow> TcpServer \<Rightarrow> TcpServer result" where
  "run_loop env [] w = Inr w"
| "run_loop env (es # ess) w = bind_result (loop_iteration env es w) (run_loop env ess)"

subsection \<open>Destruction\<close>

text \<open>\<open>~TcpConnection\<close> with \<open>~Channel\<close>; closing the descriptor is \<open>~Socket\<close>. It runs when the
  last shared pointer goes: none in the table, none in a functor.\<close>

definition unreferenced :: "cid \<Rightarrow> TcpServer \<Rightarrow> bool" where
  "unreferenced c w \<longleftrightarrow>
     heap w c \<noteq> None \<and> (\<forall>e \<in> set (connections w). snd e \<noteq> c)
     \<and> (\<forall>(c', f) \<in> set (pendingFunctors w). c' = c \<longrightarrow> \<not> holds_shared_ptr f)"

definition destroy_TcpConnection :: "cid \<Rightarrow> TcpServer \<Rightarrow> TcpServer result" where
  "destroy_TcpConnection c w = with_conn c w (\<lambda>k.
     if conn_state k = kDisconnected \<and> \<not> addedToLoop (channel k) \<and> channels w (conn_fd k) \<noteq> Some c
     then Inr (w\<lparr>heap := (heap w)(c := None)\<rparr>)
     else Inl AssertFail)"

text \<open>\<open>~TcpServer\<close>, in the thread of the loop.\<close>

fun destroy_all :: "tcp_env \<Rightarrow> (bytes \<times> cid) list \<Rightarrow> TcpServer \<Rightarrow> TcpServer result" where
  "destroy_all env [] w = Inr w"
| "destroy_all env ((n, c) # items) w = bind_result (connectDestroyed env c w) (destroy_all env items)"

definition destroy_TcpServer :: "tcp_env \<Rightarrow> TcpServer \<Rightarrow> TcpServer result" where
  "destroy_TcpServer env w = destroy_all env (connections w) w"

end
