(* ===== verification/Tcp_Local.thy ===== *)
theory Tcp_Local
  imports Tcp_Connection
begin

unbundle bit_operations_syntax

section \<open>One connection of a server\<close>

text \<open>
  The invariant of one connection, over its state, the functors bound to it and what was observed of it, and that
  the operations which concern one connection only (\<open>sendInLoop\<close>, \<open>shutdown\<close>, \<open>forceClose\<close>, \<open>handleWrite\<close>)
  keep it.
\<close>

subsection \<open>Projections\<close>

definition proj :: "cid \<Rightarrow> (cid \<times> 'a) list \<Rightarrow> 'a list" where
  "proj c xs = map snd (filter (\<lambda>p. fst p = c) xs)"

lemma proj_simps [simp]:
  "proj c [] = []"
  "proj c (p # xs) = (if fst p = c then snd p # proj c xs else proj c xs)"
  "proj c (xs @ ys) = proj c xs @ proj c ys"
  by (simp_all add: proj_def)

lemma proj_map_Pair [simp]: "proj c (map (Pair c') xs) = (if c = c' then xs else [])"
  by (induction xs) auto

lemma set_proj: "f \<in> set (proj c xs) \<longleftrightarrow> (c, f) \<in> set xs"
  by (induction xs) auto

fun sent_bytes :: "tcp_obs list \<Rightarrow> bytes" where
  "sent_bytes [] = []"
| "sent_bytes (Sent d # os) = d @ sent_bytes os"
| "sent_bytes (_ # os) = sent_bytes os"

fun written_bytes :: "tcp_obs list \<Rightarrow> bytes" where
  "written_bytes [] = []"
| "written_bytes (Wrote d # os) = d @ written_bytes os"
| "written_bytes (_ # os) = written_bytes os"

fun callbacks :: "tcp_obs list \<Rightarrow> bool list" where
  "callbacks [] = []"
| "callbacks (Callback b # os) = b # callbacks os"
| "callbacks (_ # os) = callbacks os"

lemma sent_bytes_append [simp]: "sent_bytes (xs @ ys) = sent_bytes xs @ sent_bytes ys"
  by (induction xs rule: sent_bytes.induct) simp_all

lemma written_bytes_append [simp]: "written_bytes (xs @ ys) = written_bytes xs @ written_bytes ys"
  by (induction xs rule: written_bytes.induct) simp_all

lemma callbacks_append [simp]: "callbacks (xs @ ys) = callbacks xs @ callbacks ys"
  by (induction xs rule: callbacks.induct) simp_all

subsection \<open>The invariant of one connection\<close>

definition is_open :: "TcpConnection \<Rightarrow> bool" where
  "is_open k \<longleftrightarrow> conn_state k = kConnected \<or> conn_state k = kDisconnecting"

lemma is_open_update [simp]:
  "is_open (k\<lparr>outputBuffer := ob\<rparr>) = is_open k" "is_open (k\<lparr>inputBuffer := ib\<rparr>) = is_open k"
  "is_open (k\<lparr>channel := ch\<rparr>) = is_open k" "is_open (k\<lparr>conn_state := kDisconnecting\<rparr>)"
  "\<not> is_open (k\<lparr>conn_state := kDisconnected\<rparr>)"
  by (simp_all add: is_open_def)

text \<open>Before \<open>shutdown(SHUT_WR)\<close> everything handed over has been written, unless the peer was gone.\<close>

definition shut_ok :: "tcp_obs list \<Rightarrow> bool" where
  "shut_ok os \<longleftrightarrow> (\<forall>xs ys. os = xs @ ShutWrite # ys \<longrightarrow> Dropped \<notin> set xs \<longrightarrow> written_bytes xs = sent_bytes xs)"

definition bytes_ok :: "TcpConnection \<Rightarrow> tcp_obs list \<Rightarrow> bool" where
  "bytes_ok k os \<longleftrightarrow> Dropped \<notin> set os \<longrightarrow> written_bytes os @ content (outputBuffer k) = sent_bytes os"

definition no_send :: "Functor list \<Rightarrow> bool" where
  "no_send fs \<longleftrightarrow> (\<forall>d. SendInLoop d \<notin> set fs)"

definition open_inv :: "TcpConnection \<Rightarrow> Functor list \<Rightarrow> tcp_obs list \<Rightarrow> bool" where
  "open_inv k fs os \<longleftrightarrow>
     ch_index (channel k) = kAdded \<and> addedToLoop (channel k)
     \<and> events (channel k) = (if content (outputBuffer k) = [] then 3 else 7)
     \<and> callbacks os = [True] \<and> ConnectDestroyed \<notin> set fs"

definition closed_inv :: "bool \<Rightarrow> TcpConnection \<Rightarrow> Functor list \<Rightarrow> tcp_obs list \<Rightarrow> bool" where
  "closed_inv closing k fs os \<longleftrightarrow>
     events (channel k) = 0 \<and> callbacks os = [True, False]
     \<and> (if closing then ch_index (channel k) = kDeleted \<and> addedToLoop (channel k) \<and> ConnectDestroyed \<notin> set fs
        else if ConnectDestroyed \<in> set fs
             then ch_index (channel k) = kDeleted \<and> addedToLoop (channel k)
                  \<and> count_list fs ConnectDestroyed = 1
                  \<and> no_send (dropWhile (\<lambda>f. f \<noteq> ConnectDestroyed) fs)
             else ch_index (channel k) = kNew \<and> \<not> addedToLoop (channel k) \<and> no_send fs)"

definition conn_inv :: "bool \<Rightarrow> TcpConnection \<Rightarrow> Functor list \<Rightarrow> tcp_obs list \<Rightarrow> bool" where
  "conn_inv closing k fs os \<longleftrightarrow>
     buf_ok (inputBuffer k) \<and> buf_ok (outputBuffer k)
     \<and> set fs \<inter> {ShutdownInLoop, StartReadInLoop, StopReadInLoop} = {}
     \<and> bytes_ok k os \<and> shut_ok os
     \<and> (if is_open k then \<not> closing \<and> open_inv k fs os
        else conn_state k = kDisconnected \<and> closed_inv closing k fs os)"

definition same_conn :: "TcpConnection \<Rightarrow> TcpConnection \<Rightarrow> bool" where
  "same_conn k k' \<longleftrightarrow> conn_fd k' = conn_fd k \<and> conn_name k' = conn_name k \<and> is_open k' = is_open k
     \<and> (ch_index (channel k') = kNew) = (ch_index (channel k) = kNew)"

definition local_step ::
  "cid \<Rightarrow> TcpConnection \<Rightarrow> Functor list \<Rightarrow> tcp_obs list \<Rightarrow> TcpServer \<Rightarrow> TcpServer \<Rightarrow> bool" where
  "local_step c k fs os w w' \<longleftrightarrow>
     heap w' = (heap w)(c \<mapsto> k) \<and> pendingFunctors w' = pendingFunctors w @ map (Pair c) fs
     \<and> obs w' = obs w @ map (Pair c) os \<and> connections w' = connections w \<and> next_cid w' = next_cid w
     \<and> nextConnId w' = nextConnId w \<and> channels w' = channels w \<and> eventHandling w' = eventHandling w
     \<and> activeChannels w' = activeChannels w \<and> currentActiveChannel w' = currentActiveChannel w"

subsection \<open>Operations on one connection\<close>

lemmas event_defs = isNoneEvent_def isWriting_def isReading_def kNoneEvent_def kWriteEvent_def kReadEvent_def
  POLLIN_def POLLPRI_def POLLOUT_def POLLERR_def POLLHUP_def POLLNVAL_def POLLRDHUP_def
  kNew_def kAdded_def kDeleted_def

lemmas state_defs = with_conn_def set_conn_def observe_def tick_def queueInLoop_def runInLoop_def

lemma shut_ok_snoc:
  "shut_ok (os @ [e]) \<longleftrightarrow>
     shut_ok os \<and> (e = ShutWrite \<longrightarrow> Dropped \<notin> set os \<longrightarrow> written_bytes os = sent_bytes os)"
  unfolding shut_ok_def
  apply (rule iffI)
   apply (metis append.assoc append_Cons append_Nil2 append_Nil)
  by (metis append_butlast_last_id butlast_append butlast_snoc last_append last_snoc list.distinct(1) butlast.simps(2) last.simps list.sel(3))

lemma shut_ok_drained:
  "shut_ok (os @ [Wrote d, ShutWrite]) \<longleftrightarrow>
     shut_ok os \<and> (Dropped \<notin> set os \<longrightarrow> written_bytes os @ d = sent_bytes os)"
  using shut_ok_snoc [of "os @ [Wrote d]" ShutWrite] by (simp add: shut_ok_snoc)

lemma already_added_events:
  "addedToLoop ch \<Longrightarrow> ch\<lparr>events := e, addedToLoop := True\<rparr> = ch\<lparr>events := e\<rparr>"
  "addedToLoop ch \<Longrightarrow> ch\<lparr>events := e, ch_index := i, addedToLoop := True\<rparr> = ch\<lparr>events := e, ch_index := i\<rparr>"
  by (cases ch, simp)+

lemma enableWriting_open:
  assumes "heap w c = Some k" and "channels w (conn_fd k) = Some c" and "ch_index (channel k) = kAdded"
    and "addedToLoop (channel k)" and "events (channel k) = 3"
  shows "enableWriting c w = Inr (set_conn c (k\<lparr>channel := (channel k)\<lparr>events := 7\<rparr>\<rparr>) w)"
  using assms
  by (simp add: enableWriting_def set_events_def chan_update_def updateChannel_def state_defs event_defs
      already_added_events)

lemma disableWriting_open:
  assumes "heap w c = Some k" and "channels w (conn_fd k) = Some c" and "ch_index (channel k) = kAdded"
    and "addedToLoop (channel k)" and "events (channel k) = 7"
  shows "disableWriting c w = Inr (set_conn c (k\<lparr>channel := (channel k)\<lparr>events := 3\<rparr>\<rparr>) w)"
  using assms
  by (simp add: disableWriting_def set_events_def chan_update_def updateChannel_def state_defs event_defs
      already_added_events)

lemma disableAll_open:
  assumes "heap w c = Some k" and "channels w (conn_fd k) = Some c" and "ch_index (channel k) = kAdded"
    and "addedToLoop (channel k)"
  shows "disableAll c w = Inr (set_conn c (k\<lparr>channel := (channel k)\<lparr>events := 0, ch_index := kDeleted\<rparr>\<rparr>) w)"
  using assms
  by (simp add: disableAll_def set_events_def chan_update_def updateChannel_def state_defs event_defs
      already_added_events)

definition write_ok :: "tcp_env \<Rightarrow> bool" where
  "write_ok env \<longleftrightarrow> (\<forall>t fd d n. sys_write env t fd d = Inr n \<longrightarrow> n \<le> length d)"

lemma conn_inv_open:
  "is_open k \<Longrightarrow> conn_inv cl k F E \<Longrightarrow>
     \<not> cl \<and> open_inv k F E \<and> buf_ok (outputBuffer k) \<and> buf_ok (inputBuffer k)"
  by (auto simp: conn_inv_def)

lemma readable_0_iff: "buf_ok b \<Longrightarrow> readableBytes b = 0 \<longleftrightarrow> content b = []"
  by (metis length_content length_0_conv)

lemma local_stepI:
  "local_step c k [] [] w (set_conn c k w)"
  by (simp add: local_step_def set_conn_def)

lemma write_direct_cases:
  assumes "write_ok env"
  obtains (wrote) n fs where "write_direct env c k d w = (n, False, w\<lparr>ticks := Suc (ticks w),
      obs := obs w @ [(c, Wrote (take n d))], pendingFunctors := pendingFunctors w @ map (Pair c) fs\<rparr>)"
      "n \<le> length d" "set fs \<subseteq> {WriteComplete}"
  | (blocked) "write_direct env c k d w = (0, False, w\<lparr>ticks := Suc (ticks w)\<rparr>)"
  | (dropped) "write_direct env c k d w = (0, True, w\<lparr>ticks := Suc (ticks w), obs := obs w @ [(c, Dropped)]\<rparr>)"
proof (cases "sys_write env (ticks w) (conn_fd k) d")
  case (Inl e)
  then show ?thesis
    using blocked dropped
    by (cases "e \<noteq> EWOULDBLOCK \<and> (e = EPIPE \<or> e = ECONNRESET)") (simp_all add: write_direct_def state_defs)
next
  case (Inr n)
  then have "n \<le> length d" using assms by (auto simp: write_ok_def)
  show ?thesis
    by (rule wrote [of n "if length d - n = 0 \<and> writeCompleteCallback env \<noteq> None then [WriteComplete] else []"])
      (use \<open>n \<le> length d\<close> Inr in \<open>auto simp: write_direct_def state_defs Let_def\<close>)
qed

lemma local_step_trans:
  "local_step c k fs os w w' \<Longrightarrow> local_step c k' fs' os' w' w'' \<Longrightarrow> local_step c k' (fs @ fs') (os @ os') w w''"
  by (simp add: local_step_def)

definition can_write :: "cid \<Rightarrow> TcpConnection \<Rightarrow> TcpServer \<Rightarrow> bool" where
  "can_write c k w \<longleftrightarrow> heap w c = Some k \<and> channels w (conn_fd k) = Some c
     \<and> ch_index (channel k) = kAdded \<and> addedToLoop (channel k)
     \<and> events (channel k) = (if content (outputBuffer k) = [] then 3 else 7) \<and> buf_ok (outputBuffer k)"

lemma isWriting_open: "can_write c k w \<Longrightarrow> isWriting (channel k) \<longleftrightarrow> content (outputBuffer k) \<noteq> []"
  by (auto simp: can_write_def event_defs)

lemma same_events: "ch\<lparr>events := e\<rparr> = ch" if "events ch = e"
  using that by (cases ch) simp

lemma buffer_rest_spec:
  assumes "can_write c k w" and "r \<noteq> []"
  obtains w' ob fs where "buffer_rest env c r w = Inr w'" "buf_ok ob" "content ob = content (outputBuffer k) @ r"
    "local_step c (k\<lparr>outputBuffer := ob, channel := (channel k)\<lparr>events := 7\<rparr>\<rparr>) fs [] w w'"
    "set fs \<subseteq> range HighWaterMark"
proof -
  define out where "out = outputBuffer k"
  define fs where "fs = (if readableBytes out + length r \<ge> highWaterMark k \<and> readableBytes out < highWaterMark k
                  \<and> highWaterMarkCallback env \<noteq> None then [HighWaterMark (readableBytes out + length r)] else [])"
  obtain ob where ob: "buf_append r out = Inr ob" "buf_ok ob" "content ob = content out @ r"
    using buf_append_spec [of out r] assms by (auto simp: can_write_def out_def)
  define k1 where "k1 = k\<lparr>outputBuffer := ob\<rparr>"
  define w1 where "w1 = w\<lparr>heap := (heap w)(c \<mapsto> k1), pendingFunctors := pendingFunctors w @ map (Pair c) fs\<rparr>"
  have step: "buffer_rest env c r w = (if isWriting (channel k) then Inr w1 else enableWriting c w1)"
    using assms(1) ob unfolding buffer_rest_def
    by (cases w) (auto simp: with_conn_def can_write_def set_conn_def queueInLoop_def Let_def w1_def k1_def fs_def out_def)
  have "buffer_rest env c r w = Inr (set_conn c (k1\<lparr>channel := (channel k)\<lparr>events := 7\<rparr>\<rparr>) w1)"
  proof (cases "content out = []")
    case True
    then show ?thesis
      using step isWriting_open [OF assms(1)] enableWriting_open [of w1 c k1] assms(1)
      by (simp add: w1_def k1_def can_write_def out_def)
  next
    case False
    then show ?thesis
      using step isWriting_open [OF assms(1)] assms(1)
      by (simp add: w1_def k1_def can_write_def out_def same_events set_conn_def)
  qed
  moreover have "local_step c (k1\<lparr>channel := (channel k)\<lparr>events := 7\<rparr>\<rparr>) fs [] w
     (set_conn c (k1\<lparr>channel := (channel k)\<lparr>events := 7\<rparr>\<rparr>) w1)"
    by (simp add: local_step_def w1_def set_conn_def)
  moreover have "set fs \<subseteq> range HighWaterMark" by (auto simp: fs_def)
  ultimately show thesis
    using that ob by (simp add: k1_def out_def)
qed

lemma shut_ok_append:
  "shut_ok os \<Longrightarrow> ShutWrite \<notin> set es \<Longrightarrow> shut_ok (os @ es)"
  by (induction es rule: rev_induct) (auto simp: shut_ok_snoc simp flip: append_assoc)

lemma open_step_inv:
  assumes "conn_inv cl k F E" and "is_open k" and "is_open k'"
    and "ch_index (channel k') = kAdded" and "addedToLoop (channel k')" and "buf_ok (inputBuffer k')"
    and "buf_ok (outputBuffer k')" and "events (channel k') = (if content (outputBuffer k') = [] then 3 else 7)"
    and "set fs \<inter> {ShutdownInLoop, StartReadInLoop, StopReadInLoop, ConnectDestroyed} = {}"
    and "callbacks os = []" and "shut_ok (E @ os)"
    and "Dropped \<notin> set os \<Longrightarrow> written_bytes os @ content (outputBuffer k') = content (outputBuffer k) @ sent_bytes os"
  shows "conn_inv cl k' (F @ fs) (E @ os)"
proof -
  have "bytes_ok k' (E @ os)"
    using assms(1,12) by (auto simp: conn_inv_def bytes_ok_def)
  then show ?thesis
    using assms by (auto simp: conn_inv_def open_inv_def)
qed

lemma open_can_write:
  "conn_inv cl k F E \<Longrightarrow> is_open k \<Longrightarrow> heap w c = Some k \<Longrightarrow> channels w (conn_fd k) = Some c \<Longrightarrow> can_write c k w"
  by (auto simp: can_write_def conn_inv_def open_inv_def)

text \<open>An operation that concerns one connection only, succeeds and keeps the connection's invariant.\<close>

definition local_ok ::
  "cid \<Rightarrow> TcpConnection \<Rightarrow> bool \<Rightarrow> Functor list \<Rightarrow> tcp_obs list \<Rightarrow> TcpServer \<Rightarrow> TcpServer result \<Rightarrow> bool" where
  "local_ok c k cl F E w r \<longleftrightarrow>
     (\<exists>w' k' fs os. r = Inr w' \<and> local_step c k' fs os w w' \<and> same_conn k k' \<and> ConnectDestroyed \<notin> set fs
       \<and> conn_inv cl k' (F @ fs) (E @ os))"

lemma local_okI:
  "r = Inr w' \<Longrightarrow> local_step c k' fs os w w' \<Longrightarrow> same_conn k k' \<Longrightarrow> ConnectDestroyed \<notin> set fs \<Longrightarrow>
   conn_inv cl k' (F @ fs) (E @ os) \<Longrightarrow> local_ok c k cl F E w r"
  unfolding local_ok_def by blast

lemma local_ok_skip:
  assumes "r = Inr w" and "heap w c = Some k" and "conn_inv cl k F E"
  shows "local_ok c k cl F E w r"
  by (rule local_okI [of _ w c k "[]" "[]"]) (use assms in \<open>auto simp: local_step_def same_conn_def\<close>)

text \<open>The two ends of \<open>sendInLoop\<close>: something is left for the output buffer, or nothing.\<close>

lemma send_rest_local:
  assumes "can_write c k w" and "conn_inv cl k F E" and "is_open k" and "r \<noteq> []"
    and "local_step c k fs os w0 w" and "set fs \<subseteq> {WriteComplete}" and "callbacks os = []" and "ShutWrite \<notin> set os"
    and "sent_bytes os = written_bytes os @ r" and "written_bytes os = [] \<or> content (outputBuffer k) = []"
  shows "local_ok c k cl F E w0 (buffer_rest env c r w)"
proof -
  obtain w' ob fs' where b: "buffer_rest env c r w = Inr w'" "buf_ok ob" "content ob = content (outputBuffer k) @ r"
    and l: "local_step c (k\<lparr>outputBuffer := ob, channel := (channel k)\<lparr>events := 7\<rparr>\<rparr>) fs' [] w w'" (is "local_step c ?k' _ _ _ _")
    and fs': "set fs' \<subseteq> range HighWaterMark"
    by (rule buffer_rest_spec [OF assms(1,4), of env])
  have k: "ch_index (channel k) = kAdded" "addedToLoop (channel k)" "buf_ok (inputBuffer k)" "shut_ok E"
    using assms(1,2) by (simp_all add: can_write_def conn_inv_def)
  have "conn_inv cl ?k' (F @ fs @ fs') (E @ os)"
  proof (rule open_step_inv [OF assms(2,3)])
    show "shut_ok (E @ os)" using k(4) assms(8) by (rule shut_ok_append)
    show "set (fs @ fs') \<inter> {ShutdownInLoop, StartReadInLoop, StopReadInLoop, ConnectDestroyed} = {}"
      using assms(6) fs' by auto
    show "written_bytes os @ content (outputBuffer ?k') = content (outputBuffer k) @ sent_bytes os"
      using assms(9,10) b(3) by auto
  qed (use k b assms(3,4,7) in simp_all)
  moreover have "same_conn k ?k'" by (simp add: same_conn_def)
  ultimately show ?thesis
    using b(1) local_step_trans [OF assms(5) l] assms(6) fs' by (intro local_okI) auto
qed

lemma send_done_local:
  assumes "can_write c k w" and "conn_inv cl k F E" and "is_open k"
    and "local_step c k fs os w0 w" and "set fs \<subseteq> {WriteComplete}" and "callbacks os = []" and "ShutWrite \<notin> set os"
    and "Dropped \<notin> set os \<Longrightarrow> sent_bytes os = written_bytes os"
    and "written_bytes os = [] \<or> content (outputBuffer k) = []"
  shows "local_ok c k cl F E w0 (Inr w)"
proof (rule local_okI [OF refl assms(4)])
  show "conn_inv cl k (F @ fs) (E @ os)"
  proof (rule open_step_inv [OF assms(2,3)])
    show "shut_ok (E @ os)" using assms(2,7) by (auto simp: conn_inv_def intro: shut_ok_append)
    show "written_bytes os @ content (outputBuffer k) = content (outputBuffer k) @ sent_bytes os"
      if "Dropped \<notin> set os"
      using assms(8) [OF that] assms(9) by auto
  qed (use assms(1,2,3,5,6) in \<open>auto simp: can_write_def conn_inv_def\<close>)
qed (use assms(5) in \<open>auto simp: same_conn_def\<close>)

lemma sendInLoop_local:
  assumes "write_ok env" and "heap w c = Some k" and "is_open k \<Longrightarrow> channels w (conn_fd k) = Some c"
    and "conn_inv cl k F E"
  shows "local_ok c k cl F E w (sendInLoop env c d w)"
proof (cases "is_open k")
  case False
  then have "conn_state k = kDisconnected" using assms(4) by (auto simp: conn_inv_def)
  then show ?thesis
    using assms(2,4) by (intro local_ok_skip) (simp_all add: sendInLoop_def with_conn_def)
next
  case True
  note cw = open_can_write [OF assms(4) True assms(2) assms(3) [OF True]]
  define w0 where "w0 = observe c (Sent d) w"
  have send: "sendInLoop env c d w =
      (let (nwrote, faultError, w1) =
             (if content (outputBuffer k) = [] then write_direct env c k d w0 else (0, False, w0))
       in if \<not> nwrote \<le> length d then Inl AssertFail
          else if \<not> faultError \<and> length d - nwrote > 0 then buffer_rest env c (drop nwrote d) w1
          else Inr w1)"
    using assms(2) True isWriting_open [OF cw] readable_0_iff [of "outputBuffer k"] cw
    by (auto simp: sendInLoop_def with_conn_def w0_def can_write_def is_open_def)
  have same: "can_write c k w1" if "local_step c k fs os w w1" for w1 fs os
    using that cw by (simp add: can_write_def local_step_def)
  have l0: "local_step c k [] [Sent d] w w0"
    using assms(2) by (auto simp: local_step_def w0_def observe_def)
  note rest = send_rest_local [OF same assms(4) True] and finish = send_done_local [OF same assms(4) True]
  show ?thesis
  proof (cases "content (outputBuffer k) = []")
    case False
    then show ?thesis
      unfolding send using rest [OF l0 _ l0] finish [OF l0 l0] by (cases "d = []") simp_all
  next
    case empty: True
    show ?thesis
    proof (rule write_direct_cases [OF assms(1), of c k d w0], goal_cases wrote blocked dropped)
      case (wrote n fs)
      then have l: "local_step c k fs [Sent d, Wrote (take n d)] w (snd (snd (write_direct env c k d w0)))"
        using l0 by (simp add: local_step_def)
      show ?case
        unfolding send using rest [OF l _ l] finish [OF l l] wrote empty
        by (cases "drop n d = []") simp_all
    next
      case blocked
      then have l: "local_step c k [] [Sent d] w (snd (snd (write_direct env c k d w0)))"
        using l0 by (simp add: local_step_def)
      show ?case
        unfolding send using rest [OF l _ l, of d env] finish [OF l l] blocked empty by (cases "d = []") simp_all
    next
      case dropped
      then have l: "local_step c k [] [Sent d, Dropped] w (snd (snd (write_direct env c k d w0)))"
        using l0 by (simp add: local_step_def)
      show ?case
        unfolding send using finish [OF l l] dropped empty by simp
    qed
  qed
qed

lemma tcp_send_local:
  assumes "write_ok env" and "heap w c = Some k" and "is_open k \<Longrightarrow> channels w (conn_fd k) = Some c"
    and "conn_inv cl k F E"
  shows "local_ok c k cl F E w (tcp_send env True c d w)"
  using sendInLoop_local [OF assms, of d] local_ok_skip [OF _ assms(2,4)] assms(2)
  by (simp add: tcp_send_def with_conn_def)

lemma open_state_local:
  assumes "heap w c = Some k" and "is_open k" and "conn_inv cl k F E" and "r = Inr w'"
    and "local_step c (k\<lparr>conn_state := kDisconnecting\<rparr>) fs os w w'"
    and "set fs \<subseteq> {ForceCloseInLoop}" and "os = [] \<or> os = [ShutWrite] \<and> content (outputBuffer k) = []"
  shows "local_ok c k cl F E w r"
proof (rule local_okI [OF assms(4,5)])
  have "shut_ok (E @ os)"
    using assms(3,7) by (auto simp: conn_inv_def shut_ok_snoc bytes_ok_def)
  then show "conn_inv cl (k\<lparr>conn_state := kDisconnecting\<rparr>) (F @ fs) (E @ os)"
    using conn_inv_open [OF assms(2,3)] assms(6,7)
    by (intro open_step_inv [OF assms(3,2)]) (auto simp: open_inv_def)
qed (use assms(2,6) in \<open>auto simp: same_conn_def\<close>)

lemma tcp_shutdown_local:
  assumes "heap w c = Some k" and "is_open k \<Longrightarrow> channels w (conn_fd k) = Some c" and "conn_inv cl k F E"
  shows "local_ok c k cl F E w (tcp_shutdown True c w)"
proof (cases "conn_state k = kConnected")
  case True
  then have op: "is_open k" by (simp add: is_open_def)
  note cw = open_can_write [OF assms(3) op assms(1) assms(2) [OF op]]
  define w1 where "w1 = set_conn c (k\<lparr>conn_state := kDisconnecting\<rparr>) w"
  have s: "tcp_shutdown True c w = Inr (if isWriting (channel k) then w1 else observe c ShutWrite w1)"
    using assms(1) True by (simp add: tcp_shutdown_def shutdownInLoop_def runInLoop_def with_conn_def set_conn_def w1_def)
  show ?thesis
  proof (rule open_state_local [OF assms(1) op assms(3) s])
    show "local_step c (k\<lparr>conn_state := kDisconnecting\<rparr>) [] (if isWriting (channel k) then [] else [ShutWrite]) w
      (if isWriting (channel k) then w1 else observe c ShutWrite w1)"
      by (simp add: local_step_def w1_def set_conn_def observe_def)
  qed (use isWriting_open [OF cw] in auto)
next
  case False
  then show ?thesis
    using assms(1,3) by (intro local_ok_skip) (simp_all add: tcp_shutdown_def with_conn_def)
qed

lemma forceClose_local:
  assumes "heap w c = Some k" and "conn_inv cl k F E"
  shows "local_ok c k cl F E w (forceClose c w)"
proof (cases "is_open k")
  case True
  show ?thesis
    by (rule open_state_local [OF assms(1) True assms(2), where fs = "[ForceCloseInLoop]" and os = "[]"])
      (use True assms(1) in \<open>auto simp: forceClose_def with_conn_def is_open_def local_step_def set_conn_def queueInLoop_def\<close>)
next
  case False
  then show ?thesis
    using assms by (intro local_ok_skip) (auto simp: forceClose_def with_conn_def is_open_def)
qed

lemma forceCloseWithDelay_local:
  assumes "heap w c = Some k" and "conn_inv cl k F E"
  shows "local_ok c k cl F E w (forceCloseWithDelay c w)"
proof (cases "is_open k")
  case True
  show ?thesis
    by (rule open_state_local [OF assms(1) True assms(2), where fs = "[]" and os = "[]"])
      (use True assms(1) in \<open>auto simp: forceCloseWithDelay_def with_conn_def is_open_def local_step_def set_conn_def\<close>)
next
  case False
  then show ?thesis
    using assms by (intro local_ok_skip) (auto simp: forceCloseWithDelay_def with_conn_def is_open_def)
qed

lemma handleWrite_step:
  fixes k c env
  assumes "can_write c k w" and "n \<le> length (content (outputBuffer k))"
    and "sys_write env (ticks w) (conn_fd k) (content (outputBuffer k)) = Inr n" and "0 < n"
    and "retrieve n (outputBuffer k) = Inr ob" and "buf_ok ob"
  defines "k1 \<equiv> k\<lparr>outputBuffer := ob, channel := (channel k)\<lparr>events := (if content ob = [] then 3 else 7)\<rparr>\<rparr>"
    and "fs \<equiv> (if content ob = [] \<and> writeCompleteCallback env \<noteq> None then [WriteComplete] else [])"
    and "os \<equiv> Wrote (take n (content (outputBuffer k)))
       # (if content ob = [] \<and> conn_state k = kDisconnecting then [ShutWrite] else [])"
  shows "\<exists>w'. handleWrite env c w = Inr w' \<and> local_step c k1 fs os w w'"
proof -
  define d where "d = content (outputBuffer k)"
  define w1 where "w1 = observe c (Wrote (take n d)) (tick (set_conn c (k\<lparr>outputBuffer := ob\<rparr>) w))"
  have d: "d \<noteq> []" using assms(2,4) by (auto simp: d_def)
  have k: "heap w c = Some k" "channels w (conn_fd k) = Some c" "ch_index (channel k) = kAdded"
    "addedToLoop (channel k)" "events (channel k) = 7" "buf_ok (outputBuffer k)" "isWriting (channel k)"
    "slice (peek (outputBuffer k)) (readableBytes (outputBuffer k)) (outputBuffer k) = d"
    using assms(1) d isWriting_open [OF assms(1)] by (auto simp: can_write_def d_def slice_readable)
  have h: "handleWrite env c w = (if content ob = []
      then bind_result (disableWriting c w1) (\<lambda>w2.
        let w3 = (if writeCompleteCallback env \<noteq> None then queueInLoop c WriteComplete w2 else w2)
        in if conn_state k = kDisconnecting then shutdownInLoop c w3 else Inr w3)
      else Inr w1)"
    using assms(3-6) k readable_0_iff [of ob] by (simp add: handleWrite_def with_conn_def d_def w1_def)
  have dw: "disableWriting c w1 = Inr (set_conn c (k\<lparr>outputBuffer := ob, channel := (channel k)\<lparr>events := 3\<rparr>\<rparr>) w1)"
    using k by (subst disableWriting_open [of _ _ "k\<lparr>outputBuffer := ob\<rparr>"])
      (simp_all add: w1_def observe_def tick_def set_conn_def)
  show ?thesis
  proof (cases "content ob = []")
    case True
    define w2 where "w2 = set_conn c (k\<lparr>outputBuffer := ob, channel := (channel k)\<lparr>events := 3\<rparr>\<rparr>) w1"
    define w3 where "w3 = (if writeCompleteCallback env \<noteq> None then queueInLoop c WriteComplete w2 else w2)"
    have "heap w3 c = Some (k\<lparr>outputBuffer := ob, channel := (channel k)\<lparr>events := 3\<rparr>\<rparr>)"
      by (simp add: w3_def w2_def set_conn_def queueInLoop_def)
    then have "shutdownInLoop c w3 = Inr (observe c ShutWrite w3)"
      by (simp add: shutdownInLoop_def with_conn_def event_defs)
    then have "handleWrite env c w = Inr (if conn_state k = kDisconnecting then observe c ShutWrite w3 else w3)"
      unfolding h dw by (simp only: True if_True bind_result_simps Let_def flip: w2_def w3_def) simp
    moreover have "local_step c k1 fs os w (if conn_state k = kDisconnecting then observe c ShutWrite w3 else w3)"
      by (auto simp: True w3_def w2_def w1_def k1_def fs_def os_def d_def local_step_def state_defs)
    ultimately show ?thesis by blast
  next
    case False
    then have "local_step c k1 fs os w w1"
      using k by (simp add: w1_def k1_def fs_def os_def d_def local_step_def state_defs same_events)
    with False show ?thesis unfolding h by simp
  qed
qed

lemma handleWrite_some:
  assumes "can_write c k w" and "conn_inv cl k F E" and "is_open k" and "n \<le> length (content (outputBuffer k))"
    and "sys_write env (ticks w) (conn_fd k) (content (outputBuffer k)) = Inr n" and "0 < n"
    and "retrieve n (outputBuffer k) = Inr ob" and "buf_ok ob" and "content ob = drop n (content (outputBuffer k))"
  shows "local_ok c k cl F E w (handleWrite env c w)"
proof -
  define k1 where "k1 = k\<lparr>outputBuffer := ob, channel := (channel k)\<lparr>events := (if content ob = [] then 3 else 7)\<rparr>\<rparr>"
  define fs where "fs = (if content ob = [] \<and> writeCompleteCallback env \<noteq> None then [WriteComplete] else [])"
  define os where "os = Wrote (take n (content (outputBuffer k)))
       # (if content ob = [] \<and> conn_state k = kDisconnecting then [ShutWrite] else [])"
  obtain w' where w': "handleWrite env c w = Inr w'" "local_step c k1 fs os w w'"
    using handleWrite_step [OF assms(1,4-8)] unfolding k1_def fs_def os_def by blast
  have "conn_inv cl k1 (F @ fs) (E @ os)"
  proof (rule open_step_inv [OF assms(2,3)])
    show "shut_ok (E @ os)"
      using assms(2,4,6,9) by (auto simp: os_def conn_inv_def shut_ok_snoc shut_ok_drained bytes_ok_def)
    show "written_bytes os @ content (outputBuffer k1) = content (outputBuffer k) @ sent_bytes os"
      using assms(9) by (simp add: os_def k1_def)
  qed (use assms(1-3,8) in \<open>auto simp: k1_def fs_def os_def conn_inv_def can_write_def\<close>)
  then show ?thesis
    by (intro local_okI [OF w']) (auto simp: same_conn_def k1_def fs_def)
qed

lemma handleWrite_local:
  assumes "write_ok env" and "heap w c = Some k" and "is_open k \<Longrightarrow> channels w (conn_fd k) = Some c"
    and "conn_inv cl k F E"
  shows "local_ok c k cl F E w (handleWrite env c w)"
proof (cases "is_open k \<and> content (outputBuffer k) \<noteq> []")
  case False
  then have "\<not> isWriting (channel k)"
    using assms(4) by (auto simp: conn_inv_def open_inv_def closed_inv_def event_defs split: if_splits)
  then show ?thesis
    using assms(2,4) by (intro local_ok_skip) (simp_all add: handleWrite_def with_conn_def)
next
  case True
  define out where "out = outputBuffer k"
  note cw = open_can_write [OF assms(4) _ assms(2) assms(3)]
  have wr: "isWriting (channel k)" and out: "buf_ok out" "slice (peek out) (readableBytes out) out = content out"
    using True cw isWriting_open [OF cw] by (auto simp: out_def can_write_def slice_readable)
  show ?thesis
  proof (cases "sys_write env (ticks w) (conn_fd k) (content out)")
    case (Inl e)
    show ?thesis
      by (rule local_okI [of _ "tick w" c k "[]" "[]"])
        (use Inl wr out assms(2,4) in \<open>auto simp: handleWrite_def with_conn_def out_def local_step_def tick_def same_conn_def\<close>)
  next
    case (Inr n)
    then have n: "n \<le> length (content out)" using assms(1) by (auto simp: write_ok_def)
    obtain ob where ob: "retrieve n out = Inr ob" "buf_ok ob" "content ob = drop n (content out)"
      using retrieve_spec [OF out(1) n] by blast
    show ?thesis
    proof (cases "n = 0")
      case True
      show ?thesis
        by (rule local_okI [of _ "tick w" c k "[]" "[]"])
          (use True Inr wr out assms(2,4) in \<open>auto simp: handleWrite_def with_conn_def out_def local_step_def tick_def same_conn_def\<close>)
    next
      case False
      then show ?thesis
        using handleWrite_some [OF cw assms(4) _ n [unfolded out_def] Inr [unfolded out_def] _ ob [unfolded out_def]]
          \<open>is_open k \<and> content (outputBuffer k) \<noteq> []\<close> by simp
    qed
  qed
qed

end
