(* ===== verification/Tcp_Invariant.thy ===== *)
theory Tcp_Invariant
  imports Tcp_Local
begin

unbundle bit_operations_syntax

section \<open>The connections of a server\<close>

text \<open>
  The invariant of the whole server (the poller's table, the table of connections, their names, each
  connection) and that the operations keep it: callbacks, closing, functors, new connections. \<open>X\<close> is the set of
  connections in the middle of \<open>handleClose\<close>, \<open>rest\<close> the functors of the batch that are still to be called.
\<close>

subsection \<open>The invariant\<close>

definition poller_ok :: "TcpServer \<Rightarrow> bool" where
  "poller_ok w \<longleftrightarrow>
     (\<forall>fd c. channels w fd = Some c \<longleftrightarrow>
        (\<exists>k. heap w c = Some k \<and> conn_fd k = fd \<and> ch_index (channel k) \<noteq> kNew))
     \<and> (\<forall>c c' k k'. heap w c = Some k \<longrightarrow> heap w c' = Some k' \<longrightarrow> conn_fd k = conn_fd k' \<longrightarrow> c = c')"

definition table_ok :: "cid set \<Rightarrow> TcpServer \<Rightarrow> bool" where
  "table_ok X w \<longleftrightarrow> omap_ok (connections w)
     \<and> (\<forall>n c. omap_find n (connections w) = Some c \<longleftrightarrow>
          (\<exists>k. heap w c = Some k \<and> conn_name k = n \<and> (c \<in> X \<or> is_open k)))"

definition names_ok :: "tcp_env \<Rightarrow> TcpServer \<Rightarrow> bool" where
  "names_ok env w \<longleftrightarrow> 1 \<le> nextConnId w \<and> nextConnId w < 2 ^ 31
     \<and> (\<forall>c k. heap w c = Some k \<longrightarrow> (\<exists>i. 1 \<le> i \<and> i < nextConnId w \<and> conn_name k = connName env i))"

definition gone_ok :: "(cid \<times> Functor) list \<Rightarrow> TcpServer \<Rightarrow> bool" where
  "gone_ok rest w \<longleftrightarrow> (\<forall>c. heap w c = None \<longrightarrow>
     proj c rest = [] \<and> proj c (pendingFunctors w) = []
     \<and> (if c < next_cid w then callbacks (proj c (obs w)) = [True, False] \<and> shut_ok (proj c (obs w))
        else proj c (obs w) = []))
     \<and> (\<forall>c. next_cid w \<le> c \<longrightarrow> heap w c = None)"

definition tcp_inv :: "tcp_env \<Rightarrow> cid set \<Rightarrow> (cid \<times> Functor) list \<Rightarrow> TcpServer \<Rightarrow> bool" where
  "tcp_inv env X rest w \<longleftrightarrow> poller_ok w \<and> table_ok X w \<and> names_ok env w \<and> gone_ok rest w
     \<and> (\<forall>c k. heap w c = Some k \<longrightarrow>
          conn_inv (c \<in> X) k (proj c rest @ proj c (pendingFunctors w)) (proj c (obs w)))"

text \<open>What an operation keeps: functors are only added, connections outside \<open>S\<close> stay open, closed ones
  stay closed and are not queued for removal again; unless the operation is \<open>newConnection\<close>, there is no new one.\<close>

definition grows :: "cid set \<Rightarrow> TcpServer \<Rightarrow> TcpServer \<Rightarrow> bool" where
  "grows S w w' \<longleftrightarrow> eventHandling w' = eventHandling w
     \<and> (\<exists>fs. pendingFunctors w' = pendingFunctors w @ fs)
     \<and> (\<forall>c k. heap w c = Some k \<longrightarrow> (\<exists>k'. heap w' c = Some k'
          \<and> conn_fd k' = conn_fd k \<and> conn_name k' = conn_name k
          \<and> (is_open k \<and> c \<notin> S \<longrightarrow> is_open k')
          \<and> (\<not> is_open k \<longrightarrow> \<not> is_open k'
               \<and> (ConnectDestroyed \<in> set (proj c (pendingFunctors w')) \<longrightarrow>
                  ConnectDestroyed \<in> set (proj c (pendingFunctors w))))))"

definition keeps :: "cid set \<Rightarrow> TcpServer \<Rightarrow> TcpServer \<Rightarrow> bool" where
  "keeps S w w' \<longleftrightarrow> dom (heap w') = dom (heap w) \<and> nextConnId w' = nextConnId w \<and> grows S w w'"

lemma grows_refl [simp]: "grows S w w"
  by (simp add: grows_def)

lemma grows_trans: "grows S w w' \<Longrightarrow> grows S w' w'' \<Longrightarrow> grows S w w''"
  unfolding grows_def by (elim conjE, intro conjI) (simp, metis append_assoc, metis)

lemma grows_mono: "grows S w w' \<Longrightarrow> S \<subseteq> S' \<Longrightarrow> grows S' w w'"
  unfolding grows_def by blast

lemma grows_heap: "grows S w w' \<Longrightarrow> heap w c = Some k \<Longrightarrow> \<exists>k'. heap w' c = Some k' \<and> conn_fd k' = conn_fd k"
  unfolding grows_def by blast

lemma grows_open:
  "grows S w w' \<Longrightarrow> heap w c = Some k \<Longrightarrow> is_open k \<Longrightarrow> c \<notin> S \<Longrightarrow> \<exists>k'. heap w' c = Some k' \<and> is_open k'"
  unfolding grows_def by blast

lemma grows_closed:
  "grows S w w' \<Longrightarrow> heap w c = Some k \<Longrightarrow> \<not> is_open k \<Longrightarrow>
     (\<exists>k'. heap w' c = Some k' \<and> \<not> is_open k')
     \<and> (ConnectDestroyed \<in> set (proj c (pendingFunctors w')) \<longrightarrow> ConnectDestroyed \<in> set (proj c (pendingFunctors w)))"
  unfolding grows_def by blast

lemma keeps_refl [simp]: "keeps S w w"
  by (simp add: keeps_def)

lemma keeps_trans: "keeps S w w' \<Longrightarrow> keeps S w' w'' \<Longrightarrow> keeps S w w''"
  unfolding keeps_def by (auto intro: grows_trans)

lemma keeps_mono: "keeps S w w' \<Longrightarrow> S \<subseteq> S' \<Longrightarrow> keeps S' w w'"
  unfolding keeps_def by (auto intro: grows_mono)

lemma keeps_grows: "keeps S w w' \<Longrightarrow> grows S w w'"
  by (simp add: keeps_def)

lemma poller_ok_upd:
  assumes "poller_ok w" and "heap w c = Some k" and "heap w' = (heap w)(c \<mapsto> k')" and "channels w' = channels w"
    and "conn_fd k' = conn_fd k" and "(ch_index (channel k') = kNew) = (ch_index (channel k) = kNew)"
  shows "poller_ok w'"
  unfolding poller_ok_def
proof (intro conjI allI impI)
  fix fd c0
  show "channels w' fd = Some c0 \<longleftrightarrow>
      (\<exists>k. heap w' c0 = Some k \<and> conn_fd k = fd \<and> ch_index (channel k) \<noteq> kNew)"
    using assms by (cases "c0 = c") (auto simp: poller_ok_def)
next
  fix c1 c2 k1 k2
  assume a: "heap w' c1 = Some k1" "heap w' c2 = Some k2" "conn_fd k1 = conn_fd k2"
  have "\<exists>k1'. heap w c1 = Some k1' \<and> conn_fd k1' = conn_fd k1" and "\<exists>k2'. heap w c2 = Some k2' \<and> conn_fd k2' = conn_fd k2"
    using a assms(2,3,5) by (auto split: if_splits)
  with a(3) show "c1 = c2"
    using assms(1) unfolding poller_ok_def by metis
qed

lemma table_ok_upd:
  assumes "table_ok X w" and "heap w c = Some k" and "heap w' = (heap w)(c \<mapsto> k')" and "connections w' = connections w"
    and "conn_name k' = conn_name k" and "is_open k' = is_open k"
  shows "table_ok X w'"
proof -
  have "(\<exists>k. heap w' c0 = Some k \<and> conn_name k = n \<and> (c0 \<in> X \<or> is_open k)) \<longleftrightarrow>
      (\<exists>k. heap w c0 = Some k \<and> conn_name k = n \<and> (c0 \<in> X \<or> is_open k))" for n c0
    using assms by (cases "c0 = c") auto
  then show ?thesis using assms(1,4) by (simp add: table_ok_def)
qed

lemma local_step_inv:
  assumes inv: "tcp_inv env X rest w" and k: "heap w c = Some k" and l: "local_step c k' fs os w w'"
    and same: "same_conn k k'"
    and k': "conn_inv (c \<in> X) k' (proj c rest @ proj c (pendingFunctors w) @ fs) (proj c (obs w) @ os)"
  shows "tcp_inv env X rest w'"
proof -
  have "poller_ok w'"
    by (rule poller_ok_upd [of w c k _ k']) (use inv l same k in \<open>auto simp: tcp_inv_def local_step_def same_conn_def\<close>)
  moreover have "table_ok X w'"
    by (rule table_ok_upd [of X w c k _ k']) (use inv l same k in \<open>auto simp: tcp_inv_def local_step_def same_conn_def\<close>)
  moreover have "names_ok env w'"
    using inv l same k by (auto simp: tcp_inv_def names_ok_def local_step_def same_conn_def)
  moreover have "gone_ok rest w'"
    using inv l k by (auto simp: tcp_inv_def gone_ok_def local_step_def)
  moreover have "conn_inv (c' \<in> X) k'' (proj c' rest @ proj c' (pendingFunctors w')) (proj c' (obs w'))"
    if "heap w' c' = Some k''" for c' k''
    using that inv k' l by (cases "c' = c") (auto simp: tcp_inv_def local_step_def)
  ultimately show ?thesis by (simp add: tcp_inv_def)
qed

lemma local_step_keeps:
  assumes "heap w c = Some k" and "local_step c k' fs os w w'" and "same_conn k k'" and "ConnectDestroyed \<notin> set fs"
  shows "keeps S w w'"
  using assms by (auto simp: keeps_def grows_def local_step_def same_conn_def)

lemma local_ok_inv:
  assumes "tcp_inv env X rest w" and "heap w c = Some k"
    and "local_ok c k (c \<in> X) (proj c rest @ proj c (pendingFunctors w)) (proj c (obs w)) w r"
  shows "\<exists>w'. r = Inr w' \<and> tcp_inv env X rest w' \<and> keeps {} w w'"
  using assms(3) local_step_inv [OF assms(1,2)] local_step_keeps [OF assms(2)]
  unfolding local_ok_def by (metis append_assoc)

subsection \<open>Callbacks\<close>

fun op_ok :: "user_op \<Rightarrow> bool" where
  "op_ok (UStartRead c) = False"
| "op_ok (UStopRead c) = False"
| "op_ok _ = True"

text \<open>
  The hypotheses on the environment: \<open>write\<close> and \<open>readv\<close> do not move more bytes than asked for, a
  message callback leaves a buffer that satisfies the invariant of \<open>Buffer\<close>, callbacks do not
  switch reading on and off, and the address of the server is at most 51 bytes long (the text of
  an IPv6 address and port has at most 47).
\<close>

definition env_ok :: "tcp_env \<Rightarrow> bool" where
  "env_ok env \<longleftrightarrow> write_ok env
     \<and> (\<forall>t fd n d. sys_readv env t fd n = Inr d \<longrightarrow> length d \<le> n)
     \<and> (\<forall>t c up. list_all op_ok (connectionCallback env t c up))
     \<and> (\<forall>t c b. buf_ok b \<longrightarrow> buf_ok (fst (messageCallback env t c b)))
     \<and> (\<forall>t c b. list_all op_ok (snd (messageCallback env t c b)))
     \<and> (\<forall>f t c. writeCompleteCallback env = Some f \<longrightarrow> list_all op_ok (f t c))
     \<and> (\<forall>f t c n. highWaterMarkCallback env = Some f \<longrightarrow> list_all op_ok (f t c n))
     \<and> length (ipPort env) \<le> 51"

lemma tcp_inv_conn:
  "tcp_inv env X rest w \<Longrightarrow> heap w c = Some k \<Longrightarrow>
     conn_inv (c \<in> X) k (proj c rest @ proj c (pendingFunctors w)) (proj c (obs w))"
  by (simp add: tcp_inv_def)

lemma alive_lt: "gone_ok rest w \<Longrightarrow> heap w c = Some k \<Longrightarrow> c < next_cid w"
  unfolding gone_ok_def by (metis not_le option.distinct(1))

lemma inv_channel:
  assumes "tcp_inv env X rest w" and "heap w c = Some k" and "is_open k"
  shows "channels w (conn_fd k) = Some c"
  using assms tcp_inv_conn [OF assms(1,2)]
  by (auto simp: tcp_inv_def poller_ok_def conn_inv_def open_inv_def kNew_def kAdded_def)

lemma call_op_inv:
  assumes "write_ok env" and inv: "tcp_inv env X rest w" and k: "heap w (op_conn u) = Some k" and "op_ok u"
  shows "\<exists>w'. call_op env u w = Inr w' \<and> tcp_inv env X rest w' \<and> keeps {} w w'"
proof (rule local_ok_inv [OF inv k])
  show "local_ok (op_conn u) k (op_conn u \<in> X) (proj (op_conn u) rest @ proj (op_conn u) (pendingFunctors w))
     (proj (op_conn u) (obs w)) w (call_op env u w)"
    using assms tcp_inv_conn [OF inv k] inv_channel [OF inv k]
    by (cases u) (auto intro: tcp_send_local tcp_shutdown_local forceClose_local forceCloseWithDelay_local)
qed

lemma run_ops_inv:
  assumes "write_ok env" and "tcp_inv env X rest w" and "list_all op_ok us"
  shows "\<exists>w'. run_ops env us w = Inr w' \<and> tcp_inv env X rest w' \<and> keeps {} w w'"
  using assms(2,3)
proof (induction us arbitrary: w)
  case Nil
  then show ?case by simp
next
  case (Cons u us)
  show ?case
  proof (cases "heap w (op_conn u)")
    case None
    then show ?thesis using Cons by simp
  next
    case (Some k)
    obtain w1 where w1: "call_op env u w = Inr w1" "tcp_inv env X rest w1" "keeps {} w w1"
      using call_op_inv [OF assms(1) Cons.prems(1) Some] Cons.prems(2) by auto
    then obtain w2 where "run_ops env us w1 = Inr w2" "tcp_inv env X rest w2" "keeps {} w1 w2"
      using Cons by auto
    with w1 Some show ?thesis by (auto intro: keeps_trans)
  qed
qed

text \<open>Recording a call changes nothing the invariant speaks of, callbacks of the connection apart.\<close>

lemma tick_inv [simp]: "tcp_inv env X rest (tick w) = tcp_inv env X rest w"
  by (simp add: tcp_inv_def poller_ok_def table_ok_def names_ok_def gone_ok_def tick_def)

lemma tick_keeps [simp]: "keeps S (tick w) w' = keeps S w w'" "keeps S w (tick w') = keeps S w w'"
  by (simp_all add: keeps_def grows_def tick_def)

subsection \<open>Closing a connection\<close>

lemma close_begin_inv:
  assumes inv: "tcp_inv env {} rest w" and k: "heap w c = Some k" and op: "is_open k"
  shows "\<exists>w1. disableAll c (set_conn c (k\<lparr>conn_state := kDisconnected\<rparr>) w) = Inr w1
     \<and> (\<exists>k1. heap w1 c = Some k1 \<and> conn_state k1 = kDisconnected)
     \<and> tcp_inv env {c} rest (observe c (Callback False) w1) \<and> keeps {c} w (observe c (Callback False) w1)"
proof -
  note ci = tcp_inv_conn [OF inv k] and ch = inv_channel [OF inv k op]
  have oi: "ch_index (channel k) = kAdded" "addedToLoop (channel k)"
    using ci op by (auto simp: conn_inv_def open_inv_def)
  define k1 where "k1 = k\<lparr>conn_state := kDisconnected, channel := (channel k)\<lparr>events := 0, ch_index := kDeleted\<rparr>\<rparr>"
  define w1 where "w1 = w\<lparr>heap := (heap w)(c \<mapsto> k1)\<rparr>"
  have d: "disableAll c (set_conn c (k\<lparr>conn_state := kDisconnected\<rparr>) w) = Inr w1"
    using oi ch by (subst disableAll_open [of _ _ "k\<lparr>conn_state := kDisconnected\<rparr>"])
      (simp_all add: set_conn_def w1_def k1_def)
  have "poller_ok (observe c (Callback False) w1)"
    by (rule poller_ok_upd [of w c k _ k1])
      (use inv k oi in \<open>auto simp: tcp_inv_def w1_def k1_def observe_def kNew_def kAdded_def kDeleted_def\<close>)
  moreover have "table_ok {c} (observe c (Callback False) w1)"
    using inv k op by (auto simp: tcp_inv_def table_ok_def w1_def k1_def observe_def)
  moreover have "names_ok env (observe c (Callback False) w1)"
    using inv k by (auto simp: tcp_inv_def names_ok_def w1_def k1_def observe_def)
  moreover have "gone_ok rest (observe c (Callback False) w1)"
    using inv k by (auto simp: tcp_inv_def gone_ok_def w1_def observe_def)
  moreover have "conn_inv True k1 (proj c rest @ proj c (pendingFunctors w)) (proj c (obs w) @ [Callback False])"
    using ci op unfolding conn_inv_def
    by (auto simp: k1_def open_inv_def closed_inv_def bytes_ok_def shut_ok_snoc is_open_def)
  moreover have "conn_inv False k' (proj c' rest @ proj c' (pendingFunctors w)) (proj c' (obs w))"
    if "heap w c' = Some k'" "c' \<noteq> c" for c' k'
    using tcp_inv_conn [OF inv that(1)] by simp
  ultimately have "tcp_inv env {c} rest (observe c (Callback False) w1)"
    using k by (simp add: tcp_inv_def w1_def observe_def)
  moreover have "keeps {c} w (observe c (Callback False) w1)"
    using k op by (auto simp: keeps_def grows_def w1_def k1_def observe_def)
  ultimately show ?thesis
    using d by (auto simp: w1_def k1_def)
qed

lemma removeConnection_inv:
  assumes inv: "tcp_inv env {c} rest w" and k: "heap w c = Some k"
  shows "\<exists>w'. removeConnection c w = Inr w' \<and> tcp_inv env {} rest w' \<and> heap w' = heap w
     \<and> w' = w\<lparr>connections := connections w', pendingFunctors := pendingFunctors w @ [(c, ConnectDestroyed)]\<rparr>"
proof -
  note ci = tcp_inv_conn [OF inv k]
  define w' where "w' = w\<lparr>connections := omap_erase (conn_name k) (connections w),
     pendingFunctors := pendingFunctors w @ [(c, ConnectDestroyed)]\<rparr>"
  have f: "omap_find (conn_name k) (connections w) = Some c"
    using inv k by (auto simp: tcp_inv_def table_ok_def)
  then have r: "removeConnection c w = Inr w'"
    using k by (simp add: removeConnection_def removeConnectionInLoop_def with_conn_def queueInLoop_def w'_def)
  have "poller_ok w'" using inv by (simp add: tcp_inv_def poller_ok_def w'_def)
  moreover have "table_ok {} w'"
  proof -
    have "\<not> is_open k" using ci by (auto simp: conn_inv_def)
    moreover have "conn_name k1 \<noteq> conn_name k" if "heap w c1 = Some k1" "is_open k1" for c1 k1
    proof
      assume "conn_name k1 = conn_name k"
      with that have "omap_find (conn_name k) (connections w) = Some c1"
        using inv by (auto simp: tcp_inv_def table_ok_def)
      with f that k \<open>\<not> is_open k\<close> show False by simp
    qed
    ultimately show ?thesis
      using inv k f by (auto simp: tcp_inv_def table_ok_def w'_def omap_find_erase)
  qed
  moreover have "names_ok env w'" using inv by (simp add: tcp_inv_def names_ok_def w'_def)
  moreover have "gone_ok rest w'"
    using inv k alive_lt [of rest w c k] by (auto simp: tcp_inv_def gone_ok_def w'_def)
  moreover have "conn_inv False k (proj c rest @ proj c (pendingFunctors w) @ [ConnectDestroyed]) (proj c (obs w))"
    using ci by (auto simp: conn_inv_def closed_inv_def no_send_def dropWhile_append)
  moreover have "conn_inv False k' (proj c' rest @ proj c' (pendingFunctors w)) (proj c' (obs w))"
    if "heap w c' = Some k'" "c' \<noteq> c" for c' k'
    using tcp_inv_conn [OF inv that(1)] that(2) by simp
  ultimately have "tcp_inv env {} rest w'"
    using k by (simp add: tcp_inv_def w'_def)
  with r show ?thesis by (auto simp: w'_def)
qed

lemma handleClose_inv:
  assumes env: "env_ok env" and inv: "tcp_inv env {} rest w" and k: "heap w c = Some k" and op: "is_open k"
  shows "\<exists>w'. handleClose env c w = Inr w' \<and> tcp_inv env {} rest w' \<and> keeps {c} w w'
     \<and> (\<exists>k'. heap w' c = Some k' \<and> \<not> is_open k')"
proof -
  obtain w1 k1 where w1: "disableAll c (set_conn c (k\<lparr>conn_state := kDisconnected\<rparr>) w) = Inr w1"
      "heap w1 c = Some k1" "conn_state k1 = kDisconnected"
      "tcp_inv env {c} rest (observe c (Callback False) w1)" "keeps {c} w (observe c (Callback False) w1)"
    using close_begin_inv [OF inv k op] by blast
  have "observe c (Callback False) (tick w1) = tick (observe c (Callback False) w1)"
    by (simp add: observe_def tick_def)
  then obtain w2 where w2: "call_connectionCallback env c w1 = Inr w2" "tcp_inv env {c} rest w2"
      "keeps {} (observe c (Callback False) w1) w2"
    using run_ops_inv [of env "{c}" rest "tick (observe c (Callback False) w1)" "connectionCallback env (ticks w1) c False"]
      env w1 by (auto simp: call_connectionCallback_def with_conn_def env_ok_def)
  have kw2: "keeps {c} w w2" using w1(5) keeps_mono [OF w2(3)] by (auto intro: keeps_trans)
  obtain k2 where k2: "heap w2 c = Some k2"
    using kw2 k grows_heap unfolding keeps_def by blast
  have closed: "\<not> is_open k2"
    using tcp_inv_conn [OF w2(2) k2] by (auto simp: conn_inv_def)
  obtain w3 where w3: "removeConnection c w2 = Inr w3" "tcp_inv env {} rest w3" "heap w3 = heap w2"
     "w3 = w2\<lparr>connections := connections w3, pendingFunctors := pendingFunctors w2 @ [(c, ConnectDestroyed)]\<rparr>"
    using removeConnection_inv [OF w2(2) k2] by blast
  have "keeps {c} w w3"
    using kw2 op k w3(3) unfolding keeps_def grows_def
    by (subst (1 2 3) w3(4)) (fastforce simp: w3(4) [THEN arg_cong, of pendingFunctors])
  then show ?thesis
    using w1 w2 w3 k2 closed k op
    by (auto simp: handleClose_def with_conn_def is_open_def)
qed

subsection \<open>Functors\<close>

lemma conn_inv_pop: "conn_inv cl k (f # F) E \<Longrightarrow> f \<noteq> ConnectDestroyed \<Longrightarrow> conn_inv cl k F E"
  by (auto simp: conn_inv_def open_inv_def closed_inv_def no_send_def split: if_splits)

lemma gone_ok_pop:
  assumes "gone_ok (p # rest) w"
  shows "gone_ok rest w"
proof -
  have "proj c rest = []" if "proj c (p # rest) = []" for c
    using that by (simp split: if_splits)
  then show ?thesis using assms unfolding gone_ok_def by (metis (no_types, lifting))
qed

lemma gone_ok_upd:
  assumes "gone_ok rest w" and "heap w c = Some k" and "heap w' = (heap w)(c \<mapsto> k')"
    and "pendingFunctors w' = pendingFunctors w" and "obs w' = obs w" and "next_cid w' = next_cid w"
  shows "gone_ok rest w'"
  using assms alive_lt [OF assms(1,2)] by (simp add: gone_ok_def)

lemma tcp_inv_pop:
  assumes "tcp_inv env X ((c, f) # rest) w"
  shows "\<exists>k. heap w c = Some k" and "f \<noteq> ConnectDestroyed \<Longrightarrow> tcp_inv env X rest w"
proof -
  show "\<exists>k. heap w c = Some k"
  proof (cases "heap w c")
    case None
    then have "proj c ((c, f) # rest) = []" using assms unfolding tcp_inv_def gone_ok_def by metis
    then show ?thesis by simp
  qed simp
  assume f: "f \<noteq> ConnectDestroyed"
  have "conn_inv (c' \<in> X) k (proj c' rest @ proj c' (pendingFunctors w)) (proj c' (obs w))"
    if "heap w c' = Some k" for c' k
    using tcp_inv_conn [OF assms that] f by (auto split: if_splits dest: conn_inv_pop)
  moreover have "gone_ok rest w"
    using assms gone_ok_pop by (auto simp: tcp_inv_def)
  ultimately show "tcp_inv env X rest w"
    using assms by (simp add: tcp_inv_def)
qed

lemma connectDestroyed_inv:
  assumes inv: "tcp_inv env {} ((c, ConnectDestroyed) # rest) w" and "\<not> eventHandling w"
  shows "\<exists>w'. connectDestroyed env c w = Inr w' \<and> tcp_inv env {} rest w' \<and> keeps {} w w'"
proof -
  obtain k where k: "heap w c = Some k" using tcp_inv_pop(1) [OF inv] by blast
  have ci: "conn_inv False k (ConnectDestroyed # proj c rest @ proj c (pendingFunctors w)) (proj c (obs w))"
    using tcp_inv_conn [OF inv k] by simp
  then have st: "conn_state k = kDisconnected" "\<not> is_open k" "events (channel k) = 0" "ch_index (channel k) = kDeleted"
    by (auto simp: conn_inv_def open_inv_def closed_inv_def split: if_splits)
  then have ch: "channels w (conn_fd k) = Some c"
    using inv k by (auto simp: tcp_inv_def poller_ok_def kDeleted_def kNew_def)
  define k' where "k' = k\<lparr>channel := (channel k)\<lparr>addedToLoop := False, ch_index := kNew\<rparr>\<rparr>"
  define w' where "w' = w\<lparr>heap := (heap w)(c \<mapsto> k'), channels := (channels w)(conn_fd k := None)\<rparr>"
  have r: "connectDestroyed env c w = Inr w'"
    using k st ch assms(2)
    by (cases w) (simp add: connectDestroyed_def chan_remove_def removeChannel_def poller_removeChannel_def
        with_conn_def set_conn_def isNoneEvent_def kNoneEvent_def w'_def k'_def)
  have other: "c1 = c" if "heap w c1 = Some k1" "conn_fd k1 = conn_fd k" for c1 k1
    using inv k that unfolding tcp_inv_def poller_ok_def by metis
  have "poller_ok w'"
  proof -
    have "channels w fd = Some c0 \<longleftrightarrow> (\<exists>k. heap w c0 = Some k \<and> conn_fd k = fd \<and> ch_index (channel k) \<noteq> kNew)" for fd c0
      using inv by (simp add: tcp_inv_def poller_ok_def)
    then have "channels w' fd = Some c0 \<longleftrightarrow>
        (\<exists>k. heap w' c0 = Some k \<and> conn_fd k = fd \<and> ch_index (channel k) \<noteq> kNew)" for fd c0
      using other [of c0] k by (cases "c0 = c") (auto simp: w'_def k'_def)
    moreover have "c1 = c2" if "heap w' c1 = Some k1" "heap w' c2 = Some k2" "conn_fd k1 = conn_fd k2" for c1 c2 k1 k2
    proof -
      have "\<exists>k1'. heap w c1 = Some k1' \<and> conn_fd k1' = conn_fd k1"
        and "\<exists>k2'. heap w c2 = Some k2' \<and> conn_fd k2' = conn_fd k2"
        using that(1,2) k by (auto simp: w'_def k'_def split: if_splits)
      with that(3) show ?thesis
        using inv unfolding tcp_inv_def poller_ok_def by metis
    qed
    ultimately show ?thesis
      unfolding poller_ok_def by blast
  qed
  moreover have "table_ok {} w'"
    by (rule table_ok_upd [of _ w c k _ k']) (use inv k in \<open>auto simp: tcp_inv_def w'_def k'_def\<close>)
  moreover have "names_ok env w'"
    using inv k by (auto simp: tcp_inv_def names_ok_def w'_def k'_def)
  moreover have "gone_ok rest w'"
    by (rule gone_ok_upd [of _ w c k _ k'])
      (use inv k gone_ok_pop in \<open>auto simp: tcp_inv_def w'_def\<close>)
  moreover have "conn_inv False k' (proj c rest @ proj c (pendingFunctors w)) (proj c (obs w))"
    using ci st by (auto simp: conn_inv_def closed_inv_def k'_def no_send_def bytes_ok_def count_list_0_iff split: if_splits)
  moreover have "conn_inv False k1 (proj c1 rest @ proj c1 (pendingFunctors w)) (proj c1 (obs w))"
    if "heap w c1 = Some k1" "c1 \<noteq> c" for c1 k1
    using tcp_inv_conn [OF inv that(1)] that(2) by simp
  ultimately have "tcp_inv env {} rest w'"
    by (simp add: tcp_inv_def w'_def)
  moreover have "keeps {} w w'"
    using k st by (auto simp: keeps_def grows_def w'_def k'_def)
  ultimately show ?thesis using r by blast
qed

lemma forceCloseInLoop_inv:
  assumes "env_ok env" and "tcp_inv env {} rest w" and "heap w c = Some k"
  shows "\<exists>w'. forceCloseInLoop env c w = Inr w' \<and> tcp_inv env {} rest w' \<and> keeps {c} w w'
     \<and> (\<exists>k'. heap w' c = Some k' \<and> \<not> is_open k')"
  using handleClose_inv [OF assms] assms(2,3)
  by (cases "is_open k") (auto simp: forceCloseInLoop_def with_conn_def is_open_def)

lemma run_functor_inv:
  assumes env: "env_ok env" and inv: "tcp_inv env {} ((c, f) # rest) w" and "\<not> eventHandling w"
  shows "\<exists>w'. run_functor env c f w = Inr w' \<and> tcp_inv env {} rest w' \<and> keeps {c} w w'
     \<and> (f = ForceCloseInLoop \<longrightarrow> (\<exists>k'. heap w' c = Some k' \<and> \<not> is_open k'))"
proof -
  obtain k where k: "heap w c = Some k" using tcp_inv_pop(1) [OF inv] by blast
  have f: "f \<notin> {ShutdownInLoop, StartReadInLoop, StopReadInLoop}"
    using tcp_inv_conn [OF inv k] by (auto simp: conn_inv_def)
  have wok: "write_ok env" using env by (simp add: env_ok_def)
  show ?thesis
  proof (cases "f = ConnectDestroyed")
    case True
    then show ?thesis
      using connectDestroyed_inv [of env c rest w] inv assms(3) by (auto intro: keeps_mono)
  next
    case False
    note inv' = tcp_inv_pop(2) [OF inv False]
    have ops: "\<exists>w'. run_ops env us (tick w) = Inr w' \<and> tcp_inv env {} rest w' \<and> keeps {c} w w'"
      if "list_all op_ok us" for us
      using run_ops_inv [OF wok, of "{}" rest "tick w" us] inv' that by (auto intro: keeps_mono)
    show ?thesis
    proof (cases f)
      case (SendInLoop d)
      then show ?thesis
        using local_ok_inv [OF inv' k sendInLoop_local [OF wok k inv_channel [OF inv' k] tcp_inv_conn [OF inv' k]], of d]
        by (auto intro: keeps_mono)
    next
      case ForceCloseInLoop
      then show ?thesis using forceCloseInLoop_inv [OF env inv' k] by auto
    next
      case WriteComplete
      then show ?thesis
        using ops env inv' by (auto simp: env_ok_def split: option.splits)
    next
      case (HighWaterMark n)
      then show ?thesis
        using ops env inv' by (auto simp: env_ok_def split: option.splits)
    qed (use f False in auto)
  qed
qed

lemma run_functors_inv:
  assumes env: "env_ok env" and "tcp_inv env {} fs w" and "\<not> eventHandling w"
  shows "\<exists>w'. run_functors env fs w = Inr w' \<and> tcp_inv env {} [] w' \<and> keeps UNIV w w'
     \<and> (\<forall>c. (c, ForceCloseInLoop) \<in> set fs \<longrightarrow> (\<exists>k'. heap w' c = Some k' \<and> \<not> is_open k'))"
  using assms(2,3)
proof (induction fs arbitrary: w)
  case Nil
  then show ?case by simp
next
  case (Cons p fs)
  obtain c f where p: "p = (c, f)" by (cases p)
  obtain w1 where w1: "run_functor env c f w = Inr w1" "tcp_inv env {} fs w1" "keeps UNIV w w1"
      "f = ForceCloseInLoop \<Longrightarrow> \<exists>k'. heap w1 c = Some k' \<and> \<not> is_open k'"
    using run_functor_inv [OF env, of c f fs w] Cons.prems by (auto simp: p intro: keeps_mono)
  moreover have "\<not> eventHandling w1"
    using w1(3) Cons.prems(2) by (simp add: keeps_def grows_def)
  ultimately obtain w2 where w2: "run_functors env fs w1 = Inr w2" "tcp_inv env {} [] w2" "keeps UNIV w1 w2"
      "\<forall>c. (c, ForceCloseInLoop) \<in> set fs \<longrightarrow> (\<exists>k'. heap w2 c = Some k' \<and> \<not> is_open k')"
    using Cons.IH by blast
  have "\<exists>k'. heap w2 c = Some k' \<and> \<not> is_open k'" if "f = ForceCloseInLoop"
    using w1(4) [OF that] grows_closed [OF keeps_grows [OF w2(3)]] by blast
  then show ?case
    using w1 w2 by (auto simp: p intro: keeps_trans)
qed

lemma doPendingFunctors_inv:
  assumes "env_ok env" and "tcp_inv env {} [] w" and "\<not> eventHandling w"
  shows "\<exists>w'. doPendingFunctors env w = Inr w' \<and> tcp_inv env {} [] w' \<and> keeps UNIV (w\<lparr>pendingFunctors := []\<rparr>) w'
     \<and> (\<forall>c. (c, ForceCloseInLoop) \<in> set (pendingFunctors w) \<longrightarrow> (\<exists>k'. heap w' c = Some k' \<and> \<not> is_open k'))"
proof -
  define w0 where "w0 = w\<lparr>pendingFunctors := []\<rparr>"
  have "tcp_inv env {} (pendingFunctors w) w0"
    using assms(2) by (simp add: tcp_inv_def poller_ok_def table_ok_def names_ok_def gone_ok_def w0_def)
  moreover have "\<not> eventHandling w0" using assms(3) by (simp add: w0_def)
  ultimately show ?thesis
    using run_functors_inv [OF assms(1)] by (simp add: doPendingFunctors_def w0_def)
qed

subsection \<open>New connections\<close>

lemma connName_inject:
  assumes "length (ipPort env) \<le> 51" and "1 \<le> i" and "i < 2 ^ 31" and "1 \<le> j" and "j < 2 ^ 31"
  shows "connName env i = connName env j \<longleftrightarrow> i = j"
proof -
  have digits: "length (show_int l) \<le> 10" if "1 \<le> l" "l < 2 ^ 31" for l :: int
    using that length_dec_digits [of "nat l" 9] by (simp add: show_int_def)
  have "length (c_string (ipPort env)) \<le> 51"
    using assms(1) length_takeWhile_le [of _ "ipPort env"] unfolding c_string_def by (rule order_trans [rotated])
  then have "connName env l = server_name env @ lit ''-'' @ c_string (ipPort env) @ lit ''#'' @ show_int l"
    if "1 \<le> l" "l < 2 ^ 31" for l
    using digits [OF that] by (simp add: connName_def lit_def)
  then show ?thesis using assms by (simp add: show_int_inject)
qed

lemma connectEstablished_new:
  assumes "heap w c = Some (new_TcpConnection name fd)" and "channels w fd = None"
  shows "connectEstablished env c w = call_connectionCallback env c
     (w\<lparr>heap := (heap w)(c \<mapsto> (new_TcpConnection name fd)\<lparr>conn_state := kConnected,
           channel := \<lparr>events = 3, ch_index = kAdded, addedToLoop = True\<rparr>\<rparr>),
        channels := (channels w)(fd \<mapsto> c)\<rparr>)"
  using assms
  by (cases w) (simp add: connectEstablished_def enableReading_def set_events_def chan_update_def updateChannel_def
      with_conn_def set_conn_def new_TcpConnection_def new_Channel_def event_defs)

lemma poller_ok_new:
  assumes "poller_ok w" and "heap w c = None" and "heap w' = (heap w)(c \<mapsto> k)"
    and "channels w' = (channels w)(conn_fd k \<mapsto> c)" and "ch_index (channel k) \<noteq> kNew"
    and fresh: "\<And>c' k'. heap w c' = Some k' \<Longrightarrow> conn_fd k' \<noteq> conn_fd k"
  shows "poller_ok w'"
  unfolding poller_ok_def
proof (intro conjI allI impI)
  fix f c0
  have "channels w f = Some c0 \<longleftrightarrow> (\<exists>k. heap w c0 = Some k \<and> conn_fd k = f \<and> ch_index (channel k) \<noteq> kNew)"
    using assms(1) by (simp add: poller_ok_def)
  then show "channels w' f = Some c0 \<longleftrightarrow>
      (\<exists>k. heap w' c0 = Some k \<and> conn_fd k = f \<and> ch_index (channel k) \<noteq> kNew)"
    using assms(2-5) fresh by (cases "c0 = c") auto
next
  fix c1 c2 k1 k2
  assume h: "heap w' c1 = Some k1" "heap w' c2 = Some k2" "conn_fd k1 = conn_fd k2"
  show "c1 = c2"
  proof (cases "c1 = c \<or> c2 = c")
    case True
    then show ?thesis
      using h assms(3) fresh [of c1 k1] fresh [of c2 k2] by (auto split: if_splits)
  next
    case False
    then have "heap w c1 = Some k1" "heap w c2 = Some k2" using h assms(3) by auto
    then show ?thesis using assms(1) h(3) unfolding poller_ok_def by metis
  qed
qed

lemma table_ok_new:
  assumes "table_ok {} w" and "heap w c = None" and "heap w' = (heap w)(c \<mapsto> k)"
    and "connections w' = omap_assign (conn_name k) c (connections w)" and "is_open k"
    and fresh: "\<And>c' k'. heap w c' = Some k' \<Longrightarrow> conn_name k' \<noteq> conn_name k"
  shows "table_ok {} w'"
proof -
  have old: "omap_find n (connections w) = Some c0 \<longleftrightarrow> (\<exists>k. heap w c0 = Some k \<and> conn_name k = n \<and> is_open k)" for n c0
    using assms(1) by (simp add: table_ok_def)
  have "omap_find n (connections w') = Some c0 \<longleftrightarrow> (\<exists>k. heap w' c0 = Some k \<and> conn_name k = n \<and> is_open k)" for n c0
    using old [of n c0] assms(2-5) fresh by (cases "c0 = c") (auto simp: omap_find_assign)
  then show ?thesis using assms(1,4) by (simp add: table_ok_def)
qed

lemma names_ok_new:
  assumes "names_ok env w" and "nextConnId w < 2 ^ 31 - 1" and "heap w' = (heap w)(c \<mapsto> k)"
    and "conn_name k = connName env (nextConnId w)" and "nextConnId w' = nextConnId w + 1"
  shows "names_ok env w'"
proof -
  have pos: "1 \<le> nextConnId w" using assms(1) by (simp add: names_ok_def)
  have "\<exists>i. 1 \<le> i \<and> i < nextConnId w + 1 \<and> conn_name k1 = connName env i" if h: "heap w' c1 = Some k1" for c1 k1
  proof (cases "c1 = c")
    case True
    then show ?thesis using h assms(3,4) pos by (intro exI [of _ "nextConnId w"]) auto
  next
    case False
    then obtain i where "1 \<le> i" "i < nextConnId w" "conn_name k1 = connName env i"
      using assms(1,3) h unfolding names_ok_def by auto
    then show ?thesis by (intro exI [of _ i]) simp
  qed
  then show ?thesis using assms(2,5) pos by (simp add: names_ok_def)
qed

lemma connName_fresh:
  assumes "env_ok env" and "names_ok env w" and "heap w c = Some k"
  shows "conn_name k \<noteq> connName env (nextConnId w)"
proof -
  obtain i where "1 \<le> i" "i < nextConnId w" "conn_name k = connName env i"
    using assms(2,3) unfolding names_ok_def by blast
  then show ?thesis
    using connName_inject [of env i "nextConnId w"] assms(1,2) by (auto simp: names_ok_def env_ok_def)
qed

lemma newConnection_inv:
  assumes env: "env_ok env" and inv: "tcp_inv env {} rest w"
    and fresh: "\<And>c k. heap w c = Some k \<Longrightarrow> conn_fd k \<noteq> fd" and id: "nextConnId w < 2 ^ 31 - 1"
  shows "\<exists>w'. newConnection env fd w = Inr w' \<and> tcp_inv env {} rest w' \<and> grows {} w w'"
proof -
  define c where "c = next_cid w"
  define name where "name = connName env (nextConnId w)"
  define k where "k = (new_TcpConnection name fd)\<lparr>conn_state := kConnected,
           channel := \<lparr>events = 3, ch_index = kAdded, addedToLoop = True\<rparr>\<rparr>"
  define w1 where "w1 = w\<lparr>nextConnId := nextConnId w + 1, next_cid := Suc c, heap := (heap w)(c \<mapsto> k),
     connections := omap_assign name c (connections w), channels := (channels w)(fd \<mapsto> c)\<rparr>"
  define w2 where "w2 = observe c (Callback True) w1"
  note defs = w2_def w1_def observe_def
  have k: "conn_name k = name" "conn_fd k = fd" "is_open k" "ch_index (channel k) \<noteq> kNew"
    by (simp_all add: k_def new_TcpConnection_def is_open_def kAdded_def kNew_def)
  have c: "heap w c = None" "proj c rest = []" "proj c (pendingFunctors w) = []" "proj c (obs w) = []"
    using inv unfolding tcp_inv_def gone_ok_def c_def by (metis le_refl less_irrefl)+
  have w: "poller_ok w" "table_ok {} w" "names_ok env w" "gone_ok rest w" using inv by (simp_all add: tcp_inv_def)
  have new: "newConnection env fd w = call_connectionCallback env c w1"
  proof -
    have chan: "channels w fd = None"
      using inv fresh by (cases "channels w fd") (auto simp: tcp_inv_def poller_ok_def)
    have wrap: "wrap32 (nextConnId w + 1) = nextConnId w + 1"
      using id w(3) by (simp add: is_int32_def names_ok_def)
    define w0 where "w0 = w\<lparr>nextConnId := nextConnId w + 1, next_cid := Suc c,
      heap := (heap w)(c \<mapsto> new_TcpConnection name fd), connections := omap_assign name c (connections w)\<rparr>"
    have "newConnection env fd w = connectEstablished env c w0"
      unfolding newConnection_def Let_def wrap by (simp add: w0_def c_def name_def)
    also have "\<dots> = call_connectionCallback env c (w0\<lparr>heap := (heap w0)(c \<mapsto> k), channels := (channels w0)(fd \<mapsto> c)\<rparr>)"
      unfolding k_def by (rule connectEstablished_new) (simp_all add: w0_def chan)
    also have "w0\<lparr>heap := (heap w0)(c \<mapsto> k), channels := (channels w0)(fd \<mapsto> c)\<rparr> = w1"
      by (simp add: w0_def w1_def)
    finally show ?thesis .
  qed
  have "poller_ok w2"
    by (rule poller_ok_new [OF w(1) c(1), where k = k]) (use fresh k in \<open>auto simp: defs\<close>)
  moreover have "table_ok {} w2"
    by (rule table_ok_new [OF w(2) c(1), where k = k]) (use k connName_fresh [OF env w(3)] in \<open>auto simp: defs name_def\<close>)
  moreover have "names_ok env w2"
    by (rule names_ok_new [OF w(3) id, where k = k]) (use k in \<open>auto simp: defs name_def\<close>)
  moreover have "gone_ok rest w2"
    using inv c by (auto simp: tcp_inv_def gone_ok_def defs c_def less_Suc_eq)
  moreover have "conn_inv False k [] [Callback True]"
    by (auto simp: conn_inv_def k_def new_TcpConnection_def is_open_def open_inv_def bytes_ok_def shut_ok_def
        Cons_eq_append_conv)
  moreover have "conn_inv False k1 (proj c1 rest @ proj c1 (pendingFunctors w)) (proj c1 (obs w))"
    if "heap w c1 = Some k1" for c1 k1
    using tcp_inv_conn [OF inv that] by simp
  ultimately have inv2: "tcp_inv env {} rest w2"
    using c by (simp add: tcp_inv_def defs)
  have g: "grows {} w w2"
    using c(1) by (auto simp: grows_def defs)
  have "observe c (Callback True) (tick w1) = tick w2"
    by (simp add: observe_def tick_def w2_def)
  then obtain w3 where "newConnection env fd w = Inr w3" "tcp_inv env {} rest w3" "keeps {} w2 w3"
    using run_ops_inv [of env "{}" rest "tick w2" "connectionCallback env (ticks w1) c True"] env inv2
    by (auto simp: new call_connectionCallback_def with_conn_def env_ok_def w1_def k_def)
  then show ?thesis
    using grows_trans [OF g keeps_grows] by blast
qed

end
