(* ===== verification/Tcp_Safety.thy ===== *)
theory Tcp_Safety
  imports Tcp_Invariant
begin

unbundle bit_operations_syntax

section \<open>Runs of a server\<close>

text \<open>
  Every event the kernel may report, every iteration of the loop and every call from outside keeps the invariant
  of \<open>Tcp_Invariant\<close>; hence no assertion fails in any run. What follows for the bytes, the callbacks and the
  closing of connections.
\<close>

subsection \<open>Events of a connection\<close>

lemma handleWrite_inv:
  assumes "write_ok env" and "tcp_inv env {} rest w" and "heap w c = Some k"
  shows "\<exists>w'. handleWrite env c w = Inr w' \<and> tcp_inv env {} rest w' \<and> keeps {} w w'"
  using local_ok_inv [OF assms(2,3) handleWrite_local
      [OF assms(1,3) inv_channel [OF assms(2,3)] tcp_inv_conn [OF assms(2,3)]]] .

lemma set_inputBuffer_inv:
  assumes inv: "tcp_inv env {} rest w" and k: "heap w c = Some k" and "buf_ok b" and "os = [] \<or> os = [Message]"
  defines "w' \<equiv> w\<lparr>heap := (heap w)(c \<mapsto> k\<lparr>inputBuffer := b\<rparr>), obs := obs w @ map (Pair c) os\<rparr>"
  shows "tcp_inv env {} rest w'" and "keeps {} w w'"
proof -
  have l: "local_step c (k\<lparr>inputBuffer := b\<rparr>) [] os w w'"
    by (simp add: local_step_def w'_def)
  have same: "same_conn k (k\<lparr>inputBuffer := b\<rparr>)" by (simp add: same_conn_def)
  have "conn_inv False (k\<lparr>inputBuffer := b\<rparr>) (proj c rest @ proj c (pendingFunctors w)) (proj c (obs w) @ os)"
    using tcp_inv_conn [OF inv k] assms(3,4)
    by (auto simp: conn_inv_def open_inv_def closed_inv_def bytes_ok_def shut_ok_snoc split: if_splits)
  then show "tcp_inv env {} rest w'"
    using local_step_inv [OF inv k l same] by simp
  show "keeps {} w w'"
    using local_step_keeps [OF k l same] by simp
qed

lemma call_messageCallback_inv:
  assumes env: "env_ok env" and inv: "tcp_inv env {} rest w" and k: "heap w c = Some k"
  shows "\<exists>w'. call_messageCallback env c w = Inr w' \<and> tcp_inv env {} rest w' \<and> keeps {} w w'"
proof -
  obtain buf us where cb: "messageCallback env (ticks w) c (inputBuffer k) = (buf, us)"
    by (cases "messageCallback env (ticks w) c (inputBuffer k)")
  have buf: "buf_ok buf" and us: "list_all op_ok us"
    using env cb tcp_inv_conn [OF inv k] unfolding env_ok_def conn_inv_def by (metis fst_conv snd_conv)+
  define w1 where "w1 = w\<lparr>heap := (heap w)(c \<mapsto> k\<lparr>inputBuffer := buf\<rparr>), obs := obs w @ map (Pair c) [Message]\<rparr>"
  have "tcp_inv env {} rest w1" and k1: "keeps {} w w1"
    using set_inputBuffer_inv [OF inv k buf, of "[Message]"] by (simp_all add: w1_def)
  then obtain w2 where w2: "run_ops env us (tick w1) = Inr w2" "tcp_inv env {} rest w2" "keeps {} w1 w2"
    using run_ops_inv [of env "{}" rest "tick w1" us] env us by (auto simp: env_ok_def)
  moreover have "call_messageCallback env c w = run_ops env us (tick w1)"
    using k cb by (cases w) (simp add: call_messageCallback_def state_defs w1_def)
  ultimately show ?thesis
    using keeps_trans [OF k1] by auto
qed

lemma readFd_cases:
  assumes "env_ok env" and "buf_ok b"
  shows "\<exists>b' r. readFd (sys_readv env t fd) b = Inr (b', r) \<and> buf_ok b'"
proof (cases "sys_readv env t fd (readv_room b)")
  case (Inl e)
  then show ?thesis using assms(2) by (simp add: readFd_def)
next
  case (Inr d)
  then have "length d \<le> readv_room b" using assms(1) by (auto simp: env_ok_def)
  then show ?thesis
    using readFd_spec [of b "sys_readv env t fd" d] assms(2) Inr by blast
qed

lemma handleRead_inv:
  assumes env: "env_ok env" and inv: "tcp_inv env {} rest w" and k: "heap w c = Some k" and op: "is_open k"
  shows "\<exists>w'. handleRead env c w = Inr w' \<and> tcp_inv env {} rest w' \<and> keeps {c} w w'"
proof -
  have "buf_ok (inputBuffer k)" using tcp_inv_conn [OF inv k] by (simp add: conn_inv_def)
  then obtain b r where rd: "readFd (sys_readv env (ticks w) (conn_fd k)) (inputBuffer k) = Inr (b, r)" "buf_ok b"
    using readFd_cases [OF env] by blast
  define w1 where "w1 = w\<lparr>heap := (heap w)(c \<mapsto> k\<lparr>inputBuffer := b\<rparr>)\<rparr>"
  have w1: "tcp_inv env {} rest (tick w1)" "keeps {c} w (tick w1)"
    using set_inputBuffer_inv [OF inv k rd(2), of "[]"] by (auto simp: w1_def intro: keeps_mono)
  have k1: "heap (tick w1) c = Some (k\<lparr>inputBuffer := b\<rparr>)" by (simp add: tick_def w1_def)
  have h: "handleRead env c w = (case r of
            Inr n \<Rightarrow> if n > 0 then call_messageCallback env c (tick w1) else handleClose env c (tick w1)
          | Inl savedErrno \<Rightarrow> handleError (tick w1))"
    using k rd by (simp add: handleRead_def with_conn_def set_conn_def w1_def Let_def split: sum.split)
  obtain w2 where "handleRead env c w = Inr w2" "tcp_inv env {} rest w2" "keeps {c} (tick w1) w2"
  proof (cases r)
    case (Inl e)
    then show thesis using that w1 by (simp add: h handleError_def)
  next
    case (Inr n)
    then show thesis
      using that call_messageCallback_inv [OF env w1(1) k1] handleClose_inv [OF env w1(1) k1] op
      by (cases "n > 0") (auto simp: h intro: keeps_mono)
  qed
  then show ?thesis using keeps_trans [OF w1(2)] by blast
qed

text \<open>\<open>handleClose\<close> and then \<open>handleRead\<close> for the same event would fail; hence the hypothesis that
  \<open>poll\<close> does not report a hangup with urgent data but without \<open>POLLIN\<close>.\<close>

definition revents_ok :: "32 word \<Rightarrow> bool" where
  "revents_ok revents \<longleftrightarrow>
     (revents AND POLLHUP \<noteq> 0 \<and> revents AND POLLIN = 0 \<longrightarrow> revents AND (POLLIN OR POLLPRI OR POLLRDHUP) = 0)"

lemma handleEvent_inv:
  assumes env: "env_ok env" and inv: "tcp_inv env {} rest w" and k: "heap w c = Some k" and op: "is_open k"
    and rev: "revents_ok revents"
  shows "\<exists>w'. handleEvent env c revents w = Inr w' \<and> tcp_inv env {} rest w' \<and> keeps {c} w w'"
proof -
  have wok: "write_ok env" using env by (simp add: env_ok_def)
  define hup where "hup \<longleftrightarrow> revents AND POLLHUP \<noteq> 0 \<and> revents AND POLLIN = 0"
  define rd where "rd \<longleftrightarrow> revents AND (POLLIN OR POLLPRI OR POLLRDHUP) \<noteq> 0"
  have one: "\<exists>w1. bind_result (on_event hup (handleClose env c) w) (on_event rd (handleRead env c)) = Inr w1
      \<and> tcp_inv env {} rest w1 \<and> keeps {c} w w1"
  proof (cases hup)
    case True
    then have "\<not> rd" using rev by (auto simp: revents_ok_def hup_def rd_def)
    then show ?thesis
      using handleClose_inv [OF env inv k op] True by (auto simp: on_event_def)
  next
    case False
    then show ?thesis
      using handleRead_inv [OF env inv k op] inv by (auto simp: on_event_def)
  qed
  then obtain w1 where w1: "bind_result (on_event hup (handleClose env c) w) (on_event rd (handleRead env c)) = Inr w1"
      "tcp_inv env {} rest w1" "keeps {c} w w1"
    by blast
  obtain k1 where k1: "heap w1 c = Some k1" using grows_heap [OF keeps_grows [OF w1(3)] k] by blast
  have "\<exists>w2. on_event b (handleWrite env c) w1 = Inr w2 \<and> tcp_inv env {} rest w2 \<and> keeps {c} w1 w2" for b
    using handleWrite_inv [OF wok w1(2) k1] w1(2) keeps_mono [of "{}" w1 _ "{c}"] by (cases b) (auto simp: on_event_def)
  then obtain w2 where w2: "on_event (revents AND POLLOUT \<noteq> 0) (handleWrite env c) w1 = Inr w2"
      "tcp_inv env {} rest w2" "keeps {c} w1 w2"
    by blast
  have err: "on_event b handleError w' = Inr w'" for b w'
    by (simp add: on_event_def handleError_def)
  have "handleEvent env c revents w =
      bind_result (bind_result (on_event hup (handleClose env c) w) (on_event rd (handleRead env c)))
        (on_event (revents AND POLLOUT \<noteq> 0) (handleWrite env c))"
    using k by (simp add: handleEvent_def handleEventWithGuard_def bind_result_assoc err hup_def rd_def)
  then show ?thesis
    using w1 w2 keeps_trans by auto
qed

subsection \<open>Iterations of the loop\<close>

text \<open>
  What the kernel promises: events are reported for registered descriptors only, and only those asked for,
  errors and hangups apart; \<open>accept\<close> returns a descriptor that is not in use. Two conditions are no promises but limits of what is
  shown. A hangup with urgent data but without \<open>POLLIN\<close> is left out (\<open>hangup_with_urgent_asserts\<close> shows what then happens),
  and the number of connections, an \<open>int\<close>, does not overflow.
\<close>

fun event_ok :: "TcpServer \<Rightarrow> loop_event \<Rightarrow> bool" where
  "event_ok w (Ready c revents) =
     (case heap w c of
        None \<Rightarrow> False
      | Some k \<Rightarrow> ch_index (channel k) = kAdded
          \<and> revents AND NOT (events (channel k) OR POLLERR OR POLLHUP) = 0
          \<and> (revents AND POLLHUP \<noteq> 0 \<and> revents AND POLLIN = 0 \<longrightarrow> revents AND POLLPRI = 0))"
| "event_ok w (Accept None) = True"
| "event_ok w (Accept (Some connfd)) =
     ((\<forall>c k. heap w c = Some k \<longrightarrow> conn_fd k \<noteq> connfd) \<and> nextConnId w < 2 ^ 31 - 1)"
| "event_ok w (Timers cs) = (set cs \<subseteq> set (delayed w))"

fun is_Accept :: "loop_event \<Rightarrow> bool" where
  "is_Accept (Accept r) = True"
| "is_Accept _ = False"

definition poll_ok :: "TcpServer \<Rightarrow> loop_event list \<Rightarrow> bool" where
  "poll_ok w es \<longleftrightarrow> list_all (event_ok w) es \<and> distinct (ready_conns es) \<and> length (filter is_Accept es) \<le> 1"

text \<open>What is left of the promise while the events are handled one after the other.\<close>

fun event_now :: "TcpServer \<Rightarrow> loop_event \<Rightarrow> bool" where
  "event_now w (Ready c revents) = ((\<exists>k. heap w c = Some k \<and> is_open k) \<and> revents_ok revents)"
| "event_now w (Accept (Some connfd)) =
     ((\<forall>c k. heap w c = Some k \<longrightarrow> conn_fd k \<noteq> connfd) \<and> nextConnId w < 2 ^ 31 - 1)"
| "event_now w _ = True"

lemma masked_out:
  assumes "revents AND NOT m = 0" and "m AND x = 0"
  shows "revents AND x = (0 :: 32 word)"
proof (rule bit_word_eqI)
  fix n assume "n < LENGTH(32)"
  then show "bit (revents AND x) n = bit (0 :: 32 word) n"
    using assms [THEN arg_cong, of "\<lambda>u. bit u n"] by (auto simp: bit_and_iff bit_not_iff)
qed

lemma event_ok_now:
  assumes inv: "tcp_inv env {} rest w" and "event_ok w e"
  shows "event_now w e"
proof (cases e)
  case (Ready c revents)
  with assms obtain k where k: "heap w c = Some k" "ch_index (channel k) = kAdded"
      "revents AND NOT (events (channel k) OR POLLERR OR POLLHUP) = 0"
      "revents AND POLLHUP \<noteq> 0 \<and> revents AND POLLIN = 0 \<longrightarrow> revents AND POLLPRI = 0"
    by (auto split: option.splits)
  have ci: "conn_inv False k (proj c rest @ proj c (pendingFunctors w)) (proj c (obs w))"
    using tcp_inv_conn [OF inv k(1)] by simp
  then have op: "is_open k"
    using k(2) by (auto simp: conn_inv_def closed_inv_def kAdded_def kDeleted_def kNew_def split: if_splits)
  then have "events (channel k) = 3 \<or> events (channel k) = 7"
    using ci by (auto simp: conn_inv_def open_inv_def)
  then have "revents AND POLLRDHUP = 0"
    by (intro masked_out [OF k(3)]) (auto simp: POLLERR_def POLLHUP_def POLLRDHUP_def)
  then have "revents_ok revents"
    using k(4) by (auto simp: revents_ok_def bit.conj_disj_distrib)
  then show ?thesis using Ready k(1) op by simp
qed (use assms in \<open>auto elim: event_ok.elims\<close>)

lemma event_now_grows:
  assumes "event_now w e" and "grows S w w'" and "\<And>c revents. e = Ready c revents \<Longrightarrow> c \<notin> S" and "\<not> is_Accept e"
  shows "event_now w' e"
  using assms(1,3,4) grows_open [OF assms(2)] by (cases e) auto

lemma event_now_keeps:
  assumes "event_now w e" and "keeps S w w'" and "\<And>c revents. e = Ready c revents \<Longrightarrow> c \<notin> S"
  shows "event_now w' e"
proof (cases e)
  case (Accept r)
  have "\<exists>k0. heap w c = Some k0 \<and> conn_fd k0 = conn_fd k" if h: "heap w' c = Some k" for c k
  proof -
    have "c \<in> dom (heap w')" using h by blast
    then have "c \<in> dom (heap w)" using assms(2) by (simp add: keeps_def)
    then obtain k0 where "heap w c = Some k0" by blast
    then show ?thesis using grows_heap [OF keeps_grows [OF assms(2)]] h by fastforce
  qed
  then show ?thesis
    using Accept assms(1,2) by (cases r) (auto simp: keeps_def)
qed (use event_now_grows [OF assms(1) keeps_grows [OF assms(2)] assms(3)] in simp_all)

lemma fire_timers_inv:
  assumes "tcp_inv env X rest w"
  shows "\<exists>w'. fire_timers cs w = Inr w' \<and> tcp_inv env X rest w' \<and> keeps {} w w'"
  using assms
proof (induction cs arbitrary: w)
  case Nil
  then show ?case by simp
next
  case (Cons c cs)
  define w1 where "w1 = w\<lparr>delayed := remove1 c (delayed w)\<rparr>"
  have inv: "tcp_inv env X rest w1"
    using Cons.prems by (simp add: w1_def tcp_inv_def poller_ok_def table_ok_def names_ok_def gone_ok_def)
  have kw: "keeps {} w w1" by (simp add: keeps_def grows_def w1_def)
  show ?case
  proof (cases "heap w1 c")
    case None
    then show ?thesis
      using Cons.IH [OF inv] keeps_trans [OF kw] by (auto simp: Let_def w1_def)
  next
    case (Some k)
    obtain w2 where w2: "forceClose c w1 = Inr w2" "tcp_inv env X rest w2" "keeps {} w1 w2"
      using local_ok_inv [OF inv Some forceClose_local [OF Some tcp_inv_conn [OF inv Some]]] by blast
    then obtain w3 where "fire_timers cs w2 = Inr w3" "tcp_inv env X rest w3" "keeps {} w2 w3"
      using Cons.IH by blast
    with w2 Some show ?thesis
      using keeps_trans [OF kw] keeps_trans [of "{}" w1 w2 w3] by (auto simp: Let_def w1_def)
  qed
qed

lemma tcp_inv_flags [simp]:
  "tcp_inv env X rest (w\<lparr>currentActiveChannel := x\<rparr>) = tcp_inv env X rest w"
  "tcp_inv env X rest (w\<lparr>activeChannels := y, eventHandling := b\<rparr>) = tcp_inv env X rest w"
  "tcp_inv env X rest (w\<lparr>currentActiveChannel := x, eventHandling := b\<rparr>) = tcp_inv env X rest w"
  by (simp_all add: tcp_inv_def poller_ok_def table_ok_def names_ok_def gone_ok_def)

lemma handle_event_inv:
  assumes env: "env_ok env" and inv: "tcp_inv env {} rest w" and ev: "event_now w e"
  shows "\<exists>w'. handle_event env e w = Inr w' \<and> tcp_inv env {} rest w' \<and> grows (set (ready_conns [e])) w w'
     \<and> (\<not> is_Accept e \<longrightarrow> keeps (set (ready_conns [e])) w w')"
proof -
  have cur: "keeps S (w\<lparr>currentActiveChannel := x\<rparr>) w' = keeps S w w'" "grows S (w\<lparr>currentActiveChannel := x\<rparr>) w' = grows S w w'"
    "keeps S w (w\<lparr>currentActiveChannel := x\<rparr>)" for S w' x
    by (simp_all add: keeps_def grows_def)
  show ?thesis
  proof (cases e)
    case (Ready c revents)
    then obtain k where k: "heap w c = Some k" "is_open k" and rev: "revents_ok revents" using ev by auto
    have "\<exists>w'. handleEvent env c revents (w\<lparr>currentActiveChannel := Some c\<rparr>) = Inr w' \<and> tcp_inv env {} rest w' \<and> keeps {c} w w'"
      using handleEvent_inv [OF env _ _ k(2) rev, of rest "w\<lparr>currentActiveChannel := Some c\<rparr>" c] inv k(1) by (simp add: cur)
    then show ?thesis using Ready keeps_grows by auto
  next
    case (Accept r)
    show ?thesis
    proof (cases r)
      case None
      then show ?thesis using Accept inv by (simp add: keeps_grows cur)
    next
      case (Some fd)
      have "\<exists>w'. newConnection env fd (w\<lparr>currentActiveChannel := None\<rparr>) = Inr w' \<and> tcp_inv env {} rest w' \<and> grows {} w w'"
        using newConnection_inv [OF env, of rest "w\<lparr>currentActiveChannel := None\<rparr>" fd] inv ev Accept Some by (simp add: cur)
      then show ?thesis using Accept Some by auto
    qed
  next
    case (Timers cs)
    then show ?thesis
      using fire_timers_inv [of env "{}" rest "w\<lparr>currentActiveChannel := None\<rparr>" cs] inv keeps_grows by (auto simp: cur)
  qed
qed

lemma set_ready_conns: "c \<in> set (ready_conns es) \<longleftrightarrow> (\<exists>revents. Ready c revents \<in> set es)"
  by (induction es rule: ready_conns.induct) auto

lemma ready_conns_Cons: "ready_conns (e # es) = ready_conns [e] @ ready_conns es"
  by (cases e) simp_all

lemma handle_events_inv:
  assumes env: "env_ok env" and "tcp_inv env {} rest w" and "list_all (event_now w) es"
    and "distinct (ready_conns es)" and "length (filter is_Accept es) \<le> 1"
  shows "\<exists>w'. handle_events env es w = Inr w' \<and> tcp_inv env {} rest w' \<and> grows (set (ready_conns es)) w w'"
  using assms(2-)
proof (induction es arbitrary: w)
  case Nil
  then show ?case by simp
next
  case (Cons e es)
  obtain w1 where w1: "handle_event env e w = Inr w1" "tcp_inv env {} rest w1" "grows (set (ready_conns [e])) w w1"
      "\<not> is_Accept e \<Longrightarrow> keeps (set (ready_conns [e])) w w1"
    using handle_event_inv [OF env Cons.prems(1), of e] Cons.prems(2) by auto
  have "event_now w1 e'" if e': "e' \<in> set es" for e'
  proof -
    have now: "event_now w e'" using Cons.prems(2) e' by (simp add: list_all_iff)
    have S: "c \<notin> set (ready_conns [e])" if "e' = Ready c revents" for c revents
      using Cons.prems(3) e' that ready_conns_Cons [of e es] set_ready_conns [of c es] by auto
    show ?thesis
    proof (cases "is_Accept e")
      case True
      then have "filter is_Accept es = []" using Cons.prems(4) by simp
      then have "\<not> is_Accept e'" using e' by (simp add: filter_empty_conv)
      then show ?thesis using event_now_grows [OF now w1(3) S] by simp
    next
      case False
      then show ?thesis using event_now_keeps [OF now w1(4) S] by simp
    qed
  qed
  then have "list_all (event_now w1) es" by (simp add: list_all_iff)
  moreover have "distinct (ready_conns es)" "length (filter is_Accept es) \<le> 1"
    using Cons.prems(3,4) ready_conns_Cons [of e es] by (auto split: if_splits)
  ultimately obtain w2 where w2: "handle_events env es w1 = Inr w2" "tcp_inv env {} rest w2"
      "grows (set (ready_conns es)) w1 w2"
    using Cons.IH [OF w1(2)] by blast
  have "grows (set (ready_conns (e # es))) w w2"
    using grows_trans [OF grows_mono [OF w1(3)] grows_mono [OF w2(3)], of "set (ready_conns (e # es))"]
      ready_conns_Cons [of e es] by auto
  then show ?case using w1(1) w2(1,2) by simp
qed

definition closed_conn :: "TcpServer \<Rightarrow> cid \<Rightarrow> bool" where
  "closed_conn w c \<longleftrightarrow> (\<exists>k. heap w c = Some k \<and> \<not> is_open k)"

lemma loop_iteration_inv:
  assumes env: "env_ok env" and inv: "tcp_inv env {} [] w" and poll: "poll_ok w es"
  shows "\<exists>w'. loop_iteration env es w = Inr w' \<and> tcp_inv env {} [] w' \<and> \<not> eventHandling w'
     \<and> (\<forall>c. (c, ForceCloseInLoop) \<in> set (pendingFunctors w) \<longrightarrow> closed_conn w' c)
     \<and> (\<forall>c. closed_conn w c \<longrightarrow> closed_conn w' c \<and> ConnectDestroyed \<notin> set (proj c (pendingFunctors w')))"
proof -
  define w0 where "w0 = w\<lparr>activeChannels := ready_conns es, eventHandling := True\<rparr>"
  have inv0: "tcp_inv env {} [] w0" using inv by (simp add: w0_def)
  have "event_now w0 e" if "e \<in> set es" for e
  proof -
    have "event_ok w e" using poll that by (simp add: poll_ok_def list_all_iff)
    then have "event_now w e" by (rule event_ok_now [OF inv])
    then show ?thesis by (cases "(w, e)" rule: event_now.cases) (auto simp: w0_def)
  qed
  then obtain w1 where w1: "handle_events env es w0 = Inr w1" "tcp_inv env {} [] w1" "grows (set (ready_conns es)) w0 w1"
    using handle_events_inv [OF env inv0, of es] poll by (auto simp: poll_ok_def list_all_iff)
  define w2 where "w2 = w1\<lparr>currentActiveChannel := None, eventHandling := False\<rparr>"
  have "tcp_inv env {} [] w2" "\<not> eventHandling w2" using w1(2) by (simp_all add: w2_def)
  then obtain w' where w': "doPendingFunctors env w2 = Inr w'" "tcp_inv env {} [] w'"
      "keeps UNIV (w2\<lparr>pendingFunctors := []\<rparr>) w'"
      "\<forall>c. (c, ForceCloseInLoop) \<in> set (pendingFunctors w2) \<longrightarrow> closed_conn w' c"
    using doPendingFunctors_inv [OF env, of w2] unfolding closed_conn_def by blast
  have "set (pendingFunctors w) \<subseteq> set (pendingFunctors w2)"
    using w1(3) by (auto simp: grows_def w0_def w2_def)
  moreover have "closed_conn w' c \<and> ConnectDestroyed \<notin> set (proj c (pendingFunctors w'))" if cl: "closed_conn w c" for c
  proof -
    obtain k1 where "heap w1 c = Some k1" "\<not> is_open k1"
      using cl grows_closed [OF w1(3), of c] by (auto simp: closed_conn_def w0_def)
    then show ?thesis
      using grows_closed [OF keeps_grows [OF w'(3)], of c k1] by (auto simp: closed_conn_def w2_def)
  qed
  moreover have "\<not> eventHandling w'"
    using w'(3) by (simp add: keeps_def grows_def w2_def)
  ultimately show ?thesis
    using w1(1) w' by (auto simp: loop_iteration_def w0_def w2_def)
qed

subsection \<open>Reachable states\<close>

text \<open>
  A run of the server: iterations of the loop, calls of public member functions in the thread of
  the loop, calls of \<open>send\<close> in other threads during which the loop does nothing, and the destruction of connections
  that nothing refers to any more. (\<open>shutdown\<close> is documented as not thread safe.) \<open>loop_reach\<close> are the runs in which
  only the thread of the loop uses the connections, as in both servers.
\<close>

inductive tcp_reach :: "tcp_env \<Rightarrow> TcpServer \<Rightarrow> bool" for env where
  start: "tcp_reach env init_TcpServer"
| iteration: "tcp_reach env w \<Longrightarrow> poll_ok w es \<Longrightarrow> loop_iteration env es w = Inr w' \<Longrightarrow> tcp_reach env w'"
| call: "tcp_reach env w \<Longrightarrow> op_ok u \<Longrightarrow> call_op env u w = Inr w' \<Longrightarrow> tcp_reach env w'"
| other_thread: "tcp_reach env w \<Longrightarrow> tcp_send env False c d w = Inr w' \<Longrightarrow> tcp_reach env w'"
| destroy: "tcp_reach env w \<Longrightarrow> unreferenced c w \<Longrightarrow> destroy_TcpConnection c w = Inr w' \<Longrightarrow> tcp_reach env w'"

inductive loop_reach :: "tcp_env \<Rightarrow> TcpServer \<Rightarrow> bool" for env where
  start: "loop_reach env init_TcpServer"
| iteration: "loop_reach env w \<Longrightarrow> poll_ok w es \<Longrightarrow> loop_iteration env es w = Inr w' \<Longrightarrow> loop_reach env w'"
| call: "loop_reach env w \<Longrightarrow> op_ok u \<Longrightarrow> call_op env u w = Inr w' \<Longrightarrow> loop_reach env w'"
| destroy: "loop_reach env w \<Longrightarrow> unreferenced c w \<Longrightarrow> destroy_TcpConnection c w = Inr w' \<Longrightarrow> loop_reach env w'"

lemma loop_reach_tcp_reach: "loop_reach env w \<Longrightarrow> tcp_reach env w"
  by (induction rule: loop_reach.induct) (auto intro: tcp_reach.intros)

lemma init_inv: "tcp_inv env {} [] init_TcpServer"
  by (simp add: tcp_inv_def poller_ok_def table_ok_def names_ok_def gone_ok_def init_TcpServer_def omap_find_def)

lemma other_thread_local:
  assumes "heap w c = Some k" and "conn_inv cl k F E" 
  shows "local_ok c k cl F E w (tcp_send env False c d w)"
proof (cases "conn_state k = kConnected")
  case True
  then have op: "is_open k" by (simp add: is_open_def)
  have "conn_inv cl k (F @ [SendInLoop d]) (E @ [])"
    using assms(2) op by (auto simp: conn_inv_def open_inv_def)
  then show ?thesis
    using assms(1) True
    by (intro local_okI [of _ "queueInLoop c (SendInLoop d) w" c k "[SendInLoop d]" "[]"])
      (auto simp: tcp_send_def with_conn_def local_step_def queueInLoop_def same_conn_def)
next
  case False
  then show ?thesis
    using assms by (intro local_ok_skip) (simp_all add: tcp_send_def with_conn_def)
qed

lemma in_table_iff:
  assumes "tcp_inv env {} rest w"
  shows "c \<in> snd ` set (connections w) \<longleftrightarrow> (\<exists>k. heap w c = Some k \<and> is_open k)"
proof -
  have "distinct (map fst (connections w))"
    using assms unfolding tcp_inv_def table_ok_def omap_ok_def by (metis strict_sorted_iff)
  then have "c \<in> snd ` set (connections w) \<longleftrightarrow> (\<exists>n. omap_find n (connections w) = Some c)"
    by (force simp: omap_find_def)
  then show ?thesis using assms by (auto simp: tcp_inv_def table_ok_def)
qed

lemma destroy_inv:
  assumes inv: "tcp_inv env {} [] w" and un: "unreferenced c w"
  shows "\<exists>w'. destroy_TcpConnection c w = Inr w' \<and> tcp_inv env {} [] w'"
proof -
  obtain k where k: "heap w c = Some k" using un by (auto simp: unreferenced_def)
  have ci: "conn_inv False k (proj c (pendingFunctors w)) (proj c (obs w))"
    using tcp_inv_conn [OF inv k] by simp
  have "c \<notin> snd ` set (connections w)" using un by (auto simp: unreferenced_def)
  then have op: "\<not> is_open k" using in_table_iff [OF inv] k by auto
  have weak: "\<not> holds_shared_ptr f" if "f \<in> set (proj c (pendingFunctors w))" for f
    using un that by (auto simp: unreferenced_def set_proj)
  then have nocd: "ConnectDestroyed \<notin> set (proj c (pendingFunctors w))" by force
  then have st: "conn_state k = kDisconnected" "\<not> addedToLoop (channel k)" "ch_index (channel k) = kNew"
      "no_send (proj c (pendingFunctors w))" "callbacks (proj c (obs w)) = [True, False]" "shut_ok (proj c (obs w))"
      "set (proj c (pendingFunctors w)) \<inter> {ShutdownInLoop, StartReadInLoop, StopReadInLoop} = {}"
    using ci op by (auto simp: conn_inv_def closed_inv_def)
  have "f \<notin> set (proj c (pendingFunctors w))" for f
    using weak [of f] st(4,7) by (cases f) (auto simp: no_send_def)
  then have empty: "proj c (pendingFunctors w) = []" by (metis list.set_intros(1) list.exhaust)
  have ch: "channels w (conn_fd k) \<noteq> Some c"
    using inv k st(3) by (auto simp: tcp_inv_def poller_ok_def)
  define w' where "w' = w\<lparr>heap := (heap w)(c := None)\<rparr>"
  have old: "channels w fd = Some c0 \<longleftrightarrow> (\<exists>k. heap w c0 = Some k \<and> conn_fd k = fd \<and> ch_index (channel k) \<noteq> kNew)" for fd c0
    using inv by (simp add: tcp_inv_def poller_ok_def)
  have "poller_ok w'"
    using inv old k st(3) unfolding poller_ok_def [of w'] tcp_inv_def
    by (auto simp: w'_def poller_ok_def [of w] split: if_splits)
  moreover have "table_ok {} w'"
    using inv k op by (auto simp: tcp_inv_def table_ok_def w'_def)
  moreover have "names_ok env w'" using inv by (auto simp: tcp_inv_def names_ok_def w'_def)
  moreover have "gone_ok [] w'"
    using inv k empty st alive_lt [of "[]" w c k] by (auto simp: tcp_inv_def gone_ok_def w'_def)
  ultimately have "tcp_inv env {} [] w'"
    using tcp_inv_conn [OF inv] by (simp add: tcp_inv_def w'_def)
  then show ?thesis
    using k st ch by (simp add: destroy_TcpConnection_def with_conn_def w'_def)
qed

lemma with_conn_alive: "with_conn c w f = Inr x \<Longrightarrow> \<exists>k. heap w c = Some k"
  by (auto simp: with_conn_def split: option.splits)

lemma call_op_alive: "op_ok u \<Longrightarrow> call_op env u w = Inr w' \<Longrightarrow> \<exists>k. heap w (op_conn u) = Some k"
  by (cases u) (auto simp: tcp_send_def tcp_shutdown_def forceClose_def forceCloseWithDelay_def dest: with_conn_alive)

lemma tcp_reach_inv:
  assumes "env_ok env" and "tcp_reach env w"
  shows "tcp_inv env {} [] w"
  using assms(2)
proof induction
  case start
  show ?case by (rule init_inv)
next
  case (iteration w es w')
  then show ?case using loop_iteration_inv [OF assms(1)] by fastforce
next
  case (call w u w')
  then show ?case
    using call_op_alive [of u env w w'] call_op_inv [of env "{}" "[]" w u] assms(1) by (auto simp: env_ok_def)
next
  case (other_thread w c d w')
  then obtain k where k: "heap w c = Some k" by (auto simp: tcp_send_def dest: with_conn_alive)
  then show ?case
    using local_ok_inv [OF other_thread.IH k other_thread_local [OF k tcp_inv_conn [OF other_thread.IH k]], of env d]
      other_thread.hyps(2) by auto
next
  case (destroy w c w')
  then show ?case using destroy_inv by fastforce
qed

lemma tcp_inv_callbacks:
  assumes inv: "tcp_inv env {} rest w"
  shows "callbacks (proj c (obs w)) =
     (if next_cid w \<le> c then [] else if c \<in> snd ` set (connections w) then [True] else [True, False])"
proof (cases "heap w c")
  case None
  then show ?thesis
    using inv in_table_iff [OF inv] by (auto simp: tcp_inv_def gone_ok_def)
next
  case (Some k)
  then have "c < next_cid w"
    using inv alive_lt by (auto simp: tcp_inv_def)
  with Some show ?thesis
    using in_table_iff [OF inv] tcp_inv_conn [OF inv Some]
    by (auto simp: conn_inv_def open_inv_def closed_inv_def)
qed

subsection \<open>A sample server\<close>

text \<open>A server whose socket takes at most two bytes at a time and whose callbacks do nothing.\<close>

definition sample_env :: tcp_env where
  "sample_env = \<lparr>server_name = lit ''chatserver'', ipPort = lit ''0.0.0.0:9527'',
     sys_write = (\<lambda>t fd d. Inr (min 2 (length d))), sys_readv = (\<lambda>t fd n. Inr []),
     connectionCallback = (\<lambda>t c up. []), messageCallback = (\<lambda>t c b. (retrieveAll b, [])),
     writeCompleteCallback = None, highWaterMarkCallback = None\<rparr>"

definition sample_conn :: TcpConnection where
  "sample_conn = \<lparr>conn_name = connName sample_env 1, conn_fd = 7, conn_state = kConnected, reading = True,
     channel = \<lparr>events = 3, ch_index = kAdded, addedToLoop = True\<rparr>, highWaterMark = 64 * 1024 * 1024,
     inputBuffer = mk_Buffer kInitialSize, outputBuffer = mk_Buffer kInitialSize\<rparr>"

definition sample_server :: TcpServer where
  "sample_server = \<lparr>heap = [0 \<mapsto> sample_conn], next_cid = 1, connections = [(connName sample_env 1, 0)],
     nextConnId = 2, channels = [7 \<mapsto> 0], pendingFunctors = [], eventHandling = False, activeChannels = [],
     currentActiveChannel = None, delayed = [], ticks = 1, obs = [(0, Callback True)]\<rparr>"

lemma sample_env_ok: "env_ok sample_env"
  by (simp add: sample_env_def env_ok_def write_ok_def retrieveAll_ok lit_def)

lemma sample_poll: "poll_ok init_TcpServer [Accept (Some 7)]"
  by (simp add: poll_ok_def init_TcpServer_def)

lemma sample_accept: "loop_iteration sample_env [Accept (Some 7)] init_TcpServer = Inr sample_server"
  by (simp add: loop_iteration_def newConnection_def connectEstablished_new init_TcpServer_def call_connectionCallback_def
      with_conn_def observe_def tick_def doPendingFunctors_def sample_server_def sample_conn_def
      new_TcpConnection_def wrap32_def Let_def sample_env_def [THEN arg_cong, of connectionCallback])

lemma sample_reach: "tcp_reach sample_env sample_server"
  by (rule tcp_reach.iteration [OF tcp_reach.start sample_poll sample_accept])

lemma sample_heap: "heap sample_server 0 = Some sample_conn" "is_open sample_conn" "content (outputBuffer sample_conn) = []"
  by (simp_all add: sample_server_def sample_conn_def is_open_def)

text \<open>The state after sending three bytes, of which the socket takes two.\<close>

definition sample_sent :: "Buffer \<Rightarrow> TcpServer" where
  "sample_sent ob = sample_server\<lparr>heap := [0 \<mapsto> sample_conn\<lparr>outputBuffer := ob,
       channel := \<lparr>events = 7, ch_index = kAdded, addedToLoop = True\<rparr>\<rparr>],
     ticks := 2, obs := [(0, Callback True), (0, Sent [1, 2, 3]), (0, Wrote [1, 2])]\<rparr>"

lemma sample_send: "\<exists>ob. content ob = [3] \<and> call_op sample_env (USend 0 [1, 2, 3]) sample_server = Inr (sample_sent ob)"
proof -
  obtain ob where ob: "buf_append [3] (mk_Buffer kInitialSize) = Inr ob" "content ob = [3]"
    using buf_append_spec [OF mk_Buffer_ok, of "[3]" kInitialSize] by auto
  have "readableBytes (mk_Buffer kInitialSize) = 0" by (simp add: readable_0_iff)
  then have "tcp_send sample_env True 0 [1, 2, 3] sample_server = Inr (sample_sent ob)"
    using ob(1)
    by (simp add: tcp_send_def sendInLoop_def write_direct_def buffer_rest_def enableWriting_def set_events_def chan_update_def
        updateChannel_def state_defs event_defs sample_server_def sample_conn_def sample_env_def sample_sent_def min_def)
  then show ?thesis using ob(2) by auto
qed

text \<open>The state after sending two bytes and shutting down.\<close>

definition sample_shut :: TcpServer where
  "sample_shut = sample_server\<lparr>heap := [0 \<mapsto> sample_conn\<lparr>conn_state := kDisconnecting\<rparr>],
     ticks := 2, obs := [(0, Callback True), (0, Sent [1, 2]), (0, Wrote [1, 2]), (0, ShutWrite)]\<rparr>"

lemma sample_shutdown: "tcp_reach sample_env sample_shut"
proof -
  define w where "w = sample_server\<lparr>ticks := 2, obs := [(0, Callback True), (0, Sent [1, 2]), (0, Wrote [1, 2])]\<rparr>"
  have "readableBytes (mk_Buffer kInitialSize) = 0" by (simp add: readable_0_iff)
  then have "call_op sample_env (USend 0 [1, 2]) sample_server = Inr w"
    by (simp add: tcp_send_def sendInLoop_def write_direct_def state_defs event_defs sample_server_def sample_conn_def
        sample_env_def w_def)
  then have "tcp_reach sample_env w"
    by (rule tcp_reach.call [OF sample_reach, rotated]) simp
  moreover have "call_op sample_env (UShutdown 0) w = Inr sample_shut"
    by (simp add: tcp_shutdown_def shutdownInLoop_def state_defs event_defs sample_server_def sample_conn_def w_def sample_shut_def)
  ultimately show ?thesis
    using tcp_reach.call [of sample_env w "UShutdown 0" sample_shut] by simp
qed

lemma sample_sent_reach:
  obtains ob where "content ob = [3]" "tcp_reach sample_env (sample_sent ob)"
proof -
  obtain ob where ob: "content ob = [3]" "call_op sample_env (USend 0 [1, 2, 3]) sample_server = Inr (sample_sent ob)"
    using sample_send by blast
  show thesis
    by (rule that [OF ob(1) tcp_reach.call [OF sample_reach _ ob(2)]]) simp
qed

subsection \<open>Safety\<close>

text \<open>C7: The connection layer never fails in the thread of the loop: in every state reached by iterations of the loop, calls of public
  member functions (\<open>startRead\<close> and \<open>stopRead\<close> apart) in the loop's thread and the destruction of unreferenced connections, each further iteration
  with whatever events, hangups with urgent data but no input apart, each further such call and each
  destruction succeeds. No assertion of \<open>TcpConnection\<close>, \<open>Channel\<close>, \<open>EPollPoller\<close>, \<open>TcpServer\<close> or \<open>Buffer\<close> fails and no functor is
  called on a destroyed connection. What is left out can fail: \<open>send\<close> in another thread (\<open>send_race_dangles\<close>), the
  event left out (\<open>hangup_with_urgent_asserts\<close>), and closing after \<open>stopRead\<close> (\<open>stop_read_close_asserts\<close>).\<close>

theorem tcp_server_safe:
  assumes "env_ok env" and "loop_reach env w"
  shows "(poll_ok w es \<longrightarrow> (\<exists>w'. loop_iteration env es w = Inr w'))
     \<and> (heap w (op_conn u) \<noteq> None \<and> op_ok u \<longrightarrow> (\<exists>w'. call_op env u w = Inr w'))
     \<and> (unreferenced c w \<longrightarrow> (\<exists>w'. destroy_TcpConnection c w = Inr w'))"
proof (intro conjI impI; (elim conjE)?)
  note inv = tcp_reach_inv [OF assms(1) loop_reach_tcp_reach [OF assms(2)]]
  show "\<exists>w'. loop_iteration env es w = Inr w'" if "poll_ok w es"
    using loop_iteration_inv [OF assms(1) inv that] by blast
  show "\<exists>w'. call_op env u w = Inr w'" if "heap w (op_conn u) \<noteq> None" "op_ok u"
    using that call_op_inv [OF _ inv, of u] assms(1) by (force simp: env_ok_def)
  show "\<exists>w'. destroy_TcpConnection c w = Inr w'" if "unreferenced c w"
    using destroy_inv [OF inv that] by blast
qed

theorem tcp_server_safe_witness:
  "(\<exists>w'. loop_iteration sample_env [Ready 0 POLLIN] sample_server = Inr w')
     \<and> (\<exists>w'. call_op sample_env (UShutdown 0) sample_server = Inr w')"
proof -
  have "loop_reach sample_env sample_server"
    by (rule loop_reach.iteration [OF loop_reach.start sample_poll sample_accept])
  from tcp_server_safe [OF sample_env_ok this, of "[Ready 0 POLLIN]" "UShutdown 0"] show ?thesis
    by (simp add: poll_ok_def sample_server_def sample_conn_def event_defs)
qed

text \<open>The peer closes the connection: it leaves the table, and nothing refers to it any more.\<close>

lemmas close_defs = loop_iteration_def handleEvent_def handleEventWithGuard_def on_event_def handleRead_def handleClose_def handleError_def
  disableAll_def set_events_def chan_update_def updateChannel_def call_connectionCallback_def removeConnection_def
  removeConnectionInLoop_def connectDestroyed_def chan_remove_def removeChannel_def poller_removeChannel_def doPendingFunctors_def
  state_defs event_defs omap_find_def omap_erase_def queueInLoop_def

lemma sample_read_end: "\<exists>ib. readFd (\<lambda>n. Inr []) (mk_Buffer kInitialSize) = Inr (ib, Inr 0)"
  using readFd_spec [OF mk_Buffer_ok, of "\<lambda>n. Inr []" kInitialSize "[]"] by auto

lemmas sample_defs = sample_server_def sample_conn_def sample_env_def [THEN arg_cong, of connectionCallback]
  sample_env_def [THEN arg_cong, of sys_readv]

lemma sample_hangup:
  obtains w k where "loop_iteration sample_env [Ready 0 POLLIN] sample_server = Inr w" "heap w = [0 \<mapsto> k]" "conn_state k = kDisconnected"
    "\<not> addedToLoop (channel k)" "channels w = Map.empty" "connections w = []" "pendingFunctors w = []"
  using sample_read_end that by (auto simp: close_defs sample_defs)

text \<open>A send in another thread can use a destroyed connection: the thread finds the connection connected, then the peer closes it and the
  loop takes it out of the table; the thread queues the call with a plain \<open>this\<close> and drops its pointer, the last one; the loop calls the
  functor on the destroyed object.\<close>

theorem send_race_dangles:
  "\<exists>w1 w3. send_test 0 sample_server = Inr True \<and> loop_iteration sample_env [Ready 0 POLLIN] sample_server = Inr w1
     \<and> unreferenced 0 (send_queue 0 d w1) \<and> destroy_TcpConnection 0 (send_queue 0 d w1) = Inr w3
     \<and> loop_iteration sample_env [] w3 = Inl DanglingPtr"
proof -
  obtain w1 k where w1: "loop_iteration sample_env [Ready 0 POLLIN] sample_server = Inr w1" "heap w1 = [0 \<mapsto> k]"
    "conn_state k = kDisconnected" "\<not> addedToLoop (channel k)" "channels w1 = Map.empty" "connections w1 = []" "pendingFunctors w1 = []"
    by (rule sample_hangup)
  let ?w2 = "send_queue 0 d w1"
  have "send_test 0 sample_server = Inr True" by (simp add: send_test_def with_conn_def sample_server_def sample_conn_def)
  moreover have "unreferenced 0 ?w2" using w1 by (simp add: unreferenced_def send_queue_def queueInLoop_def)
  moreover have "destroy_TcpConnection 0 ?w2 = Inr (?w2\<lparr>heap := Map.empty\<rparr>)"
    using w1 by (simp add: destroy_TcpConnection_def with_conn_def send_queue_def queueInLoop_def)
  moreover have "loop_iteration sample_env [] (?w2\<lparr>heap := Map.empty\<rparr>) = Inl DanglingPtr"
    using w1 by (simp add: loop_iteration_def doPendingFunctors_def send_queue_def queueInLoop_def sendInLoop_def with_conn_def)
  ultimately show ?thesis using w1(1) by blast
qed

text \<open>A hangup with urgent data but without input is handled twice: the connection is closed for the hangup and then read from for the
  urgent data; when the read finds the end of the stream it is closed again, against an assertion.\<close>

theorem hangup_with_urgent_asserts:
  "loop_iteration sample_env [Ready 0 (POLLHUP OR POLLPRI)] sample_server = Inl AssertFail"
  using sample_read_end by (auto simp: close_defs sample_defs)

text \<open>C8: What a connection has written followed by what its output buffer holds is exactly what was handed to
  \<open>sendInLoop\<close>, in order, unless the peer was found to be gone; and the channel waits for \<open>POLLOUT\<close> exactly
  while the connection is open and has something to write.\<close>

theorem tcp_bytes_in_order:
  assumes "env_ok env" and "tcp_reach env w" and "heap w c = Some k"
  shows "(Dropped \<notin> set (proj c (obs w)) \<longrightarrow>
            written_bytes (proj c (obs w)) @ content (outputBuffer k) = sent_bytes (proj c (obs w)))
     \<and> (isWriting (channel k) \<longleftrightarrow> is_open k \<and> content (outputBuffer k) \<noteq> [])"
  using tcp_inv_conn [OF tcp_reach_inv [OF assms(1,2)] assms(3)]
  by (auto simp: conn_inv_def bytes_ok_def open_inv_def closed_inv_def event_defs split: if_splits)

theorem tcp_bytes_in_order_witness:
  "\<exists>w k. tcp_reach sample_env w \<and> heap w 0 = Some k \<and> written_bytes (proj 0 (obs w)) = [1, 2]
     \<and> [1, 2] @ content (outputBuffer k) = [1, 2, 3] \<and> isWriting (channel k)"
proof -
  obtain ob where ob: "content ob = [3]" "tcp_reach sample_env (sample_sent ob)" by (rule sample_sent_reach)
  define k where "k = sample_conn\<lparr>outputBuffer := ob, channel := \<lparr>events = 7, ch_index = kAdded, addedToLoop = True\<rparr>\<rparr>"
  have k: "heap (sample_sent ob) 0 = Some k" by (simp add: sample_sent_def k_def)
  show ?thesis
    using tcp_bytes_in_order [OF sample_env_ok ob(2) k] ob k
    by (intro exI [of _ "sample_sent ob"] exI [of _ k]) (simp add: sample_sent_def k_def is_open_def sample_conn_def)
qed

text \<open>C13: The connection callback is called for every accepted connection with \<open>connected()\<close> true, and once more
  with false when the connection has left the server's table; never twice, never in another order.\<close>

theorem tcp_callbacks_paired:
  assumes "env_ok env" and "tcp_reach env w"
  shows "callbacks (proj c (obs w)) =
     (if next_cid w \<le> c then [] else if c \<in> snd ` set (connections w) then [True] else [True, False])"
  using tcp_inv_callbacks [OF tcp_reach_inv [OF assms]] .

theorem tcp_callbacks_paired_witness:
  "callbacks (proj 0 (obs sample_server)) = [True] \<and> callbacks (proj 1 (obs sample_server)) = []"
  using tcp_callbacks_paired [OF sample_env_ok sample_reach, of 0] tcp_callbacks_paired [OF sample_env_ok sample_reach, of 1]
  by (simp add: sample_server_def)

text \<open>C14: When the sending side of the socket is shut down everything handed to \<open>sendInLoop\<close> before has been
  written, unless the peer was found to be gone.\<close>

theorem tcp_shutdown_after_drain:
  assumes "env_ok env" and "tcp_reach env w" and "proj c (obs w) = xs @ ShutWrite # ys" and "Dropped \<notin> set xs"
  shows "written_bytes xs = sent_bytes xs"
proof -
  note inv = tcp_reach_inv [OF assms(1,2)]
  have "shut_ok (proj c (obs w))"
  proof (cases "heap w c")
    case None
    then have "c < next_cid w \<longrightarrow> shut_ok (proj c (obs w))" "\<not> c < next_cid w \<longrightarrow> proj c (obs w) = []"
      using inv unfolding tcp_inv_def gone_ok_def by metis+
    then show ?thesis by (cases "c < next_cid w") (auto simp: shut_ok_def)
  next
    case (Some k)
    then show ?thesis using tcp_inv_conn [OF inv Some] by (simp add: conn_inv_def)
  qed
  then show ?thesis using assms(3,4) by (simp add: shut_ok_def)
qed

theorem tcp_shutdown_after_drain_witness:
  "\<exists>xs. proj 0 (obs sample_shut) = xs @ [ShutWrite] \<and> written_bytes xs = [1, 2] \<and> sent_bytes xs = [1, 2]"
  using tcp_shutdown_after_drain [OF sample_env_ok sample_shutdown, of 0 "[Callback True, Sent [1, 2], Wrote [1, 2]]" "[]"]
  by (intro exI [of _ "[Callback True, Sent [1, 2], Wrote [1, 2]]"]) (simp add: sample_shut_def)

subsection \<open>Forced closing\<close>

text \<open>C15: \<open>forceClose\<close> takes effect whatever happens in between: after the next iteration of the loop the
  connection has left the table, after the second one it is disconnected, removed from the poller, and the callback
  has been called for going down.\<close>

theorem forceClose_takes_effect:
  assumes "env_ok env" and "tcp_reach env w" and "heap w c = Some k" and "is_open k"
  shows "\<exists>w1. forceClose c w = Inr w1 \<and> (\<forall>es1. poll_ok w1 es1 \<longrightarrow>
     (\<exists>w2. loop_iteration env es1 w1 = Inr w2 \<and> c \<notin> snd ` set (connections w2) \<and> (\<forall>es2. poll_ok w2 es2 \<longrightarrow>
     (\<exists>w3 k3. loop_iteration env es2 w2 = Inr w3 \<and> heap w3 c = Some k3 \<and> conn_state k3 = kDisconnected
        \<and> channels w3 (conn_fd k3) \<noteq> Some c \<and> callbacks (proj c (obs w3)) = [True, False]))))"
proof -
  note inv = tcp_reach_inv [OF assms(1,2)]
  obtain w1 where w1: "forceClose c w = Inr w1" "tcp_inv env {} [] w1"
    using local_ok_inv [OF inv assms(3) forceClose_local [OF assms(3) tcp_inv_conn [OF inv assms(3)]]] by blast
  have fc: "(c, ForceCloseInLoop) \<in> set (pendingFunctors w1)"
    using w1(1) assms(3,4) by (auto simp: forceClose_def with_conn_def is_open_def queueInLoop_def)
  have second: "\<exists>w3 k3. loop_iteration env es2 w2 = Inr w3 \<and> heap w3 c = Some k3 \<and> conn_state k3 = kDisconnected
        \<and> channels w3 (conn_fd k3) \<noteq> Some c \<and> callbacks (proj c (obs w3)) = [True, False]"
    if h: "tcp_inv env {} [] w2" "closed_conn w2 c" "poll_ok w2 es2" for w2 es2
  proof -
    obtain w3 k3 where w3: "loop_iteration env es2 w2 = Inr w3" "tcp_inv env {} [] w3"
        "ConnectDestroyed \<notin> set (proj c (pendingFunctors w3))" and k3: "heap w3 c = Some k3" "\<not> is_open k3"
      using loop_iteration_inv [OF assms(1) h(1,3)] h(2) unfolding closed_conn_def by blast
    have "conn_state k3 = kDisconnected \<and> ch_index (channel k3) = kNew \<and> callbacks (proj c (obs w3)) = [True, False]"
      using tcp_inv_conn [OF w3(2) k3(1)] k3(2) w3(3) by (auto simp: conn_inv_def closed_inv_def)
    moreover have "channels w3 (conn_fd k3) \<noteq> Some c" if "ch_index (channel k3) = kNew"
      using w3(2) k3(1) that by (auto simp: tcp_inv_def poller_ok_def)
    ultimately show ?thesis using w3(1) k3(1) by blast
  qed
  have first: "\<exists>w2. loop_iteration env es1 w1 = Inr w2 \<and> c \<notin> snd ` set (connections w2)
      \<and> tcp_inv env {} [] w2 \<and> closed_conn w2 c" if h: "poll_ok w1 es1" for es1
  proof -
    obtain w2 where w2: "loop_iteration env es1 w1 = Inr w2" "tcp_inv env {} [] w2" "closed_conn w2 c"
      using loop_iteration_inv [OF assms(1) w1(2) h] fc by blast
    then show ?thesis using in_table_iff [OF w2(2), of c] by (auto simp: closed_conn_def)
  qed
  show ?thesis using w1(1) first second by metis
qed

theorem forceClose_takes_effect_witness:
  "\<exists>w1 w2 w3 k3. forceClose 0 sample_server = Inr w1 \<and> loop_iteration sample_env [] w1 = Inr w2
     \<and> 0 \<notin> snd ` set (connections w2) \<and> loop_iteration sample_env [] w2 = Inr w3 \<and> heap w3 0 = Some k3
     \<and> conn_state k3 = kDisconnected \<and> callbacks (proj 0 (obs w3)) = [True, False]"
proof -
  have none: "poll_ok w []" for w by (simp add: poll_ok_def)
  show ?thesis
    using forceClose_takes_effect [OF sample_env_ok sample_reach sample_heap(1,2)] none by metis
qed

end
