(* ===== verification/File_Server.thy ===== *)
theory File_Server
  imports Framing Session_Keys
begin

section \<open>The file server\<close>

text \<open>
  \<open>FileServer/FileManager.cpp\<close> (the list of known files), \<open>FileServer/FileSession.cpp\<close> (uploads and
  downloads of one connection) and \<open>FileServer/FileServer.cpp\<close> (the sessions). The operating system is
  a parameter: the node a path name denotes, directories, access rights and the size a file may reach.
  The contents of the files are part of the state; an open stream is its file and its position, and what is
  written to it is seen at once by every stream on the file (the buffering of \<open>stdio\<close> is not modelled).
  A \<open>FILE *\<close> that is overwritten or belongs to a destroyed session is leaked and has no further effect.
  \<open>m_offset\<close> and \<open>m_filesize\<close> are \<open>int32_t\<close>; their arithmetic wraps, as it does on the hosts the server
  is built for.
\<close>

subsection \<open>Files and streams\<close>

record 'n file_env =
  path_node :: "bytes \<Rightarrow> 'n option"
  is_directory :: "'n \<Rightarrow> bool"
  may_read :: "'n \<Rightarrow> bool"
  may_write :: "'n \<Rightarrow> bool"
  may_create :: "'n \<Rightarrow> bool"
  size_limit :: "'n \<Rightarrow> nat"

type_synonym 'n disk = "'n \<Rightarrow> bytes option"

record 'n stream =
  st_node :: 'n
  st_pos :: nat

text \<open>\<open>fopen(name, "r")\<close> followed by \<open>fclose\<close>, which opens directories too; \<open>fopen(name, "w")\<close>;
  \<open>fopen(name, "r+")\<close>.\<close>

definition fopen_r :: "'n file_env \<Rightarrow> bytes \<Rightarrow> 'n disk \<Rightarrow> bool" where
  "fopen_r env name d =
     (case path_node env name of
        None \<Rightarrow> False
      | Some n \<Rightarrow> (is_directory env n \<or> d n \<noteq> None) \<and> may_read env n)"

definition fopen_w :: "'n file_env \<Rightarrow> bytes \<Rightarrow> 'n disk \<Rightarrow> 'n stream option \<times> 'n disk" where
  "fopen_w env name d =
     (case path_node env name of
        None \<Rightarrow> (None, d)
      | Some n \<Rightarrow>
          if \<not> is_directory env n \<and> (if d n = None then may_create env n else may_write env n)
          then (Some \<lparr>st_node = n, st_pos = 0\<rparr>, d(n \<mapsto> []))
          else (None, d))"

definition fopen_rw :: "'n file_env \<Rightarrow> bytes \<Rightarrow> 'n disk \<Rightarrow> 'n stream option" where
  "fopen_rw env name d =
     (case path_node env name of
        None \<Rightarrow> None
      | Some n \<Rightarrow>
          if \<not> is_directory env n \<and> d n \<noteq> None \<and> may_read env n \<and> may_write env n
          then Some \<lparr>st_node = n, st_pos = 0\<rparr> else None)"

definition file_bytes :: "'n disk \<Rightarrow> 'n stream \<Rightarrow> bytes" where
  "file_bytes d fp = (case d (st_node fp) of None \<Rightarrow> [] | Some c \<Rightarrow> c)"

text \<open>\<open>fseek\<close> with a negative offset fails and leaves the position.\<close>

definition fseek_set :: "int \<Rightarrow> 'n stream \<Rightarrow> 'n stream" where
  "fseek_set off fp = (if off < 0 then fp else fp\<lparr>st_pos := nat off\<rparr>)"

definition fseek_end :: "'n disk \<Rightarrow> 'n stream \<Rightarrow> 'n stream" where
  "fseek_end d fp = fp\<lparr>st_pos := length (file_bytes d fp)\<rparr>"

definition write_at :: "nat \<Rightarrow> bytes \<Rightarrow> bytes \<Rightarrow> bytes" where
  "write_at pos xs c = take pos c @ replicate (pos - length c) 0 @ xs @ drop (pos + length xs) c"

text \<open>\<open>fwrite(data, len, 1, fp) == 1\<close>: no element is written when \<open>len\<close> is zero or the file may not grow.\<close>

definition fwrite :: "'n file_env \<Rightarrow> bytes \<Rightarrow> 'n stream \<Rightarrow> 'n disk \<Rightarrow> bool \<times> 'n stream \<times> 'n disk" where
  "fwrite env xs fp d =
     (let n = min (length xs) (size_limit env (st_node fp) - st_pos fp)
      in if n = 0 then (False, fp, d)
         else (n = length xs, fp\<lparr>st_pos := st_pos fp + n\<rparr>,
               d(st_node fp \<mapsto> write_at (st_pos fp) (take n xs) (file_bytes d fp))))"

text \<open>\<open>fread(buffer, n, 1, fp)\<close>: the bytes that arrive in the buffer.\<close>

definition fread :: "nat \<Rightarrow> 'n stream \<Rightarrow> 'n disk \<Rightarrow> bytes \<times> 'n stream" where
  "fread n fp d =
     (let xs = take n (drop (st_pos fp) (file_bytes d fp)) in (xs, fp\<lparr>st_pos := st_pos fp + length xs\<rparr>))"

subsection \<open>State\<close>

definition msg_type_upload_req :: "32 word" where "msg_type_upload_req = 1"
definition msg_type_upload_resp :: "32 word" where "msg_type_upload_resp = 2"
definition msg_type_download_req :: "32 word" where "msg_type_download_req = 3"
definition msg_type_download_resp :: "32 word" where "msg_type_download_resp = 4"

lemmas file_msg_types = msg_type_upload_req_def msg_type_upload_resp_def msg_type_download_req_def
  msg_type_download_resp_def

record 'n FileSession =
  f_seq :: "32 word"
  f_fp :: "'n stream option"
  f_offset :: int
  f_filesize :: int

record 'n file_server =
  m_listFiles :: "bytes list"
  f_disk :: "'n disk"
  f_sessions :: "(bytes, 'n FileSession) omap"
  f_outputs :: "(conn \<times> bytes) list"
  f_closed :: "conn list"

definition new_FileSession :: "'n FileSession" where
  "new_FileSession = \<lparr>f_seq = 0, f_fp = None, f_offset = 0, f_filesize = 0\<rparr>"

subsection \<open>\<open>FileManager\<close>\<close>

text \<open>\<open>Init\<close>: the entries of the directory if \<open>opendir\<close> succeeds, otherwise the result of \<open>mkdir\<close>.\<close>

definition FileManager_Init :: "bytes list option \<Rightarrow> bool \<Rightarrow> 'n file_server \<Rightarrow> bool \<times> 'n file_server" where
  "FileManager_Init entries made s =
     (case entries of
        None \<Rightarrow> (made, s)
      | Some names \<Rightarrow>
          (True, s\<lparr>m_listFiles := m_listFiles s @ filter (\<lambda>x. x \<noteq> lit ''.'' \<and> x \<noteq> lit ''..'') names\<rparr>))"

definition addFile :: "bytes \<Rightarrow> 'n file_server \<Rightarrow> 'n file_server" where
  "addFile filename s = s\<lparr>m_listFiles := m_listFiles s @ [filename]\<rparr>"

definition IsFileExsit :: "'n file_env \<Rightarrow> bytes \<Rightarrow> 'n file_server \<Rightarrow> bool \<times> 'n file_server" where
  "IsFileExsit env filename s =
     (if filename \<in> set (m_listFiles s) then (True, s)
      else if fopen_r env filename (f_disk s) then (True, s\<lparr>m_listFiles := m_listFiles s @ [filename]\<rparr>)
      else (False, s))"

subsection \<open>\<open>FileServer\<close>\<close>

definition File_OnClose :: "conn \<Rightarrow> 'n file_server \<Rightarrow> 'n file_server" where
  "File_OnClose c s =
     (case omap_find (ptr_text c) (f_sessions s) of
        None \<Rightarrow> s
      | Some se \<Rightarrow> s\<lparr>f_sessions := omap_erase (ptr_text c) (f_sessions s)\<rparr>)"

definition File_OnConnection :: "bool \<Rightarrow> conn \<Rightarrow> 'n file_server \<Rightarrow> 'n file_server" where
  "File_OnConnection up c s =
     (if up then s\<lparr>f_sessions := omap_insert (ptr_text c) new_FileSession (f_sessions s)\<rparr>
      else File_OnClose c s)"

subsection \<open>\<open>FileSession\<close>\<close>

definition this_file :: "conn \<Rightarrow> 'n file_server \<Rightarrow> 'n FileSession result" where
  "this_file c s =
     (case omap_find (ptr_text c) (f_sessions s) of None \<Rightarrow> Inl NullDeref | Some se \<Rightarrow> Inr se)"

definition set_file :: "conn \<Rightarrow> 'n FileSession \<Rightarrow> 'n file_server \<Rightarrow> 'n file_server" where
  "set_file c se s = s\<lparr>f_sessions := omap_assign (ptr_text c) se (f_sessions s)\<rparr>"

definition file_send :: "conn \<Rightarrow> BinaryWriter \<Rightarrow> 'n file_server \<Rightarrow> 'n file_server" where
  "file_send c w s = s\<lparr>f_outputs := f_outputs s @ [(c, fst (FileTcpSession_Send w))]\<rparr>"

text \<open>The fields of a request and of a reply: command, sequence number, file name, offset, file size, data.\<close>

definition file_message :: "32 word \<Rightarrow> 32 word \<Rightarrow> bytes \<Rightarrow> int \<Rightarrow> int \<Rightarrow> bytes \<Rightarrow> BinaryWriter" where
  "file_message cmd seq md5 offset filesize xs =
     WriteData_string xs (WriteData (htonl (word_of_int filesize)) (WriteData (htonl (word_of_int offset))
       (WriteData_string md5 (WriteData (htonl seq) (WriteData (htonl cmd) new_writer)))))"

definition ResetFile :: "'n FileSession \<Rightarrow> 'n FileSession" where
  "ResetFile se = (if f_fp se \<noteq> None then se\<lparr>f_offset := 0, f_filesize := 0, f_fp := None\<rparr> else se)"

definition cache_name :: "bytes \<Rightarrow> bytes" where
  "cache_name md5 = c_string (lit ''filecache/'' @ md5)"

text \<open>The stream an uploaded piece goes to, and storing it: lines 205--216 and 217--244.\<close>

definition upload_stream :: "'n file_env \<Rightarrow> bytes \<Rightarrow> int \<Rightarrow> 'n FileSession \<Rightarrow> 'n disk \<Rightarrow> 'n stream option \<times> 'n disk" where
  "upload_stream env md5 offset se d =
     (if offset = 0 then fopen_w env (cache_name md5) d else (f_fp se, d))"

definition upload_store ::
  "'n file_env \<Rightarrow> conn \<Rightarrow> bytes \<Rightarrow> int \<Rightarrow> int \<Rightarrow> bytes \<Rightarrow> 'n FileSession \<Rightarrow> 'n stream \<Rightarrow> 'n disk \<Rightarrow> 'n file_server \<Rightarrow> 'n file_server" where
  "upload_store env c md5 offset filesize xs se fp d s =
     (case fwrite env xs (fseek_set offset fp) d of
        (False, fp', d') \<Rightarrow> set_file c (se\<lparr>f_fp := Some fp'\<rparr>) (s\<lparr>f_disk := d'\<rparr>)
      | (True, fp', d') \<Rightarrow>
          let s2 = s\<lparr>f_disk := d'\<rparr>; se' = se\<lparr>f_fp := Some fp'\<rparr>
          in if wrap32 (offset + wrap32 (int (length xs))) = filesize
             then file_send c (file_message msg_type_upload_resp (f_seq se) md5 (-1) (-1) [])
                    (set_file c (ResetFile se') (addFile (c_string md5) s2))
             else file_send c (file_message msg_type_upload_resp (f_seq se) md5 offset filesize [])
                    (set_file c se' s2))"

definition OnUploadFileResponse ::
  "'n file_env \<Rightarrow> conn \<Rightarrow> bytes \<Rightarrow> int \<Rightarrow> int \<Rightarrow> bytes \<Rightarrow> 'n file_server \<Rightarrow> 'n file_server result" where
  "OnUploadFileResponse env c md5 offset filesize xs s =
     (if md5 = [] then Inr s
      else bind_result (this_file c s) (\<lambda>se.
        case IsFileExsit env (c_string md5) s of
          (True, s1) \<Rightarrow> Inr (file_send c (file_message msg_type_upload_resp (f_seq se) md5 (-1) (-1) []) s1)
        | (False, s1) \<Rightarrow>
            (case upload_stream env md5 offset se (f_disk s1) of
               (None, d) \<Rightarrow> if offset = 0 then Inr (set_file c (se\<lparr>f_fp := None\<rparr>) s1) else Inl NullDeref
             | (Some fp, d) \<Rightarrow> Inr (upload_store env c md5 offset filesize xs se fp d s1))))"

definition block_size :: int where
  "block_size = 512 * 1024"

text \<open>Opening the file of a download; \<open>None\<close> is an early return, with the session as it then is.\<close>

definition open_download ::
  "'n file_env \<Rightarrow> bytes \<Rightarrow> 'n disk \<Rightarrow> 'n FileSession \<Rightarrow> 'n stream option \<times> 'n FileSession" where
  "open_download env md5 d se =
     (case f_fp se of
        Some fp \<Rightarrow> (Some fp, se)
      | None \<Rightarrow>
          (case fopen_rw env (cache_name md5) d of
             None \<Rightarrow> (None, se)
           | Some fp \<Rightarrow>
               let fp1 = fseek_end d fp; filesize = wrap32 (int (st_pos fp1))
               in if filesize \<le> 0 then (None, se\<lparr>f_fp := Some fp1, f_filesize := filesize\<rparr>)
                  else (Some (fseek_set 0 fp1), se\<lparr>f_fp := Some (fseek_set 0 fp1), f_filesize := filesize\<rparr>)))"

text \<open>The size of the next block, and reading and sending it: lines 308--313 and 299--349. The array that
  is read into is cleared first.\<close>

definition currentSendSize :: "'n FileSession \<Rightarrow> int" where
  "currentSendSize se =
     (if f_filesize se \<le> wrap32 (f_offset se + block_size) then wrap32 (f_filesize se - f_offset se) else block_size)"

definition download_send ::
  "conn \<Rightarrow> bytes \<Rightarrow> 'n stream \<Rightarrow> 'n FileSession \<Rightarrow> 'n file_server \<Rightarrow> 'n file_server result" where
  "download_send c md5 fp se s =
     (let n = currentSendSize se;
          (got, fp') = (if n \<le> 0 then ([], fp) else fread (nat n) fp (f_disk s))
      in if n < 0 then Inl LengthError
         else if n > block_size then Inl OutOfBounds
         else
           let xs = got @ replicate (nat n - length got) 0;
               se' = se\<lparr>f_fp := Some fp', f_offset := wrap32 (f_offset se + n)\<rparr>
           in Inr (set_file c (if f_offset se' = f_filesize se' then ResetFile se' else se')
                (file_send c (file_message msg_type_download_resp (f_seq se) md5 (f_offset se) (f_filesize se) xs) s)))"

definition OnDownloadFileResponse ::
  "'n file_env \<Rightarrow> conn \<Rightarrow> bytes \<Rightarrow> int \<Rightarrow> int \<Rightarrow> 'n file_server \<Rightarrow> 'n file_server result" where
  "OnDownloadFileResponse env c md5 offset filesize s =
     (if md5 = [] then Inr s
      else bind_result (this_file c s) (\<lambda>se.
        case IsFileExsit env (c_string md5) s of
          (False, s1) \<Rightarrow> Inr s1
        | (True, s1) \<Rightarrow>
            (case open_download env md5 (f_disk s1) se of
               (None, se1) \<Rightarrow> Inr (set_file c se1 s1)
             | (Some fp, se1) \<Rightarrow> download_send c md5 fp se1 s1)))"

text \<open>\<open>Process\<close>: the sequence number is stored as soon as it is read.\<close>

definition file_dispatch ::
  "'n file_env \<Rightarrow> conn \<Rightarrow> 32 word \<Rightarrow> bytes \<Rightarrow> int \<Rightarrow> int \<Rightarrow> bytes \<Rightarrow> 'n file_server \<Rightarrow> (bool \<times> 'n file_server) result" where
  "file_dispatch env c cmd md5 offset filesize xs s =
     bind_result
       (if cmd = msg_type_upload_req then
          bind_result (OnUploadFileResponse env c md5 offset filesize xs s) (\<lambda>s'. Inr (True, s'))
        else if cmd = msg_type_download_req then
          (if xs \<noteq> [] then Inr (False, s)
           else bind_result (OnDownloadFileResponse env c md5 offset filesize s) (\<lambda>s'. Inr (True, s')))
        else Inr (False, s))
       (\<lambda>(ok, s'). if ok then bind_result (this_file c s') (\<lambda>se. Inr (True, set_file c (se\<lparr>f_seq := f_seq se + 1\<rparr>) s'))
                   else Inr (False, s'))"

definition file_Process :: "'n file_env \<Rightarrow> conn \<Rightarrow> bytes \<Rightarrow> 'n file_server \<Rightarrow> (bool \<times> 'n file_server) result" where
  "file_Process env c buf s =
     (case ReadData (mk_reader buf) :: (32 word \<times> BinaryReader) option of None \<Rightarrow> Inr (False, s) | Some (cmd, r1) \<Rightarrow>
     (case ReadData r1 of None \<Rightarrow> Inr (False, s) | Some (seq, r2) \<Rightarrow>
     bind_result (this_file c s) (\<lambda>se.
     let s1 = set_file c (se\<lparr>f_seq := seq\<rparr>) s in
     bind_result (ReadData_string r2) (\<lambda>(md5, r3).
     if md5 = [] then Inr (False, s1) else
     (case ReadData r3 :: (32 word \<times> BinaryReader) option of None \<Rightarrow> Inr (False, s1) | Some (offset, r4) \<Rightarrow>
     (case ReadData r4 :: (32 word \<times> BinaryReader) option of None \<Rightarrow> Inr (False, s1) | Some (filesize, r5) \<Rightarrow>
     bind_result (ReadData_string r5) (\<lambda>(xs, r6).
       file_dispatch env c cmd md5 (sint offset) (sint filesize) xs s1)))))))"

definition file_close :: "conn \<Rightarrow> 'n file_server \<Rightarrow> 'n file_server" where
  "file_close c s = s\<lparr>f_closed := f_closed s @ [c]\<rparr>"

definition file_OnRead :: "'n file_env \<Rightarrow> conn \<Rightarrow> Buffer \<Rightarrow> 'n file_server \<Rightarrow> (Buffer \<times> 'n file_server) result" where
  "file_OnRead env c = FileSession_OnRead (file_Process env c) (file_close c)"

end
