(* ===== verification/File_Transfer.thy ===== *)
theory File_Transfer
  imports File_Server
begin

section \<open>File transfer\<close>

text \<open>
  What uploads and downloads do. A file that is uploaded in pieces is stored byte for byte and is then
  downloaded in blocks of 512 KB that make up the same bytes; the sessions keep their invariant whatever
  messages arrive, and the faults of a message are exactly those named. The last properties show what
  happens when one session mixes transfers: the stream of the session is used for whatever file is asked for.
\<close>

subsection \<open>Frame lemmas\<close>

lemma set_file_simps [simp]:
  "m_listFiles (set_file c se s) = m_listFiles s" "f_disk (set_file c se s) = f_disk s"
  "f_outputs (set_file c se s) = f_outputs s" "f_closed (set_file c se s) = f_closed s"
  by (simp_all add: set_file_def)

lemma file_send_simps [simp]:
  "m_listFiles (file_send c w s) = m_listFiles s" "f_disk (file_send c w s) = f_disk s"
  "f_outputs (file_send c w s) = f_outputs s @ [(c, file_packet (toString w))]"
  "f_closed (file_send c w s) = f_closed s" "f_sessions (file_send c w s) = f_sessions s"
  by (simp_all add: file_send_def FileTcpSession_Send_packet)

lemma addFile_simps [simp]:
  "m_listFiles (addFile x s) = m_listFiles s @ [x]" "f_disk (addFile x s) = f_disk s"
  "f_outputs (addFile x s) = f_outputs s" "f_closed (addFile x s) = f_closed s"
  "f_sessions (addFile x s) = f_sessions s"
  by (simp_all add: addFile_def)

lemma this_file_simps [simp]:
  "this_file c' (set_file c se s) = (if c' = c then Inr se else this_file c' s)"
  "this_file c' (file_send c w s) = this_file c' s"
  "this_file c' (addFile x s) = this_file c' s"
  "this_file c' (s\<lparr>f_disk := d\<rparr>) = this_file c' s"
  "this_file c' (s\<lparr>m_listFiles := l\<rparr>) = this_file c' s"
  "this_file c' (file_close c s) = this_file c' s"
  by (simp_all add: this_file_def set_file_def file_close_def omap_find_assign)

lemma ResetFile_Some: "f_fp se = Some fp \<Longrightarrow> ResetFile se = se\<lparr>f_offset := 0, f_filesize := 0, f_fp := None\<rparr>"
  by (simp add: ResetFile_def)

subsection \<open>Requests\<close>

record file_request =
  fq_cmd :: "32 word"
  fq_seq :: "32 word"
  fq_md5 :: bytes
  fq_offset :: int
  fq_filesize :: int
  fq_data :: bytes

definition file_request_bytes :: "file_request \<Rightarrow> bytes" where
  "file_request_bytes q =
     toString (file_message (fq_cmd q) (fq_seq q) (fq_md5 q) (fq_offset q) (fq_filesize q) (fq_data q))"

definition file_request_ok :: "file_request \<Rightarrow> bool" where
  "file_request_ok q \<longleftrightarrow> fq_md5 q \<noteq> [] \<and> length (fq_md5 q) < 2 ^ 30 \<and> length (fq_data q) < 2 ^ 30 \<and>
     is_int32 (fq_offset q) \<and> is_int32 (fq_filesize q)"

fun run_file :: "'n file_env \<Rightarrow> conn \<Rightarrow> file_request list \<Rightarrow> 'n file_server \<Rightarrow> 'n file_server result" where
  "run_file env c [] s = Inr s"
| "run_file env c (q # qs) s =
     bind_result (this_file c s) (\<lambda>se.
     bind_result (file_dispatch env c (fq_cmd q) (fq_md5 q) (fq_offset q) (fq_filesize q) (fq_data q)
       (set_file c (se\<lparr>f_seq := fq_seq q\<rparr>) s))
     (\<lambda>(ok, s'). run_file env c qs (if ok then s' else file_close c s')))"

lemma toString_file_message:
  assumes "length md5 < 2 ^ 30" "length xs < 2 ^ 30"
  shows "toString (file_message cmd seq md5 offset filesize xs) =
     be_bytes 4 cmd @ be_bytes 4 seq @ encode_string md5 @ be_bytes 4 (word_of_int offset :: 32 word) @
     be_bytes 4 (word_of_int filesize :: 32 word) @ encode_string xs"
proof -
  have len: "length (encode_string md5) < 2 ^ 30 + 5" "length (encode_string xs) < 2 ^ 30 + 5"
    using assms length_Compress_bound [of "of_nat (length md5)"] length_Compress_bound [of "of_nat (length xs)"]
    by (simp_all add: encode_string_def)
  define w1 where "w1 = WriteData (htonl seq) (WriteData (htonl cmd) new_writer)"
  have w1: "writer_ok w1" "toString w1 = be_bytes 4 cmd @ be_bytes 4 seq"
    by (simp_all add: w1_def WriteData_ok)
  define w2 where "w2 = WriteData_string md5 w1"
  have w2: "writer_ok w2" "toString w2 = toString w1 @ encode_string md5"
    using w1 len by (simp_all add: w2_def WriteData_string_ok)
  define w3 where "w3 = WriteData (htonl (word_of_int filesize)) (WriteData (htonl (word_of_int offset)) w2)"
  have w3: "writer_ok w3"
      "toString w3 = toString w2 @ be_bytes 4 (word_of_int offset :: 32 word) @ be_bytes 4 (word_of_int filesize :: 32 word)"
    using w1 w2 len by (simp_all add: w3_def WriteData_ok)
  show ?thesis
    using w1 w2 w3 len by (simp add: file_message_def WriteData_string_ok flip: w1_def w2_def w3_def)
qed

lemma sint_of_int32: "is_int32 i \<Longrightarrow> sint (word_of_int i :: 32 word) = i"
  by (simp add: is_int32_def signed_of_int signed_take_bit_int_eq_self)

text \<open>Reading the fields of a request one after the other.\<close>

lemma file_request_fields:
  assumes "file_request_ok q"
  shows "\<exists>r1 r2 r3 r4 r5 r6 offset filesize.
    ReadData (mk_reader (file_request_bytes q)) = Some (fq_cmd q, r1) \<and> ReadData r1 = Some (fq_seq q, r2) \<and>
    ReadData_string r2 = Inr (fq_md5 q, r3) \<and> ReadData r3 = Some (offset :: 32 word, r4) \<and> sint offset = fq_offset q \<and>
    ReadData r4 = Some (filesize :: 32 word, r5) \<and> sint filesize = fq_filesize q \<and> ReadData_string r5 = Inr (fq_data q, r6)"
proof -
  have len: "length (fq_md5 q) < 2 ^ 30" "length (fq_data q) < 2 ^ 30"
    and len': "length (fq_md5 q) < 2 ^ 31" "length (fq_data q) < 2 ^ 31"
    using assms by (auto simp: file_request_ok_def)
  let ?o = "word_of_int (fq_offset q) :: 32 word" and ?f = "word_of_int (fq_filesize q) :: 32 word"
  let ?msg = "be_bytes 4 (fq_cmd q) @ be_bytes 4 (fq_seq q) @ encode_string (fq_md5 q) @ be_bytes 4 ?o @
    be_bytes 4 ?f @ encode_string (fq_data q) @ []"
  have msg: "file_request_bytes q = ?msg"
    by (simp add: file_request_bytes_def toString_file_message [OF len])
  have p0: "positioned (mk_reader ?msg) ?msg"
    using len length_Compress_bound [of "of_nat (length (fq_md5 q))"] length_Compress_bound [of "of_nat (length (fq_data q))"]
    by (intro positioned_start) (simp add: encode_string_def)
  note r0 = ReadData_positioned [OF p0, where 'a = 32, simplified]
  note p1 = positioned_advance [OF p0]
  note r1 = ReadData_positioned [OF p1, where 'a = 32, simplified]
  note p2 = positioned_advance [OF p1]
  note r2 = ReadData_string_positioned [OF len'(1) p2]
  note p3 = positioned_advance [OF p2]
  note r3 = ReadData_positioned [OF p3, where 'a = 32, simplified]
  note p4 = positioned_advance [OF p3]
  note r4 = ReadData_positioned [OF p4, where 'a = 32, simplified]
  note p5 = positioned_advance [OF p4]
  note r5 = ReadData_string_positioned [OF len'(2) p5]
  have "sint ?o = fq_offset q" "sint ?f = fq_filesize q"
    using assms by (simp_all add: file_request_ok_def sint_of_int32)
  then show ?thesis
    unfolding msg using r0 r1 r2 r3 r4 r5 by (intro exI conjI) simp_all
qed

lemma file_Process_request:
  assumes "file_request_ok q"
  shows "file_Process env c (file_request_bytes q) s =
    bind_result (this_file c s) (\<lambda>se.
      file_dispatch env c (fq_cmd q) (fq_md5 q) (fq_offset q) (fq_filesize q) (fq_data q)
        (set_file c (se\<lparr>f_seq := fq_seq q\<rparr>) s))"
  using file_request_fields [OF assms] assms by (auto simp: file_Process_def file_request_ok_def Let_def)

lemma run_file_msgs:
  "\<forall>q \<in> set qs. file_request_ok q \<Longrightarrow>
     run_msgs (file_Process env c) (file_close c) (map file_request_bytes qs) s = run_file env c qs s"
  by (induction qs arbitrary: s) (simp_all add: file_Process_request bind_result_assoc)

lemma run_file_append:
  "run_file env c (qs @ qs') s = bind_result (run_file env c qs s) (run_file env c qs')"
  by (induction qs arbitrary: s) (simp_all add: bind_result_assoc split_def)

subsection \<open>Uploads\<close>

fun uploads :: "bytes \<Rightarrow> int \<Rightarrow> nat \<Rightarrow> bytes list \<Rightarrow> file_request list" where
  "uploads md5 filesize off [] = []"
| "uploads md5 filesize off (x # xs) =
     \<lparr>fq_cmd = msg_type_upload_req, fq_seq = 0, fq_md5 = md5, fq_offset = int off, fq_filesize = filesize, fq_data = x\<rparr>
     # uploads md5 filesize (off + length x) xs"

text \<open>A client knows from the reply which piece was stored; offset and size \<open>-1\<close> say that the file is complete.\<close>

definition upload_reply :: "bytes \<Rightarrow> int \<Rightarrow> int \<Rightarrow> bytes" where
  "upload_reply md5 off filesize = file_packet (toString (file_message msg_type_upload_resp 0 md5 off filesize []))"

fun upload_replies :: "bytes \<Rightarrow> int \<Rightarrow> nat \<Rightarrow> bytes list \<Rightarrow> bytes list" where
  "upload_replies md5 filesize off [] = []"
| "upload_replies md5 filesize off [x] = [upload_reply md5 (-1) (-1)]"
| "upload_replies md5 filesize off (x # xs) =
     upload_reply md5 (int off) filesize # upload_replies md5 filesize (off + length x) xs"

definition unknown_file :: "'n file_env \<Rightarrow> bytes \<Rightarrow> 'n file_server \<Rightarrow> bool" where
  "unknown_file env md5 s \<longleftrightarrow> c_string md5 \<notin> set (m_listFiles s) \<and> \<not> fopen_r env (c_string md5) (f_disk s)"

lemma IsFileExsit_cases:
  "IsFileExsit env name s = (name \<in> set (m_listFiles s) \<or> fopen_r env name (f_disk s),
     if name \<in> set (m_listFiles s) \<or> \<not> fopen_r env name (f_disk s) then s
     else s\<lparr>m_listFiles := m_listFiles s @ [name]\<rparr>)"
  by (simp add: IsFileExsit_def)

lemma write_at_length: "write_at (length c) xs c = c @ xs"
  by (simp add: write_at_def)

text \<open>\<open>stored\<close> is what the file \<open>n\<close> holds when the next piece at \<open>length stored\<close> arrives.\<close>

definition upload_ready :: "'n file_env \<Rightarrow> conn \<Rightarrow> bytes \<Rightarrow> 'n \<Rightarrow> bytes \<Rightarrow> 'n file_server \<Rightarrow> bool" where
  "upload_ready env c md5 n stored s \<longleftrightarrow> md5 \<noteq> [] \<and> unknown_file env md5 s \<and> path_node env (c_string md5) \<noteq> Some n \<and>
     (\<exists>se fp. this_file c s = Inr se \<and> st_node fp = n \<and>
        upload_stream env md5 (int (length stored)) se (f_disk s) = (Some fp, (f_disk s)(n \<mapsto> stored)))"

lemma unknown_file_update:
  "path_node env (c_string md5) \<noteq> Some n \<Longrightarrow>
     fopen_r env (c_string md5) (d(n \<mapsto> x)) = fopen_r env (c_string md5) d"
  by (auto simp: fopen_r_def split: option.split)

lemma fwrite_piece:
  assumes "st_node fp = n" "xs \<noteq> []" "length stored + length xs \<le> size_limit env n"
  shows "fwrite env xs (fseek_set (int (length stored)) fp) (d(n \<mapsto> stored)) =
    (True, fp\<lparr>st_pos := length stored + length xs\<rparr>, d(n \<mapsto> stored @ xs))"
  using assms by (simp add: fwrite_def fseek_set_def file_bytes_def write_at_length min_def)

lemma upload_piece:
  assumes ready: "upload_ready env c md5 n stored s" and x: "x \<noteq> []"
    and room: "length stored + length x \<le> size_limit env n" "length stored + length x < 2 ^ 31" "is_int32 filesize"
  defines "final \<equiv> int (length stored + length x) = filesize"
  shows "\<exists>s' se'. run_file env c (uploads md5 filesize (length stored) [x]) s = Inr s' \<and>
    f_disk s' = (f_disk s)(n \<mapsto> stored @ x) \<and>
    m_listFiles s' = m_listFiles s @ (if final then [c_string md5] else []) \<and>
    f_outputs s' = f_outputs s @ [(c, if final then upload_reply md5 (-1) (-1) else upload_reply md5 (int (length stored)) filesize)] \<and>
    f_closed s' = f_closed s \<and> (\<forall>c'. c' \<noteq> c \<longrightarrow> this_file c' s' = this_file c' s) \<and>
    this_file c s' = Inr se' \<and>
    (if final then f_fp se' = None \<and> f_offset se' = 0 \<and> f_filesize se' = 0
     else \<exists>fp. f_fp se' = Some fp \<and> st_node fp = n)"
proof -
  obtain se fp where se: "this_file c s = Inr se" "st_node fp = n"
    "upload_stream env md5 (int (length stored)) se (f_disk s) = (Some fp, (f_disk s)(n \<mapsto> stored))"
    and new: "md5 \<noteq> []" "unknown_file env md5 s"
    using ready by (auto simp: upload_ready_def)
  have exists: "IsFileExsit env (c_string md5) (set_file c (se\<lparr>f_seq := 0\<rparr>) s) = (False, set_file c (se\<lparr>f_seq := 0\<rparr>) s)"
    using new(2) by (simp add: IsFileExsit_cases unknown_file_def)
  have stream: "upload_stream env md5 (int (length stored)) (se\<lparr>f_seq := 0\<rparr>) (f_disk s) = (Some fp, (f_disk s)(n \<mapsto> stored))"
    using se(3) by (simp add: upload_stream_def split: if_splits)
  have wrap: "wrap32 (int (length stored) + wrap32 (int (length x))) = int (length stored + length x)"
    using room(2) by (simp add: is_int32_def)
  have up: "OnUploadFileResponse env c md5 (int (length stored)) filesize x (set_file c (se\<lparr>f_seq := 0\<rparr>) s) =
      (let s2 = (set_file c (se\<lparr>f_seq := 0\<rparr>) s)\<lparr>f_disk := (f_disk s)(n \<mapsto> stored @ x)\<rparr>;
           se' = se\<lparr>f_seq := 0, f_fp := Some (fp\<lparr>st_pos := length stored + length x\<rparr>)\<rparr>
       in if final
          then Inr (file_send c (file_message msg_type_upload_resp 0 md5 (-1) (-1) [])
                 (set_file c (ResetFile se') (addFile (c_string md5) s2)))
          else Inr (file_send c (file_message msg_type_upload_resp 0 md5 (int (length stored)) filesize [])
                 (set_file c se' s2)))"
    using new(1) stream
    by (simp add: OnUploadFileResponse_def upload_store_def exists fwrite_piece [OF se(2) x room(1)] wrap final_def Let_def)
  show ?thesis
    using se up
    by (cases final) (simp_all add: file_dispatch_def file_msg_types Let_def upload_reply_def ResetFile_def)
qed

lemma upload_more:
  assumes "upload_ready env c md5 n stored s" "this_file c s' = Inr se'" "f_fp se' = Some fp" "st_node fp = n"
    and "f_disk s' = (f_disk s)(n \<mapsto> stored @ x)" "m_listFiles s' = m_listFiles s" "x \<noteq> []"
  shows "upload_ready env c md5 n (stored @ x) s'"
proof -
  have "int (length (stored @ x)) \<noteq> 0"
    using assms(7) by (simp only: of_nat_eq_0_iff length_0_conv append_is_Nil_conv) simp
  then have "upload_stream env md5 (int (length (stored @ x))) se' (f_disk s') = (Some fp, (f_disk s')(n \<mapsto> stored @ x))"
    using assms(3,5) by (simp only: upload_stream_def if_False) simp
  with assms show ?thesis
    by (auto simp: upload_ready_def unknown_file_def unknown_file_update simp del: length_append)
qed

lemma run_uploads:
  assumes "upload_ready env c md5 n stored s" "chunks \<noteq> []" "\<forall>x \<in> set chunks. x \<noteq> []"
    and "length (stored @ concat chunks) \<le> size_limit env n" "length (stored @ concat chunks) < 2 ^ 31"
  defines "filesize \<equiv> int (length (stored @ concat chunks))"
  shows "\<exists>s' se'. run_file env c (uploads md5 filesize (length stored) chunks) s = Inr s' \<and>
    f_disk s' = (f_disk s)(n \<mapsto> stored @ concat chunks) \<and>
    m_listFiles s' = m_listFiles s @ [c_string md5] \<and>
    f_outputs s' = f_outputs s @ map (Pair c) (upload_replies md5 filesize (length stored) chunks) \<and>
    f_closed s' = f_closed s \<and> (\<forall>c'. c' \<noteq> c \<longrightarrow> this_file c' s' = this_file c' s) \<and>
    this_file c s' = Inr se' \<and> f_fp se' = None \<and> f_offset se' = 0 \<and> f_filesize se' = 0"
  using assms(1-5) unfolding filesize_def
proof (induction chunks arbitrary: stored s)
  case Nil
  then show ?case by simp
next
  case (Cons x chunks)
  let ?size = "int (length (stored @ concat (x # chunks)))"
  have size: "is_int32 ?size"
    using Cons.prems by (simp add: is_int32_def)
  have x: "x \<noteq> []" "length stored + length x \<le> size_limit env n" "length stored + length x < 2 ^ 31"
    using Cons.prems by auto
  note piece = upload_piece [OF Cons.prems(1) x size]
  show ?case
  proof (cases "chunks = []")
    case True
    with piece show ?thesis by (simp add: fun_upd_def)
  next
    case False
    have "concat chunks \<noteq> []"
      using False Cons.prems(3) by auto
    then have more: "(int (length stored + length x) = ?size) = False"
      by simp
    from piece obtain s1 se1 fp where s1: "run_file env c (uploads md5 ?size (length stored) [x]) s = Inr s1"
        "f_disk s1 = (f_disk s)(n \<mapsto> stored @ x)" "m_listFiles s1 = m_listFiles s"
        "f_outputs s1 = f_outputs s @ [(c, upload_reply md5 (int (length stored)) ?size)]" "f_closed s1 = f_closed s"
        "\<forall>c'. c' \<noteq> c \<longrightarrow> this_file c' s1 = this_file c' s"
        "this_file c s1 = Inr se1" "f_fp se1 = Some fp" "st_node fp = n"
      unfolding more if_False append_Nil2 by blast
    have "upload_ready env c md5 n (stored @ x) s1"
      using upload_more [OF Cons.prems(1) s1(7-9,2,3)] x(1) by simp
    from Cons.IH [OF this False] Cons.prems obtain s' se' where s':
        "run_file env c (uploads md5 ?size (length stored + length x) chunks) s1 = Inr s'"
        "f_disk s' = (f_disk s1)(n \<mapsto> stored @ x @ concat chunks)" "m_listFiles s' = m_listFiles s1 @ [c_string md5]"
        "f_outputs s' = f_outputs s1 @ map (Pair c) (upload_replies md5 ?size (length stored + length x) chunks)"
        "f_closed s' = f_closed s1" "\<forall>c'. c' \<noteq> c \<longrightarrow> this_file c' s' = this_file c' s1"
        "this_file c s' = Inr se'" "f_fp se' = None" "f_offset se' = 0" "f_filesize se' = 0"
      by (auto simp: add.assoc fun_upd_def)
    have "run_file env c (uploads md5 ?size (length stored) (x # chunks)) s = Inr s'"
      using s1(1) s'(1) run_file_append [of env c "uploads md5 ?size (length stored) [x]"
          "uploads md5 ?size (length stored + length x) chunks" s] by simp
    moreover obtain y ys where "chunks = y # ys"
      using False by (cases chunks) auto
    moreover have "f_disk s' = (f_disk s)(n \<mapsto> stored @ concat (x # chunks))"
      using s1(2) s'(2) by simp
    ultimately show ?thesis
      using s1(1,3-) s'(1,3-) by (intro exI [of _ s'] exI [of _ se']) (simp add: fun_upd_def)
  qed
qed

lemma upload_ready_start:
  assumes "md5 \<noteq> []" "this_file c s = Inr se" "unknown_file env md5 s" "path_node env (c_string md5) \<noteq> Some n"
    and "path_node env (cache_name md5) = Some n" "\<not> is_directory env n"
      "if f_disk s n = None then may_create env n else may_write env n"
  shows "upload_ready env c md5 n [] s"
  using assms by (auto simp: upload_ready_def upload_stream_def fopen_w_def)

subsection \<open>Downloads\<close>

definition download :: "bytes \<Rightarrow> file_request" where
  "download md5 = \<lparr>fq_cmd = msg_type_download_req, fq_seq = 0, fq_md5 = md5, fq_offset = 0, fq_filesize = 0, fq_data = []\<rparr>"

definition download_reply :: "bytes \<Rightarrow> int \<Rightarrow> int \<Rightarrow> bytes \<Rightarrow> bytes" where
  "download_reply md5 off filesize x = file_packet (toString (file_message msg_type_download_resp 0 md5 off filesize x))"

fun download_replies :: "bytes \<Rightarrow> int \<Rightarrow> nat \<Rightarrow> bytes list \<Rightarrow> bytes list" where
  "download_replies md5 filesize off [] = []"
| "download_replies md5 filesize off (x # xs) =
     download_reply md5 (int off) filesize x # download_replies md5 filesize (off + length x) xs"

function blocks512 :: "bytes \<Rightarrow> bytes list" where
  "blocks512 s = (if s = [] then [] else take 524288 s # blocks512 (drop 524288 s))"
  by pat_completeness auto
termination
  by (relation "measure length") auto

declare blocks512.simps [simp del]

lemma concat_blocks512: "concat (blocks512 s) = s"
  by (induction s rule: blocks512.induct) (subst blocks512.simps, simp)

lemma length_blocks512: "x \<in> set (blocks512 s) \<Longrightarrow> length x \<le> 524288"
  by (induction s rule: blocks512.induct) (subst (asm) (2) blocks512.simps, auto split: if_splits)

definition idle :: "'n FileSession \<Rightarrow> bool" where
  "idle se \<longleftrightarrow> f_fp se = None \<and> f_offset se = 0 \<and> f_filesize se = 0"

definition download_ready :: "'n file_env \<Rightarrow> conn \<Rightarrow> bytes \<Rightarrow> 'n \<Rightarrow> bytes \<Rightarrow> nat \<Rightarrow> 'n file_server \<Rightarrow> bool" where
  "download_ready env c md5 n body off s \<longleftrightarrow> md5 \<noteq> [] \<and> c_string md5 \<in> set (m_listFiles s) \<and> f_disk s n = Some body \<and>
     (\<exists>se se1. this_file c s = Inr se \<and>
        open_download env md5 (f_disk s) se = (Some \<lparr>st_node = n, st_pos = off\<rparr>, se1) \<and>
        f_fp se1 = Some \<lparr>st_node = n, st_pos = off\<rparr> \<and>
        f_offset se1 = int off \<and> f_filesize se1 = int (length body))"

lemma open_download_seq:
  "open_download env md5 d (se\<lparr>f_seq := x\<rparr>) =
     (case open_download env md5 d se of (fp, se1) \<Rightarrow> (fp, se1\<lparr>f_seq := x\<rparr>))"
  by (simp add: open_download_def Let_def split: option.split)

lemma download_amount:
  assumes "off < len" "len < 2 ^ 31 - 2 ^ 19"
  shows "(if int len \<le> wrap32 (int off + block_size) then wrap32 (int len - int off) else block_size) =
      int (min 524288 (len - off))"
    and "wrap32 (int off + int (min 524288 (len - off))) = int (off + min 524288 (len - off))"
proof -
  have "is_int32 (int off + block_size)" "is_int32 (int len - int off)"
      "is_int32 (int off + int (min 524288 (len - off)))"
    using assms by (auto simp: is_int32_def block_size_def)
  then show "(if int len \<le> wrap32 (int off + block_size) then wrap32 (int len - int off) else block_size) =
      int (min 524288 (len - off))"
    and "wrap32 (int off + int (min 524288 (len - off))) = int (off + min 524288 (len - off))"
    using assms by (auto simp: block_size_def)
qed

lemma download_block:
  assumes ready: "download_ready env c md5 n body off s"
    and size: "off < length body" "length body < 2 ^ 31 - 2 ^ 19"
  defines "x \<equiv> take 524288 (drop off body)"
  shows "\<exists>s' se'. run_file env c [download md5] s = Inr s' \<and> f_disk s' = f_disk s \<and> m_listFiles s' = m_listFiles s \<and>
    f_outputs s' = f_outputs s @ [(c, download_reply md5 (int off) (int (length body)) x)] \<and>
    f_closed s' = f_closed s \<and> (\<forall>c'. c' \<noteq> c \<longrightarrow> this_file c' s' = this_file c' s) \<and> this_file c s' = Inr se' \<and>
    (if off + length x = length body then idle se' else download_ready env c md5 n body (off + length x) s')"
proof -
  let ?fp = "\<lparr>st_node = n, st_pos = off\<rparr>"
  obtain se se1 where se: "this_file c s = Inr se" "open_download env md5 (f_disk s) se = (Some ?fp, se1)"
      "f_fp se1 = Some ?fp" "f_offset se1 = int off" "f_filesize se1 = int (length body)"
    and known: "md5 \<noteq> []" "c_string md5 \<in> set (m_listFiles s)" "f_disk s n = Some body"
    using ready by (auto simp: download_ready_def)
  let ?s = "set_file c (se\<lparr>f_seq := 0\<rparr>) s" and ?fp' = "\<lparr>st_node = n, st_pos = off + length x\<rparr>"
  let ?se2 = "se1\<lparr>f_seq := 0, f_fp := Some ?fp', f_offset := int (off + length x)\<rparr>"
  have x: "length x = min 524288 (length body - off)" "fread (length x) ?fp (f_disk s) = (x, ?fp')"
    using known(3) by (simp_all add: x_def fread_def file_bytes_def min_def)
  have "0 < int (length x)" "int (length x) \<le> block_size"
    using size(1) by (simp_all add: x(1) block_size_def)
  moreover have "currentSendSize (se1\<lparr>f_seq := 0\<rparr>) = int (length x)"
    using download_amount(1) [OF size] se by (simp add: currentSendSize_def x(1) split: if_splits)
  ultimately have "OnDownloadFileResponse env c md5 0 0 ?s =
      Inr (set_file c (if off + length x = length body then ResetFile ?se2 else ?se2)
        (file_send c (file_message msg_type_download_resp 0 md5 (int off) (int (length body)) x) ?s))"
    using known se x(2) download_amount(2) [OF size, folded x(1)]
    by (simp add: OnDownloadFileResponse_def IsFileExsit_def open_download_seq download_send_def ResetFile_def Let_def)
  moreover have "download_ready env c md5 n body (off + length x) s'"
    if "m_listFiles s' = m_listFiles s" "f_disk s' = f_disk s" "this_file c s' = Inr (?se2\<lparr>f_seq := k\<rparr>)" for s' k
    using that known se(5) by (simp add: download_ready_def open_download_def)
  ultimately show ?thesis
    using se(1)
    by (simp add: download_def file_dispatch_def file_msg_types download_reply_def idle_def ResetFile_def)
qed

lemma run_downloads:
  assumes "download_ready env c md5 n body off s" "off < length body" "length body < 2 ^ 31 - 2 ^ 19"
  shows "\<exists>s' se'. run_file env c (replicate (length (blocks512 (drop off body))) (download md5)) s = Inr s' \<and>
    f_disk s' = f_disk s \<and> m_listFiles s' = m_listFiles s \<and>
    f_outputs s' = f_outputs s @ map (Pair c) (download_replies md5 (int (length body)) off (blocks512 (drop off body))) \<and>
    f_closed s' = f_closed s \<and> (\<forall>c'. c' \<noteq> c \<longrightarrow> this_file c' s' = this_file c' s) \<and> this_file c s' = Inr se' \<and> idle se'"
  using assms
proof (induction "length body - off" arbitrary: off s rule: less_induct)
  case less
  define x where "x = take 524288 (drop off body)"
  have blocks: "blocks512 (drop off body) = x # blocks512 (drop (off + length x) body)"
    using less.prems(2) by (subst blocks512.simps) (simp add: x_def min_def add.commute)
  have x: "0 < length x" "off + length x \<le> length body"
    using less.prems(2) by (auto simp: x_def)
  from download_block [OF less.prems, folded x_def] obtain s1 se1
    where s1: "run_file env c [download md5] s = Inr s1" "f_disk s1 = f_disk s" "m_listFiles s1 = m_listFiles s"
      "f_outputs s1 = f_outputs s @ [(c, download_reply md5 (int off) (int (length body)) x)]"
      "f_closed s1 = f_closed s" "\<forall>c'. c' \<noteq> c \<longrightarrow> this_file c' s1 = this_file c' s" "this_file c s1 = Inr se1"
      and next_state: "if off + length x = length body then idle se1 else download_ready env c md5 n body (off + length x) s1"
    by blast
  show ?case
  proof (cases "off + length x = length body")
    case True
    then have "blocks512 (drop (off + length x) body) = []"
      by (simp add: blocks512.simps)
    with True s1 next_state show ?thesis
      by (simp add: blocks)
  next
    case False
    with x have "off + length x < length body" "length body - (off + length x) < length body - off"
      by linarith+
    moreover have "download_ready env c md5 n body (off + length x) s1"
      using False next_state by simp
    ultimately obtain s' se'
      where s': "run_file env c (replicate (length (blocks512 (drop (off + length x) body))) (download md5)) s1 = Inr s'"
        "f_disk s' = f_disk s1" "m_listFiles s' = m_listFiles s1"
        "f_outputs s' = f_outputs s1 @ map (Pair c) (download_replies md5 (int (length body)) (off + length x) (blocks512 (drop (off + length x) body)))"
        "f_closed s' = f_closed s1" "\<forall>c'. c' \<noteq> c \<longrightarrow> this_file c' s' = this_file c' s1" "this_file c s' = Inr se'" "idle se'"
      using less.hyps [of "off + length x" s1] less.prems(3) by blast
    have "run_file env c (replicate (length (blocks512 (drop off body))) (download md5)) s = Inr s'"
      using s1(1) s'(1) run_file_append [of env c "[download md5]"] by (simp add: blocks)
    with s1 s' show ?thesis
      by (simp add: blocks)
  qed
qed

lemma download_ready_start:
  assumes "md5 \<noteq> []" "c_string md5 \<in> set (m_listFiles s)" "this_file c s = Inr se" "idle se"
    and "path_node env (cache_name md5) = Some n" "\<not> is_directory env n" "may_read env n" "may_write env n"
    and "f_disk s n = Some body" "body \<noteq> []" "length body < 2 ^ 31"
  shows "download_ready env c md5 n body 0 s"
proof -
  have "is_int32 (int (length body))"
    using assms(11) by (simp add: is_int32_def)
  with assms show ?thesis
    by (simp add: download_ready_def open_download_def fopen_rw_def idle_def fseek_end_def file_bytes_def fseek_set_def Let_def)
qed

subsection \<open>Over TCP\<close>

lemma file_fits_request: "file_request_ok q \<Longrightarrow> file_fits (file_request_bytes q)"
  using length_Compress_bound [of "of_nat (length (fq_md5 q))"] length_Compress_bound [of "of_nat (length (fq_data q))"]
  by (simp add: file_fits_def file_request_ok_def file_request_bytes_def toString_file_message encode_string_def)

lemma file_requests_received:
  assumes "concat cs = concat (map (\<lambda>q. file_packet (file_request_bytes q)) qs)"
    and "\<forall>q \<in> set qs. file_request_ok q" "length (concat cs) < 2 ^ 63" "\<forall>d \<in> set cs. length d \<le> extrabuf_size"
  shows "\<exists>b'. buf_ok b' \<and> content b' = [] \<and>
    receive (file_OnRead env c) cs (mk_Buffer kInitialSize) s = bind_result (run_file env c qs s) (\<lambda>s'. Inr (b', s'))"
proof -
  have "\<forall>m \<in> set (map file_request_bytes qs). file_fits m"
    using assms(2) by (auto intro: file_fits_request)
  then show ?thesis
    using file_stream.receive_from_start [where cs = cs and ms = "map file_request_bytes qs"
        and p = "file_Process env c" and c = "file_close c" and s = s] assms
    by (simp add: file_OnRead_def run_file_msgs comp_def)
qed

lemma uploads_ok:
  "md5 \<noteq> [] \<Longrightarrow> length md5 < 2 ^ 30 \<Longrightarrow> \<forall>x \<in> set chunks. length x < 2 ^ 30 \<Longrightarrow> is_int32 filesize \<Longrightarrow>
     off + length (concat chunks) < 2 ^ 31 \<Longrightarrow> q \<in> set (uploads md5 filesize off chunks) \<Longrightarrow> file_request_ok q"
  by (induction md5 filesize off chunks rule: uploads.induct) (auto simp: file_request_ok_def is_int32_def)

lemma download_ok: "md5 \<noteq> [] \<Longrightarrow> length md5 < 2 ^ 30 \<Longrightarrow> file_request_ok (download md5)"
  by (simp add: download_def file_request_ok_def is_int32_def)

text \<open>A file that can be stored in the cache: it is not known yet, no path of that name is readable in the
  working directory, and its path in the cache denotes a node that may be created or overwritten and read.\<close>

definition storable :: "'n file_env \<Rightarrow> bytes \<Rightarrow> 'n \<Rightarrow> 'n file_server \<Rightarrow> bool" where
  "storable env md5 n s \<longleftrightarrow> md5 \<noteq> [] \<and> length md5 < 2 ^ 30 \<and> unknown_file env md5 s \<and>
     path_node env (c_string md5) \<noteq> Some n \<and> path_node env (cache_name md5) = Some n \<and> \<not> is_directory env n \<and>
     may_create env n \<and> may_write env n \<and> may_read env n"

lemma upload_then_download:
  assumes st: "storable env md5 n s" and up: "this_file c1 s = Inr se1"
    and down: "this_file c2 s = Inr se2" "idle se2 \<or> c1 = c2"
    and chunks: "chunks \<noteq> []" "\<forall>x \<in> set chunks. x \<noteq> []"
    and size: "length (concat chunks) \<le> size_limit env n" "length (concat chunks) < 2 ^ 31 - 2 ^ 19"
  defines "body \<equiv> concat chunks"
  shows "\<exists>s1 s2. run_file env c1 (uploads md5 (int (length body)) 0 chunks) s = Inr s1 \<and>
    run_file env c2 (replicate (length (blocks512 body)) (download md5)) s1 = Inr s2 \<and>
    f_disk s2 = (f_disk s)(n \<mapsto> body) \<and> f_closed s2 = f_closed s \<and>
    f_outputs s2 = f_outputs s @ map (Pair c1) (upload_replies md5 (int (length body)) 0 chunks) @
      map (Pair c2) (download_replies md5 (int (length body)) 0 (blocks512 body))"
proof -
  have "upload_ready env c1 md5 n [] s"
    using st up by (intro upload_ready_start) (auto simp: storable_def)
  from run_uploads [OF this chunks] size obtain s1 se where s1:
      "run_file env c1 (uploads md5 (int (length body)) 0 chunks) s = Inr s1" "f_disk s1 = (f_disk s)(n \<mapsto> body)"
      "m_listFiles s1 = m_listFiles s @ [c_string md5]" "f_closed s1 = f_closed s"
      "f_outputs s1 = f_outputs s @ map (Pair c1) (upload_replies md5 (int (length body)) 0 chunks)"
      "\<forall>c'. c' \<noteq> c1 \<longrightarrow> this_file c' s1 = this_file c' s" "this_file c1 s1 = Inr se" "idle se"
    unfolding body_def idle_def by (auto simp: fun_upd_def)
  have body: "body \<noteq> []" "length body < 2 ^ 31" "0 < length body" "length body < 2 ^ 31 - 2 ^ 19"
    using chunks size by (auto simp: body_def neq_Nil_conv)
  obtain se' where "this_file c2 s1 = Inr se'" "idle se'"
    using s1(6-8) down by (cases "c1 = c2") auto
  then have "download_ready env c2 md5 n body 0 s1"
    using st s1(2,3) body by (intro download_ready_start) (auto simp: storable_def)
  from run_downloads [OF this body(3,4)] s1 show ?thesis
    by auto
qed

subsection \<open>Properties\<close>

definition sent_bytes :: "file_request list \<Rightarrow> bytes" where
  "sent_bytes qs = concat (map (\<lambda>q. fst (FileTcpSession_Send (file_message (fq_cmd q) (fq_seq q) (fq_md5 q)
     (fq_offset q) (fq_filesize q) (fq_data q)))) qs)"

lemma sent_bytes_packets: "sent_bytes qs = concat (map (\<lambda>q. file_packet (file_request_bytes q)) qs)"
  by (simp add: sent_bytes_def FileTcpSession_Send_packet file_request_bytes_def)

text \<open>C5: A stored file comes back. If a client uploads a file in pieces over one connection and a client then
  asks for it over the same or another idle connection, then however TCP cuts the two streams, every piece is
  acknowledged with its offset, the last one with \<open>-1\<close>, the file in the cache holds exactly the uploaded bytes, and
  the replies to the download requests carry consecutive blocks of at most 512 KB with their offsets and the size
  of the file, which together are the uploaded bytes. In the reply to a download the offset comes before the size, as in a
  request; \<open>FileMsg.h\<close> documents the size first. Files are below two gigabytes less one block.\<close>

theorem stored_file_comes_back:
  assumes "storable env md5 n s" "this_file c1 s = Inr se1" "this_file c2 s = Inr se2" "idle se2 \<or> c1 = c2"
    and "chunks \<noteq> []" "\<forall>x \<in> set chunks. x \<noteq> [] \<and> length x < 2 ^ 30"
    and "length (concat chunks) \<le> size_limit env n" "length (concat chunks) < 2 ^ 31 - 2 ^ 19"
    and "concat cs1 = sent_bytes (uploads md5 (int (length (concat chunks))) 0 chunks)"
    and "concat cs2 = sent_bytes (replicate (length (blocks512 (concat chunks))) (download md5))"
    and "length (concat cs1) < 2 ^ 63" "length (concat cs2) < 2 ^ 63"
    and "\<forall>d \<in> set cs1 \<union> set cs2. length d \<le> extrabuf_size"
  shows "concat (blocks512 (concat chunks)) = concat chunks \<and> (\<forall>b \<in> set (blocks512 (concat chunks)). length b \<le> 512 * 1024) \<and>
    (\<exists>b1 s1 b2 s2. receive (file_OnRead env c1) cs1 (mk_Buffer kInitialSize) s = Inr (b1, s1) \<and>
      receive (file_OnRead env c2) cs2 (mk_Buffer kInitialSize) s1 = Inr (b2, s2) \<and>
      f_disk s2 = (f_disk s)(n \<mapsto> concat chunks) \<and> f_closed s2 = f_closed s \<and>
      f_outputs s2 = f_outputs s @ map (Pair c1) (upload_replies md5 (int (length (concat chunks))) 0 chunks) @
        map (Pair c2) (download_replies md5 (int (length (concat chunks))) 0 (blocks512 (concat chunks))))"
proof -
  let ?body = "concat chunks"
  have ne: "\<forall>x \<in> set chunks. x \<noteq> []" and md5: "md5 \<noteq> []" "length md5 < 2 ^ 30"
    using assms(1,6) by (auto simp: storable_def)
  from upload_then_download [OF assms(1-5) ne assms(7,8)] obtain s1 s2 where run:
      "run_file env c1 (uploads md5 (int (length ?body)) 0 chunks) s = Inr s1"
      "run_file env c2 (replicate (length (blocks512 ?body)) (download md5)) s1 = Inr s2"
      "f_disk s2 = (f_disk s)(n \<mapsto> ?body)" "f_closed s2 = f_closed s"
      "f_outputs s2 = f_outputs s @ map (Pair c1) (upload_replies md5 (int (length ?body)) 0 chunks) @
        map (Pair c2) (download_replies md5 (int (length ?body)) 0 (blocks512 ?body))"
    by blast
  have "\<forall>q \<in> set (uploads md5 (int (length ?body)) 0 chunks). file_request_ok q"
    using uploads_ok [OF md5, of chunks "int (length ?body)" 0] assms(6,8) by (auto simp: is_int32_def)
  from file_requests_received [OF assms(9) [unfolded sent_bytes_packets] this assms(11), of env c1 s] assms(13) run(1)
  obtain b1 where r1: "receive (file_OnRead env c1) cs1 (mk_Buffer kInitialSize) s = Inr (b1, s1)"
    by auto
  have "\<forall>q \<in> set (replicate (length (blocks512 ?body)) (download md5)). file_request_ok q"
    using download_ok [OF md5] by simp
  from file_requests_received [OF assms(10) [unfolded sent_bytes_packets] this assms(12), of env c2 s1] assms(13) run(2)
  obtain b2 where "receive (file_OnRead env c2) cs2 (mk_Buffer kInitialSize) s1 = Inr (b2, s2)"
    by auto
  with r1 run(3-5) show ?thesis
    using length_blocks512 [of _ ?body] by (intro conjI exI) (auto simp: concat_blocks512)
qed

lemma length_request_packet:
  "file_request_ok q \<Longrightarrow> length (file_packet (file_request_bytes q)) \<le> 40 + length (fq_md5 q) + length (fq_data q)"
  using length_Compress_bound [of "of_nat (length (fq_md5 q))"] length_Compress_bound [of "of_nat (length (fq_data q))"]
  by (simp add: file_packet_def file_request_ok_def file_request_bytes_def toString_file_message encode_string_def)

definition open_env :: "bytes file_env" where
  "open_env = \<lparr>path_node = Some, is_directory = (\<lambda>_. False), may_read = (\<lambda>_. True), may_write = (\<lambda>_. True),
     may_create = (\<lambda>_. True), size_limit = (\<lambda>_. 1000000)\<rparr>"

definition empty_file_server :: "bytes file_server" where
  "empty_file_server = \<lparr>m_listFiles = [], f_disk = (\<lambda>_. None), f_sessions = [], f_outputs = [], f_closed = []\<rparr>"

definition demo_file_server :: "bytes file_server" where
  "demo_file_server = File_OnConnection True 32 (File_OnConnection True 16 empty_file_server)"

lemma demo_file_sessions: "this_file 16 demo_file_server = Inr new_FileSession" "this_file 32 demo_file_server = Inr new_FileSession"
  by (simp_all add: demo_file_server_def this_file_def File_OnConnection_def empty_file_server_def omap_find_insert omap_find_def)

lemma demo_storable: "storable open_env (lit ''ab'') (lit ''filecache/ab'') demo_file_server"
  by (simp add: storable_def unknown_file_def demo_file_server_def empty_file_server_def File_OnConnection_def open_env_def
      cache_name_def c_string_def lit_def fopen_r_def)

lemma demo_blocks: "blocks512 (lit ''hello'') = [lit ''hello'']"
  by (simp add: blocks512.simps lit_def)

theorem stored_file_comes_back_witness:
  "\<exists>b1 s1 b2 s2. receive (file_OnRead open_env 16) [sent_bytes (uploads (lit ''ab'') 5 0 [lit ''he'', lit ''llo''])] (mk_Buffer kInitialSize) demo_file_server = Inr (b1, s1) \<and>
      receive (file_OnRead open_env 32) [sent_bytes [download (lit ''ab'')]] (mk_Buffer kInitialSize) s1 = Inr (b2, s2) \<and>
      f_disk s2 (lit ''filecache/ab'') = Some (lit ''hello'') \<and>
      f_outputs s2 = [(16, upload_reply (lit ''ab'') 0 5), (16, upload_reply (lit ''ab'') (-1) (-1)),
        (32, download_reply (lit ''ab'') 0 5 (lit ''hello''))]"
proof -
  have body: "concat [lit ''he'', lit ''llo''] = lit ''hello''" "length (lit ''hello'') = 5" "length (lit ''he'') = 2"
    by (simp_all add: lit_def)
  have len: "length (sent_bytes (uploads (lit ''ab'') 5 0 [lit ''he'', lit ''llo''])) \<le> 100"
      "length (sent_bytes [download (lit ''ab'')]) \<le> 100"
    using length_request_packet [of "uploads (lit ''ab'') 5 0 [lit ''he'', lit ''llo''] ! 0"]
      length_request_packet [of "uploads (lit ''ab'') 5 0 [lit ''he'', lit ''llo''] ! 1"]
      length_request_packet [of "download (lit ''ab'')"]
    by (simp_all add: sent_bytes_packets file_request_ok_def download_def is_int32_def lit_def)
  have out: "f_outputs demo_file_server = []" "size_limit open_env (lit ''filecache/ab'') = 1000000"
    by (simp_all add: demo_file_server_def File_OnConnection_def empty_file_server_def open_env_def)
  let ?chunks = "[lit ''he'', lit ''llo'']"
  let ?cs1 = "[sent_bytes (uploads (lit ''ab'') 5 0 ?chunks)]" and ?cs2 = "[sent_bytes [download (lit ''ab'')]]"
  have idle: "idle (new_FileSession :: bytes FileSession) \<or> 16 = (32 :: conn)"
    by (simp add: idle_def new_FileSession_def)
  have chunks: "?chunks \<noteq> []" "\<forall>x \<in> set ?chunks. x \<noteq> [] \<and> length x < 2 ^ 30"
      "length (concat ?chunks) \<le> size_limit open_env (lit ''filecache/ab'')" "length (concat ?chunks) < 2 ^ 31 - 2 ^ 19"
    by (simp_all add: lit_def open_env_def)
  have cs1: "concat ?cs1 = sent_bytes (uploads (lit ''ab'') (int (length (concat ?chunks))) 0 ?chunks)"
    and cs2: "concat ?cs2 = sent_bytes (replicate (length (blocks512 (concat ?chunks))) (download (lit ''ab'')))"
    by (simp_all only: body demo_blocks) simp_all
  have small: "length (concat ?cs1) < 2 ^ 63" "length (concat ?cs2) < 2 ^ 63"
      "\<forall>d \<in> set ?cs1 \<union> set ?cs2. length d \<le> extrabuf_size"
    using len by (simp_all add: extrabuf_size_def del: uploads.simps)
  have replies: "upload_replies (lit ''ab'') (int 5) 0 ?chunks = [upload_reply (lit ''ab'') 0 5, upload_reply (lit ''ab'') (-1) (-1)]"
      "download_replies (lit ''ab'') (int 5) 0 [lit ''hello''] = [download_reply (lit ''ab'') 0 5 (lit ''hello'')]"
    by simp_all
  from stored_file_comes_back [OF demo_storable demo_file_sessions idle chunks cs1 cs2 small, unfolded body demo_blocks replies out]
  obtain b1 s1 b2 s2 where
    "receive (file_OnRead open_env 16) ?cs1 (mk_Buffer kInitialSize) demo_file_server = Inr (b1, s1)"
    "receive (file_OnRead open_env 32) ?cs2 (mk_Buffer kInitialSize) s1 = Inr (b2, s2)"
    "f_disk s2 = (f_disk demo_file_server)(lit ''filecache/ab'' \<mapsto> lit ''hello'')"
    "f_outputs s2 = map (Pair 16) [upload_reply (lit ''ab'') 0 5, upload_reply (lit ''ab'') (-1) (-1)] @
       map (Pair 32) [download_reply (lit ''ab'') 0 5 (lit ''hello'')]"
    unfolding append_Nil by blast
  then show ?thesis
    by (intro exI conjI) simp_all
qed

subsection \<open>The invariant of the sessions\<close>

text \<open>Offset and size stay in the range in which adding a block does not overflow, and an open stream has its file. The
  offset need not be within the size: a failed \<open>fopen\<close> of an upload clears \<open>m_fp\<close> and leaves both, and the next download
  sets the size only.\<close>

definition file_session_ok :: "'n file_env \<Rightarrow> 'n disk \<Rightarrow> 'n FileSession \<Rightarrow> bool" where
  "file_session_ok env d se \<longleftrightarrow>
     0 \<le> f_offset se \<and> f_offset se < 2 ^ 31 - 2 ^ 19 \<and> 0 \<le> f_filesize se \<and> f_filesize se < 2 ^ 31 - 2 ^ 19 \<and>
     (case f_fp se of None \<Rightarrow> True | Some fp \<Rightarrow> d (st_node fp) \<noteq> None)"

definition file_inv :: "'n file_env \<Rightarrow> 'n file_server \<Rightarrow> bool" where
  "file_inv env s \<longleftrightarrow> omap_ok (f_sessions s) \<and>
     (\<forall>n b. f_disk s n = Some b \<longrightarrow> length b \<le> size_limit env n) \<and>
     (\<forall>k se. omap_find k (f_sessions s) = Some se \<longrightarrow> file_session_ok env (f_disk s) se)"

lemma length_write_at: "length (write_at pos xs b) = max (length b) (pos + length xs)"
  by (auto simp: write_at_def)

lemma this_file_iff: "this_file c s = Inr se \<longleftrightarrow> omap_find (ptr_text c) (f_sessions s) = Some se"
  by (simp add: this_file_def split: option.split)

lemma file_inv_send [simp]: "file_inv env (file_send c w s) = file_inv env s"
  by (simp add: file_inv_def)

lemma file_inv_list [simp]:
  "file_inv env (s\<lparr>m_listFiles := l\<rparr>) = file_inv env s" "file_inv env (addFile x s) = file_inv env s"
  "file_inv env (file_close c s) = file_inv env s"
  by (simp_all add: file_inv_def file_close_def)

lemma file_inv_session: "file_inv env s \<Longrightarrow> this_file c s = Inr se \<Longrightarrow> file_session_ok env (f_disk s) se"
  by (auto simp: file_inv_def this_file_iff)

lemma file_inv_set: "file_inv env s \<Longrightarrow> file_session_ok env (f_disk s) se \<Longrightarrow> file_inv env (set_file c se s)"
  by (auto simp: file_inv_def set_file_def omap_find_assign)

lemma file_session_ok_disk: "file_session_ok env d se \<Longrightarrow> file_session_ok env (d(n \<mapsto> b)) se"
  by (simp add: file_session_ok_def split: option.splits)

lemma file_inv_disk:
  "file_inv env s \<Longrightarrow> length b \<le> size_limit env n \<Longrightarrow> file_inv env (s\<lparr>f_disk := (f_disk s)(n \<mapsto> b)\<rparr>)"
  by (auto simp: file_inv_def intro: file_session_ok_disk)

lemma open_download_ok:
  assumes "file_inv env s" "\<forall>n. size_limit env n < 2 ^ 31 - 2 ^ 19" "file_session_ok env (f_disk s) se"
    and "open_download env md5 (f_disk s) se = (fpo, se1)"
  shows "file_session_ok env (f_disk s) se1 \<and> (fpo \<noteq> None \<longrightarrow> f_fp se1 = fpo)"
proof (cases "f_fp se")
  case None
  show ?thesis
  proof (cases "fopen_rw env (cache_name md5) (f_disk s)")
    case fp: (Some fp)
    then obtain b where b: "f_disk s (st_node fp) = Some b"
      by (auto simp: fopen_rw_def split: option.splits if_splits)
    then have "length b \<le> size_limit env (st_node fp)"
      using assms(1) by (simp add: file_inv_def)
    with assms(2) have "length b < 2 ^ 31 - 2 ^ 19"
      using le_less_trans by blast
    then have "wrap32 (int (length b)) = int (length b)" "int (length b) < 2 ^ 31 - 2 ^ 19"
      by (simp_all add: is_int32_def)
    with assms(3,4) None fp b show ?thesis
      by (auto simp: open_download_def fseek_end_def fseek_set_def file_bytes_def file_session_ok_def Let_def split: if_splits)
  qed (use assms(3,4) None in \<open>simp add: open_download_def\<close>)
qed (use assms(3,4) in \<open>auto simp: open_download_def\<close>)

lemma download_send_ok:
  assumes "file_inv env s" "file_session_ok env (f_disk s) se" "f_fp se = Some fp" "f_offset se \<le> f_filesize se"
  shows "\<exists>s'. download_send c md5 fp se s = Inr s' \<and> file_inv env s'"
proof -
  have range: "0 \<le> f_offset se" "f_offset se \<le> f_filesize se" "f_filesize se < 2 ^ 31 - 2 ^ 19"
    using assms(2,4) by (simp_all add: file_session_ok_def)
  then have "is_int32 (f_offset se + block_size)" "is_int32 (f_filesize se - f_offset se)"
    by (auto simp: is_int32_def block_size_def)
  then have n: "0 \<le> currentSendSize se" "currentSendSize se \<le> block_size" "f_offset se + currentSendSize se \<le> f_filesize se"
    using range by (auto simp: currentSendSize_def block_size_def)
  then have w: "wrap32 (f_offset se + currentSendSize se) = f_offset se + currentSendSize se"
    using range by (intro wrap32_id) (simp add: is_int32_def)
  obtain got fp' where got: "(if currentSendSize se \<le> 0 then ([], fp) else fread (nat (currentSendSize se)) fp (f_disk s)) = (got, fp')"
    by force
  define se' where "se' = se\<lparr>f_fp := Some fp', f_offset := f_offset se + currentSendSize se\<rparr>"
  have "st_node fp' = st_node fp"
    using got by (auto simp: fread_def Let_def split: if_splits)
  then have "file_session_ok env (f_disk s) se'" "file_session_ok env (f_disk s) (ResetFile se')"
    using assms(2,3) n range by (simp_all add: file_session_ok_def se'_def ResetFile_def)
  then have "file_inv env (set_file c (if f_offset se' = f_filesize se' then ResetFile se' else se') (file_send c w s))" for w
    using assms(1) by (intro file_inv_set) simp_all
  then show ?thesis
    unfolding download_send_def Let_def got prod.case w se'_def [symmetric] using n by simp
qed

lemma download_send_stale:
  assumes "file_session_ok env d se" "f_filesize se < f_offset se"
  shows "download_send c md5 fp se s = Inl LengthError"
proof -
  have "is_int32 (f_offset se + block_size)" "is_int32 (f_filesize se - f_offset se)"
    using assms(1) by (auto simp: file_session_ok_def is_int32_def block_size_def)
  then have "currentSendSize se < 0" using assms(2) by (simp add: currentSendSize_def block_size_def)
  then show ?thesis by (simp add: download_send_def)
qed

text \<open>A download whose session stands behind the end of the file it reads, once that is open.\<close>

definition stale_download :: "'n file_env \<Rightarrow> bytes \<Rightarrow> 'n FileSession \<Rightarrow> 'n file_server \<Rightarrow> bool" where
  "stale_download env md5 se s \<longleftrightarrow> md5 \<noteq> [] \<and> fst (IsFileExsit env (c_string md5) s) \<and>
     (case open_download env md5 (f_disk s) se of (fpo, se1) \<Rightarrow> fpo \<noteq> None \<and> f_filesize se1 < f_offset se1)"

lemma download_outcome:
  assumes "file_inv env s" "\<forall>n. size_limit env n < 2 ^ 31 - 2 ^ 19" "this_file c s = Inr se"
  shows "if stale_download env md5 se s then OnDownloadFileResponse env c md5 offset filesize s = Inl LengthError
    else \<exists>s'. OnDownloadFileResponse env c md5 offset filesize s = Inr s' \<and> file_inv env s'"
proof -
  obtain found s1 where found: "IsFileExsit env (c_string md5) s = (found, s1)"
    by force
  then have s1: "file_inv env s1" "f_disk s1 = f_disk s"
    using assms(1) by (auto simp: IsFileExsit_def split: if_splits)
  obtain fpo se1 where op: "open_download env md5 (f_disk s1) se = (fpo, se1)"
    by force
  have "file_session_ok env (f_disk s1) se"
    using file_inv_session [OF assms(1,3)] s1(2) by simp
  from open_download_ok [OF s1(1) assms(2) this op] have se1: "file_session_ok env (f_disk s1) se1" "fpo \<noteq> None \<longrightarrow> f_fp se1 = fpo"
    by auto
  have stale: "stale_download env md5 se s \<longleftrightarrow> md5 \<noteq> [] \<and> found \<and> fpo \<noteq> None \<and> f_filesize se1 < f_offset se1"
    using found op s1(2) by (simp add: stale_download_def)
  show ?thesis
  proof (cases "md5 \<noteq> [] \<and> found \<and> fpo \<noteq> None")
    case True
    then show ?thesis
      using stale found op assms(3) se1 download_send_stale [OF se1(1)] download_send_ok [OF s1(1) se1(1)]
      by (auto simp: OnDownloadFileResponse_def)
  next
    case False
    have "file_inv env (set_file c se1 s1)" using file_inv_set [OF s1(1) se1(1)] .
    with False show ?thesis
      using stale found op assms(1,3) s1 by (cases found) (auto simp: OnDownloadFileResponse_def)
  qed
qed

lemma fopen_w_ok:
  assumes "fopen_w env name d = (Some fp, d')"
  shows "\<exists>n. d' = d(n \<mapsto> []) \<and> st_node fp = n"
  using assms by (auto simp: fopen_w_def split: option.splits if_splits)

lemma fwrite_ok:
  assumes "fwrite env xs fp d = (ok, fp', d')" "d (st_node fp) = Some b" "length b \<le> size_limit env (st_node fp)"
  shows "st_node fp' = st_node fp \<and> (\<exists>b'. d' = d(st_node fp \<mapsto> b') \<and> length b' \<le> size_limit env (st_node fp))"
proof (cases "min (length xs) (size_limit env (st_node fp) - st_pos fp) = 0")
  case True
  then have "fp' = fp" "d' = d(st_node fp \<mapsto> b)"
    using assms(1,2) by (auto simp: fwrite_def Let_def fun_upd_idem)
  with assms(3) show ?thesis by blast
next
  case False
  let ?n = "min (length xs) (size_limit env (st_node fp) - st_pos fp)"
  have "fp' = fp\<lparr>st_pos := st_pos fp + ?n\<rparr>" "d' = d(st_node fp \<mapsto> write_at (st_pos fp) (take ?n xs) b)"
    using assms(1,2) False by (auto simp: fwrite_def Let_def file_bytes_def)
  moreover have "length (write_at (st_pos fp) (take ?n xs) b) \<le> size_limit env (st_node fp)"
  proof -
    have "st_pos fp + ?n \<le> size_limit env (st_node fp)"
      using False by linarith
    with assms(3) show ?thesis
      by (simp add: length_write_at)
  qed
  ultimately show ?thesis by auto
qed

lemma st_node_fseek [simp]: "st_node (fseek_set offset fp) = st_node fp"
  by (simp add: fseek_set_def)

lemma upload_store_ok:
  assumes "file_inv env (s\<lparr>f_disk := d\<rparr>)" "file_session_ok env d (se\<lparr>f_fp := Some fp\<rparr>)"
  shows "file_inv env (upload_store env c md5 offset filesize xs se fp d s)"
proof -
  obtain ok fp' d' where w: "fwrite env xs (fseek_set offset fp) d = (ok, fp', d')"
    using prod_cases3 by blast
  obtain b where b: "d (st_node fp) = Some b"
    using assms(2) by (auto simp: file_session_ok_def)
  then have "length b \<le> size_limit env (st_node fp)"
    using assms(1) by (simp add: file_inv_def)
  then obtain b' where b': "st_node fp' = st_node fp" "d' = d(st_node fp \<mapsto> b')" "length b' \<le> size_limit env (st_node fp)"
    using fwrite_ok [OF w] b by auto
  have inv: "file_inv env (s\<lparr>f_disk := d'\<rparr>)"
    using file_inv_disk [OF assms(1) b'(3)] b'(2) by simp
  have "file_session_ok env d' (se\<lparr>f_fp := Some fp'\<rparr>)" "file_session_ok env d' (ResetFile (se\<lparr>f_fp := Some fp'\<rparr>))"
    using assms(2) b' by (auto simp: file_session_ok_def ResetFile_def)
  with inv w show ?thesis
    by (cases ok) (auto simp: upload_store_def Let_def intro!: file_inv_set)
qed

text \<open>A piece of an upload for which there is no stream.\<close>

definition streamless_upload :: "'n file_env \<Rightarrow> bytes \<Rightarrow> int \<Rightarrow> 'n FileSession \<Rightarrow> 'n file_server \<Rightarrow> bool" where
  "streamless_upload env md5 offset se s \<longleftrightarrow> md5 \<noteq> [] \<and> unknown_file env md5 s \<and> offset \<noteq> 0 \<and> f_fp se = None"

lemma upload_outcome:
  assumes inv: "file_inv env s" and se: "this_file c s = Inr se"
  shows "if streamless_upload env md5 offset se s then OnUploadFileResponse env c md5 offset filesize xs s = Inl NullDeref
    else \<exists>s'. OnUploadFileResponse env c md5 offset filesize xs s = Inr s' \<and> file_inv env s'"
proof -
  have ok: "file_session_ok env (f_disk s) se"
    using file_inv_session [OF inv se] .
  obtain found s1 where found: "IsFileExsit env (c_string md5) s = (found, s1)"
    by force
  obtain fpo d where st: "upload_stream env md5 offset se (f_disk s) = (fpo, d)"
    by force
  have unknown: "unknown_file env md5 s \<longleftrightarrow> \<not> found"
    using found by (auto simp: IsFileExsit_def unknown_file_def split: if_splits)
  consider "md5 = []" | "md5 \<noteq> []" "found" | "md5 \<noteq> []" "\<not> found" "fpo = None" | fp where "md5 \<noteq> []" "\<not> found" "fpo = Some fp"
    by blast
  then show ?thesis
  proof cases
    case 2
    then show ?thesis
      using found se inv unknown by (auto simp: OnUploadFileResponse_def IsFileExsit_def streamless_upload_def split: if_splits)
  next
    case 3
    then have "s1 = s"
      using found by (auto simp: IsFileExsit_def split: if_splits)
    with 3 show ?thesis
      using found st se inv ok unknown
      by (auto simp: OnUploadFileResponse_def upload_stream_def file_session_ok_def streamless_upload_def split: if_splits intro!: file_inv_set)
  next
    case 4
    have s1: "s1 = s"
      using found 4(2) by (auto simp: IsFileExsit_def split: if_splits)
    have "file_inv env (s\<lparr>f_disk := d\<rparr>) \<and> file_session_ok env d (se\<lparr>f_fp := Some fp\<rparr>)"
    proof (cases "offset = 0")
      case True
      with st 4(3) obtain n where "d = (f_disk s)(n \<mapsto> [])" "st_node fp = n"
        using fopen_w_ok by (metis upload_stream_def)
      with ok show ?thesis
        using file_inv_disk [OF inv, of "[]" n] by (auto simp: file_session_ok_def)
    next
      case False
      with st 4(3) ok inv show ?thesis
        by (auto simp: upload_stream_def file_session_ok_def)
    qed
    moreover have "\<not> streamless_upload env md5 offset se s"
      using st 4(3) by (auto simp: streamless_upload_def upload_stream_def)
    ultimately show ?thesis using upload_store_ok 4 found st se s1
      by (auto simp: OnUploadFileResponse_def)
  qed (use inv in \<open>simp add: OnUploadFileResponse_def streamless_upload_def\<close>)
qed

lemma file_seq_ok [simp]:
  "file_session_ok env d (se\<lparr>f_seq := x\<rparr>) = file_session_ok env d se"
  by (cases "f_fp se") (simp_all add: file_session_ok_def)

lemma file_new_ok [simp]: "file_session_ok env d new_FileSession"
  by (simp add: file_session_ok_def new_FileSession_def)

definition keeps_sessions :: "'n file_server \<Rightarrow> 'n file_server \<Rightarrow> bool" where
  "keeps_sessions s s' \<longleftrightarrow> (\<forall>c se. this_file c s = Inr se \<longrightarrow> (\<exists>se'. this_file c s' = Inr se'))"

lemma keeps_sessions_simps [simp]:
  "keeps_sessions s s"
  "keeps_sessions s s' \<Longrightarrow> keeps_sessions s (set_file c se s')"
  "keeps_sessions s (file_send c w s') = keeps_sessions s s'"
  "keeps_sessions s (addFile x s') = keeps_sessions s s'"
  "keeps_sessions s (s'\<lparr>f_disk := d\<rparr>) = keeps_sessions s s'"
  "keeps_sessions s (s'\<lparr>m_listFiles := l\<rparr>) = keeps_sessions s s'"
  by (auto simp: keeps_sessions_def)

lemma keeps_sessions_found: "keeps_sessions s (snd (IsFileExsit env name s))"
  by (simp add: IsFileExsit_def)

lemma keeps_upload_store: "keeps_sessions s s' \<Longrightarrow> keeps_sessions s (upload_store env c md5 offset filesize xs se fp d s')"
  by (simp add: upload_store_def Let_def split: prod.split bool.split)

lemma keeps_download_send: "keeps_sessions s s' \<Longrightarrow> download_send c md5 fp se s' = Inr s2 \<Longrightarrow> keeps_sessions s s2"
  by (auto simp: download_send_def Let_def split_def split: if_splits)

lemma keeps_upload:
  assumes "OnUploadFileResponse env c md5 offset filesize xs s = Inr s'"
  shows "keeps_sessions s s'"
proof -
  obtain found s1 where found: "IsFileExsit env (c_string md5) s = (found, s1)"
    by force
  then have s1: "keeps_sessions s s1"
    using keeps_sessions_found [of s env "c_string md5"] by simp
  show ?thesis
  proof (cases "md5 = [] \<or> found")
    case True
    with assms found s1 show ?thesis
      by (cases "md5 = []") (auto simp: OnUploadFileResponse_def bind_result_eq_Inr)
  next
    case False
    with assms found obtain se where se: "(case upload_stream env md5 offset se (f_disk s1) of
        (None, d) \<Rightarrow> if offset = 0 then Inr (set_file c (se\<lparr>f_fp := None\<rparr>) s1) else Inl NullDeref
      | (Some fp, d) \<Rightarrow> Inr (upload_store env c md5 offset filesize xs se fp d s1)) = Inr s'"
      by (auto simp: OnUploadFileResponse_def bind_result_eq_Inr)
    obtain fpo d where "upload_stream env md5 offset se (f_disk s1) = (fpo, d)"
      by force
    with se s1 show ?thesis
      by (cases fpo) (auto simp: keeps_upload_store split: if_splits)
  qed
qed

lemma keeps_download:
  assumes "OnDownloadFileResponse env c md5 offset filesize s = Inr s'"
  shows "keeps_sessions s s'"
proof -
  obtain found s1 where found: "IsFileExsit env (c_string md5) s = (found, s1)"
    by force
  then have s1: "keeps_sessions s s1"
    using keeps_sessions_found [of s env "c_string md5"] by simp
  show ?thesis
  proof (cases "md5 = [] \<or> \<not> found")
    case True
    with assms found s1 show ?thesis
      by (cases "md5 = []") (auto simp: OnDownloadFileResponse_def bind_result_eq_Inr)
  next
    case False
    with assms found obtain se where se: "(case open_download env md5 (f_disk s1) se of
        (None, se1) \<Rightarrow> Inr (set_file c se1 s1) | (Some fp, se1) \<Rightarrow> download_send c md5 fp se1 s1) = Inr s'"
      by (auto simp: OnDownloadFileResponse_def bind_result_eq_Inr)
    obtain fpo se1 where "open_download env md5 (f_disk s1) se = (fpo, se1)"
      by force
    with se s1 keeps_download_send [OF s1] show ?thesis
      by (cases fpo) auto
  qed
qed

text \<open>The faults of a request: a piece of an upload without a stream, and a download of a session that stands behind the
  end of the file.\<close>

definition file_fault :: "'n file_env \<Rightarrow> file_request \<Rightarrow> 'n FileSession \<Rightarrow> 'n file_server \<Rightarrow> fault option" where
  "file_fault env q se s =
     (if fq_cmd q = msg_type_upload_req \<and> streamless_upload env (fq_md5 q) (fq_offset q) se s then Some NullDeref
      else if fq_cmd q = msg_type_download_req \<and> fq_data q = [] \<and> stale_download env (fq_md5 q) se s then Some LengthError
      else None)"

lemma fault_seq [simp]:
  "streamless_upload env md5 offset (se\<lparr>f_seq := x\<rparr>) (set_file c se' s) = streamless_upload env md5 offset se s"
  "stale_download env md5 (se\<lparr>f_seq := x\<rparr>) (set_file c se' s) = stale_download env md5 se s"
  by (auto simp: streamless_upload_def stale_download_def unknown_file_def IsFileExsit_cases open_download_seq split: prod.split)

lemma file_dispatch_outcome:
  fixes q :: file_request
  assumes inv: "file_inv env s" and limits: "\<forall>n. size_limit env n < 2 ^ 31 - 2 ^ 19" and se: "this_file c s = Inr se"
  defines "res \<equiv> file_dispatch env c (fq_cmd q) (fq_md5 q) (fq_offset q) (fq_filesize q) (fq_data q)
      (set_file c (se\<lparr>f_seq := fq_seq q\<rparr>) s)"
  shows "case file_fault env q se s of Some e \<Rightarrow> res = Inl e
    | None \<Rightarrow> \<exists>ok s' se'. res = Inr (ok, s') \<and> file_inv env s' \<and> this_file c s' = Inr se'"
proof -
  let ?s = "set_file c (se\<lparr>f_seq := fq_seq q\<rparr>) s"
  have s: "file_inv env ?s" "this_file c ?s = Inr (se\<lparr>f_seq := fq_seq q\<rparr>)"
    using inv file_inv_session [OF inv se] by (auto intro: file_inv_set)
  have count: "\<exists>s2 se2. bind_result (this_file c s') (\<lambda>se. Inr (True, set_file c (se\<lparr>f_seq := f_seq se + 1\<rparr>) s')) = Inr (True, s2) \<and>
      file_inv env s2 \<and> this_file c s2 = Inr se2" if kept: "file_inv env s'" "keeps_sessions ?s s'" for s'
  proof -
    obtain se' where "this_file c s' = Inr se'"
      using kept(2) [unfolded keeps_sessions_def] s(2) by blast
    with kept(1) show ?thesis
      using file_inv_session by (auto intro!: file_inv_set)
  qed
  consider "fq_cmd q = msg_type_upload_req" | "fq_cmd q = msg_type_download_req" "fq_data q = []"
    | "fq_cmd q \<noteq> msg_type_upload_req" "fq_cmd q = msg_type_download_req \<longrightarrow> fq_data q \<noteq> []"
    by blast
  then show ?thesis
  proof cases
    case 1
    show ?thesis
    proof (cases "streamless_upload env (fq_md5 q) (fq_offset q) se s")
      case True
      then show ?thesis
        using upload_outcome [OF s, of "fq_md5 q" "fq_offset q" "fq_filesize q" "fq_data q"] 1
        by (simp add: file_fault_def res_def file_dispatch_def)
    next
      case False
      then obtain s' where s': "OnUploadFileResponse env c (fq_md5 q) (fq_offset q) (fq_filesize q) (fq_data q) ?s = Inr s'" "file_inv env s'"
        using upload_outcome [OF s, of "fq_md5 q" "fq_offset q" "fq_filesize q" "fq_data q"] by auto
      from count [OF s'(2) keeps_upload [OF s'(1)]] show ?thesis
        using False 1 s'(1) by (auto simp: file_fault_def file_msg_types res_def file_dispatch_def)
    qed
  next
    case 2
    show ?thesis
    proof (cases "stale_download env (fq_md5 q) se s")
      case True
      then show ?thesis
        using download_outcome [OF s(1) limits s(2), of "fq_md5 q" "fq_offset q" "fq_filesize q"] 2
        by (simp add: file_fault_def file_msg_types res_def file_dispatch_def)
    next
      case False
      then obtain s' where s': "OnDownloadFileResponse env c (fq_md5 q) (fq_offset q) (fq_filesize q) ?s = Inr s'" "file_inv env s'"
        using download_outcome [OF s(1) limits s(2), of "fq_md5 q" "fq_offset q" "fq_filesize q"] by auto
      from count [OF s'(2) keeps_download [OF s'(1)]] show ?thesis
        using False 2 s'(1) by (auto simp: file_fault_def file_msg_types res_def file_dispatch_def)
    qed
  next
    case 3
    then have "res = Inr (False, ?s)" "file_fault env q se s = None"
      by (auto simp: file_dispatch_def res_def file_fault_def)
    with s show ?thesis by auto
  qed
qed

subsection \<open>Any message\<close>

text \<open>What a message holds, if its fields can be read; \<open>None\<close> is a message that ends early or has no name. Reading a string runs
  over the end of some malformed messages.\<close>

definition file_decode :: "bytes \<Rightarrow> file_request option result" where
  "file_decode buf =
     (case ReadData (mk_reader buf) of None \<Rightarrow> Inr None | Some (cmd, r1) \<Rightarrow>
     (case ReadData r1 of None \<Rightarrow> Inr None | Some (seq, r2) \<Rightarrow>
     bind_result (ReadData_string r2) (\<lambda>(md5, r3).
     if md5 = [] then Inr None else
     (case ReadData r3 :: (32 word \<times> BinaryReader) option of None \<Rightarrow> Inr None | Some (offset, r4) \<Rightarrow>
     (case ReadData r4 :: (32 word \<times> BinaryReader) option of None \<Rightarrow> Inr None | Some (filesize, r5) \<Rightarrow>
     bind_result (ReadData_string r5) (\<lambda>(xs, r6). Inr (Some \<lparr>fq_cmd = cmd, fq_seq = seq, fq_md5 = md5, fq_offset = sint offset,
       fq_filesize = sint filesize, fq_data = xs\<rparr>)))))))"

lemma file_Process_decode:
  assumes "this_file c s = Inr se"
  shows "case file_decode buf of
      Inl e \<Rightarrow> file_Process env c buf s = Inl e
    | Inr None \<Rightarrow> file_Process env c buf s = Inr (False, s) \<or> (\<exists>seq. file_Process env c buf s = Inr (False, set_file c (se\<lparr>f_seq := seq\<rparr>) s))
    | Inr (Some q) \<Rightarrow> file_Process env c buf s = file_dispatch env c (fq_cmd q) (fq_md5 q) (fq_offset q) (fq_filesize q) (fq_data q)
        (set_file c (se\<lparr>f_seq := fq_seq q\<rparr>) s)"
  using assms by (auto simp: file_decode_def file_Process_def Let_def bind_result_def split: option.split sum.split)

inductive file_step :: "'n file_env \<Rightarrow> 'n file_server \<Rightarrow> 'n file_server \<Rightarrow> bool" for env where
  connection: "file_step env s (File_OnConnection up c s)"
| message: "this_file c s = Inr se \<Longrightarrow> file_Process env c buf s = Inr (ok, s') \<Longrightarrow> file_step env s (if ok then s' else file_close c s')"

lemma file_Process_outcome:
  assumes inv: "file_inv env s" and limits: "\<forall>n. size_limit env n < 2 ^ 31 - 2 ^ 19" and se: "this_file c s = Inr se"
  shows "case file_decode buf of
      Inl e \<Rightarrow> file_Process env c buf s = Inl e
    | Inr qo \<Rightarrow> (case (case qo of None \<Rightarrow> None | Some q \<Rightarrow> file_fault env q se s) of
          Some e \<Rightarrow> file_Process env c buf s = Inl e
        | None \<Rightarrow> \<exists>ok s' se'. file_Process env c buf s = Inr (ok, s') \<and> file_inv env s' \<and> this_file c s' = Inr se')"
proof -
  have seq: "file_inv env (set_file c (se\<lparr>f_seq := seq\<rparr>) s)" for seq
    using inv file_inv_session [OF inv se] by (auto intro: file_inv_set)
  note decode = file_Process_decode [OF se, where buf = buf and env = env]
  consider e where "file_decode buf = Inl e" | "file_decode buf = Inr None" | q where "file_decode buf = Inr (Some q)"
    by (metis old.sum.exhaust option.exhaust)
  then show ?thesis
  proof cases
    case 2
    then show ?thesis using decode inv se seq by auto
  next
    case (3 q)
    then show ?thesis using decode file_dispatch_outcome [OF inv limits se, of q] by (auto split: option.splits)
  qed (use decode in simp)
qed

lemma file_step_inv:
  assumes "file_step env s s'" "file_inv env s" "\<forall>n. size_limit env n < 2 ^ 31 - 2 ^ 19"
  shows "file_inv env s'"
  using assms
proof cases
  case (connection up c)
  then show ?thesis
    using assms(2)
    by (auto simp: File_OnConnection_def File_OnClose_def file_inv_def omap_find_insert omap_find_erase split: option.splits)
next
  case (message c se buf ok s1)
  with file_Process_outcome [OF assms(2,3) message(2), of buf] show ?thesis
    by (auto split: sum.splits option.splits)
qed

lemma file_steps_inv:
  "(file_step env)\<^sup>*\<^sup>* s s' \<Longrightarrow> file_inv env s \<Longrightarrow> \<forall>n. size_limit env n < 2 ^ 31 - 2 ^ 19 \<Longrightarrow> file_inv env s'"
  by (induction rule: rtranclp_induct) (auto intro: file_step_inv)

text \<open>C6: The faults of the file server, exactly. From any consistent state, after any connections, disconnections and messages,
  malformed ones included, whether or not files could be opened, files keep within their size limit and sessions within
  their invariant, and any further message has exactly one outcome. If reading its strings runs over its end, the
  fault of that reading; otherwise a piece of an upload at an offset other than zero, of an unknown file, on
  a session without an open file, writes to a null \<open>FILE *\<close>; a download on a session whose offset, left over from
  another transfer, is beyond the end of the file appends a negative number of bytes (\<open>std::length_error\<close>); every other
  message is carried out without a fault, keeps the invariant and the session. Files are assumed to stay
  below two gigabytes less one block.\<close>

theorem file_server_safe:
  assumes "file_inv env s0" "\<forall>n. size_limit env n < 2 ^ 31 - 2 ^ 19" "(file_step env)\<^sup>*\<^sup>* s0 s" "this_file c s = Inr se"
  shows "file_inv env s \<and>
    (case file_decode buf of
       Inl e \<Rightarrow> file_Process env c buf s = Inl e
     | Inr qo \<Rightarrow> (case (case qo of None \<Rightarrow> None | Some q \<Rightarrow> file_fault env q se s) of
           Some e \<Rightarrow> file_Process env c buf s = Inl e
         | None \<Rightarrow> \<exists>ok s' se'. file_Process env c buf s = Inr (ok, s') \<and> file_inv env s' \<and> this_file c s' = Inr se'))"
  using file_steps_inv [OF assms(3,1,2)] file_Process_outcome [OF _ assms(2,4)] by blast

lemma demo_file_inv: "file_inv open_env empty_file_server" "\<forall>n. size_limit open_env n < 2 ^ 31 - 2 ^ 19"
    "(file_step open_env)\<^sup>*\<^sup>* empty_file_server demo_file_server"
proof -
  show "file_inv open_env empty_file_server" "\<forall>n. size_limit open_env n < 2 ^ 31 - 2 ^ 19"
    by (simp_all add: file_inv_def empty_file_server_def open_env_def omap_find_def)
  show "(file_step open_env)\<^sup>*\<^sup>* empty_file_server demo_file_server"
    unfolding demo_file_server_def
    by (rule rtranclp.rtrancl_into_rtrancl, rule r_into_rtranclp) (rule file_step.connection)+
qed

text \<open>The fields of a well-formed request are what is read.\<close>

lemma file_decode_request:
  assumes "file_request_ok q"
  shows "file_decode (file_request_bytes q) = Inr (Some q)"
  using file_request_fields [OF assms] assms by (auto simp: file_decode_def file_request_ok_def)

theorem file_server_safe_witness:
  "(\<exists>ok s'. file_Process open_env 16 (file_request_bytes (download (lit ''zz''))) demo_file_server = Inr (ok, s') \<and> file_inv open_env s') \<and>
   file_Process open_env 16 (file_request_bytes \<lparr>fq_cmd = msg_type_upload_req, fq_seq = 0, fq_md5 = lit ''ab'',
     fq_offset = 2, fq_filesize = 5, fq_data = lit ''llo''\<rparr>) demo_file_server = Inl NullDeref"
proof -
  let ?q = "\<lparr>fq_cmd = msg_type_upload_req, fq_seq = 0, fq_md5 = lit ''ab'', fq_offset = 2, fq_filesize = 5, fq_data = lit ''llo''\<rparr>"
  note safe = file_server_safe [OF demo_file_inv demo_file_sessions(1)]
  have "file_request_ok (download (lit ''zz''))" by (rule download_ok) (simp_all add: lit_def)
  moreover have "file_request_ok ?q" by (simp add: file_request_ok_def is_int32_def lit_def)
  ultimately have dec: "file_decode (file_request_bytes (download (lit ''zz''))) = Inr (Some (download (lit ''zz'')))"
      "file_decode (file_request_bytes ?q) = Inr (Some ?q)"
    by (simp_all only: file_decode_request)
  have "\<not> stale_download open_env (lit ''zz'') new_FileSession demo_file_server"
    by (auto simp: stale_download_def new_FileSession_def open_download_def Let_def split: option.splits if_splits)
  then have "file_fault open_env (download (lit ''zz'')) new_FileSession demo_file_server = None"
    by (simp add: file_fault_def download_def file_msg_types)
  moreover have "file_fault open_env ?q new_FileSession demo_file_server = Some NullDeref"
    using demo_storable by (simp add: file_fault_def streamless_upload_def new_FileSession_def storable_def)
  ultimately show ?thesis using safe [of "file_request_bytes (download (lit ''zz''))"] safe [of "file_request_bytes ?q"] dec by auto
qed

text \<open>One request ends the file server. A piece of an upload at an offset other than zero, sent on a session on
  which no file is open, for a file the server does not know, is written to a null \<open>FILE *\<close>.\<close>

theorem upload_from_middle_faults:
  assumes "this_file c s = Inr se" "f_fp se = None" "unknown_file env (fq_md5 q) s"
    and "file_request_ok q" "fq_cmd q = msg_type_upload_req" "fq_offset q \<noteq> 0"
  shows "file_Process env c (file_request_bytes q) s = Inl NullDeref"
  using assms
  by (simp add: file_Process_request file_dispatch_def OnUploadFileResponse_def IsFileExsit_def upload_stream_def
      file_request_ok_def unknown_file_def)

theorem upload_from_middle_faults_witness:
  "file_Process open_env 16 (file_request_bytes \<lparr>fq_cmd = msg_type_upload_req, fq_seq = 0, fq_md5 = lit ''ab'',
     fq_offset = 2, fq_filesize = 5, fq_data = lit ''llo''\<rparr>) demo_file_server = Inl NullDeref"
proof -
  have "unknown_file open_env (lit ''ab'') demo_file_server"
    using demo_storable by (simp add: storable_def)
  then show ?thesis
    by (intro upload_from_middle_faults [OF demo_file_sessions(1)])
      (simp_all add: new_FileSession_def file_request_ok_def is_int32_def lit_def)
qed

text \<open>A server with one file of five bytes and a session that has read part of it.\<close>

definition busy_session :: "int \<Rightarrow> bytes FileSession" where
  "busy_session off = \<lparr>f_seq = 0, f_fp = Some \<lparr>st_node = lit ''filecache/ab'', st_pos = nat off\<rparr>, f_offset = off, f_filesize = 5\<rparr>"

definition busy_server :: "int \<Rightarrow> bytes file_server" where
  "busy_server off = set_file 16 (busy_session off) (demo_file_server\<lparr>m_listFiles := [lit ''ab'', lit ''cd''],
     f_disk := [lit ''filecache/ab'' \<mapsto> lit ''hello'']\<rparr>)"

lemma busy_server_simps:
  "this_file 16 (busy_server off) = Inr (busy_session off)" "m_listFiles (busy_server off) = [lit ''ab'', lit ''cd'']"
  "f_disk (busy_server off) = [lit ''filecache/ab'' \<mapsto> lit ''hello'']" "f_outputs (busy_server off) = []"
  by (simp_all add: busy_server_def) (simp add: demo_file_server_def empty_file_server_def File_OnConnection_def)

text \<open>A session serves whatever file it has open. While a download is under way, a request for any other known
  file is answered under that file's name with the next block of the file that is open.\<close>

theorem download_of_open_file:
  assumes "this_file c s = Inr se" "f_fp se = Some \<lparr>st_node = n, st_pos = off\<rparr>" "f_offset se = int off"
    and "f_filesize se = int (length body)" "f_disk s n = Some body" "off < length body" "length body < 2 ^ 31 - 2 ^ 19"
    and "other \<noteq> []" "c_string other \<in> set (m_listFiles s)"
  shows "\<exists>s'. run_file env c [download other] s = Inr s' \<and>
    f_outputs s' = f_outputs s @ [(c, download_reply other (int off) (int (length body)) (take 524288 (drop off body)))]"
proof -
  have "download_ready env c other n body off s"
    using assms by (auto simp: download_ready_def open_download_def)
  from download_block [OF this assms(6,7)] show ?thesis by blast
qed

theorem download_of_open_file_witness:
  "\<exists>s'. run_file open_env 16 [download (lit ''cd'')] (busy_server 2) = Inr s' \<and>
    f_outputs s' = [(16, download_reply (lit ''cd'') 2 5 (lit ''llo''))]"
  using download_of_open_file [OF busy_server_simps(1) [of 2], of "lit ''filecache/ab''" 2 "lit ''hello''" "lit ''cd''" open_env]
  by (simp add: busy_server_simps busy_session_def lit_def c_string_def del: run_file.simps)

text \<open>An upload writes to whatever file the session has open. A piece of an unknown file at an offset other than
  zero overwrites the file the session is downloading.\<close>

theorem upload_into_open_file:
  assumes "this_file c s = Inr se" "f_fp se = Some fp" "f_disk s (st_node fp) = Some body"
    and "other \<noteq> []" "unknown_file env other s" "0 < offset" "xs \<noteq> []" "nat offset + length xs \<le> size_limit env (st_node fp)"
  shows "\<exists>s'. OnUploadFileResponse env c other offset filesize xs s = Inr s' \<and>
    f_disk s' = (f_disk s)(st_node fp \<mapsto> write_at (nat offset) xs body)"
proof -
  have "min (length xs) (size_limit env (st_node fp) - nat offset) = length xs"
    using assms(8) by linarith
  then have "fwrite env xs (fseek_set offset fp) (f_disk s) =
      (True, fp\<lparr>st_pos := nat offset + length xs\<rparr>, (f_disk s)(st_node fp \<mapsto> write_at (nat offset) xs body))"
    using assms by (simp add: fwrite_def fseek_set_def file_bytes_def)
  then show ?thesis
    using assms by (simp add: OnUploadFileResponse_def IsFileExsit_def unknown_file_def upload_stream_def upload_store_def Let_def)
qed

theorem upload_into_open_file_witness:
  "\<exists>s'. OnUploadFileResponse open_env 16 (lit ''zz'') 1 9 (lit ''XY'') (busy_server 2) = Inr s' \<and>
    f_disk s' (lit ''filecache/ab'') = Some (lit ''hXYlo'')"
proof -
  have unknown: "unknown_file open_env (lit ''zz'') (busy_server 2)"
    by (simp add: unknown_file_def busy_server_simps fopen_r_def open_env_def lit_def c_string_def)
  have "write_at (nat 1) (lit ''XY'') (lit ''hello'') = lit ''hXYlo''"
    by code_simp
  with upload_into_open_file [OF busy_server_simps(1) [of 2], of "\<lparr>st_node = lit ''filecache/ab'', st_pos = 2\<rparr>" "lit ''hello''"
      "lit ''zz''" open_env 1 "lit ''XY''" 9] unknown show ?thesis
    by (auto simp: busy_server_simps busy_session_def lit_def open_env_def)
qed

text \<open>The offset of a download outlives its file. A failed attempt to start an upload clears \<open>m_fp\<close> but not
  \<open>m_offset\<close>; a download of a file shorter than that offset then appends a negative number of bytes to a string,
  which throws \<open>std::length_error\<close>.\<close>

theorem stale_offset_faults:
  assumes se: "this_file c s = Inr se" "0 \<le> f_offset se" "f_offset se < 2 ^ 31 - 2 ^ 19"
    and up: "b \<noteq> []" "unknown_file env b s" "fst (fopen_w env (cache_name b) (f_disk s)) = None"
    and down: "a \<noteq> []" "c_string a \<in> set (m_listFiles s)" "path_node env (cache_name a) = Some n" "\<not> is_directory env n"
      "may_read env n" "may_write env n" "f_disk s n = Some body" "body \<noteq> []" "int (length body) < f_offset se"
  shows "run_file env c [\<lparr>fq_cmd = msg_type_upload_req, fq_seq = 0, fq_md5 = b, fq_offset = 0, fq_filesize = size_b, fq_data = xs\<rparr>,
    download a] s = Inl LengthError"
proof -
  let ?up = "\<lparr>fq_cmd = msg_type_upload_req, fq_seq = 0, fq_md5 = b, fq_offset = 0, fq_filesize = size_b, fq_data = xs\<rparr>"
  obtain d where d: "fopen_w env (cache_name b) (f_disk s) = (None, d)"
    using up(3) by (metis prod.collapse)
  have upload: "\<exists>s1 se1. run_file env c [?up] s = Inr s1 \<and> this_file c s1 = Inr se1 \<and> f_fp se1 = None \<and>
      f_offset se1 = f_offset se \<and> m_listFiles s1 = m_listFiles s \<and> f_disk s1 = f_disk s"
    using se up d
    by (simp add: file_dispatch_def OnUploadFileResponse_def IsFileExsit_def unknown_file_def upload_stream_def)
  then obtain s1 se1 where s1: "run_file env c [?up] s = Inr s1" "this_file c s1 = Inr se1" "f_fp se1 = None"
      "f_offset se1 = f_offset se" "m_listFiles s1 = m_listFiles s" "f_disk s1 = f_disk s"
    by blast
  let ?fp = "\<lparr>st_node = n, st_pos = 0\<rparr>"
  let ?se = "se1\<lparr>f_seq := 0, f_fp := Some ?fp, f_filesize := int (length body)\<rparr>"
  have range: "is_int32 (int (length body))" "is_int32 (f_offset se + block_size)" "is_int32 (int (length body) - f_offset se)"
    using se(2,3) down(9) by (simp_all add: is_int32_def block_size_def)
  have "open_download env a (f_disk s1) (se1\<lparr>f_seq := 0\<rparr>) = (Some ?fp, ?se)"
    using s1 down range(1) by (simp add: open_download_def fopen_rw_def fseek_end_def fseek_set_def file_bytes_def Let_def)
  moreover have "currentSendSize ?se < 0"
    using range(2,3) down(9) s1(4) by (simp add: currentSendSize_def block_size_def)
  ultimately have "run_file env c [download a] s1 = Inl LengthError"
    using s1 down(1,2)
    by (simp add: download_def file_dispatch_def file_msg_types OnDownloadFileResponse_def IsFileExsit_def download_send_def Let_def)
  then show ?thesis
    using run_file_append [of env c "[?up]" "[download a]" s] s1(1) by simp
qed

definition no_dir_env :: "bytes file_env" where
  "no_dir_env = open_env\<lparr>path_node := (\<lambda>p. if p = lit ''filecache/no/x'' then None else Some p)\<rparr>"

theorem stale_offset_faults_witness:
  "run_file no_dir_env 16 [\<lparr>fq_cmd = msg_type_upload_req, fq_seq = 0, fq_md5 = lit ''no/x'', fq_offset = 0,
     fq_filesize = 3, fq_data = lit ''abc''\<rparr>, download (lit ''ab'')] (busy_server 524288) = Inl LengthError"
proof (rule stale_offset_faults [OF busy_server_simps(1), where body = "lit ''hello''" and n = "lit ''filecache/ab''"])
  show "unknown_file no_dir_env (lit ''no/x'') (busy_server 524288)"
    by (simp add: unknown_file_def busy_server_simps fopen_r_def no_dir_env_def open_env_def lit_def c_string_def)
  show "fst (fopen_w no_dir_env (cache_name (lit ''no/x'')) (f_disk (busy_server 524288))) = None"
    by (simp add: fopen_w_def no_dir_env_def cache_name_def c_string_def lit_def)
  show "path_node no_dir_env (cache_name (lit ''ab'')) = Some (lit ''filecache/ab'')"
    by (simp add: no_dir_env_def cache_name_def c_string_def lit_def)
qed (simp_all add: busy_server_simps busy_session_def no_dir_env_def open_env_def lit_def c_string_def)

end
