(* ===== verification/Session_Layer.thy ===== *)
theory Session_Layer
  imports Tcp_Safety Chat_Server File_Transfer
begin

section \<open>Sessions and connections\<close>

text \<open>
  Each server keeps a table of sessions, one for each connection: the connection callback adds a session when
  the connection comes up and removes it when it goes down, the message callback works on it. The
  locale \<open>session_table\<close> is the contract of the two callbacks; for every run of the network library
  the sessions are then those of the open connections. Both servers interpret it.
\<close>

text \<open>A server driven by the callbacks in the order in which the network library makes them.\<close>

inductive session_run ::
  "(bool \<Rightarrow> cid \<Rightarrow> 's \<Rightarrow> 's \<Rightarrow> bool) \<Rightarrow> (cid \<Rightarrow> 's \<Rightarrow> 's \<Rightarrow> bool) \<Rightarrow> (cid \<times> tcp_obs) list \<Rightarrow> 's \<Rightarrow> 's \<Rightarrow> bool"
  for on_connection on_message where
  nothing: "session_run on_connection on_message [] s s"
| connection: "session_run on_connection on_message os s s1 \<Longrightarrow> on_connection up c s1 s2 \<Longrightarrow>
    session_run on_connection on_message (os @ [(c, Callback up)]) s s2"
| message: "session_run on_connection on_message os s s1 \<Longrightarrow> on_message c s1 s2 \<Longrightarrow>
    session_run on_connection on_message (os @ [(c, Message)]) s s2"
| other: "session_run on_connection on_message os s s1 \<Longrightarrow> e \<noteq> Message \<Longrightarrow> (\<And>up. e \<noteq> Callback up) \<Longrightarrow>
    session_run on_connection on_message (os @ [(c, e)]) s s1"

locale session_table =
  fixes sessions :: "'s \<Rightarrow> cid set"
    and on_connection :: "bool \<Rightarrow> cid \<Rightarrow> 's \<Rightarrow> 's \<Rightarrow> bool"
    and on_message :: "cid \<Rightarrow> 's \<Rightarrow> 's \<Rightarrow> bool"
  assumes up: "on_connection True c s s' \<Longrightarrow> sessions s' = insert c (sessions s)"
    and down: "on_connection False c s s' \<Longrightarrow> sessions s' = sessions s - {c}"
    and message: "on_message c s s' \<Longrightarrow> sessions s' = sessions s"
begin

lemma sessions_run:
  "session_run on_connection on_message os s s' \<Longrightarrow> sessions s = {} \<Longrightarrow>
     sessions s' = {c. callbacks (proj c os) \<noteq> [] \<and> last (callbacks (proj c os))}"
proof (induction rule: session_run.induct)
  case (connection os s s1 b c s2)
  then show ?case
    using up [of c s1 s2] down [of c s1 s2] by (cases b) auto
next
  case (message os s s1 c s2)
  then show ?case using session_table.message [OF session_table_axioms] by auto
next
  case (other os s s1 e c)
  then have "callbacks (proj c' (os @ [(c, e)])) = callbacks (proj c' os)" for c'
    by (cases e) auto
  with other show ?case by simp
qed simp

lemma sessions_open:
  assumes "env_ok env" and "tcp_reach env w" and "session_run on_connection on_message (obs w) s s'" and "sessions s = {}"
  shows "sessions s' = snd ` set (connections w)"
proof -
  note inv = tcp_reach_inv [OF assms(1,2)]
  have "callbacks (proj c (obs w)) \<noteq> [] \<and> last (callbacks (proj c (obs w))) \<longleftrightarrow> c \<in> snd ` set (connections w)" for c
    using tcp_inv_callbacks [OF inv, of c] in_table_iff [OF inv, of c] alive_lt [of "[]" w c] inv
    by (auto simp: tcp_inv_def split: if_splits)
  then show ?thesis using sessions_run [OF assms(3,4)] by auto
qed

end

lemma ClientSession_OnRead_keeps:
  assumes "ClientSession_OnRead process close buf s = Inr (buf', s')"
    and "\<And>m s ok s'. process m s = Inr (ok, s') \<Longrightarrow> f s' = f s" and "\<And>s. f (close s) = f s"
  shows "f s' = f s"
  using assms
proof (induction process close buf s rule: ClientSession_OnRead.induct)
  case (1 process close buf s)
  show ?case
    using 1(2) 1(1) [OF _ refl] 1(3,4)
    by (subst (asm) ClientSession_OnRead.simps)
      (fastforce simp: Let_def split: if_splits sum.splits)
qed

lemma FileSession_OnRead_keeps:
  assumes "FileSession_OnRead process close buf s = Inr (buf', s')"
    and "\<And>m s ok s'. process m s = Inr (ok, s') \<Longrightarrow> f s' = f s" and "\<And>s. f (close s) = f s"
  shows "f s' = f s"
  using assms
proof (induction process close buf s rule: FileSession_OnRead.induct)
  case (1 process close buf s)
  show ?case
    using 1(2) 1(1) [OF _ refl] 1(3,4)
    by (subst (asm) FileSession_OnRead.simps)
      (fastforce simp: Let_def split: if_splits sum.splits)
qed

subsection \<open>The chat server\<close>

definition im_sessions :: "'w server \<Rightarrow> cid set" where
  "im_sessions s = {c. omap_find (ptr_text c) (m_mapclient s) \<noteq> None}"

definition im_connection :: "bool \<Rightarrow> cid \<Rightarrow> 'w server \<Rightarrow> 'w server \<Rightarrow> bool" where
  "im_connection up c s s' \<longleftrightarrow> (\<exists>garbage. s' = OnConnection garbage up c s)"

definition im_message :: "'w mysql_api \<Rightarrow> cid \<Rightarrow> 'w server \<Rightarrow> 'w server \<Rightarrow> bool" where
  "im_message api c s s' \<longleftrightarrow> (\<exists>garbage buf buf'. session_OnRead api garbage c buf s = Inr (buf', s'))"

lemma session_change_sessions: "session_change api c A s s' \<Longrightarrow> im_sessions s' = im_sessions s"
proof -
  assume ch: "session_change api c A s s'"
  have "(omap_find (ptr_text c') (m_mapclient s') = None) = (omap_find (ptr_text c') (m_mapclient s) = None)" for c'
    using ch by (cases "c' = c"; cases "omap_find (ptr_text c') (m_mapclient s)") (auto simp: session_change_def)
  then show ?thesis by (simp add: im_sessions_def)
qed

lemma OnClose_sessions: "im_sessions (OnClose c s) = im_sessions s - {c}"
  by (auto simp: im_sessions_def OnClose_def omap_find_erase split: option.splits if_splits)

lemma OnConnection_sessions:
  "im_sessions (OnConnection g True c s) = insert c (im_sessions s)"
  "im_sessions (OnConnection g False c s) = im_sessions s - {c}"
  by (auto simp: im_sessions_def OnConnection_def Let_def omap_find_none new_ClientSession_def)[1]
    (simp add: OnConnection_def OnClose_sessions)

interpretation im_table: session_table im_sessions im_connection "im_message api" for api :: "'w mysql_api"
proof unfold_locales
  fix c and s s' :: "'w server"
  assume "im_message api c s s'"
  then obtain g buf buf' where "ClientSession_OnRead (Process api g c) (force_close c) buf s = Inr (buf', s')"
    by (auto simp: im_message_def session_OnRead_def)
  then show "im_sessions s' = im_sessions s"
  proof (rule ClientSession_OnRead_keeps)
    show "im_sessions s2 = im_sessions s1" if "Process api g c m s1 = Inr (ok, s2)" for m s1 ok s2
      using Process_change [OF that] by (rule session_change_sessions)
  qed (simp add: im_sessions_def force_close_def)
qed (auto simp: im_connection_def OnConnection_sessions)

subsection \<open>The file server\<close>

definition file_sessions :: "'n file_server \<Rightarrow> cid set" where
  "file_sessions s = {c. omap_find (ptr_text c) (f_sessions s) \<noteq> None}"

definition file_connection :: "bool \<Rightarrow> cid \<Rightarrow> 'n file_server \<Rightarrow> 'n file_server \<Rightarrow> bool" where
  "file_connection up c s s' \<longleftrightarrow> s' = File_OnConnection up c s"

definition file_received :: "'n file_env \<Rightarrow> cid \<Rightarrow> 'n file_server \<Rightarrow> 'n file_server \<Rightarrow> bool" where
  "file_received env c s s' \<longleftrightarrow> (\<exists>buf buf'. file_OnRead env c buf s = Inr (buf', s'))"

lemma set_file_sessions: "c \<in> file_sessions s \<Longrightarrow> file_sessions (set_file c se s) = file_sessions s"
  by (auto simp: file_sessions_def set_file_def omap_find_assign)

lemma same_sessions: "f_sessions s' = f_sessions s \<Longrightarrow> file_sessions s' = file_sessions s"
  by (simp add: file_sessions_def)

lemma this_file_sessions: "this_file c s = Inr se \<Longrightarrow> c \<in> file_sessions s"
  by (auto simp: this_file_def file_sessions_def split: option.splits)

lemma file_sessions_simps [simp]:
  "file_sessions (file_send c w s) = file_sessions s" "file_sessions (addFile n s) = file_sessions s"
  "file_sessions (s\<lparr>f_disk := d\<rparr>) = file_sessions s" "file_sessions (file_close c s) = file_sessions s"
  by (simp_all add: file_send_def addFile_def file_close_def file_sessions_def)

lemma IsFileExsit_sessions: "IsFileExsit env n s = (b, s') \<Longrightarrow> file_sessions s' = file_sessions s"
  by (auto simp: IsFileExsit_def file_sessions_def split: if_splits)

lemma upload_store_sessions:
  "c \<in> file_sessions s \<Longrightarrow> file_sessions (upload_store env c md5 offset filesize xs se fp d s) = file_sessions s"
  by (auto simp: upload_store_def Let_def set_file_sessions split: prod.split bool.split)

lemma download_send_sessions:
  "download_send c md5 fp se s = Inr s' \<Longrightarrow> c \<in> file_sessions s \<Longrightarrow> file_sessions s' = file_sessions s"
  by (auto simp: download_send_def Let_def set_file_sessions split: if_splits prod.splits)

lemma OnUploadFileResponse_sessions:
  assumes "OnUploadFileResponse env c md5 offset filesize xs s = Inr s'"
  shows "file_sessions s' = file_sessions s"
proof (cases "md5 = []")
  case False
  obtain b s1 where ex: "IsFileExsit env (c_string md5) s = (b, s1)" by (cases "IsFileExsit env (c_string md5) s")
  obtain se where se: "this_file c s = Inr se" using assms False by (auto simp: OnUploadFileResponse_def bind_result_eq_Inr)
  obtain r d where up: "upload_stream env md5 offset se (f_disk s1) = (r, d)"
    by (cases "upload_stream env md5 offset se (f_disk s1)")
  have s1: "file_sessions s1 = file_sessions s" "c \<in> file_sessions s1"
    using IsFileExsit_sessions [OF ex] this_file_sessions [OF se] by auto
  consider (exists) m where "s' = file_send c m s1" | (closed) "s' = set_file c (se\<lparr>f_fp := None\<rparr>) s1"
    | (stored) fp where "s' = upload_store env c md5 offset filesize xs se fp d s1"
    using assms False ex se up by (cases b; cases r) (auto simp: OnUploadFileResponse_def split: if_splits)
  then show ?thesis
    using s1 by cases (metis file_sessions_simps(1), metis set_file_sessions, metis upload_store_sessions)
qed (use assms in \<open>simp add: OnUploadFileResponse_def\<close>)

lemma OnDownloadFileResponse_sessions:
  assumes "OnDownloadFileResponse env c md5 offset filesize s = Inr s'"
  shows "file_sessions s' = file_sessions s"
proof (cases "md5 = []")
  case False
  obtain b s1 where ex: "IsFileExsit env (c_string md5) s = (b, s1)" by (cases "IsFileExsit env (c_string md5) s")
  obtain se where se: "this_file c s = Inr se" using assms False by (auto simp: OnDownloadFileResponse_def bind_result_eq_Inr)
  obtain r se1 where op: "open_download env md5 (f_disk s1) se = (r, se1)"
    by (cases "open_download env md5 (f_disk s1) se")
  have s1: "file_sessions s1 = file_sessions s" "c \<in> file_sessions s1"
    using IsFileExsit_sessions [OF ex] this_file_sessions [OF se] by auto
  consider (unknown) "s' = s1" | (closed) "s' = set_file c se1 s1"
    | (sent) fp where "download_send c md5 fp se1 s1 = Inr s'"
    using assms False ex se op by (cases b; cases r) (auto simp: OnDownloadFileResponse_def)
  then show ?thesis
    using s1 by cases (simp, metis set_file_sessions, metis download_send_sessions)
qed (use assms in \<open>simp add: OnDownloadFileResponse_def\<close>)

lemma file_dispatch_sessions:
  assumes "file_dispatch env c cmd md5 offset filesize xs s = Inr (ok, s')"
  shows "file_sessions s' = file_sessions s"
proof -
  define r where "r = (if cmd = msg_type_upload_req then
          bind_result (OnUploadFileResponse env c md5 offset filesize xs s) (\<lambda>s'. Inr (True, s'))
        else if cmd = msg_type_download_req then
          (if xs \<noteq> [] then Inr (False, s)
           else bind_result (OnDownloadFileResponse env c md5 offset filesize s) (\<lambda>s'. Inr (True, s')))
        else Inr (False, s))"
  obtain ok1 s1 where r: "r = Inr (ok1, s1)"
    using assms by (cases r) (auto simp: file_dispatch_def r_def)
  then have s1: "file_sessions s1 = file_sessions s"
    by (auto simp: r_def bind_result_eq_Inr split: if_splits
        dest: OnUploadFileResponse_sessions OnDownloadFileResponse_sessions)
  have "(if ok1 then bind_result (this_file c s1) (\<lambda>se. Inr (True, set_file c (se\<lparr>f_seq := f_seq se + 1\<rparr>) s1))
      else Inr (False, s1)) = Inr (ok, s')"
    using assms r unfolding file_dispatch_def r_def [symmetric] by simp
  then show ?thesis
    using s1 this_file_sessions [of c s1] by (auto simp: bind_result_eq_Inr set_file_sessions split: if_splits)
qed

lemma file_Process_sessions:
  assumes "file_Process env c m s = Inr (ok, s')"
  shows "file_sessions s' = file_sessions s"
  using assms
  by (auto simp: file_Process_def bind_result_eq_Inr Let_def set_file_sessions split: if_splits option.splits
      dest!: this_file_sessions file_dispatch_sessions)

lemma File_OnConnection_sessions:
  "file_sessions (File_OnConnection True c s) = insert c (file_sessions s)"
  by (auto simp: file_sessions_def File_OnConnection_def omap_find_none)

lemma File_OnClose_sessions:
  "file_sessions (File_OnConnection False c s) = file_sessions s - {c}"
  by (auto simp: file_sessions_def File_OnConnection_def File_OnClose_def omap_find_erase split: option.splits if_splits)

interpretation file_table: session_table file_sessions file_connection "file_received env" for env :: "'n file_env"
proof unfold_locales
  fix c and s s' :: "'n file_server"
  assume "file_received env c s s'"
  then obtain buf buf' where "FileSession_OnRead (file_Process env c) (file_close c) buf s = Inr (buf', s')"
    by (auto simp: file_received_def file_OnRead_def)
  then show "file_sessions s' = file_sessions s"
    by (rule FileSession_OnRead_keeps) (auto dest: file_Process_sessions)
qed (auto simp: file_connection_def File_OnConnection_sessions File_OnClose_sessions)

subsection \<open>Sessions are those of the open connections\<close>

text \<open>C9: For every run of the network library, when the chat server has handled the callbacks made so
  far, there is a session for an address exactly when a connection of the server's table has it.\<close>

theorem chat_sessions_match_connections:
  assumes "env_ok env" and "tcp_reach env w" and "session_run im_connection (im_message api) (obs w) (new_server us d) s"
  shows "omap_find (ptr_text c) (m_mapclient s) \<noteq> None \<longleftrightarrow> c \<in> snd ` set (connections w)"
proof -
  have "im_sessions s = snd ` set (connections w)"
    by (rule im_table.sessions_open [OF assms]) (simp add: im_sessions_def new_server_def omap_find_def)
  then show ?thesis by (auto simp: im_sessions_def)
qed

theorem chat_sessions_match_connections_witness:
  "\<exists>s. session_run im_connection (im_message script_api) (obs sample_server)
      (new_server demo_users (script_manager, users_db)) s
     \<and> omap_find (ptr_text 0) (m_mapclient s) \<noteq> None \<and> omap_find (ptr_text 1) (m_mapclient s) = None"
proof -
  define s where "s = OnConnection 0 True 0 (new_server demo_users (script_manager, users_db))"
  have "session_run im_connection (im_message script_api) ([] @ [(0, Callback True)])
      (new_server demo_users (script_manager, users_db)) s"
    by (rule session_run.connection [OF session_run.nothing]) (auto simp: im_connection_def s_def)
  then have run: "session_run im_connection (im_message script_api) (obs sample_server)
      (new_server demo_users (script_manager, users_db)) s"
    by (simp add: sample_server_def)
  show ?thesis
    using run chat_sessions_match_connections [OF sample_env_ok sample_reach run, of 0]
      chat_sessions_match_connections [OF sample_env_ok sample_reach run, of 1]
    by (intro exI [of _ s]) (simp add: sample_server_def)
qed

text \<open>The same for the file server.\<close>

theorem file_sessions_match_connections:
  assumes "env_ok env" and "tcp_reach env w" and "session_run file_connection (file_received fenv) (obs w) s0 s"
    and "f_sessions s0 = []"
  shows "omap_find (ptr_text c) (f_sessions s) \<noteq> None \<longleftrightarrow> c \<in> snd ` set (connections w)"
proof -
  have "file_sessions s = snd ` set (connections w)"
    by (rule file_table.sessions_open [OF assms(1-3)]) (simp add: file_sessions_def assms(4) omap_find_def)
  then show ?thesis by (auto simp: file_sessions_def)
qed

end
