(* ===== verification/Tcp_Closing.thy ===== *)
theory Tcp_Closing
  imports Tcp_Safety
begin

unbundle bit_operations_syntax

section \<open>How connections end\<close>

text \<open>
  The output buffer drains while the socket takes bytes; closing a connection that is not read from, and destroying
  the server while a connection is being shut down, can fail an assertion.
\<close>

subsection \<open>The output buffer drains\<close>

lemma writable_iteration:
  assumes env: "env_ok env" and reach: "tcp_reach env w" and k: "heap w c = Some k" and op: "is_open k"
    and d: "content (outputBuffer k) \<noteq> []" and idle: "pendingFunctors w = []" and wc: "writeCompleteCallback env = None"
    and wr: "sys_write env (ticks w) (conn_fd k) (content (outputBuffer k)) = Inr n" "0 < n"
  shows "\<exists>w' k'. poll_ok w [Ready c POLLOUT] \<and> loop_iteration env [Ready c POLLOUT] w = Inr w' \<and> heap w' c = Some k'
     \<and> pendingFunctors w' = [] \<and> conn_state k' = conn_state k \<and> content (outputBuffer k') = drop n (content (outputBuffer k))
     \<and> proj c (obs w') = proj c (obs w) @ Wrote (take n (content (outputBuffer k)))
         # (if drop n (content (outputBuffer k)) = [] \<and> conn_state k = kDisconnecting then [ShutWrite] else [])"
proof -
  note inv = tcp_reach_inv [OF env reach]
  define w0 where "w0 = w\<lparr>activeChannels := [c], eventHandling := True, currentActiveChannel := Some c\<rparr>"
  have cw: "can_write c k w0"
    using open_can_write [OF tcp_inv_conn [OF inv k] op k inv_channel [OF inv k op]] by (simp add: can_write_def w0_def)
  then have n: "n \<le> length (content (outputBuffer k))" and buf: "buf_ok (outputBuffer k)"
    using env wr(1) unfolding env_ok_def write_ok_def can_write_def by metis+
  obtain ob where ob: "retrieve n (outputBuffer k) = Inr ob" "buf_ok ob" "content ob = drop n (content (outputBuffer k))"
    using retrieve_spec [OF buf n] by blast
  have wr0: "sys_write env (ticks w0) (conn_fd k) (content (outputBuffer k)) = Inr n"
    using wr(1) by (simp add: w0_def)
  obtain w1 where w1: "handleWrite env c w0 = Inr w1"
    "local_step c (k\<lparr>outputBuffer := ob, channel := (channel k)\<lparr>events := (if content ob = [] then 3 else 7)\<rparr>\<rparr>) []
       (Wrote (take n (content (outputBuffer k))) # (if content ob = [] \<and> conn_state k = kDisconnecting then [ShutWrite] else [])) w0 w1"
    using handleWrite_step [OF cw n wr0 wr(2) ob(1,2)] wc by auto
  have "handle_events env [Ready c POLLOUT] (w\<lparr>activeChannels := [c], eventHandling := True\<rparr>) = Inr w1"
    using k w1(1) by (simp add: handleEvent_def handleEventWithGuard_def on_event_def w0_def event_defs)
  moreover have "pendingFunctors w1 = []" using w1(2) idle by (simp add: local_step_def w0_def)
  ultimately have "loop_iteration env [Ready c POLLOUT] w = Inr (w1\<lparr>currentActiveChannel := None, eventHandling := False, pendingFunctors := []\<rparr>)"
    by (simp add: loop_iteration_def doPendingFunctors_def)
  moreover have "poll_ok w [Ready c POLLOUT]"
    using cw k d by (simp add: poll_ok_def can_write_def event_defs)
  ultimately show ?thesis
    using w1(2) ob(3) by (simp add: local_step_def w0_def)
qed

text \<open>C16: When the socket takes at least one byte at each \<open>POLLOUT\<close>, the output buffer is empty after at most
  as many iterations as it has bytes, and a connection that is shutting down then shuts down its sending side.\<close>

theorem tcp_output_drains:
  assumes "env_ok env" and "tcp_reach env w" and "heap w c = Some k" and "is_open k"
    and "pendingFunctors w = []" and "writeCompleteCallback env = None"
    and "\<And>t fd d. d \<noteq> [] \<Longrightarrow> \<exists>n. sys_write env t fd d = Inr n \<and> 0 < n"
  shows "\<exists>m w' k'. m \<le> length (content (outputBuffer k)) \<and> run_loop env (replicate m [Ready c POLLOUT]) w = Inr w'
     \<and> tcp_reach env w' \<and> heap w' c = Some k' \<and> content (outputBuffer k') = []
     \<and> (conn_state k = kDisconnecting \<and> 0 < m \<longrightarrow> last (proj c (obs w')) = ShutWrite)"
  using assms(2-5)
proof (induction "length (content (outputBuffer k))" arbitrary: w k rule: less_induct)
  case less
  show ?case
  proof (cases "content (outputBuffer k) = []")
    case True
    then show ?thesis using less.prems by (intro exI [of _ 0]) auto
  next
    case False
    obtain n where n: "sys_write env (ticks w) (conn_fd k) (content (outputBuffer k)) = Inr n" "0 < n"
      using assms(7) [OF False] by blast
    obtain w1 k1 where w1: "poll_ok w [Ready c POLLOUT]" "loop_iteration env [Ready c POLLOUT] w = Inr w1"
        "heap w1 c = Some k1" "pendingFunctors w1 = []" "conn_state k1 = conn_state k"
        "content (outputBuffer k1) = drop n (content (outputBuffer k))"
        "proj c (obs w1) = proj c (obs w) @ Wrote (take n (content (outputBuffer k)))
         # (if drop n (content (outputBuffer k)) = [] \<and> conn_state k = kDisconnecting then [ShutWrite] else [])"
      using writable_iteration [OF assms(1) less.prems(1-3) False less.prems(4) assms(6) n] by blast
    have reach: "tcp_reach env w1" using less.prems(1) w1(1,2) by (rule tcp_reach.iteration)
    have op: "is_open k1" using less.prems(3) w1(5) by (simp add: is_open_def)
    have smaller: "length (content (outputBuffer k1)) < length (content (outputBuffer k))"
      using w1(6) n(2) False by simp
    obtain m w' k' where ih: "m \<le> length (content (outputBuffer k1))" "run_loop env (replicate m [Ready c POLLOUT]) w1 = Inr w'"
        "tcp_reach env w'" "heap w' c = Some k'" "content (outputBuffer k') = []"
        "conn_state k1 = kDisconnecting \<and> 0 < m \<longrightarrow> last (proj c (obs w')) = ShutWrite"
      using less.hyps [OF smaller reach w1(3) op w1(4)] by blast
    have "last (proj c (obs w')) = ShutWrite" if "conn_state k = kDisconnecting"
    proof (cases "m = 0")
      case True
      then have "w' = w1" and "content (outputBuffer k1) = []" using ih(2,4,5) w1(3) by auto
      then show ?thesis using w1(6,7) that by simp
    next
      case False
      then show ?thesis using ih(6) w1(5) that by simp
    qed
    then show ?thesis
      using ih w1(2) smaller by (intro exI [of _ "Suc m"] exI [of _ w'] exI [of _ k']) auto
  qed
qed

theorem tcp_output_drains_witness:
  "\<exists>ob m w' k'. content ob = [3] \<and> heap (sample_sent ob) 0 \<noteq> None \<and> m \<le> 1 \<and> run_loop sample_env (replicate m [Ready 0 POLLOUT]) (sample_sent ob) = Inr w'
     \<and> heap w' 0 = Some k' \<and> content (outputBuffer k') = []"
proof -
  obtain ob where ob: "content ob = [3]" "tcp_reach sample_env (sample_sent ob)" by (rule sample_sent_reach)
  define k where "k = sample_conn\<lparr>outputBuffer := ob, channel := \<lparr>events = 7, ch_index = kAdded, addedToLoop = True\<rparr>\<rparr>"
  have k: "heap (sample_sent ob) 0 = Some k" "is_open k" "length (content (outputBuffer k)) = 1"
      "pendingFunctors (sample_sent ob) = []"
    using ob(1) by (simp_all add: sample_sent_def k_def is_open_def sample_conn_def sample_server_def)
  have env: "writeCompleteCallback sample_env = None" "d \<noteq> [] \<Longrightarrow> \<exists>n. sys_write sample_env t fd d = Inr n \<and> 0 < n" for t fd d
    by (simp_all add: sample_env_def)
  show ?thesis
    using tcp_output_drains [OF sample_env_ok ob(2) k(1,2,4) env] k(1,3) ob(1) by (metis option.distinct(1))
qed

subsection \<open>A connection that is not read from\<close>

lemma stopRead_open:
  assumes "heap w c = Some k" and "channels w (conn_fd k) = Some c" and "ch_index (channel k) = kAdded"
    and "addedToLoop (channel k)" and "events (channel k) = 3"
  shows "stopRead True c w = Inr (set_conn c (k\<lparr>channel := (channel k)\<lparr>events := 0, ch_index := kDeleted\<rparr>, reading := False\<rparr>) w)"
  using assms
  by (simp add: stopRead_def stopReadInLoop_def disableReading_def set_events_def chan_update_def updateChannel_def
      state_defs event_defs already_added_events)

text \<open>\<open>disableAll\<close> on a channel that was removed from \<open>epoll\<close> registers it again, with no events.\<close>

lemma disableAll_deleted:
  assumes "heap w c = Some k" and "channels w (conn_fd k) = Some c" and "ch_index (channel k) = kDeleted"
    and "addedToLoop (channel k)" and "events (channel k) = 0"
  shows "disableAll c w = Inr (set_conn c (k\<lparr>channel := (channel k)\<lparr>ch_index := kAdded\<rparr>\<rparr>) w)"
  using assms
  by (cases "channel k") (simp add: disableAll_def set_events_def chan_update_def updateChannel_def state_defs event_defs)

lemma handleClose_paused:
  assumes "heap w c = Some k" and "channels w (conn_fd k) = Some c" and "ch_index (channel k) = kDeleted"
    and "addedToLoop (channel k)" and "events (channel k) = 0" and "is_open k"
    and "omap_find (conn_name k) (connections w) \<noteq> None" and "\<And>t. connectionCallback env t c False = []"
  shows "\<exists>w'. handleClose env c w = Inr w' \<and> heap w' c = Some (k\<lparr>conn_state := kDisconnected,
     channel := (channel k)\<lparr>ch_index := kAdded\<rparr>\<rparr>)"
proof -
  have "disableAll c (set_conn c (k\<lparr>conn_state := kDisconnected\<rparr>) w) =
      Inr (set_conn c (k\<lparr>conn_state := kDisconnected, channel := (channel k)\<lparr>ch_index := kAdded\<rparr>\<rparr>) w)"
    using assms by (subst disableAll_deleted [of _ _ "k\<lparr>conn_state := kDisconnected\<rparr>"]) (simp_all add: set_conn_def)
  then show ?thesis
    using assms
    by (auto simp: handleClose_def is_open_def with_conn_def call_connectionCallback_def removeConnection_def
        removeConnectionInLoop_def set_conn_def observe_def tick_def queueInLoop_def)
qed

text \<open>\<open>stopRead\<close> followed by \<open>forceClose\<close> can fail: \<open>disableAll\<close> registers the channel, which \<open>stopRead\<close> had
  removed from \<open>epoll\<close>, again without events; a hangup reported before \<open>connectDestroyed\<close> has run then calls
  \<open>handleClose\<close> a second time, whose assertion fails.\<close>

theorem stop_read_close_asserts:
  assumes "env_ok env" and "tcp_reach env w" and "heap w c = Some k" and "conn_state k = kConnected"
    and "content (outputBuffer k) = []" and "pendingFunctors w = []" and "\<And>t. connectionCallback env t c False = []"
  shows "\<exists>w1 w2 w3. stopRead True c w = Inr w1 \<and> forceClose c w1 = Inr w2 \<and> loop_iteration env [] w2 = Inr w3
     \<and> poll_ok w3 [Ready c POLLHUP] \<and> loop_iteration env [Ready c POLLHUP] w3 = Inl AssertFail"
proof -
  note inv = tcp_reach_inv [OF assms(1,2)]
  have op: "is_open k" using assms(4) by (simp add: is_open_def)
  note cw = open_can_write [OF tcp_inv_conn [OF inv assms(3)] op assms(3) inv_channel [OF inv assms(3) op]]
  define k1 where "k1 = k\<lparr>channel := (channel k)\<lparr>events := 0, ch_index := kDeleted\<rparr>, reading := False\<rparr>"
  define w1 where "w1 = set_conn c k1 w"
  define w2 where "w2 = queueInLoop c ForceCloseInLoop (set_conn c (k1\<lparr>conn_state := kDisconnecting\<rparr>) w1)"
  define w2' where "w2' = w2\<lparr>activeChannels := [], eventHandling := False, currentActiveChannel := None, pendingFunctors := []\<rparr>"
  have s: "stopRead True c w = Inr w1" "forceClose c w1 = Inr w2"
    using cw assms(4,5)
    by (simp_all add: stopRead_open can_write_def w1_def k1_def forceClose_def with_conn_def set_conn_def w2_def)
  have "omap_find (conn_name k) (connections w) = Some c"
    using inv assms(3) op by (auto simp: tcp_inv_def table_ok_def)
  then obtain w3 where w3: "handleClose env c w2' = Inr w3"
      "heap w3 c = Some (k1\<lparr>conn_state := kDisconnected, channel := (channel k1)\<lparr>ch_index := kAdded\<rparr>\<rparr>)"
    using handleClose_paused [of w2' c "k1\<lparr>conn_state := kDisconnecting\<rparr>" env] cw assms(7)
    by (auto simp: w2'_def w2_def w1_def k1_def set_conn_def queueInLoop_def can_write_def)
  have "loop_iteration env [] w2 = run_functors env (pendingFunctors w2) w2'"
    by (cases w2) (simp add: loop_iteration_def doPendingFunctors_def w2'_def)
  also have "pendingFunctors w2 = [(c, ForceCloseInLoop)]"
    using assms(6) by (simp add: w2_def w1_def queueInLoop_def set_conn_def)
  also have "run_functors env [(c, ForceCloseInLoop)] w2' = Inr w3"
    using w3(1) by (simp add: forceCloseInLoop_def with_conn_def w2'_def w2_def queueInLoop_def set_conn_def)
  finally have it: "loop_iteration env [] w2 = Inr w3" .
  moreover have "poll_ok w3 [Ready c POLLHUP]"
    using w3(2) by (simp add: poll_ok_def k1_def event_defs)
  moreover have "loop_iteration env [Ready c POLLHUP] w3 = Inl AssertFail"
    using w3(2) by (simp add: loop_iteration_def handleEvent_def handleEventWithGuard_def on_event_def handleClose_def
        with_conn_def event_defs)
  ultimately show ?thesis using s by blast
qed

theorem stop_read_close_asserts_witness:
  "\<exists>w1 w2 w3. stopRead True 0 sample_server = Inr w1 \<and> forceClose 0 w1 = Inr w2 \<and> loop_iteration sample_env [] w2 = Inr w3
     \<and> loop_iteration sample_env [Ready 0 POLLHUP] w3 = Inl AssertFail"
  using stop_read_close_asserts [OF sample_env_ok sample_reach sample_heap(1) _ sample_heap(3)]
  by (fastforce simp: sample_conn_def sample_server_def sample_env_def [THEN arg_cong, of connectionCallback])

subsection \<open>The destruction of the server\<close>

definition in_use :: "TcpServer \<Rightarrow> cid \<Rightarrow> bool" where
  "in_use w c \<longleftrightarrow> (\<exists>k. heap w c = Some k \<and> is_open k \<and> channels w (conn_fd k) = Some c
     \<and> ch_index (channel k) = kAdded \<and> addedToLoop (channel k) \<and> events (channel k) \<noteq> 0)"

lemma connectDestroyed_connected:
  assumes "heap w c = Some k" and "conn_state k = kConnected" and "channels w (conn_fd k) = Some c"
    and "ch_index (channel k) = kAdded" and "addedToLoop (channel k)" and "\<not> eventHandling w"
    and "\<And>t. connectionCallback env t c False = []"
  shows "\<exists>w' k'. connectDestroyed env c w = Inr w' \<and> heap w' = (heap w)(c \<mapsto> k')
     \<and> channels w' = (channels w)(conn_fd k := None) \<and> \<not> eventHandling w'"
proof -
  have "disableAll c (set_conn c (k\<lparr>conn_state := kDisconnected\<rparr>) w) = Inr (set_conn c (k\<lparr>conn_state := kDisconnected,
      channel := (channel k)\<lparr>events := 0, ch_index := kDeleted\<rparr>\<rparr>) w)"
    using assms by (subst disableAll_open [of _ _ "k\<lparr>conn_state := kDisconnected\<rparr>"]) (simp_all add: set_conn_def)
  then show ?thesis
    using assms
    by (simp add: connectDestroyed_def with_conn_def call_connectionCallback_def chan_remove_def removeChannel_def
        poller_removeChannel_def set_conn_def observe_def tick_def isNoneEvent_def kNoneEvent_def) (rule exI, rule refl)
qed

lemma connectDestroyed_disconnecting:
  assumes "heap w c = Some k" and "conn_state k = kDisconnecting" and "events (channel k) \<noteq> 0"
  shows "connectDestroyed env c w = Inl AssertFail"
  using assms by (simp add: connectDestroyed_def with_conn_def chan_remove_def isNoneEvent_def kNoneEvent_def)

lemma destroy_all_result:
  assumes "\<And>t c. connectionCallback env t c False = []" and "list_all (\<lambda>(n, c). in_use w c) items"
    and "distinct (map snd items)" and "\<not> eventHandling w"
  shows "if list_all (\<lambda>(n, c). \<exists>k. heap w c = Some k \<and> conn_state k = kConnected) items
     then \<exists>w'. destroy_all env items w = Inr w' else destroy_all env items w = Inl AssertFail"
  using assms(2-)
proof (induction items arbitrary: w)
  case Nil
  then show ?case by simp
next
  case (Cons item items)
  obtain n c where item: "item = (n, c)" by (cases item)
  obtain k where k: "heap w c = Some k" "is_open k" "channels w (conn_fd k) = Some c" "ch_index (channel k) = kAdded"
      "addedToLoop (channel k)" "events (channel k) \<noteq> 0"
    using Cons.prems(1) by (auto simp: item in_use_def)
  show ?case
  proof (cases "conn_state k = kConnected")
    case True
    obtain w1 k1 where w1: "connectDestroyed env c w = Inr w1" "heap w1 = (heap w)(c \<mapsto> k1)"
        "channels w1 = (channels w)(conn_fd k := None)" "\<not> eventHandling w1"
      using connectDestroyed_connected [OF k(1) True k(3-5) Cons.prems(3)] assms(1) by blast
    have other: "heap w1 c' = heap w c' \<and> in_use w1 c'" if h: "(n', c') \<in> set items" for n' c'
    proof -
      have "c' \<noteq> c" using Cons.prems(2) h by (force simp: item)
      moreover obtain k' where k': "heap w c' = Some k'" "is_open k'" "channels w (conn_fd k') = Some c'"
          "ch_index (channel k') = kAdded" "addedToLoop (channel k')" "events (channel k') \<noteq> 0"
        using Cons.prems(1) h by (auto simp: list_all_iff in_use_def)
      moreover have "conn_fd k' \<noteq> conn_fd k" using k(3) k'(3) \<open>c' \<noteq> c\<close> by auto
      ultimately show ?thesis using w1(2,3) by (simp add: in_use_def)
    qed
    have "list_all (\<lambda>(n, c). in_use w1 c) items" using other by (auto simp: list_all_iff)
    then have "if list_all (\<lambda>(n, c). \<exists>k. heap w1 c = Some k \<and> conn_state k = kConnected) items
     then \<exists>w'. destroy_all env items w1 = Inr w' else destroy_all env items w1 = Inl AssertFail"
      using Cons.IH Cons.prems(2) w1(4) by simp
    moreover have "list_all (\<lambda>(n, c). \<exists>k. heap w1 c = Some k \<and> conn_state k = kConnected) items =
        list_all (\<lambda>(n, c). \<exists>k. heap w c = Some k \<and> conn_state k = kConnected) items"
      using other by (auto simp: list_all_iff)
    ultimately show ?thesis using w1(1) True k(1) by (simp add: item)
  next
    case False
    then have "conn_state k = kDisconnecting" using k(2) by (simp add: is_open_def)
    then show ?thesis
      using connectDestroyed_disconnecting [OF k(1) _ k(6)] k(1) by (simp add: item)
  qed
qed

lemma tcp_reach_idle:
  assumes "env_ok env" and "tcp_reach env w"
  shows "\<not> eventHandling w"
  using assms(2)
proof induction
  case start
  show ?case by (simp add: init_TcpServer_def)
next
  case (iteration w es w')
  then show ?case using loop_iteration_inv [OF assms(1) tcp_reach_inv [OF assms(1)]] by fastforce
next
  case (call w u w')
  then show ?case
    using call_op_alive [of u env w w'] call_op_inv [of env "{}" "[]" w u] tcp_reach_inv [OF assms(1) call.hyps(1)] assms(1)
    by (auto simp: env_ok_def keeps_def grows_def)
next
  case (other_thread w c d w')
  then show ?case
    by (auto simp: tcp_send_def with_conn_def queueInLoop_def split: option.splits if_splits)
next
  case (destroy w c w')
  then show ?case
    by (auto simp: destroy_TcpConnection_def with_conn_def split: option.splits if_splits)
qed

lemma table_distinct:
  assumes inv: "tcp_inv env {} rest w"
  shows "distinct (map snd (connections w))"
proof -
  have d: "distinct (map fst (connections w))"
    using inv unfolding tcp_inv_def table_ok_def omap_ok_def by (metis strict_sorted_iff)
  have name: "\<exists>k. heap w c = Some k \<and> conn_name k = n" if "(n, c) \<in> set (connections w)" for n c
  proof -
    have "omap_find n (connections w) = Some c" using d that by (simp add: omap_find_def)
    then show ?thesis using inv by (auto simp: tcp_inv_def table_ok_def)
  qed
  then have "inj_on snd (set (connections w))"
    by (intro inj_onI) (metis option.inject prod.collapse)
  with d show ?thesis by (simp add: distinct_map)
qed

text \<open>Destroying a server whose connections are all in \<open>kConnected\<close> succeeds; when one of them is being shut
  down (\<open>kDisconnecting\<close>), \<open>connectDestroyed\<close> removes its channel without disabling it and an assertion fails.\<close>

theorem server_destruction:
  assumes "env_ok env" and "tcp_reach env w" and "\<And>t c. connectionCallback env t c False = []"
  shows "if \<forall>c \<in> snd ` set (connections w). \<exists>k. heap w c = Some k \<and> conn_state k = kConnected
     then \<exists>w'. destroy_TcpServer env w = Inr w' else destroy_TcpServer env w = Inl AssertFail"
proof -
  note inv = tcp_reach_inv [OF assms(1,2)]
  have "in_use w c" if h: "(n, c) \<in> set (connections w)" for n c
  proof -
    obtain k where k: "heap w c = Some k" "is_open k" using in_table_iff [OF inv, of c] h by force
    then show ?thesis
      using conn_inv_open [OF k(2) tcp_inv_conn [OF inv k(1)]] inv_channel [OF inv k] by (auto simp: in_use_def open_inv_def)
  qed
  then have used: "list_all (\<lambda>(n, c). in_use w c) (connections w)" by (auto simp: list_all_iff)
  have eq: "list_all (\<lambda>(n, c). \<exists>k. heap w c = Some k \<and> conn_state k = kConnected) (connections w) \<longleftrightarrow>
      (\<forall>c \<in> snd ` set (connections w). \<exists>k. heap w c = Some k \<and> conn_state k = kConnected)"
    by (auto simp: list_all_iff)
  show ?thesis
    using destroy_all_result [OF assms(3) used table_distinct [OF inv] tcp_reach_idle [OF assms(1,2)]]
    unfolding destroy_TcpServer_def eq .
qed

theorem server_destruction_witness:
  "(\<exists>w'. destroy_TcpServer sample_env sample_server = Inr w') \<and> destroy_TcpServer sample_env sample_shut = Inl AssertFail"
  using server_destruction [OF sample_env_ok sample_reach] server_destruction [OF sample_env_ok sample_shutdown]
  by (simp add: sample_server_def sample_shut_def sample_conn_def sample_env_def [THEN arg_cong, of connectionCallback])

end
