(* ===== verification/Timer_Queue.thy ===== *)
theory Timer_Queue
  imports Prelude "HOL-Library.Product_Lexorder"
begin

section \<open>The timer queue\<close>

text \<open>
  \<open>net/TimerQueue.cc\<close>, \<open>net/Timer.h\<close>, \<open>net/Timer.cc\<close>, \<open>net/TimerId.h\<close>. A \<open>Timestamp\<close> is the number of
  microseconds. The interval of a timer is a \<open>double\<close> in seconds; it is used only through \<open>repeat_\<close> and through the
  whole microseconds that \<open>addTime\<close> makes of it, which are the fields \<open>timer_repeat\<close> and \<open>delta\<close>. A \<open>Timer*\<close> is an address
  in \<open>timer_heap\<close>; using an address that has been deleted is \<open>Inl DanglingPtr\<close>. The two ordered sets are
  strictly sorted lists.

  Parameters are the allocator, which returns an address that is not in use or fails (\<open>Inl BadAlloc\<close>), and the callbacks: what the callback of a
  timer adds and cancels, which may differ from call to call. All calls are in the thread of the loop, where
  \<open>runInLoop\<close> calls at once. \<open>armed\<close> is the time \<open>timerfd_settime\<close> was last asked for, until the alarm is read;
  \<open>ran\<close> records the callbacks in the order in which they were called.
\<close>

record Timer =
  expiration :: int
  delta :: int
  timer_repeat :: bool
  timer_seq :: int

type_synonym addr = int
type_synonym TimerId = "addr \<times> int"

datatype timer_op =
    TAdd int int bool
  | TCancel TimerId

record timer_env =
  alloc :: "(addr \<Rightarrow> Timer option) \<Rightarrow> addr option"
  callback :: "nat \<Rightarrow> TimerId \<Rightarrow> timer_op list"

record TimerQueue =
  timer_heap :: "addr \<Rightarrow> Timer option"
  s_numCreated :: int
  timers :: "(int \<times> addr) list"
  activeTimers :: "(addr \<times> int) list"
  callingExpiredTimers :: bool
  cancelingTimers :: "(addr \<times> int) list"
  armed :: "int option"
  ran :: "TimerId list"

definition new_TimerQueue :: TimerQueue where
  "new_TimerQueue = \<lparr>timer_heap = (\<lambda>t. None), s_numCreated = 0, timers = [], activeTimers = [],
     callingExpiredTimers = False, cancelingTimers = [], armed = None, ran = []\<rparr>"

definition UINTPTR_MAX :: addr where "UINTPTR_MAX = 18446744073709551615"

definition valid_time :: "int \<Rightarrow> bool" where
  "valid_time t \<longleftrightarrow> t > 0"

subsection \<open>The alarm\<close>

definition kMicroSecondsPerSecond :: int where "kMicroSecondsPerSecond = 1000 * 1000"

text \<open>The result is the pair of \<open>tv_sec\<close> and \<open>tv_nsec\<close>.\<close>

definition howMuchTimeFromNow :: "int \<Rightarrow> int \<Rightarrow> int \<times> int" where
  "howMuchTimeFromNow when now =
     (let microseconds = (if when - now < 100 then 100 else when - now)
      in (microseconds div kMicroSecondsPerSecond, (microseconds mod kMicroSecondsPerSecond) * 1000))"

definition resetTimerfd :: "int \<Rightarrow> TimerQueue \<Rightarrow> TimerQueue" where
  "resetTimerfd when q = q\<lparr>armed := Some when\<rparr>"

subsection \<open>Adding and cancelling\<close>

definition with_timer :: "addr \<Rightarrow> TimerQueue \<Rightarrow> (Timer \<Rightarrow> 'a result) \<Rightarrow> 'a result" where
  "with_timer t q f = (case timer_heap q t of None \<Rightarrow> Inl DanglingPtr | Some T \<Rightarrow> f T)"

definition sizes_agree :: "TimerQueue \<Rightarrow> bool" where
  "sizes_agree q \<longleftrightarrow> length (timers q) = length (activeTimers q)"

definition timer_insert :: "addr \<Rightarrow> TimerQueue \<Rightarrow> (bool \<times> TimerQueue) result" where
  "timer_insert t q =
     (if \<not> sizes_agree q then Inl AssertFail
      else with_timer t q (\<lambda>T.
        let when = expiration T;
            earliestChanged = (timers q = [] \<or> when < fst (hd (timers q)))
        in if (when, t) \<in> set (timers q) then Inl AssertFail
           else if (t, timer_seq T) \<in> set (activeTimers q) then Inl AssertFail
           else let q' = q\<lparr>timers := insort (when, t) (timers q), activeTimers := insort (t, timer_seq T) (activeTimers q)\<rparr>
                in if sizes_agree q' then Inr (earliestChanged, q') else Inl AssertFail))"

definition addTimerInLoop :: "addr \<Rightarrow> TimerQueue \<Rightarrow> TimerQueue result" where
  "addTimerInLoop t q =
     bind_result (timer_insert t q) (\<lambda>(earliestChanged, q').
       if earliestChanged then with_timer t q' (\<lambda>T. Inr (resetTimerfd (expiration T) q')) else Inr q')"

definition addTimer :: "timer_env \<Rightarrow> int \<Rightarrow> int \<Rightarrow> bool \<Rightarrow> TimerQueue \<Rightarrow> (TimerId \<times> TimerQueue) result" where
  "addTimer env when dl rep q =
     (case alloc env (timer_heap q) of
        None \<Rightarrow> Inl BadAlloc
      | Some t \<Rightarrow>
          let sequence = s_numCreated q + 1;
              T = \<lparr>expiration = when, delta = dl, timer_repeat = rep, timer_seq = sequence\<rparr>
          in bind_result (addTimerInLoop t (q\<lparr>s_numCreated := sequence, timer_heap := (timer_heap q)(t \<mapsto> T)\<rparr>)) (\<lambda>q'.
               Inr ((t, sequence), q')))"

definition cancelInLoop :: "TimerId \<Rightarrow> TimerQueue \<Rightarrow> TimerQueue result" where
  "cancelInLoop timer q =
     (if \<not> sizes_agree q then Inl AssertFail
      else bind_result
        (if timer \<in> set (activeTimers q)
         then with_timer (fst timer) q (\<lambda>T.
           let entry = (expiration T, fst timer)
           in if entry \<notin> set (timers q) then Inl AssertFail
              else Inr (q\<lparr>timers := remove1 entry (timers q), timer_heap := (timer_heap q)(fst timer := None),
                          activeTimers := remove1 timer (activeTimers q)\<rparr>))
         else if callingExpiredTimers q
         then Inr (q\<lparr>cancelingTimers := List.insert timer (cancelingTimers q)\<rparr>)
         else Inr q)
        (\<lambda>q'. if sizes_agree q' then Inr q' else Inl AssertFail))"

fun timer_call :: "timer_env \<Rightarrow> timer_op \<Rightarrow> TimerQueue \<Rightarrow> TimerQueue result" where
  "timer_call env (TAdd when dl rep) q = bind_result (addTimer env when dl rep q) (\<lambda>(i, q'). Inr q')"
| "timer_call env (TCancel i) q = cancelInLoop i q"

fun timer_calls :: "timer_env \<Rightarrow> timer_op list \<Rightarrow> TimerQueue \<Rightarrow> TimerQueue result" where
  "timer_calls env [] q = Inr q"
| "timer_calls env (u # us) q = bind_result (timer_call env u q) (timer_calls env us)"

subsection \<open>Expiry\<close>

fun erase_active :: "(int \<times> addr) list \<Rightarrow> TimerQueue \<Rightarrow> TimerQueue result" where
  "erase_active [] q = Inr q"
| "erase_active ((when, t) # es) q = with_timer t q (\<lambda>T.
     if (t, timer_seq T) \<in> set (activeTimers q)
     then erase_active es (q\<lparr>activeTimers := remove1 (t, timer_seq T) (activeTimers q)\<rparr>)
     else Inl AssertFail)"

definition getExpired :: "int \<Rightarrow> TimerQueue \<Rightarrow> ((int \<times> addr) list \<times> TimerQueue) result" where
  "getExpired now q =
     (if \<not> sizes_agree q then Inl AssertFail
      else let sentry = (now, UINTPTR_MAX);
               expired = takeWhile (\<lambda>e. e < sentry) (timers q);
               rest = dropWhile (\<lambda>e. e < sentry) (timers q)
           in if \<not> (rest = [] \<or> now < fst (hd rest)) then Inl AssertFail
              else bind_result (erase_active expired (q\<lparr>timers := rest\<rparr>)) (\<lambda>q'.
                     if sizes_agree q' then Inr (expired, q') else Inl AssertFail))"

definition timer_restart :: "int \<Rightarrow> Timer \<Rightarrow> Timer" where
  "timer_restart now T = (if timer_repeat T then T\<lparr>expiration := now + delta T\<rparr> else T\<lparr>expiration := 0\<rparr>)"

fun restart_timers :: "(int \<times> addr) list \<Rightarrow> int \<Rightarrow> TimerQueue \<Rightarrow> TimerQueue result" where
  "restart_timers [] now q = Inr q"
| "restart_timers ((when, t) # es) now q = with_timer t q (\<lambda>T.
     if timer_repeat T \<and> (t, timer_seq T) \<notin> set (cancelingTimers q)
     then bind_result (timer_insert t (q\<lparr>timer_heap := (timer_heap q)(t \<mapsto> timer_restart now T)\<rparr>)) (\<lambda>(b, q').
            restart_timers es now q')
     else restart_timers es now (q\<lparr>timer_heap := (timer_heap q)(t := None)\<rparr>))"

definition timer_reset :: "(int \<times> addr) list \<Rightarrow> int \<Rightarrow> TimerQueue \<Rightarrow> TimerQueue result" where
  "timer_reset expired now q =
     bind_result (restart_timers expired now q) (\<lambda>q'.
       if timers q' = [] then Inr q'
       else with_timer (snd (hd (timers q'))) q' (\<lambda>T.
         if valid_time (expiration T) then Inr (resetTimerfd (expiration T) q') else Inr q'))"

fun run_expired :: "timer_env \<Rightarrow> (int \<times> addr) list \<Rightarrow> TimerQueue \<Rightarrow> TimerQueue result" where
  "run_expired env [] q = Inr q"
| "run_expired env ((when, t) # es) q = with_timer t q (\<lambda>T.
     bind_result (timer_calls env (callback env (length (ran q)) (t, timer_seq T)) (q\<lparr>ran := ran q @ [(t, timer_seq T)]\<rparr>))
       (run_expired env es))"

definition timer_handleRead :: "timer_env \<Rightarrow> int \<Rightarrow> TimerQueue \<Rightarrow> TimerQueue result" where
  "timer_handleRead env now q =
     bind_result (getExpired now (q\<lparr>armed := None\<rparr>)) (\<lambda>(expired, q1).
     bind_result (run_expired env expired (q1\<lparr>callingExpiredTimers := True, cancelingTimers := []\<rparr>)) (\<lambda>q2.
       timer_reset expired now (q2\<lparr>callingExpiredTimers := False\<rparr>)))"

subsection \<open>The interface of the loop, and the end\<close>

text \<open>\<open>EventLoop::runAt\<close>, \<open>runAfter\<close> and \<open>runEvery\<close>; the delay or interval is given by its whole microseconds and
  whether it is positive.\<close>

definition runAt :: "timer_env \<Rightarrow> int \<Rightarrow> TimerQueue \<Rightarrow> (TimerId \<times> TimerQueue) result" where
  "runAt env time q = addTimer env time 0 False q"

definition runAfter :: "timer_env \<Rightarrow> int \<Rightarrow> int \<Rightarrow> TimerQueue \<Rightarrow> (TimerId \<times> TimerQueue) result" where
  "runAfter env now delay q = runAt env (now + delay) q"

definition runEvery :: "timer_env \<Rightarrow> int \<Rightarrow> int \<Rightarrow> bool \<Rightarrow> TimerQueue \<Rightarrow> (TimerId \<times> TimerQueue) result" where
  "runEvery env now interval positive q = addTimer env (now + interval) interval positive q"

fun delete_timers :: "(int \<times> addr) list \<Rightarrow> TimerQueue \<Rightarrow> TimerQueue result" where
  "delete_timers [] q = Inr q"
| "delete_timers ((when, t) # es) q = with_timer t q (\<lambda>T. delete_timers es (q\<lparr>timer_heap := (timer_heap q)(t := None)\<rparr>))"

definition TimerQueue_dtor :: "TimerQueue \<Rightarrow> TimerQueue result" where
  "TimerQueue_dtor q = delete_timers (timers q) q"

end
