(* ===== verification/Timer_Safety.thy ===== *)
theory Timer_Safety
  imports Timer_Queue
begin

section \<open>What the timer queue does\<close>

text \<open>
  The invariant relates the two ordered sets to the timers that exist; from it no assertion fails, expired
  timers are run in order, a cancelled timer never runs again even if its address is used again, and the alarm is never
  later than the first timer.
\<close>

subsection \<open>The invariant\<close>

text \<open>\<open>X\<close> are the timers that have been taken out because they have expired.\<close>

definition timer_heap_ok :: "TimerQueue \<Rightarrow> bool" where
  "timer_heap_ok q \<longleftrightarrow>
     finite (dom (timer_heap q)) \<and>
     (\<forall>t T. timer_heap q t = Some T \<longrightarrow>
        t < UINTPTR_MAX \<and> timer_seq T \<le> s_numCreated q \<and> (timer_repeat T \<longrightarrow> 0 \<le> delta T))"

definition tq_inv :: "addr set \<Rightarrow> TimerQueue \<Rightarrow> bool" where
  "tq_inv X q \<longleftrightarrow> timer_heap_ok q \<and> X \<subseteq> dom (timer_heap q)
     \<and> sorted_wrt (<) (timers q) \<and> distinct (activeTimers q)
     \<and> (\<forall>w t. (w, t) \<in> set (timers q) \<longleftrightarrow> (\<exists>T. timer_heap q t = Some T \<and> t \<notin> X \<and> expiration T = w))
     \<and> (\<forall>t s. (t, s) \<in> set (activeTimers q) \<longleftrightarrow> (\<exists>T. timer_heap q t = Some T \<and> t \<notin> X \<and> timer_seq T = s))"

lemma tq_inv_sizes:
  assumes "tq_inv X q"
  shows "sizes_agree q"
proof -
  have t: "(w, t) \<in> set (timers q) \<longleftrightarrow> (\<exists>T. timer_heap q t = Some T \<and> t \<notin> X \<and> expiration T = w)" for w t
    using assms by (simp add: tq_inv_def)
  have a: "(t, s) \<in> set (activeTimers q) \<longleftrightarrow> (\<exists>T. timer_heap q t = Some T \<and> t \<notin> X \<and> timer_seq T = s)" for t s
    using assms by (simp add: tq_inv_def)
  have "distinct (timers q)" using assms by (simp add: tq_inv_def strict_sorted_iff)
  moreover have "inj_on snd (set (timers q))" by (auto simp: inj_on_def t)
  ultimately have "length (timers q) = card (snd ` set (timers q))"
    by (simp add: card_image distinct_card)
  also have "snd ` set (timers q) = fst ` set (activeTimers q)"
  proof (intro set_eqI iffI)
    fix x assume "x \<in> snd ` set (timers q)"
    then obtain w where "(w, x) \<in> set (timers q)" by auto
    then obtain T where "timer_heap q x = Some T" "x \<notin> X" by (auto simp: t)
    then have "(x, timer_seq T) \<in> set (activeTimers q)" by (simp add: a)
    then show "x \<in> fst ` set (activeTimers q)" by (force intro: rev_image_eqI)
  next
    fix x assume "x \<in> fst ` set (activeTimers q)"
    then obtain s where "(x, s) \<in> set (activeTimers q)" by auto
    then obtain T where "timer_heap q x = Some T" "x \<notin> X" by (auto simp: a)
    then have "(expiration T, x) \<in> set (timers q)" by (simp add: t)
    then show "x \<in> snd ` set (timers q)" by (force intro: rev_image_eqI)
  qed
  also have "card (fst ` set (activeTimers q)) = length (activeTimers q)"
  proof -
    have "inj_on fst (set (activeTimers q))" by (auto simp: inj_on_def a)
    then show ?thesis using assms by (simp add: card_image distinct_card tq_inv_def)
  qed
  finally show ?thesis by (simp add: sizes_agree_def)
qed

text \<open>The alarm is set for no later than any timer that is due by \<open>L\<close>.\<close>

definition armed_upto :: "int \<Rightarrow> TimerQueue \<Rightarrow> bool" where
  "armed_upto L q \<longleftrightarrow> (\<forall>e \<in> set (timers q). fst e \<le> L \<longrightarrow> (\<exists>a. armed q = Some a \<and> a \<le> fst e))"

lemma hd_least:
  assumes "sorted_wrt (<) (es :: (int \<times> addr) list)" and "e \<in> set es"
  shows "fst (hd es) \<le> fst e"
proof -
  have "hd es \<le> e" using assms by (cases es) auto
  then show ?thesis by (auto simp: less_eq_prod_def)
qed

subsection \<open>Inserting\<close>

lemma timer_insert_inv:
  assumes inv: "tq_inv X q" and t: "t \<in> X" and T: "timer_heap q t = Some T"
  defines "q' \<equiv> q\<lparr>timers := insort (expiration T, t) (timers q), activeTimers := insort (t, timer_seq T) (activeTimers q)\<rparr>"
  shows "timer_insert t q = Inr (timers q = [] \<or> expiration T < fst (hd (timers q)), q')" and "tq_inv (X - {t}) q'"
proof -
  have new: "(expiration T, t) \<notin> set (timers q)" "(t, timer_seq T) \<notin> set (activeTimers q)"
    using inv t by (auto simp: tq_inv_def)
  show inv': "tq_inv (X - {t}) q'"
    using inv t T new
    by (auto simp: tq_inv_def q'_def timer_heap_ok_def strict_sorted_iff sorted_insort distinct_insort set_insort_key)
  show "timer_insert t q = Inr (timers q = [] \<or> expiration T < fst (hd (timers q)), q')"
    using tq_inv_sizes [OF inv] tq_inv_sizes [OF inv'] T new
    by (simp add: timer_insert_def with_timer_def Let_def q'_def)
qed

text \<open>What calls from outside and from callbacks keep: the expired timers, the callbacks recorded; new timers have new
  numbers.\<close>

definition tq_keeps :: "addr set \<Rightarrow> TimerQueue \<Rightarrow> TimerQueue \<Rightarrow> bool" where
  "tq_keeps X q q' \<longleftrightarrow> callingExpiredTimers q' = callingExpiredTimers q \<and> s_numCreated q \<le> s_numCreated q'
     \<and> (\<forall>t \<in> X. timer_heap q' t = timer_heap q t)
     \<and> (\<forall>t T. timer_heap q' t = Some T \<longrightarrow> timer_heap q t = Some T \<or> s_numCreated q < timer_seq T)
     \<and> (\<forall>L. armed_upto L q \<longrightarrow> armed_upto L q')"

lemma tq_keeps_refl [simp]: "tq_keeps X q q"
  by (simp add: tq_keeps_def)

lemma tq_keeps_trans: "tq_keeps X q q' \<Longrightarrow> tq_keeps X q' q'' \<Longrightarrow> tq_keeps X q q''"
  unfolding tq_keeps_def by (metis order.trans order_le_less_trans)

text \<open>The assumptions: the allocator returns a free address if any, and a repeating timer's interval is not negative.\<close>

fun timer_op_ok :: "timer_op \<Rightarrow> bool" where
  "timer_op_ok (TAdd when dl rep) \<longleftrightarrow> (rep \<longrightarrow> 0 \<le> dl)"
| "timer_op_ok (TCancel i) \<longleftrightarrow> True"

definition timer_env_ok :: "timer_env \<Rightarrow> bool" where
  "timer_env_ok env \<longleftrightarrow> (\<forall>h t. alloc env h = Some t \<longrightarrow> h t = None \<and> t < UINTPTR_MAX)
     \<and> (\<forall>n i. list_all timer_op_ok (callback env n i))"

lemma armed_upto_insert:
  assumes "armed_upto L q" and "sorted_wrt (<) (timers q)"
    and "timers q' = insort (w, t) (timers q)"
    and "armed q' = (if timers q = [] \<or> w < fst (hd (timers q)) then Some w else armed q)"
  shows "armed_upto L q'"
proof (cases "timers q = [] \<or> w < fst (hd (timers q))")
  case True
  have "w \<le> fst e" if "e \<in> set (timers q)" for e
    using True hd_least [OF assms(2) that] that by auto
  then show ?thesis using True assms(3,4) by (auto simp: armed_upto_def set_insort_key)
next
  case False
  then have "hd (timers q) \<in> set (timers q)" "fst (hd (timers q)) \<le> w" by auto
  moreover have "\<exists>a. armed q = Some a \<and> a \<le> w" if "w \<le> L"
    using calculation that assms(1) unfolding armed_upto_def by (meson order.trans)
  ultimately show ?thesis using False assms(1,3,4) by (auto simp: armed_upto_def set_insort_key)
qed

lemma addTimer_ok:
  assumes inv: "tq_inv X q" and env: "timer_env_ok env" and rep: "rep \<longrightarrow> 0 \<le> dl" and mem: "addTimer env when dl rep q \<noteq> Inl BadAlloc"
  shows "\<exists>t q'. addTimer env when dl rep q = Inr ((t, s_numCreated q + 1), q') \<and> tq_inv X q' \<and> tq_keeps X q q'
    \<and> timer_heap q' t = Some \<lparr>expiration = when, delta = dl, timer_repeat = rep, timer_seq = s_numCreated q + 1\<rparr>
    \<and> ran q' = ran q \<and> cancelingTimers q' = cancelingTimers q \<and> t \<notin> X"
proof -
  obtain t where t: "alloc env (timer_heap q) = Some t" using mem by (auto simp: addTimer_def split: option.splits)
  define T where "T = \<lparr>expiration = when, delta = dl, timer_repeat = rep, timer_seq = s_numCreated q + 1\<rparr>"
  define q1 where "q1 = q\<lparr>s_numCreated := s_numCreated q + 1, timer_heap := (timer_heap q)(t \<mapsto> T)\<rparr>"
  have free: "timer_heap q t = None" "t < UINTPTR_MAX"
    using t env unfolding timer_env_ok_def by blast+
  have tX: "t \<notin> X" using inv free by (auto simp: tq_inv_def)
  have seq: "timer_seq U \<le> s_numCreated q + 1" if "timer_heap q u = Some U" for u U
    using inv that unfolding tq_inv_def timer_heap_ok_def by fastforce
  have inv1: "tq_inv (insert t X) q1"
    using inv free tX rep seq by (auto simp: tq_inv_def timer_heap_ok_def q1_def T_def split: if_splits)
  have T1: "timer_heap q1 t = Some T" by (simp add: q1_def)
  note ins = timer_insert_inv [OF inv1 insertI1 T1]
  let ?q2 = "q1\<lparr>timers := insort (expiration T, t) (timers q1), activeTimers := insort (t, timer_seq T) (activeTimers q1)\<rparr>"
  let ?q3 = "if timers q1 = [] \<or> expiration T < fst (hd (timers q1)) then resetTimerfd (expiration T) ?q2 else ?q2"
  have "tq_inv X ?q2" using ins(2) tX by simp
  then have inv3: "tq_inv X ?q3" by (auto simp: tq_inv_def timer_heap_ok_def resetTimerfd_def)
  have upto: "armed_upto L q \<longrightarrow> armed_upto L ?q3" for L
    using armed_upto_insert [of L q ?q3 "when" t] inv by (auto simp: tq_inv_def resetTimerfd_def q1_def T_def)
  have "addTimerInLoop t q1 = Inr ?q3"
    using ins(1) T1 by (simp add: addTimerInLoop_def with_timer_def)
  then have "addTimer env when dl rep q = Inr ((t, s_numCreated q + 1), ?q3)"
    by (simp add: addTimer_def t T_def [symmetric] q1_def [symmetric] Let_def)
  moreover have "tq_keeps X q ?q3"
    using upto tX by (auto simp: tq_keeps_def resetTimerfd_def q1_def T_def)
  moreover have "timer_heap ?q3 t = Some T" "ran ?q3 = ran q" "cancelingTimers ?q3 = cancelingTimers q"
    by (simp_all add: resetTimerfd_def q1_def)
  ultimately show ?thesis using inv3 tX unfolding T_def by blast
qed

lemma cancelInLoop_ok:
  assumes inv: "tq_inv X q"
  shows "\<exists>q'. cancelInLoop i q = Inr q' \<and> tq_inv X q' \<and> tq_keeps X q q' \<and> ran q' = ran q
    \<and> (\<forall>T. timer_heap q' (fst i) = Some T \<longrightarrow> timer_seq T = snd i \<longrightarrow> fst i \<in> X)
    \<and> (\<forall>j. fst j \<in> X \<longrightarrow> j \<in> set (cancelingTimers q') \<longleftrightarrow>
             j \<in> set (cancelingTimers q) \<or> (callingExpiredTimers q \<and> j = i))"
proof (cases "i \<in> set (activeTimers q)")
  case True
  obtain t s where i: "i = (t, s)" by fastforce
  obtain T where T: "timer_heap q t = Some T" "t \<notin> X" "timer_seq T = s"
    using True inv i by (auto simp: tq_inv_def)
  have e: "(expiration T, t) \<in> set (timers q)" using T inv by (auto simp: tq_inv_def)
  define q' where "q' = q\<lparr>timers := remove1 (expiration T, t) (timers q), timer_heap := (timer_heap q)(t := None),
    activeTimers := remove1 (t, s) (activeTimers q)\<rparr>"
  have d: "distinct (timers q)" using inv by (simp add: tq_inv_def strict_sorted_iff)
  have "tq_inv X q'"
    using inv T d
    by (auto simp: tq_inv_def timer_heap_ok_def q'_def strict_sorted_iff sorted_remove1 set_remove1_eq)
  moreover have "cancelInLoop i q = Inr q'"
    using tq_inv_sizes [OF inv] tq_inv_sizes [OF calculation] True T e i
    by (simp add: cancelInLoop_def with_timer_def q'_def Let_def)
  moreover have "tq_keeps X q q'"
    using T by (auto simp: tq_keeps_def q'_def armed_upto_def dest: notin_set_remove1)
  ultimately show ?thesis using T i by (auto simp: q'_def)
next
  case False
  then show ?thesis
    using inv tq_inv_sizes [OF inv]
    by (cases i) (auto simp: cancelInLoop_def tq_inv_def timer_heap_ok_def tq_keeps_def armed_upto_def sizes_agree_def)
qed

lemma timer_call_ok:
  assumes "tq_inv X q" and "timer_env_ok env" and "timer_op_ok u" and "timer_call env u q \<noteq> Inl BadAlloc"
  shows "\<exists>q'. timer_call env u q = Inr q' \<and> tq_inv X q' \<and> tq_keeps X q q' \<and> ran q' = ran q
    \<and> (\<forall>j. fst j \<in> X \<longrightarrow> j \<in> set (cancelingTimers q') \<longleftrightarrow>
             j \<in> set (cancelingTimers q) \<or> (callingExpiredTimers q \<and> u = TCancel j))"
proof (cases u)
  case (TAdd w dl rep)
  then have "addTimer env w dl rep q \<noteq> Inl BadAlloc" using assms(4) by auto
  with TAdd obtain t q' where "addTimer env w dl rep q = Inr ((t, s_numCreated q + 1), q')" "tq_inv X q'" "tq_keeps X q q'"
    "ran q' = ran q" "cancelingTimers q' = cancelingTimers q"
    using addTimer_ok [OF assms(1,2), of rep dl w] assms(3,4) by auto
  then show ?thesis using TAdd by auto
next
  case (TCancel i)
  then show ?thesis using cancelInLoop_ok [OF assms(1), of i] by auto
qed

lemma timer_calls_ok:
  assumes "tq_inv X q" and "timer_env_ok env" and "list_all timer_op_ok us" and "timer_calls env us q \<noteq> Inl BadAlloc"
  shows "\<exists>q'. timer_calls env us q = Inr q' \<and> tq_inv X q' \<and> tq_keeps X q q' \<and> ran q' = ran q
    \<and> (\<forall>j. fst j \<in> X \<longrightarrow> j \<in> set (cancelingTimers q') \<longleftrightarrow>
             j \<in> set (cancelingTimers q) \<or> (callingExpiredTimers q \<and> TCancel j \<in> set us))"
  using assms
proof (induction us arbitrary: q)
  case Nil
  then show ?case by simp
next
  case (Cons u us)
  have "timer_call env u q \<noteq> Inl BadAlloc" using Cons.prems(4) by auto
  then obtain q1 where 1: "timer_call env u q = Inr q1" "tq_inv X q1" "tq_keeps X q q1" "ran q1 = ran q"
    "\<And>j. fst j \<in> X \<Longrightarrow> j \<in> set (cancelingTimers q1) \<longleftrightarrow>
           j \<in> set (cancelingTimers q) \<or> (callingExpiredTimers q \<and> u = TCancel j)"
    using timer_call_ok [OF Cons.prems(1,2), of u] Cons.prems(3,4) by auto
  obtain q2 where 2: "timer_calls env us q1 = Inr q2" "tq_inv X q2" "tq_keeps X q1 q2" "ran q2 = ran q1"
    "\<And>j. fst j \<in> X \<Longrightarrow> j \<in> set (cancelingTimers q2) \<longleftrightarrow>
           j \<in> set (cancelingTimers q1) \<or> (callingExpiredTimers q1 \<and> TCancel j \<in> set us)"
    using Cons.IH [OF 1(2) Cons.prems(2)] Cons.prems(3,4) 1(1) by auto
  have "callingExpiredTimers q1 = callingExpiredTimers q" using 1(3) by (simp add: tq_keeps_def)
  then show ?case using 1 2 tq_keeps_trans [OF 1(3) 2(3)] by auto
qed

subsection \<open>Expiry\<close>

text \<open>The number of a timer that exists, and the timers that are due at \<open>now\<close>.\<close>

definition timer_id :: "TimerQueue \<Rightarrow> int \<times> addr \<Rightarrow> TimerId" where
  "timer_id q e = (snd e, timer_seq (the (timer_heap q (snd e))))"

definition due :: "int \<Rightarrow> TimerQueue \<Rightarrow> (int \<times> addr) list" where
  "due now q = filter (\<lambda>e. fst e \<le> now) (timers q)"

lemma sentry_due:
  assumes "snd e < UINTPTR_MAX"
  shows "e < (now :: int, UINTPTR_MAX) \<longleftrightarrow> fst e \<le> now"
  using assms by (cases e) (auto simp: less_prod_def')

lemma takeWhile_due:
  assumes "sorted_wrt (<) (es :: (int \<times> addr) list)"
  shows "takeWhile (\<lambda>e. fst e \<le> now) es = filter (\<lambda>e. fst e \<le> now) es"
    and "dropWhile (\<lambda>e. fst e \<le> now) es = filter (\<lambda>e. \<not> fst e \<le> now) es"
proof -
  have "takeWhile (\<lambda>e. fst e \<le> now) es = filter (\<lambda>e. fst e \<le> now) es
    \<and> dropWhile (\<lambda>e. fst e \<le> now) es = filter (\<lambda>e. \<not> fst e \<le> now) es"
    using assms
  proof (induction es)
    case Nil
    then show ?case by simp
  next
    case (Cons e es)
    have "fst e \<le> fst e'" if "e' \<in> set es" for e'
      using hd_least [OF Cons.prems, of e'] that by simp
    then have "filter (\<lambda>e. fst e \<le> now) es = []" "filter (\<lambda>e. \<not> fst e \<le> now) es = es" if "\<not> fst e \<le> now"
      using that by (force simp: filter_empty_conv filter_id_conv)+
    then show ?case using Cons by auto
  qed
  then show "takeWhile (\<lambda>e. fst e \<le> now) es = filter (\<lambda>e. fst e \<le> now) es"
    and "dropWhile (\<lambda>e. fst e \<le> now) es = filter (\<lambda>e. \<not> fst e \<le> now) es" by auto
qed

lemma erase_active_ok:
  assumes "distinct (map snd es)" and "distinct (activeTimers q)"
    and "\<forall>e \<in> set es. timer_heap q (snd e) \<noteq> None \<and> timer_id q e \<in> set (activeTimers q)"
  shows "\<exists>A. erase_active es q = Inr (q\<lparr>activeTimers := A\<rparr>) \<and> distinct A
    \<and> set A = set (activeTimers q) - timer_id q ` set es"
  using assms
proof (induction es arbitrary: q)
  case Nil
  then show ?case by (auto intro!: exI [of _ "activeTimers q"])
next
  case (Cons e es)
  obtain w t where e: "e = (w, t)" by fastforce
  obtain T where T: "timer_heap q t = Some T" "(t, timer_seq T) \<in> set (activeTimers q)"
    using Cons.prems(3) e by (auto simp: timer_id_def)
  define q1 where "q1 = q\<lparr>activeTimers := remove1 (t, timer_seq T) (activeTimers q)\<rparr>"
  have id: "timer_id q1 = timer_id q" by (simp add: timer_id_def q1_def fun_eq_iff)
  have "snd d \<noteq> t" if "d \<in> set es" for d using Cons.prems(1) e that by force
  then have "\<forall>e \<in> set es. timer_heap q1 (snd e) \<noteq> None \<and> timer_id q1 e \<in> set (activeTimers q1)"
    using Cons.prems(2,3) unfolding id by (auto simp: q1_def timer_id_def)
  then obtain A where "erase_active es q1 = Inr (q1\<lparr>activeTimers := A\<rparr>)" "distinct A"
    "set A = set (activeTimers q1) - timer_id q1 ` set es"
    using Cons.IH [of q1] Cons.prems(1,2) by (auto simp: q1_def)
  moreover have "erase_active (e # es) q = erase_active es q1" using T e by (simp add: with_timer_def q1_def)
  ultimately show ?case
    using Cons.prems(2) T e unfolding id
    by (intro exI [of _ A]) (auto simp: q1_def timer_id_def)
qed

lemma due_timers:
  assumes inv: "tq_inv {} q"
  shows "sorted_wrt (<) (due now q)" and "distinct (map snd (due now q))"
    and "e \<in> set (due now q) \<Longrightarrow> \<exists>T. timer_heap q (snd e) = Some T \<and> expiration T = fst e \<and> snd e < UINTPTR_MAX
           \<and> timer_id q e \<in> set (activeTimers q)"
proof -
  have t: "(w, t) \<in> set (timers q) \<longleftrightarrow> (\<exists>T. timer_heap q t = Some T \<and> expiration T = w)" for w t
    using inv by (simp add: tq_inv_def)
  show "sorted_wrt (<) (due now q)" using inv by (simp add: tq_inv_def due_def sorted_wrt_filter)
  then have "distinct (due now q)" by (simp add: strict_sorted_iff)
  moreover have "inj_on snd (set (due now q))" by (auto simp: inj_on_def due_def t)
  ultimately show "distinct (map snd (due now q))" by (simp add: distinct_map)
  show "\<exists>T. timer_heap q (snd e) = Some T \<and> expiration T = fst e \<and> snd e < UINTPTR_MAX
           \<and> timer_id q e \<in> set (activeTimers q)" if h: "e \<in> set (due now q)"
  proof -
    obtain w u where e: "e = (w, u)" by fastforce
    then obtain T where "timer_heap q u = Some T" "expiration T = w" using h by (auto simp: due_def t)
    then show ?thesis using inv e by (auto simp: tq_inv_def timer_id_def timer_heap_ok_def)
  qed
qed

lemma getExpired_ok:
  assumes inv: "tq_inv {} q"
  shows "\<exists>A. getExpired now q = Inr (due now q, q\<lparr>timers := filter (\<lambda>e. \<not> fst e \<le> now) (timers q), activeTimers := A\<rparr>)
    \<and> tq_inv (snd ` set (due now q)) (q\<lparr>timers := filter (\<lambda>e. \<not> fst e \<le> now) (timers q), activeTimers := A\<rparr>)"
proof -
  let ?rest = "filter (\<lambda>e. \<not> fst e \<le> now) (timers q)"
  have small: "snd e < UINTPTR_MAX" if "e \<in> set (timers q)" for e
    using inv that by (cases e) (auto simp: tq_inv_def timer_heap_ok_def)
  have srt: "sorted_wrt (<) (timers q)" using inv by (simp add: tq_inv_def)
  have eq: "(e < (now, UINTPTR_MAX)) = (fst e \<le> now)" if "e \<in> set (timers q)" for e
    by (rule sentry_due [OF small [OF that]])
  have "takeWhile (\<lambda>e. e < (now, UINTPTR_MAX)) (timers q) = takeWhile (\<lambda>e. fst e \<le> now) (timers q)"
    "dropWhile (\<lambda>e. e < (now, UINTPTR_MAX)) (timers q) = dropWhile (\<lambda>e. fst e \<le> now) (timers q)"
    by (rule takeWhile_cong [OF refl], erule eq, rule dropWhile_cong [OF refl], erule eq)
  then have split: "takeWhile (\<lambda>e. e < (now, UINTPTR_MAX)) (timers q) = due now q"
    "dropWhile (\<lambda>e. e < (now, UINTPTR_MAX)) (timers q) = ?rest"
    using takeWhile_due [OF srt] by (simp_all add: due_def)
  have later: "?rest = [] \<or> now < fst (hd ?rest)"
  proof (cases "?rest = []")
    case False
    then have "hd ?rest \<in> set ?rest" by (rule hd_in_set)
    then have "hd ?rest \<in> {e \<in> set (timers q). \<not> fst e \<le> now}" by (simp only: set_filter)
    then show ?thesis by (simp only: mem_Collect_eq not_le simp_thms)
  qed simp
  note d = due_timers [OF inv, where now = now]
  have act: "\<forall>e \<in> set (due now q). timer_heap (q\<lparr>timers := ?rest\<rparr>) (snd e) \<noteq> None
      \<and> timer_id (q\<lparr>timers := ?rest\<rparr>) e \<in> set (activeTimers (q\<lparr>timers := ?rest\<rparr>))"
    using d(3) by (fastforce simp: timer_id_def)
  obtain A where A: "erase_active (due now q) (q\<lparr>timers := ?rest\<rparr>) = Inr (q\<lparr>timers := ?rest, activeTimers := A\<rparr>)"
    "distinct A" "set A = set (activeTimers q) - timer_id q ` set (due now q)"
    using erase_active_ok [OF d(2) _ act] inv by (auto simp: tq_inv_def timer_id_def)
  have inv': "tq_inv (snd ` set (due now q)) (q\<lparr>timers := ?rest, activeTimers := A\<rparr>)"
  proof -
    have t: "(w, t) \<in> set (timers q) \<longleftrightarrow> (\<exists>T. timer_heap q t = Some T \<and> expiration T = w)" for w t
      using inv by (simp add: tq_inv_def)
    have a: "(t, s) \<in> set (activeTimers q) \<longleftrightarrow> (\<exists>T. timer_heap q t = Some T \<and> timer_seq T = s)" for t s
      using inv by (simp add: tq_inv_def)
    have due: "t \<in> snd ` set (due now q) \<longleftrightarrow> (\<exists>T. timer_heap q t = Some T \<and> expiration T \<le> now)" for t
      by (force simp: due_def t image_iff)
    have "(t, s) \<in> timer_id q ` set (due now q) \<longleftrightarrow> (\<exists>T. timer_heap q t = Some T \<and> expiration T \<le> now \<and> timer_seq T = s)" for t s
      by (force simp: due_def t image_iff timer_id_def)
    moreover have "snd ` set (due now q) \<subseteq> dom (timer_heap q)" using due by blast
    ultimately show ?thesis
      using inv srt A(2) unfolding tq_inv_def
      by (simp del: image_subset_iff) (auto simp: A(3) timer_heap_ok_def sorted_wrt_filter due t a)
  qed
  have "getExpired now q = Inr (due now q, q\<lparr>timers := ?rest, activeTimers := A\<rparr>)"
    using tq_inv_sizes [OF inv] tq_inv_sizes [OF inv'] later A(1)
    unfolding getExpired_def Let_def split by simp
  with inv' show ?thesis by blast
qed

lemma run_expired_ok:
  assumes "tq_inv X q" and "timer_env_ok env" and "snd ` set es \<subseteq> X" and "callingExpiredTimers q"
    and "run_expired env es q \<noteq> Inl BadAlloc"
  shows "\<exists>q'. run_expired env es q = Inr q' \<and> tq_inv X q' \<and> tq_keeps X q q' \<and> ran q' = ran q @ map (timer_id q) es
    \<and> (\<forall>j. fst j \<in> X \<longrightarrow> j \<in> set (cancelingTimers q') \<longleftrightarrow> j \<in> set (cancelingTimers q) \<or>
             (\<exists>n < length es. TCancel j \<in> set (callback env (length (ran q) + n) (timer_id q (es ! n)))))"
  using assms
proof (induction es arbitrary: q)
  case Nil
  then show ?case by simp
next
  case (Cons e es)
  obtain w t where e: "e = (w, t)" by fastforce
  obtain T where T: "timer_heap q t = Some T" using Cons.prems(1,3) e by (auto simp: tq_inv_def)
  define us where "us = callback env (length (ran q)) (t, timer_seq T)"
  let ?q0 = "q\<lparr>ran := ran q @ [(t, timer_seq T)]\<rparr>"
  have "tq_inv X ?q0" using Cons.prems(1) by (simp add: tq_inv_def timer_heap_ok_def)
  moreover have "list_all timer_op_ok us" using Cons.prems(2) by (simp add: timer_env_ok_def us_def)
  moreover have "timer_calls env us ?q0 \<noteq> Inl BadAlloc"
    using Cons.prems(5) T e by (auto simp: with_timer_def us_def)
  ultimately obtain q1 where 1: "timer_calls env us ?q0 = Inr q1" "tq_inv X q1" "tq_keeps X ?q0 q1" "ran q1 = ran ?q0"
    "\<And>j. fst j \<in> X \<Longrightarrow> j \<in> set (cancelingTimers q1) \<longleftrightarrow> j \<in> set (cancelingTimers q) \<or> TCancel j \<in> set us"
    using timer_calls_ok [OF _ Cons.prems(2), of X ?q0 us] Cons.prems(4) by auto
  have k: "tq_keeps X q q1" using 1(3) by (simp add: tq_keeps_def armed_upto_def)
  have ids: "timer_id q1 d = timer_id q d" if "snd d \<in> X" for d
    using k that by (simp add: tq_keeps_def timer_id_def)
  obtain q2 where 2: "run_expired env es q1 = Inr q2" "tq_inv X q2" "tq_keeps X q1 q2" "ran q2 = ran q1 @ map (timer_id q1) es"
    "\<And>j. fst j \<in> X \<Longrightarrow> j \<in> set (cancelingTimers q2) \<longleftrightarrow> j \<in> set (cancelingTimers q1) \<or>
       (\<exists>n < length es. TCancel j \<in> set (callback env (length (ran q1) + n) (timer_id q1 (es ! n))))"
    using Cons.IH [OF 1(2) Cons.prems(2)] Cons.prems(3-5) k T e 1(1) by (auto simp: tq_keeps_def with_timer_def us_def)
  have run: "run_expired env (e # es) q = Inr q2" using T e 1(1) 2(1) by (simp add: with_timer_def us_def)
  have "map (timer_id q1) es = map (timer_id q) es" using ids Cons.prems(3) by auto
  then have ran: "ran q2 = ran q @ map (timer_id q) (e # es)" using 1(4) 2(4) T e by (simp add: timer_id_def)
  have "j \<in> set (cancelingTimers q2) \<longleftrightarrow> j \<in> set (cancelingTimers q) \<or>
       (\<exists>n < length (e # es). TCancel j \<in> set (callback env (length (ran q) + n) (timer_id q ((e # es) ! n))))"
    if j: "fst j \<in> X" for j
  proof -
    have "timer_id q1 (es ! n) = timer_id q (es ! n)" if "n < length es" for n
      using ids Cons.prems(3) that by (simp add: image_subset_iff)
    moreover have "set us = set (callback env (length (ran q)) (timer_id q e))" using T e by (simp add: us_def timer_id_def)
    ultimately show ?thesis
      unfolding 2(5) [OF j] 1(5) [OF j] by (auto simp: Ex_less_Suc2 1(4))
  qed
  then show ?case using run ran 2(2) tq_keeps_trans [OF k 2(3)] by blast
qed

lemma timer_restart_simps [simp]:
  "timer_seq (timer_restart now T) = timer_seq T" "delta (timer_restart now T) = delta T"
  "timer_repeat (timer_restart now T) = timer_repeat T"
  "timer_repeat T \<Longrightarrow> expiration (timer_restart now T) = now + delta T"
  by (simp_all add: timer_restart_def)

text \<open>What becomes of an expired timer.\<close>

definition after_expiry :: "int \<Rightarrow> bool \<Rightarrow> Timer \<Rightarrow> Timer option" where
  "after_expiry now cancelled T = (if timer_repeat T \<and> \<not> cancelled then Some (T\<lparr>expiration := now + delta T\<rparr>) else None)"

lemma restart_timers_ok:
  assumes "tq_inv (snd ` set es) q" and "distinct (map snd es)" and "0 < now" and "armed_upto 0 q"
  shows "\<exists>q'. restart_timers es now q = Inr q' \<and> tq_inv {} q' \<and> armed_upto 0 q' \<and> ran q' = ran q \<and> s_numCreated q' = s_numCreated q
    \<and> cancelingTimers q' = cancelingTimers q \<and> callingExpiredTimers q' = callingExpiredTimers q
    \<and> (\<forall>t. t \<notin> snd ` set es \<longrightarrow> timer_heap q' t = timer_heap q t)
    \<and> (\<forall>e \<in> set es. \<forall>T. timer_heap q (snd e) = Some T \<longrightarrow>
          timer_heap q' (snd e) = after_expiry now ((snd e, timer_seq T) \<in> set (cancelingTimers q)) T)"
  using assms
proof (induction es arbitrary: q)
  case Nil
  then show ?case by simp
next
  case (Cons e es)
  obtain w t where e: "e = (w, t)" by fastforce
  have tX: "t \<in> snd ` set (e # es)" and rest: "snd ` set (e # es) - {t} = snd ` set es" and tes: "t \<notin> snd ` set es"
    using Cons.prems(2) e by (force simp: image_iff)+
  obtain T where T: "timer_heap q t = Some T" using Cons.prems(1) tX by (auto simp: tq_inv_def)
  have dl: "timer_repeat T \<longrightarrow> 0 \<le> delta T" using Cons.prems(1) T by (auto simp: tq_inv_def timer_heap_ok_def)
  have "\<exists>q1. restart_timers (e # es) now q = restart_timers es now q1 \<and> tq_inv (snd ` set es) q1 \<and> armed_upto 0 q1 \<and> ran q1 = ran q
    \<and> s_numCreated q1 = s_numCreated q
    \<and> cancelingTimers q1 = cancelingTimers q \<and> callingExpiredTimers q1 = callingExpiredTimers q
    \<and> timer_heap q1 = (timer_heap q)(t := after_expiry now ((t, timer_seq T) \<in> set (cancelingTimers q)) T)"
  proof (cases "timer_repeat T \<and> (t, timer_seq T) \<notin> set (cancelingTimers q)")
    case True
    let ?q = "q\<lparr>timer_heap := (timer_heap q)(t \<mapsto> timer_restart now T)\<rparr>"
    have "tq_inv (snd ` set (e # es)) ?q"
      using Cons.prems(1) T tX unfolding tq_inv_def timer_heap_ok_def by auto
    note ins = timer_insert_inv [OF this tX, of "timer_restart now T"]
    have "armed_upto 0 (?q\<lparr>timers := insort (expiration (timer_restart now T), t) (timers ?q),
      activeTimers := insort (t, timer_seq (timer_restart now T)) (activeTimers ?q)\<rparr>)"
      using Cons.prems(3,4) True dl by (auto simp: armed_upto_def set_insort_key)
    then show ?thesis
      using True T e ins unfolding rest
      by (auto simp: with_timer_def after_expiry_def timer_restart_def)
  next
    case False
    let ?q = "q\<lparr>timer_heap := (timer_heap q)(t := None)\<rparr>"
    have "tq_inv (snd ` set es) ?q"
      using Cons.prems(1) tX tes rest unfolding tq_inv_def timer_heap_ok_def
      by (auto simp: e)
    then show ?thesis
      using False T e Cons.prems(4)
      by (intro exI [of _ ?q]) (auto simp: with_timer_def after_expiry_def armed_upto_def)
  qed
  then obtain q1 where 1: "restart_timers (e # es) now q = restart_timers es now q1" "tq_inv (snd ` set es) q1"
    "armed_upto 0 q1" "ran q1 = ran q" "s_numCreated q1 = s_numCreated q" "cancelingTimers q1 = cancelingTimers q"
    "callingExpiredTimers q1 = callingExpiredTimers q"
    "timer_heap q1 = (timer_heap q)(t := after_expiry now ((t, timer_seq T) \<in> set (cancelingTimers q)) T)" by blast
  obtain q2 where 2: "restart_timers es now q1 = Inr q2" "tq_inv {} q2" "armed_upto 0 q2" "ran q2 = ran q1" "s_numCreated q2 = s_numCreated q1"
    "cancelingTimers q2 = cancelingTimers q1" "callingExpiredTimers q2 = callingExpiredTimers q1"
    "\<forall>u. u \<notin> snd ` set es \<longrightarrow> timer_heap q2 u = timer_heap q1 u"
    "\<forall>e \<in> set es. \<forall>T. timer_heap q1 (snd e) = Some T \<longrightarrow>
          timer_heap q2 (snd e) = after_expiry now ((snd e, timer_seq T) \<in> set (cancelingTimers q1)) T"
    using Cons.IH [OF 1(2) _ Cons.prems(3) 1(3)] Cons.prems(2) by auto
  have "timer_heap q2 (snd d) = after_expiry now ((snd d, timer_seq U) \<in> set (cancelingTimers q)) U"
    if d: "d \<in> set (e # es)" "timer_heap q (snd d) = Some U" for d U
  proof (cases "d = e")
    case True
    then show ?thesis using d 1(8) 2(8) T tes e by simp
  next
    case False
    then have "d \<in> set es" "snd d \<noteq> t" using d(1) tes by auto
    then show ?thesis using d(2) 1(6,8) 2(9) by simp
  qed
  moreover have "timer_heap q2 u = timer_heap q u" if "u \<notin> snd ` set (e # es)" for u
    using that 1(8) 2(8) e by auto
  ultimately show ?case using 1(1,4-7) 2(1-7) by (intro exI [of _ q2]) simp
qed

lemma timer_reset_ok:
  assumes "tq_inv (snd ` set es) q" and "distinct (map snd es)" and "0 < now" and "armed_upto 0 q"
  shows "\<exists>q'. timer_reset es now q = Inr q' \<and> tq_inv {} q' \<and> (\<forall>L. armed_upto L q') \<and> ran q' = ran q
    \<and> s_numCreated q' = s_numCreated q \<and> callingExpiredTimers q' = callingExpiredTimers q
    \<and> (\<forall>t. t \<notin> snd ` set es \<longrightarrow> timer_heap q' t = timer_heap q t)
    \<and> (\<forall>e \<in> set es. \<forall>T. timer_heap q (snd e) = Some T \<longrightarrow>
          timer_heap q' (snd e) = after_expiry now ((snd e, timer_seq T) \<in> set (cancelingTimers q)) T)"
proof -
  obtain q1 where 1: "restart_timers es now q = Inr q1" "tq_inv {} q1" "armed_upto 0 q1" "ran q1 = ran q"
    "s_numCreated q1 = s_numCreated q" "callingExpiredTimers q1 = callingExpiredTimers q"
    "\<forall>t. t \<notin> snd ` set es \<longrightarrow> timer_heap q1 t = timer_heap q t"
    "\<forall>e \<in> set es. \<forall>T. timer_heap q (snd e) = Some T \<longrightarrow>
          timer_heap q1 (snd e) = after_expiry now ((snd e, timer_seq T) \<in> set (cancelingTimers q)) T"
    using restart_timers_ok [OF assms] by blast
  show ?thesis
  proof (cases "timers q1 = []")
    case True
    then show ?thesis using 1 by (intro exI [of _ q1]) (simp add: timer_reset_def armed_upto_def)
  next
    case False
    obtain w t where h: "hd (timers q1) = (w, t)" by fastforce
    then have mem: "(w, t) \<in> set (timers q1)" using False hd_in_set by metis
    then obtain T where T: "timer_heap q1 t = Some T" "expiration T = w" using 1(2) by (auto simp: tq_inv_def)
    have least: "w \<le> fst e" if "e \<in> set (timers q1)" for e
      using hd_least [of "timers q1" e] 1(2) that h by (simp add: tq_inv_def)
    define q2 where "q2 = (if valid_time w then resetTimerfd w q1 else q1)"
    have "timer_reset es now q = Inr q2"
      using 1(1) False h T by (simp add: timer_reset_def with_timer_def q2_def)
    moreover have "tq_inv {} q2" using 1(2) by (simp add: q2_def tq_inv_def timer_heap_ok_def resetTimerfd_def)
    moreover have "armed_upto L q2" for L
    proof (cases "valid_time w")
      case True
      then show ?thesis using least by (simp add: armed_upto_def q2_def resetTimerfd_def)
    next
      case False
      then obtain a where "armed q1 = Some a" "a \<le> w" using 1(3) mem by (auto simp: armed_upto_def valid_time_def)
      then show ?thesis using False least by (auto simp: armed_upto_def q2_def intro: order.trans)
    qed
    moreover have "timer_heap q2 = timer_heap q1" "ran q2 = ran q1" "s_numCreated q2 = s_numCreated q1"
      "callingExpiredTimers q2 = callingExpiredTimers q1" by (simp_all add: q2_def resetTimerfd_def)
    ultimately show ?thesis using 1(4-8) by (intro exI [of _ q2]) simp
  qed
qed

text \<open>The commands that an expiry round runs: those of the callbacks of the timers that are due, in order.\<close>

definition round_cancels :: "timer_env \<Rightarrow> int \<Rightarrow> TimerQueue \<Rightarrow> TimerId \<Rightarrow> bool" where
  "round_cancels env now q i \<longleftrightarrow>
     (\<exists>n < length (due now q). TCancel i \<in> set (callback env (length (ran q) + n) (timer_id q (due now q ! n))))"

text \<open>A number that has been given out and no longer belongs to a timer.\<close>

definition timer_dead :: "TimerQueue \<Rightarrow> TimerId \<Rightarrow> bool" where
  "timer_dead q i \<longleftrightarrow> snd i \<le> s_numCreated q \<and> (\<forall>T. timer_heap q (fst i) = Some T \<longrightarrow> timer_seq T \<noteq> snd i)"

lemma timer_dead_keeps: "tq_keeps X q q' \<Longrightarrow> timer_dead q i \<Longrightarrow> timer_dead q' i"
  unfolding tq_keeps_def timer_dead_def by fastforce

lemma timer_handleRead_ok:
  assumes inv: "tq_inv {} q" and env: "timer_env_ok env" and now: "0 < now"
    and mem: "timer_handleRead env now q \<noteq> Inl BadAlloc"
  shows "\<exists>q'. timer_handleRead env now q = Inr q' \<and> tq_inv {} q' \<and> (\<forall>L. armed_upto L q') \<and> \<not> callingExpiredTimers q'
    \<and> ran q' = ran q @ map (timer_id q) (due now q)
    \<and> (\<forall>e \<in> set (due now q). \<forall>T. timer_heap q (snd e) = Some T \<longrightarrow>
          timer_heap q' (snd e) = after_expiry now (round_cancels env now q (timer_id q e)) T)
    \<and> s_numCreated q \<le> s_numCreated q' \<and> (\<forall>i. timer_dead q i \<longrightarrow> timer_dead q' i)"
proof -
  let ?X = "snd ` set (due now q)"
  let ?q = "q\<lparr>armed := None\<rparr>"
  have inv0: "tq_inv {} ?q" using inv by (simp add: tq_inv_def timer_heap_ok_def)
  have due: "due now ?q = due now q" by (simp add: due_def)
  obtain A where A: "getExpired now ?q = Inr (due now q, ?q\<lparr>timers := filter (\<lambda>e. \<not> fst e \<le> now) (timers q), activeTimers := A\<rparr>)"
    "tq_inv ?X (?q\<lparr>timers := filter (\<lambda>e. \<not> fst e \<le> now) (timers q), activeTimers := A\<rparr>)"
    using getExpired_ok [OF inv0, of now] unfolding due by auto
  define q1 where "q1 = ?q\<lparr>timers := filter (\<lambda>e. \<not> fst e \<le> now) (timers q), activeTimers := A,
    callingExpiredTimers := True, cancelingTimers := []\<rparr>"
  have inv1: "tq_inv ?X q1" using A(2) by (simp add: tq_inv_def timer_heap_ok_def q1_def)
  have q1: "ran q1 = ran q" "timer_id q1 = timer_id q" "timer_heap q1 = timer_heap q" "callingExpiredTimers q1"
    "cancelingTimers q1 = []" "s_numCreated q1 = s_numCreated q"
    by (simp_all add: q1_def timer_id_def fun_eq_iff)
  have mem1: "run_expired env (due now q) q1 \<noteq> Inl BadAlloc"
    using mem A(1) by (auto simp: timer_handleRead_def q1_def)
  obtain q2 where 2: "run_expired env (due now q) q1 = Inr q2" "tq_inv ?X q2" "tq_keeps ?X q1 q2"
    "ran q2 = ran q @ map (timer_id q) (due now q)"
    "\<And>j. fst j \<in> ?X \<Longrightarrow> j \<in> set (cancelingTimers q2) \<longleftrightarrow> round_cancels env now q j"
    using run_expired_ok [OF inv1 env order.refl q1(4) mem1] by (auto simp: q1 round_cancels_def)
  let ?q2 = "q2\<lparr>callingExpiredTimers := False\<rparr>"
  have "tq_inv ?X ?q2" using 2(2) by (simp add: tq_inv_def timer_heap_ok_def)
  moreover have "armed_upto 0 q1" using now by (auto simp: armed_upto_def q1_def)
  then have "armed_upto 0 q2" using 2(3) by (simp add: tq_keeps_def)
  then have "armed_upto 0 ?q2" by (simp add: armed_upto_def)
  ultimately obtain q3 where 3: "timer_reset (due now q) now ?q2 = Inr q3" "tq_inv {} q3" "\<forall>L. armed_upto L q3" "ran q3 = ran q2"
    "s_numCreated q3 = s_numCreated q2" "\<not> callingExpiredTimers q3"
    "\<forall>t. t \<notin> ?X \<longrightarrow> timer_heap q3 t = timer_heap q2 t"
    "\<forall>e \<in> set (due now q). \<forall>T. timer_heap q2 (snd e) = Some T \<longrightarrow>
       timer_heap q3 (snd e) = after_expiry now ((snd e, timer_seq T) \<in> set (cancelingTimers q2)) T"
    using timer_reset_ok [OF _ due_timers(2) [OF inv] now, of now ?q2] by auto
  have heap: "timer_heap q3 (snd e) = after_expiry now (round_cancels env now q (timer_id q e)) T"
    if h: "e \<in> set (due now q)" "timer_heap q (snd e) = Some T" for e T
  proof -
    have "timer_heap q2 (snd e) = Some T" using 2(3) h by (simp add: tq_keeps_def q1)
    moreover have "(snd e, timer_seq T) = timer_id q e" using h by (simp add: timer_id_def)
    moreover have "timer_id q e \<in> set (cancelingTimers q2) \<longleftrightarrow> round_cancels env now q (timer_id q e)"
      using h by (intro 2(5)) (simp add: timer_id_def)
    ultimately show ?thesis using 3(8) h(1) by simp
  qed
  have "timer_handleRead env now q = Inr q3"
    using A(1) 2(1) 3(1) by (simp add: timer_handleRead_def q1_def)
  moreover have "timer_dead q3 i" if d: "timer_dead q i" for i
  proof -
    have "timer_dead q1 i" using d by (simp add: timer_dead_def q1)
    then have d2: "timer_dead q2 i" by (rule timer_dead_keeps [OF 2(3)])
    show ?thesis
    proof (cases "fst i \<in> ?X")
      case True
      then obtain e where e: "e \<in> set (due now q)" "fst i = snd e" by auto
      then obtain T where "timer_heap q (snd e) = Some T" using due_timers(3) [OF inv] by blast
      then show ?thesis using d heap [OF e(1)] e(2) d2 3(5)
        by (auto simp: timer_dead_def after_expiry_def split: if_splits)
    next
      case False
      then show ?thesis using d2 3(5,7) by (simp add: timer_dead_def)
    qed
  qed
  moreover have "s_numCreated q \<le> s_numCreated q3" using 2(3) 3(5) by (simp add: tq_keeps_def q1)
  ultimately show ?thesis using 3 2(4) heap by (intro exI [of _ q3]) simp
qed

subsection \<open>Destruction\<close>

lemma delete_timers_ok:
  assumes "distinct (map snd es)" and "\<forall>e \<in> set es. timer_heap q (snd e) \<noteq> None"
  shows "\<exists>q'. delete_timers es q = Inr q' \<and> (\<forall>t. timer_heap q' t = (if t \<in> snd ` set es then None else timer_heap q t))"
  using assms
proof (induction es arbitrary: q)
  case Nil
  then show ?case by simp
next
  case (Cons e es)
  obtain w t where e: "e = (w, t)" by fastforce
  let ?q = "q\<lparr>timer_heap := (timer_heap q)(t := None)\<rparr>"
  have "snd d \<noteq> t" if "d \<in> set es" for d using Cons.prems(1) e that by force
  then have "\<forall>d \<in> set es. timer_heap ?q (snd d) \<noteq> None" using Cons.prems(2) by simp
  then obtain q' where "delete_timers es ?q = Inr q'"
    "\<forall>u. timer_heap q' u = (if u \<in> snd ` set es then None else timer_heap ?q u)"
    using Cons.IH [of ?q] Cons.prems(1) by auto
  then show ?case using Cons.prems(2) e by (auto simp: with_timer_def)
qed

lemma TimerQueue_dtor_ok:
  assumes inv: "tq_inv {} q"
  shows "\<exists>q'. TimerQueue_dtor q = Inr q' \<and> (\<forall>t. timer_heap q' t = None)"
proof -
  have t: "(w, t) \<in> set (timers q) \<longleftrightarrow> (\<exists>T. timer_heap q t = Some T \<and> expiration T = w)" for w t
    using inv by (simp add: tq_inv_def)
  have "distinct (map snd (timers q))" using inv by (auto simp: distinct_map inj_on_def t tq_inv_def strict_sorted_iff)
  moreover have "\<forall>e \<in> set (timers q). timer_heap q (snd e) \<noteq> None" by (auto simp: t)
  moreover have "t \<in> snd ` set (timers q)" if "timer_heap q t = Some T" for t T
    using that t [of "expiration T" t] by force
  ultimately show ?thesis
    using delete_timers_ok [of "timers q" q] unfolding TimerQueue_dtor_def by (metis option.exhaust)
qed

subsection \<open>Sequences of events\<close>

text \<open>The loop's calls on the queue: those of the program outside callbacks, and \<open>handleRead\<close> when the alarm goes off.\<close>

datatype timer_event =
    TCall timer_op
  | TAlarm int

fun timer_step :: "timer_env \<Rightarrow> timer_event \<Rightarrow> TimerQueue \<Rightarrow> TimerQueue result" where
  "timer_step env (TCall u) q = timer_call env u q"
| "timer_step env (TAlarm now) q = timer_handleRead env now q"

fun timer_events :: "timer_env \<Rightarrow> timer_event list \<Rightarrow> TimerQueue \<Rightarrow> TimerQueue result" where
  "timer_events env [] q = Inr q"
| "timer_events env (e # es) q = bind_result (timer_step env e q) (timer_events env es)"

fun timer_event_ok :: "timer_event \<Rightarrow> bool" where
  "timer_event_ok (TCall u) \<longleftrightarrow> timer_op_ok u"
| "timer_event_ok (TAlarm now) \<longleftrightarrow> 0 < now"

definition timer_inv :: "TimerQueue \<Rightarrow> bool" where
  "timer_inv q \<longleftrightarrow> tq_inv {} q \<and> (\<forall>L. armed_upto L q) \<and> \<not> callingExpiredTimers q"

lemma new_TimerQueue_inv [simp]: "timer_inv new_TimerQueue"
  by (simp add: timer_inv_def tq_inv_def timer_heap_ok_def armed_upto_def new_TimerQueue_def)

lemma live_not_dead:
  assumes "tq_inv {} q" and "e \<in> set (due now q)"
  shows "\<not> timer_dead q (timer_id q e)"
  using due_timers(3) [OF assms] by (auto simp: timer_dead_def timer_id_def)

lemma timer_step_ok:
  assumes "timer_inv q" and "timer_env_ok env" and "timer_event_ok ev" and "timer_step env ev q \<noteq> Inl BadAlloc"
  shows "\<exists>q'. timer_step env ev q = Inr q' \<and> timer_inv q'
    \<and> (\<forall>i. timer_dead q i \<longrightarrow> timer_dead q' i \<and> count_list (ran q') i = count_list (ran q) i)"
proof (cases ev)
  case (TCall u)
  then obtain q' where "timer_call env u q = Inr q'" "tq_inv {} q'" "tq_keeps {} q q'" "ran q' = ran q"
    using timer_call_ok [of "{}" q env u] assms by (auto simp: timer_inv_def)
  moreover have "timer_inv q'" using calculation assms(1) by (simp add: timer_inv_def tq_keeps_def)
  ultimately show ?thesis using TCall timer_dead_keeps by auto
next
  case (TAlarm now)
  then obtain q' where q': "timer_handleRead env now q = Inr q'" "timer_inv q'"
    "ran q' = ran q @ map (timer_id q) (due now q)" "\<forall>i. timer_dead q i \<longrightarrow> timer_dead q' i"
    using timer_handleRead_ok [of q env now] assms by (auto simp: timer_inv_def)
  have "count_list (map (timer_id q) (due now q)) i = 0" if "timer_dead q i" for i
    using that live_not_dead [of q _ now] assms(1) by (auto simp: timer_inv_def count_list_0_iff)
  then show ?thesis using TAlarm q' by auto
qed

lemma timer_events_ok:
  assumes "timer_inv q" and "timer_env_ok env" and "list_all timer_event_ok evs" and "timer_events env evs q \<noteq> Inl BadAlloc"
  shows "\<exists>q'. timer_events env evs q = Inr q' \<and> timer_inv q'
    \<and> (\<forall>i. timer_dead q i \<longrightarrow> timer_dead q' i \<and> count_list (ran q') i = count_list (ran q) i)"
  using assms
proof (induction evs arbitrary: q)
  case Nil
  then show ?case by simp
next
  case (Cons ev evs)
  have "timer_step env ev q \<noteq> Inl BadAlloc" using Cons.prems(4) by auto
  then obtain q1 where 1: "timer_step env ev q = Inr q1" "timer_inv q1"
    "\<forall>i. timer_dead q i \<longrightarrow> timer_dead q1 i \<and> count_list (ran q1) i = count_list (ran q) i"
    using timer_step_ok [OF Cons.prems(1,2), of ev] Cons.prems(3) by auto
  then obtain q2 where "timer_events env evs q1 = Inr q2" "timer_inv q2"
    "\<forall>i. timer_dead q1 i \<longrightarrow> timer_dead q2 i \<and> count_list (ran q2) i = count_list (ran q1) i"
    using Cons.IH [OF 1(2) Cons.prems(2)] Cons.prems(3,4) by auto
  then show ?case using 1 by auto
qed

text \<open>\<open>runEvery\<close> puts a timer with a new number into the queue, for one interval from now.\<close>

lemma runEvery_ok:
  assumes "timer_inv q" and "timer_env_ok env" and "0 \<le> interval" and "runEvery env now interval positive q \<noteq> Inl BadAlloc"
  shows "\<exists>t q'. runEvery env now interval positive q = Inr ((t, s_numCreated q + 1), q') \<and> timer_inv q'
    \<and> (now + interval, t) \<in> set (timers q')"
proof -
  obtain t q' where q': "runEvery env now interval positive q = Inr ((t, s_numCreated q + 1), q')" "tq_inv {} q'" "tq_keeps {} q q'"
    "timer_heap q' t = Some \<lparr>expiration = now + interval, delta = interval, timer_repeat = positive, timer_seq = s_numCreated q + 1\<rparr>"
    using addTimer_ok [OF _ assms(2), of "{}" q positive interval "now + interval"] assms(1,3,4)
    by (auto simp: timer_inv_def runEvery_def)
  then have "timer_inv q'" "(now + interval, t) \<in> set (timers q')"
    using assms(1) by (auto simp: timer_inv_def tq_keeps_def tq_inv_def)
  with q'(1) show ?thesis by blast
qed

subsection \<open>A sample program\<close>

text \<open>Three blocks of memory. The first timer repeats; the callback of the second cancels the first and adds a third. At
  \<open>300\<close> the second and the first are due, and the first still runs although the second has just cancelled it.\<close>

definition sample_timers :: timer_env where
  "sample_timers = \<lparr>alloc = (\<lambda>h. find (\<lambda>t. h t = None) [16, 32, 48]),
     callback = (\<lambda>n i. if snd i = 2 then [TCancel (16, 1), TAdd 400 0 False] else [])\<rparr>"

definition sample_timer_events :: "timer_event list" where
  "sample_timer_events = [TCall (TAdd 200 50 True), TCall (TAdd 220 0 False), TAlarm 210]"

lemma sample_timers_ok: "timer_env_ok sample_timers"
  by (auto simp: timer_env_ok_def sample_timers_def UINTPTR_MAX_def split: if_splits)

lemma sample_timer_events_ok: "list_all timer_event_ok sample_timer_events"
  by (simp add: sample_timer_events_def)

lemma not_isl_BadAlloc: "\<not> isl r \<Longrightarrow> r \<noteq> Inl BadAlloc"
  by auto

lemma sample_timer_events_run:
  "\<not> isl (timer_events sample_timers sample_timer_events new_TimerQueue)"
  "\<not> isl (bind_result (timer_events sample_timers sample_timer_events new_TimerQueue) (timer_handleRead sample_timers 300))"
  "\<not> isl (bind_result (timer_events sample_timers sample_timer_events new_TimerQueue)
     (timer_events sample_timers (TCall (TCancel (16, 1)) # [TCall (TAdd 250 0 False), TAlarm 300])))"
  "case timer_events sample_timers sample_timer_events new_TimerQueue of Inl e \<Rightarrow> False | Inr q \<Rightarrow> s_numCreated q = 2 \<and> ran q = [(16, 1)]
     \<and> timers q = [(220, 32), (260, 16)] \<and> timer_heap q 16 = Some \<lparr>expiration = 260, delta = 50, timer_repeat = True, timer_seq = 1\<rparr>
     \<and> map (timer_id q) (due 300 q) = [(32, 2), (16, 1)]"
  "case timer_events sample_timers (sample_timer_events @ [TAlarm 300]) new_TimerQueue of Inl e \<Rightarrow> False
   | Inr q \<Rightarrow> ran q = [(16, 1), (32, 2), (16, 1)] \<and> timers q = [(400, 48)] \<and> armed q = Some 400"
  by code_simp+

subsection \<open>Properties\<close>

text \<open>C17: No sequence of \<open>addTimer\<close>, \<open>cancel\<close> and expiry rounds, whatever the callbacks add and cancel themselves,
  makes an assertion of the timer queue fail or use a deleted timer, as long as memory lasts; and after each of them the alarm
  is set for no later than the first timer, and destroying the queue deletes every timer once.\<close>

theorem timer_queue_safe:
  assumes "timer_env_ok env" and "list_all timer_event_ok evs" and "timer_events env evs new_TimerQueue \<noteq> Inl BadAlloc"
  shows "\<exists>q. timer_events env evs new_TimerQueue = Inr q
    \<and> (\<forall>w t. (w, t) \<in> set (timers q) \<longleftrightarrow> (\<exists>T. timer_heap q t = Some T \<and> expiration T = w))
    \<and> (\<forall>t s. (t, s) \<in> set (activeTimers q) \<longleftrightarrow> (\<exists>T. timer_heap q t = Some T \<and> timer_seq T = s))
    \<and> (\<forall>e \<in> set (timers q). \<exists>a. armed q = Some a \<and> a \<le> fst e)
    \<and> (\<exists>q'. TimerQueue_dtor q = Inr q' \<and> (\<forall>t. timer_heap q' t = None))"
proof -
  obtain q where q: "timer_events env evs new_TimerQueue = Inr q" "timer_inv q"
    using timer_events_ok [OF new_TimerQueue_inv assms] by blast
  then have "\<exists>a. armed q = Some a \<and> a \<le> fst e" if "e \<in> set (timers q)" for e
    using that unfolding timer_inv_def armed_upto_def by blast
  moreover have "tq_inv {} q" using q(2) by (simp add: timer_inv_def)
  moreover note TimerQueue_dtor_ok [OF this]
  ultimately show ?thesis using q(1) by (simp add: tq_inv_def)
qed

theorem timer_queue_safe_witness:
  "\<exists>q. timer_events sample_timers sample_timer_events new_TimerQueue = Inr q
    \<and> (\<forall>w t. (w, t) \<in> set (timers q) \<longleftrightarrow> (\<exists>T. timer_heap q t = Some T \<and> expiration T = w))
    \<and> (\<forall>t s. (t, s) \<in> set (activeTimers q) \<longleftrightarrow> (\<exists>T. timer_heap q t = Some T \<and> timer_seq T = s))
    \<and> (\<forall>e \<in> set (timers q). \<exists>a. armed q = Some a \<and> a \<le> fst e)
    \<and> (\<exists>q'. TimerQueue_dtor q = Inr q' \<and> (\<forall>t. timer_heap q' t = None))"
  by (rule timer_queue_safe [OF sample_timers_ok sample_timer_events_ok not_isl_BadAlloc [OF sample_timer_events_run(1)]])

text \<open>C18: When the alarm goes off, exactly the timers that are due run, once each, in the order of their times; afterwards
  a repeating timer that no callback of the round has cancelled is in the queue again for \<open>now\<close> plus its interval, and
  every other one has been deleted. A timer cancelled by an earlier callback of the same round still runs.\<close>

theorem timer_round:
  assumes "timer_env_ok env" and "list_all timer_event_ok evs" and "timer_events env evs new_TimerQueue = Inr q" and "0 < now"
    and "timer_handleRead env now q \<noteq> Inl BadAlloc"
  shows "\<exists>q'. timer_handleRead env now q = Inr q' \<and> ran q' = ran q @ map (timer_id q) (due now q)
    \<and> sorted_wrt (<) (due now q) \<and> set (due now q) = {e \<in> set (timers q). fst e \<le> now}
    \<and> (\<forall>w t T. (w, t) \<in> set (timers q) \<longrightarrow> w \<le> now \<longrightarrow> timer_heap q t = Some T \<longrightarrow>
          (if timer_repeat T \<and> \<not> round_cancels env now q (t, timer_seq T)
           then timer_heap q' t = Some (T\<lparr>expiration := now + delta T\<rparr>) \<and> (now + delta T, t) \<in> set (timers q')
           else timer_dead q' (t, timer_seq T)))"
proof -
  have inv: "timer_inv q" using timer_events_ok [OF new_TimerQueue_inv assms(1,2)] assms(3) by auto
  then have tq: "tq_inv {} q" by (simp add: timer_inv_def)
  then obtain q' where q': "timer_handleRead env now q = Inr q'" "tq_inv {} q'" "ran q' = ran q @ map (timer_id q) (due now q)"
    and heap: "\<And>e T. e \<in> set (due now q) \<Longrightarrow> timer_heap q (snd e) = Some T \<Longrightarrow>
          timer_heap q' (snd e) = after_expiry now (round_cancels env now q (timer_id q e)) T"
    and created: "s_numCreated q \<le> s_numCreated q'"
    using timer_handleRead_ok [OF _ assms(1,4,5)] by blast
  have "if timer_repeat T \<and> \<not> round_cancels env now q (t, timer_seq T)
        then timer_heap q' t = Some (T\<lparr>expiration := now + delta T\<rparr>) \<and> (now + delta T, t) \<in> set (timers q')
        else timer_dead q' (t, timer_seq T)"
    if h: "(w, t) \<in> set (timers q)" "w \<le> now" "timer_heap q t = Some T" for w t T
  proof -
    have "timer_heap q' t = after_expiry now (round_cancels env now q (t, timer_seq T)) T"
      using heap [of "(w, t)" T] h by (simp add: due_def timer_id_def)
    moreover have "timer_seq T \<le> s_numCreated q'" using tq h(3) created by (fastforce simp: tq_inv_def timer_heap_ok_def)
    ultimately show ?thesis using q'(2) by (auto simp: after_expiry_def tq_inv_def timer_dead_def)
  qed
  moreover have "set (due now q) = {e \<in> set (timers q). fst e \<le> now}" by (auto simp: due_def)
  ultimately show ?thesis using q' due_timers(1) [OF tq] by blast
qed

theorem timer_round_witness:
  "\<exists>q q'. timer_events sample_timers sample_timer_events new_TimerQueue = Inr q \<and> timer_handleRead sample_timers 300 q = Inr q'
    \<and> map (timer_id q) (due 300 q) = [(32, 2), (16, 1)] \<and> ran q' = [(16, 1), (32, 2), (16, 1)] \<and> timer_dead q' (16, 1)"
proof -
  obtain q where q: "timer_events sample_timers sample_timer_events new_TimerQueue = Inr q" "ran q = [(16, 1)]"
    "timers q = [(220, 32), (260, 16)]" "timer_heap q 16 = Some \<lparr>expiration = 260, delta = 50, timer_repeat = True, timer_seq = 1\<rparr>"
    "map (timer_id q) (due 300 q) = [(32, 2), (16, 1)]"
    using sample_timer_events_run(4) by (auto split: sum.splits)
  have "timer_handleRead sample_timers 300 q \<noteq> Inl BadAlloc" using sample_timer_events_run(2) q(1) by auto
  then obtain q' where q': "timer_handleRead sample_timers 300 q = Inr q'" "ran q' = ran q @ map (timer_id q) (due 300 q)"
    "\<forall>w t T. (w, t) \<in> set (timers q) \<longrightarrow> w \<le> 300 \<longrightarrow> timer_heap q t = Some T \<longrightarrow>
          (if timer_repeat T \<and> \<not> round_cancels sample_timers 300 q (t, timer_seq T)
           then timer_heap q' t = Some (T\<lparr>expiration := 300 + delta T\<rparr>) \<and> (300 + delta T, t) \<in> set (timers q')
           else timer_dead q' (t, timer_seq T))"
    using timer_round [OF sample_timers_ok sample_timer_events_ok q(1), of 300] by auto
  have "length (due 300 q) = 2" using arg_cong [OF q(5), of length] by simp
  moreover have "timer_id q (due 300 q ! 0) = (32, 2)" using arg_cong [OF q(5), of hd] calculation by (simp add: hd_map hd_conv_nth flip: length_greater_0_conv)
  ultimately have "round_cancels sample_timers 300 q (16, 1)"
    unfolding round_cancels_def by (intro exI [of _ 0]) (simp add: sample_timers_def)
  then have "timer_dead q' (16, 1)" using q'(3) [rule_format, of 260 16] q(3,4) by simp
  then show ?thesis using q q' by auto
qed

text \<open>C19: Cancelling is final: once \<open>cancel\<close> has been called outside a callback, with a number that has been given out, the
  timer never runs again, even if its address is used for other timers.\<close>

theorem cancel_is_final:
  assumes "timer_env_ok env" and "list_all timer_event_ok evs" and "timer_events env evs new_TimerQueue = Inr q"
    and "snd i \<le> s_numCreated q"
    and "list_all timer_event_ok evs'" and "timer_events env (TCall (TCancel i) # evs') q = Inr q'"
  shows "count_list (ran q') i = count_list (ran q) i \<and> timer_dead q' i"
proof -
  have inv: "timer_inv q" using timer_events_ok [OF new_TimerQueue_inv assms(1,2)] assms(3) by auto
  then obtain q1 where 1: "cancelInLoop i q = Inr q1" "tq_inv {} q1" "tq_keeps {} q q1" "ran q1 = ran q"
    "\<forall>T. timer_heap q1 (fst i) = Some T \<longrightarrow> timer_seq T \<noteq> snd i"
    using cancelInLoop_ok [of "{}" q i] by (auto simp: timer_inv_def)
  have "timer_inv q1" using inv 1(2,3) by (simp add: timer_inv_def tq_keeps_def)
  moreover have dead: "timer_dead q1 i" using 1(3,5) assms(4) by (simp add: timer_dead_def tq_keeps_def)
  moreover have run: "timer_events env evs' q1 = Inr q'" using assms(6) 1(1) by simp
  ultimately have "timer_dead q' i \<and> count_list (ran q') i = count_list (ran q1) i"
    using timer_events_ok [OF _ assms(1,5), of q1] by (cases i) auto
  then show ?thesis using 1(4) by simp
qed

theorem cancel_is_final_witness:
  "\<exists>q q'. timer_events sample_timers sample_timer_events new_TimerQueue = Inr q
    \<and> timer_events sample_timers (TCall (TCancel (16, 1)) # [TCall (TAdd 250 0 False), TAlarm 300]) q = Inr q'
    \<and> count_list (ran q') (16, 1) = 1"
proof -
  obtain q where q: "timer_events sample_timers sample_timer_events new_TimerQueue = Inr q" "s_numCreated q = 2" "ran q = [(16, 1)]"
    using sample_timer_events_run(4) by (auto split: sum.splits)
  obtain q' where q': "timer_events sample_timers (TCall (TCancel (16, 1)) # [TCall (TAdd 250 0 False), TAlarm 300]) q = Inr q'"
    using sample_timer_events_run(3) q(1) by (metis bind_result_simps(2) isl_def sum.exhaust)
  have "list_all timer_event_ok [TCall (TAdd 250 0 False), TAlarm 300]" by simp
  then show ?thesis
    using cancel_is_final [OF sample_timers_ok sample_timer_events_ok q(1) _ _ q'] q q' by auto
qed

text \<open>The time handed to \<open>timerfd_settime\<close> is normalised, lies at least 100 microseconds ahead, and is the time
  asked for whenever that is further away.\<close>

lemma howMuchTimeFromNow_bounds:
  assumes "howMuchTimeFromNow w now = (sec, nsec)"
  shows "0 \<le> sec \<and> 0 \<le> nsec \<and> nsec < 1000 * kMicroSecondsPerSecond \<and> (0 < sec \<or> 0 < nsec)
    \<and> sec * (1000 * kMicroSecondsPerSecond) + nsec = 1000 * max 100 (w - now)"
proof -
  define m where "m = max 100 (w - now)"
  have "sec = m div 1000000" "nsec = (m mod 1000000) * 1000" "100 \<le> m"
    using assms by (auto simp: howMuchTimeFromNow_def Let_def kMicroSecondsPerSecond_def m_def max_def split: if_splits)
  moreover have "m div 1000000 * 1000000 + m mod 1000000 = m" by (rule div_mult_mod_eq)
  moreover have "0 \<le> m div 1000000" "0 \<le> m mod 1000000" "m mod 1000000 < 1000000" using calculation(3) by simp_all
  ultimately show ?thesis unfolding m_def [symmetric] kMicroSecondsPerSecond_def by linarith
qed

end
