(* ===== verification/Acceptor.thy ===== *)
theory Acceptor
  imports Prelude
begin

section \<open>Accepting connections\<close>

text \<open>
  \<open>net/Acceptor.cc\<close>, \<open>sockets::accept\<close> of \<open>net/SocketsOps.cc\<close>, and \<open>net/EventLoopThreadPool.cc\<close>. The results of the system calls are
  arguments: what \<open>accept4\<close> returns, and, for the reserved descriptor, what \<open>accept\<close> and \<open>open\<close> return, each a descriptor or \<open>-1\<close>.
  The state has the descriptors that are open. Of the operating system the theorem assumes that a descriptor it
  gives out is not in use (\<open>fresh_fds\<close>). \<open>LOG_FATAL\<close> ends the process (\<open>Inl FatalLog\<close>). Logging leaves \<open>errno\<close> as it is.
\<close>

datatype errno = EAGAIN | ECONNABORTED | EINTR | EPROTO | EPERM | EMFILE | EBADF | EFAULT | EINVAL | ENFILE | ENOBUFS | ENOMEM
  | ENOTSOCK | EOPNOTSUPP | EOTHER

record acceptor =
  fds :: "int list"
  idleFd :: int
  has_callback :: bool
  accepted_conns :: "(int \<times> nat) list"

text \<open>What the calls of one \<open>handleRead\<close> return: \<open>accept4\<close> the error or the descriptor with the peer, then \<open>accept\<close> and \<open>open\<close>.\<close>

record accept_calls =
  r_accept4 :: "errno + (int \<times> nat)"
  r_accept :: int
  r_open :: int

definition sys_close :: "int \<Rightarrow> acceptor \<Rightarrow> acceptor" where
  "sys_close fd s = s\<lparr>fds := removeAll fd (fds s)\<rparr>"

text \<open>A call that returned \<open>fd\<close> has opened it, unless it failed.\<close>

definition sys_opened :: "int \<Rightarrow> acceptor \<Rightarrow> acceptor" where
  "sys_opened fd s = (if fd < 0 then s else s\<lparr>fds := fd # fds s\<rparr>)"

definition expected_error :: "errno \<Rightarrow> bool" where
  "expected_error e \<longleftrightarrow> e \<in> set [EAGAIN, ECONNABORTED, EINTR, EPROTO, EPERM, EMFILE]"

definition sockets_accept :: "errno + (int \<times> nat) \<Rightarrow> acceptor \<Rightarrow> (errno + (int \<times> nat \<times> acceptor)) result" where
  "sockets_accept r s =
     (case r of
        Inr (connfd, peer) \<Rightarrow> Inr (Inr (connfd, peer, sys_opened connfd s))
      | Inl e \<Rightarrow> if expected_error e then Inr (Inl e) else Inl FatalLog)"

text \<open>The reserved descriptor is given up for a connection, which is closed, and reserved again.\<close>

definition drop_connection :: "int \<Rightarrow> int \<Rightarrow> acceptor \<Rightarrow> acceptor" where
  "drop_connection accepted opened s =
     (let s1 = sys_close (idleFd s) s;
          s2 = (sys_opened accepted s1)\<lparr>idleFd := accepted\<rparr>;
          s3 = sys_close (idleFd s2) s2
      in (sys_opened opened s3)\<lparr>idleFd := opened\<rparr>)"

definition acceptor_handleRead :: "accept_calls \<Rightarrow> acceptor \<Rightarrow> acceptor result" where
  "acceptor_handleRead r s =
     bind_result (sockets_accept (r_accept4 r) s) (\<lambda>a.
       case a of
         Inr (connfd, peer, s1) \<Rightarrow>
           if has_callback s1 then Inr (s1\<lparr>accepted_conns := accepted_conns s1 @ [(connfd, peer)]\<rparr>)
           else Inr (sys_close connfd s1)
       | Inl e \<Rightarrow>
           if e = EMFILE then Inr (drop_connection (r_accept r) (r_open r) s)
           else Inr s)"

subsection \<open>Descriptors\<close>

text \<open>The descriptors in use are distinct; the reserve is one of them or \<open>-1\<close>; those of connections are open and not the reserve.\<close>

definition acc_inv :: "acceptor \<Rightarrow> bool" where
  "acc_inv s \<longleftrightarrow> distinct (fds s) \<and> (\<forall>fd \<in> set (fds s). 0 \<le> fd) \<and> (idleFd s = - 1 \<or> idleFd s \<in> set (fds s))
     \<and> fst ` set (accepted_conns s) \<subseteq> set (fds s) - {idleFd s}"

definition fresh_fds :: "accept_calls \<Rightarrow> acceptor \<Rightarrow> bool" where
  "fresh_fds r s \<longleftrightarrow>
     (case r_accept4 r of Inl e \<Rightarrow> True | Inr (fd, p) \<Rightarrow> 0 \<le> fd \<and> fd \<notin> set (fds s))
     \<and> (\<forall>fd \<in> {r_accept r, r_open r}. fd = - 1 \<or> 0 \<le> fd \<and> fd \<notin> set (fds s) - {idleFd s})"

lemma drop_connection_fds:
  assumes "acc_inv s" "fresh_fds r s"
  shows "acc_inv (drop_connection (r_accept r) (r_open r) s)"
    and "set (fds (drop_connection (r_accept r) (r_open r) s)) - {r_open r} = set (fds s) - {idleFd s}"
    and "idleFd (drop_connection (r_accept r) (r_open r) s) = r_open r"
    and "accepted_conns (drop_connection (r_accept r) (r_open r) s) = accepted_conns s"
proof -
  let ?a = "r_accept r" and ?o = "r_open r"
  have a: "?a = - 1 \<or> 0 \<le> ?a \<and> ?a \<notin> set (fds s) - {idleFd s}" and o: "?o = - 1 \<or> 0 \<le> ?o \<and> ?o \<notin> set (fds s) - {idleFd s}"
    using assms(2) by (simp_all add: fresh_fds_def)
  have pos: "\<forall>fd \<in> set (fds s). 0 \<le> fd" "distinct (fds s)" using assms(1) by (simp_all add: acc_inv_def)
  have m: "- 1 \<notin> set (fds s)" using pos(1) by force
  have "removeAll ?a (removeAll (idleFd s) (fds s)) = removeAll (idleFd s) (fds s)"
    using a m by (intro removeAll_id) auto
  then have f: "fds (drop_connection ?a ?o s) = (if ?o < 0 then removeAll (idleFd s) (fds s) else ?o # removeAll (idleFd s) (fds s))"
    by (auto simp: drop_connection_def sys_opened_def sys_close_def Let_def)
  show i: "idleFd (drop_connection ?a ?o s) = ?o" and c: "accepted_conns (drop_connection ?a ?o s) = accepted_conns s"
    by (simp_all add: drop_connection_def sys_opened_def sys_close_def Let_def)
  show "set (fds (drop_connection ?a ?o s)) - {?o} = set (fds s) - {idleFd s}" unfolding f using o m by auto
  have "fst ` set (accepted_conns s) \<subseteq> set (fds s) - {idleFd s}" using assms(1) by (simp add: acc_inv_def)
  moreover have "(- 1, b) \<notin> set (accepted_conns s)" for b using calculation m by force
  ultimately show "acc_inv (drop_connection ?a ?o s)"
    unfolding acc_inv_def i c f using pos o by (auto simp: distinct_removeAll)
qed

text \<open>C27: Whatever the system calls of \<open>handleRead\<close> return, no descriptor is leaked and none that is in use is closed: the open
  descriptors other than the reserve are those before and the one handed over, if any. When \<open>accept\<close> lacks descriptors, the
  reserve afterwards is what \<open>open\<close> returns, and there is none if that fails. An error that is not expected ends the
  process.\<close>

theorem accept_keeps_descriptors:
  assumes "acc_inv s" and "fresh_fds r s"
  shows "case r_accept4 r of
      Inr (fd, peer) \<Rightarrow> (\<exists>s'. acceptor_handleRead r s = Inr s' \<and> acc_inv s' \<and> idleFd s' = idleFd s
        \<and> (if has_callback s then accepted_conns s' = accepted_conns s @ [(fd, peer)] \<and> set (fds s') = insert fd (set (fds s))
           else accepted_conns s' = accepted_conns s \<and> set (fds s') = set (fds s)))
    | Inl e \<Rightarrow> if \<not> expected_error e then acceptor_handleRead r s = Inl FatalLog
        else (\<exists>s'. acceptor_handleRead r s = Inr s' \<and> acc_inv s' \<and> accepted_conns s' = accepted_conns s
          \<and> set (fds s') - {idleFd s'} = set (fds s) - {idleFd s} \<and> idleFd s' = (if e = EMFILE then r_open r else idleFd s))"
proof (cases "r_accept4 r")
  case (Inl e)
  then show ?thesis
    using assms(1) drop_connection_fds [OF assms] by (auto simp: acceptor_handleRead_def sockets_accept_def)
next
  case (Inr x)
  obtain fd p where x: "x = (fd, p)" by (cases x)
  have f: "0 \<le> fd" "fd \<notin> set (fds s)" using assms(2) Inr x by (simp_all add: fresh_fds_def)
  then have "idleFd s \<noteq> fd" "removeAll fd (fds s) = fds s" using assms(1) by (auto simp: acc_inv_def)
  then show ?thesis
    using assms(1) f Inr x by (auto simp: acceptor_handleRead_def sockets_accept_def sys_opened_def sys_close_def acc_inv_def)
qed

theorem accept_keeps_descriptors_witness:
  "\<exists>s'. acceptor_handleRead \<lparr>r_accept4 = Inl EMFILE, r_accept = 3, r_open = - 1\<rparr> \<lparr>fds = [0, 1, 2, 3], idleFd = 3, has_callback = True, accepted_conns = [(2, 7)]\<rparr> = Inr s'
    \<and> acc_inv s' \<and> set (fds s') - {- 1} = {0, 1, 2} \<and> idleFd s' = - 1"
proof -
  let ?s = "\<lparr>fds = [0, 1, 2, 3], idleFd = 3, has_callback = True, accepted_conns = [(2, 7)]\<rparr>"
    and ?r = "\<lparr>r_accept4 = Inl EMFILE, r_accept = 3, r_open = - 1\<rparr>"
  have "acc_inv ?s" "fresh_fds ?r ?s" by (simp_all add: acc_inv_def fresh_fds_def)
  from accept_keeps_descriptors [OF this] show ?thesis by (auto simp: expected_error_def)
qed

text \<open>With the reserve gone and no descriptor left, a connection that waits can neither be accepted nor refused: \<open>handleRead\<close>
  changes nothing, and the poller reports it again at once.\<close>

lemma lost_reserve_spins:
  assumes "acc_inv s" "idleFd s = - 1"
  shows "acceptor_handleRead \<lparr>r_accept4 = Inl EMFILE, r_accept = - 1, r_open = - 1\<rparr> s = Inr s"
proof -
  have "- 1 \<notin> set (fds s)" using assms(1) by (force simp: acc_inv_def)
  then show ?thesis
    using assms(2) by (simp add: acceptor_handleRead_def sockets_accept_def expected_error_def drop_connection_def sys_opened_def sys_close_def Let_def)
qed

subsection \<open>The pool of loops\<close>

record EventLoopThreadPool =
  baseLoop :: nat
  pool_started :: bool
  numThreads :: nat
  next_loop :: nat
  loops :: "nat list"

definition new_pool :: "nat \<Rightarrow> EventLoopThreadPool" where
  "new_pool base = \<lparr>baseLoop = base, pool_started = False, numThreads = 0, next_loop = 0, loops = []\<rparr>"

text \<open>\<open>startLoop i\<close> is the loop of the thread \<open>i\<close>.\<close>

definition pool_start :: "(nat \<Rightarrow> nat) \<Rightarrow> EventLoopThreadPool \<Rightarrow> EventLoopThreadPool result" where
  "pool_start startLoop p =
     (if pool_started p then Inl AssertFail
      else Inr (p\<lparr>pool_started := True, loops := loops p @ map startLoop [0..<numThreads p]\<rparr>))"

definition getNextLoop :: "EventLoopThreadPool \<Rightarrow> (nat \<times> EventLoopThreadPool) result" where
  "getNextLoop p =
     (if \<not> pool_started p then Inl AssertFail
      else if loops p = [] then Inr (baseLoop p, p)
      else if next_loop p \<ge> length (loops p) then Inl OutOfBounds
      else let n = next_loop p + 1
           in Inr (loops p ! next_loop p, p\<lparr>next_loop := (if n \<ge> length (loops p) then 0 else n)\<rparr>))"

definition getLoopForHash :: "nat \<Rightarrow> EventLoopThreadPool \<Rightarrow> nat" where
  "getLoopForHash hashCode p = (if loops p = [] then baseLoop p else loops p ! (hashCode mod length (loops p)))"

definition getAllLoops :: "EventLoopThreadPool \<Rightarrow> nat list result" where
  "getAllLoops p = (if \<not> pool_started p then Inl AssertFail else if loops p = [] then Inr [baseLoop p] else Inr (loops p))"

fun next_loops :: "nat \<Rightarrow> EventLoopThreadPool \<Rightarrow> (nat list \<times> EventLoopThreadPool) result" where
  "next_loops 0 p = Inr ([], p)"
| "next_loops (Suc k) p = bind_result (getNextLoop p) (\<lambda>(l, p1). bind_result (next_loops k p1) (\<lambda>(ls, p2). Inr (l # ls, p2)))"

lemma next_loops_from:
  assumes "pool_started p" and "next_loop p < length (loops p)"
  shows "\<exists>p'. next_loops k p = Inr (map (\<lambda>i. loops p ! ((next_loop p + i) mod length (loops p))) [0..<k], p')"
  using assms
proof (induction k arbitrary: p)
  case 0
  then show ?case by simp
next
  case (Suc k)
  let ?n = "length (loops p)"
  define p1 where "p1 = p\<lparr>next_loop := (next_loop p + 1) mod ?n\<rparr>"
  have mod: "(if next_loop p + 1 \<ge> ?n then 0 else next_loop p + 1) = (next_loop p + 1) mod ?n"
    using Suc.prems(2) by (cases "next_loop p + 1 = ?n") auto
  have "getNextLoop p = Inr (loops p ! next_loop p, p1)"
    using Suc.prems unfolding getNextLoop_def Let_def p1_def mod by auto
  moreover have "pool_started p1" "next_loop p1 < length (loops p1)" "loops p1 = loops p"
    using Suc.prems by (simp_all add: p1_def) (metis length_greater_0_conv less_nat_zero_code list.size(3) mod_less_divisor neq0_conv)
  moreover obtain p2 where "next_loops k p1 = Inr (map (\<lambda>i. loops p1 ! ((next_loop p1 + i) mod length (loops p1))) [0..<k], p2)"
    using Suc.IH calculation(2,3) by blast
  moreover have "(next_loop p1 + i) mod ?n = (next_loop p + Suc i) mod ?n" for i
    by (simp add: p1_def mod_simps)
  ultimately show ?case
    using Suc.prems(2) by (auto simp: upt_conv_Cons map_Suc_upt [symmetric] simp del: upt_Suc)
qed

text \<open>Connections go round the loops of the pool: the \<open>k\<close>-th goes to the loop \<open>k\<close> modulo their number; without threads all go
  to the base loop, as in both servers.\<close>

theorem round_robin:
  assumes "pool_start startLoop ((new_pool base)\<lparr>numThreads := n\<rparr>) = Inr p"
  shows "\<exists>p'. next_loops k p = Inr (map (\<lambda>i. if n = 0 then base else startLoop (i mod n)) [0..<k], p')"
proof (cases "n = 0")
  case True
  then have "p = (new_pool base)\<lparr>numThreads := 0, pool_started := True\<rparr>"
    using assms by (simp add: pool_start_def new_pool_def)
  then have "getNextLoop p = Inr (base, p)" by (simp add: getNextLoop_def new_pool_def)
  then have "next_loops k p = Inr (replicate k base, p)" by (induction k) simp_all
  then show ?thesis using True by (simp add: map_replicate_const)
next
  case False
  then have p: "pool_started p" "next_loop p = 0" "loops p = map startLoop [0..<n]"
    using assms by (auto simp: pool_start_def new_pool_def)
  then obtain p' where "next_loops k p = Inr (map (\<lambda>i. loops p ! ((next_loop p + i) mod length (loops p))) [0..<k], p')"
    using next_loops_from [of p k] False by auto
  moreover have "map (\<lambda>i. loops p ! ((next_loop p + i) mod length (loops p))) [0..<k] = map (\<lambda>i. startLoop (i mod n)) [0..<k]"
    using p False by simp
  ultimately show ?thesis using False by simp
qed

theorem round_robin_witness:
  "\<exists>p p'. pool_start (\<lambda>i. 10 + i) ((new_pool 1)\<lparr>numThreads := 2\<rparr>) = Inr p \<and> next_loops 5 p = Inr ([10, 11, 10, 11, 10], p')"
proof -
  obtain p where p: "pool_start (\<lambda>i. 10 + i) ((new_pool 1)\<lparr>numThreads := 2\<rparr>) = Inr p"
    by (simp add: pool_start_def new_pool_def)
  have "map (\<lambda>i. if (2 :: nat) = 0 then 1 else 10 + i mod 2) [0..<5] = [10, 11, 10, 11, 10 :: nat]" by code_simp
  then show ?thesis using round_robin [OF p, of 5] p by metis
qed

end
