(* ===== verification/Log_Stream.thy ===== *)
theory Log_Stream
  imports Decimal "HOL-Library.Signed_Division" "HOL-Library.Sublist"
begin

section \<open>The log stream\<close>

text \<open>
  \<open>base/LogStream.h\<close>, \<open>base/LogStream.cc\<close>. A \<open>FixedBuffer\<close> is an array and a position in it. Strings are checked
  against the space that is left; numbers are written through \<open>current()\<close> without a check, after a test for 48 bytes
  only. A write outside the array is \<open>Inl OutOfBounds\<close>. What \<open>snprintf\<close> makes of a \<open>double\<close> is an argument.
\<close>

subsection \<open>The buffer\<close>

record FixedBuffer =
  fb_data :: bytes
  fb_cur :: nat

definition new_FixedBuffer :: "nat \<Rightarrow> FixedBuffer" where
  "new_FixedBuffer SIZE = \<lparr>fb_data = replicate SIZE 0, fb_cur = 0\<rparr>"

definition kSmallBuffer :: int where "kSmallBuffer = 4000"

definition kLargeBuffer :: int where "kLargeBuffer = 4000 * 1000"

definition fb_length :: "FixedBuffer \<Rightarrow> int" where
  "fb_length b = int (fb_cur b)"

definition fb_avail :: "FixedBuffer \<Rightarrow> int" where
  "fb_avail b = int (length (fb_data b)) - int (fb_cur b)"

definition fb_add :: "nat \<Rightarrow> FixedBuffer \<Rightarrow> FixedBuffer" where
  "fb_add len b = b\<lparr>fb_cur := fb_cur b + len\<rparr>"

definition fb_reset :: "FixedBuffer \<Rightarrow> FixedBuffer" where
  "fb_reset b = b\<lparr>fb_cur := 0\<rparr>"

definition fb_bzero :: "FixedBuffer \<Rightarrow> FixedBuffer" where
  "fb_bzero b = b\<lparr>fb_data := replicate (length (fb_data b)) 0\<rparr>"

definition fb_toString :: "FixedBuffer \<Rightarrow> bytes" where
  "fb_toString b = take (fb_cur b) (fb_data b)"

text \<open>Bytes written from a position on, in the array.\<close>

definition write_at :: "nat \<Rightarrow> bytes \<Rightarrow> FixedBuffer \<Rightarrow> FixedBuffer result" where
  "write_at p s b =
     (if p + length s \<le> length (fb_data b)
      then Inr (b\<lparr>fb_data := take p (fb_data b) @ s @ drop (p + length s) (fb_data b)\<rparr>)
      else Inl OutOfBounds)"

definition fb_append :: "bytes \<Rightarrow> FixedBuffer \<Rightarrow> FixedBuffer result" where
  "fb_append s b =
     (if fb_avail b > int (length s)
      then bind_result (write_at (fb_cur b) s b) (\<lambda>b'. Inr (fb_add (length s) b'))
      else Inr b)"

subsection \<open>Numbers\<close>

definition digits :: bytes where "digits = lit ''9876543210123456789''"

definition digitsHex :: bytes where "digitsHex = lit ''0123456789ABCDEF''"

text \<open>The loop of \<open>convert\<close>: digits from the last to the first; \<open>%\<close> and \<open>/\<close> truncate towards zero, and \<open>zero\<close> points into the
  middle of \<open>digits\<close>, so that a negative remainder selects the digit too.\<close>

function convert_loop :: "int \<Rightarrow> bytes" where
  "convert_loop i = digits ! nat (9 + i smod 10) # (if i sdiv 10 \<noteq> 0 then convert_loop (i sdiv 10) else [])"
  by pat_completeness auto
termination
proof (relation "measure (\<lambda>i. nat \<bar>i\<bar>)", simp)
  fix i :: int
  assume h: "i sdiv 10 \<noteq> 0"
  then have "i \<noteq> 0" by auto
  moreover have "\<bar>i sdiv 10\<bar> = \<bar>i\<bar> div 10"
    by (cases "i = 0") (simp_all add: signed_divide_int_def abs_mult abs_sgn_eq)
  ultimately show "(i sdiv 10, i) \<in> measure (\<lambda>i. nat \<bar>i\<bar>)" by simp
qed

definition convert :: "int \<Rightarrow> bytes" where
  "convert v = rev (convert_loop v @ (if v < 0 then [45] else []))"

function convertHex_loop :: "nat \<Rightarrow> bytes" where
  "convertHex_loop i = digitsHex ! (i mod 16) # (if i div 16 \<noteq> 0 then convertHex_loop (i div 16) else [])"
  by pat_completeness auto
termination
  by (relation "measure id") auto

definition convertHex :: "64 word \<Rightarrow> bytes" where
  "convertHex v = rev (convertHex_loop (unat v))"

declare convert_loop.simps [simp del] convertHex_loop.simps [simp del]

subsection \<open>The stream\<close>

definition kMaxNumericSize :: nat where "kMaxNumericSize = 48"

definition formatInteger :: "int \<Rightarrow> FixedBuffer \<Rightarrow> FixedBuffer result" where
  "formatInteger v b =
     (if fb_avail b \<ge> int kMaxNumericSize
      then bind_result (write_at (fb_cur b) (convert v @ [0]) b) (\<lambda>b'. Inr (fb_add (length (convert v)) b'))
      else Inr b)"

definition stream_pointer :: "64 word \<Rightarrow> FixedBuffer \<Rightarrow> FixedBuffer result" where
  "stream_pointer v b =
     (if fb_avail b \<ge> int kMaxNumericSize
      then bind_result (write_at (fb_cur b) (lit ''0x'') b) (\<lambda>b1.
           bind_result (write_at (fb_cur b + 2) (convertHex v @ [0]) b1) (\<lambda>b2.
             Inr (fb_add (length (convertHex v) + 2) b2)))
      else Inr b)"

definition stream_double :: "bytes \<Rightarrow> FixedBuffer \<Rightarrow> FixedBuffer result" where
  "stream_double printed b =
     (if fb_avail b \<ge> int kMaxNumericSize
      then bind_result (write_at (fb_cur b) (take (kMaxNumericSize - 1) printed @ [0]) b) (\<lambda>b'.
             Inr (fb_add (length printed) b'))
      else Inr b)"

datatype log_item =
    LBool bool
  | LInt int
  | LPointer "64 word"
  | LDouble bytes
  | LChar byte
  | LCStr "bytes option"
  | LString bytes

fun stream_item :: "log_item \<Rightarrow> FixedBuffer \<Rightarrow> FixedBuffer result" where
  "stream_item (LBool v) b = fb_append (if v then lit ''1'' else lit ''0'') b"
| "stream_item (LInt v) b = formatInteger v b"
| "stream_item (LPointer p) b = stream_pointer p b"
| "stream_item (LDouble s) b = stream_double s b"
| "stream_item (LChar c) b = fb_append [c] b"
| "stream_item (LCStr (Some s)) b = fb_append s b"
| "stream_item (LCStr None) b = fb_append (lit ''(null)'') b"
| "stream_item (LString s) b = fb_append s b"

fun stream_items :: "log_item list \<Rightarrow> FixedBuffer \<Rightarrow> FixedBuffer result" where
  "stream_items [] b = Inr b"
| "stream_items (i # is) b = bind_result (stream_item i b) (stream_items is)"

subsection \<open>Numbers are printed right\<close>

lemma digits_nth:
  assumes "- 10 < d" and "d < 10"
  shows "digits ! nat (9 + d) = 48 + of_nat (nat \<bar>d\<bar>)"
proof -
  have "d \<in> {-9..9}" using assms by auto
  also have "{-9..9} = set [-9..9::int]" by (rule set_upto [symmetric])
  finally have "d \<in> set [-9..9]" .
  moreover have "\<forall>d \<in> set [-9..9]. digits ! nat (9 + d) = 48 + of_nat (nat \<bar>d\<bar>)" by code_simp
  ultimately show ?thesis by blast
qed

lemma smod_sdiv_10:
  fixes i :: int
  shows "nat \<bar>i smod 10\<bar> = nat \<bar>i\<bar> mod 10" and "nat \<bar>i sdiv 10\<bar> = nat \<bar>i\<bar> div 10" and "- 10 < i smod 10" and "i smod 10 < 10"
    and "i sdiv 10 = 0 \<longleftrightarrow> nat \<bar>i\<bar> < 10"
proof -
  have q: "i sdiv 10 = sgn i * (\<bar>i\<bar> div 10)" by (simp add: signed_divide_int_def)
  have r: "i smod 10 = sgn i * (\<bar>i\<bar> mod 10)" by (simp add: signed_modulo_int_def)
  have ar: "\<bar>i smod 10\<bar> = \<bar>i\<bar> mod 10" and aq: "\<bar>i sdiv 10\<bar> = \<bar>i\<bar> div 10"
    unfolding q r by (cases "i = 0", simp_all add: abs_mult abs_sgn_eq)+
  show "nat \<bar>i smod 10\<bar> = nat \<bar>i\<bar> mod 10" "nat \<bar>i sdiv 10\<bar> = nat \<bar>i\<bar> div 10"
    unfolding ar aq by (simp_all add: nat_mod_distrib nat_div_distrib)
  have "\<bar>i smod 10\<bar> < 10" unfolding ar by simp
  then show "- 10 < i smod 10" "i smod 10 < 10" by linarith+
  show "i sdiv 10 = 0 \<longleftrightarrow> nat \<bar>i\<bar> < 10" using aq by linarith
qed

lemma convert_loop_digits: "rev (convert_loop i) = dec_digits (nat \<bar>i\<bar>)"
proof (induction i rule: convert_loop.induct)
  case (1 i)
  show ?case
  proof (cases "i sdiv 10 = 0")
    case True
    then show ?thesis
      by (subst convert_loop.simps, subst dec_digits.simps) (simp add: digits_nth smod_sdiv_10)
  next
    case False
    then show ?thesis
      using 1 by (subst convert_loop.simps, subst dec_digits.simps) (simp add: digits_nth smod_sdiv_10)
  qed
qed

lemma convert_show_int: "convert v = show_int v"
  by (simp add: convert_def show_int_def convert_loop_digits)

lemma dec_digits_within: "n < 10 ^ k \<Longrightarrow> 0 < k \<Longrightarrow> length (dec_digits n) \<le> k"
  using length_dec_digits [of n "k - 1"] by simp

lemma length_convert:
  assumes "- (2 ^ 63) \<le> v" and "v < 2 ^ 64"
  shows "length (convert v) \<le> 20"
proof (cases "v < 0")
  case True
  then have "length (dec_digits (nat (- v))) \<le> 19" using assms(1) by (intro dec_digits_within) (simp_all add: nat_less_iff)
  then show ?thesis using True by (simp add: convert_show_int show_int_def)
next
  case False
  then show ?thesis
    using assms(2) dec_digits_within [of "nat v" 20] by (simp add: convert_show_int show_int_def nat_less_iff)
qed

lemma length_convertHex_loop:
  assumes "n < 16 ^ k" and "0 < k"
  shows "length (convertHex_loop n) \<le> k"
  using assms
proof (induction n arbitrary: k rule: convertHex_loop.induct)
  case (1 n)
  show ?case
  proof (cases "n div 16 = 0")
    case True
    then show ?thesis using 1(3) by (subst convertHex_loop.simps) simp
  next
    case False
    then obtain m where m: "k = Suc m" "0 < m" using 1(2,3) by (cases k; cases "k = 1") auto
    then have "n div 16 < 16 ^ m" using 1(2) by (simp add: less_mult_imp_div_less mult.commute)
    then have "length (convertHex_loop (n div 16)) \<le> m" using 1(1) False m(2) by blast
    then show ?thesis using False m(1) by (subst convertHex_loop.simps) simp
  qed
qed

lemma length_convertHex: "length (convertHex v) \<le> 16"
proof -
  have "unat v < 2 ^ LENGTH(64)" by (rule unsigned_less)
  then show ?thesis by (simp add: convertHex_def length_convertHex_loop)
qed

subsection \<open>What the stream holds\<close>

definition fb_ok :: "FixedBuffer \<Rightarrow> bool" where
  "fb_ok b \<longleftrightarrow> fb_cur b \<le> length (fb_data b)"

lemma length_toString: "fb_ok b \<Longrightarrow> length (fb_toString b) = fb_cur b"
  by (simp add: fb_toString_def fb_ok_def)

lemma write_text:
  assumes "fb_ok b" and "fb_cur b + length (t @ u) \<le> length (fb_data b)"
  shows "\<exists>b'. write_at (fb_cur b) (t @ u) b = Inr b' \<and> fb_ok (fb_add (length t) b')
    \<and> fb_cur b' = fb_cur b \<and> length (fb_data b') = length (fb_data b) \<and> fb_toString (fb_add (length t) b') = fb_toString b @ t
    \<and> fb_toString b' = fb_toString b"
  using assms by (auto simp: write_at_def fb_ok_def fb_add_def fb_toString_def)

lemma fb_append_text:
  assumes "fb_ok b"
  shows "\<exists>b'. fb_append s b = Inr b' \<and> fb_ok b' \<and> length (fb_data b') = length (fb_data b)
    \<and> fb_toString b' = fb_toString b @ (if int (length s) < fb_avail b then s else [])"
proof (cases "int (length s) < fb_avail b")
  case True
  then obtain b' where "write_at (fb_cur b) s b = Inr b'" "fb_ok (fb_add (length s) b')"
    "length (fb_data b') = length (fb_data b)" "fb_toString (fb_add (length s) b') = fb_toString b @ s"
    using write_text [OF assms, of s "[]"] by (auto simp: fb_avail_def)
  then show ?thesis using True by (auto simp: fb_append_def fb_add_def)
next
  case False
  then show ?thesis using assms by (simp add: fb_append_def)
qed

fun item_text :: "log_item \<Rightarrow> bytes" where
  "item_text (LBool v) = (if v then lit ''1'' else lit ''0'')"
| "item_text (LInt v) = show_int v"
| "item_text (LPointer p) = lit ''0x'' @ convertHex p"
| "item_text (LDouble s) = s"
| "item_text (LChar c) = [c]"
| "item_text (LCStr (Some s)) = s"
| "item_text (LCStr None) = lit ''(null)''"
| "item_text (LString s) = s"

fun numeric :: "log_item \<Rightarrow> bool" where
  "numeric (LInt v) = True"
| "numeric (LPointer p) = True"
| "numeric (LDouble s) = True"
| "numeric i = False"

definition item_fits :: "log_item \<Rightarrow> FixedBuffer \<Rightarrow> bool" where
  "item_fits i b \<longleftrightarrow> (if numeric i then int kMaxNumericSize \<le> fb_avail b else int (length (item_text i)) < fb_avail b)"

text \<open>The integers are of a type of at most 64 bits; \<open>%.12g\<close> prints fewer than 48 characters.\<close>

fun item_ok :: "log_item \<Rightarrow> bool" where
  "item_ok (LInt v) \<longleftrightarrow> - (2 ^ 63) \<le> v \<and> v < 2 ^ 64"
| "item_ok (LDouble s) \<longleftrightarrow> length s < kMaxNumericSize"
| "item_ok i \<longleftrightarrow> True"

definition streamed :: "log_item \<Rightarrow> FixedBuffer \<Rightarrow> FixedBuffer result \<Rightarrow> bool" where
  "streamed i b r \<longleftrightarrow> (\<exists>b'. r = Inr b' \<and> fb_ok b' \<and> length (fb_data b') = length (fb_data b)
     \<and> fb_toString b' = fb_toString b @ (if item_fits i b then item_text i else []))"

lemma streamed_append:
  assumes "fb_ok b" and "\<not> numeric i" and "item_text i = s"
  shows "streamed i b (fb_append s b)"
  using fb_append_text [OF assms(1), of s] assms(2,3) by (auto simp: streamed_def item_fits_def)

lemma streamed_integer:
  assumes "fb_ok b" and "- (2 ^ 63) \<le> v" and "v < 2 ^ 64"
  shows "streamed (LInt v) b (formatInteger v b)"
proof (cases "int kMaxNumericSize \<le> fb_avail b")
  case True
  then obtain b' where "write_at (fb_cur b) (convert v @ [0]) b = Inr b'" "fb_ok (fb_add (length (convert v)) b')"
    "length (fb_data b') = length (fb_data b)" "fb_toString (fb_add (length (convert v)) b') = fb_toString b @ convert v"
    using write_text [OF assms(1), of "convert v" "[0]"] length_convert [OF assms(2,3)]
    by (auto simp: fb_avail_def kMaxNumericSize_def)
  then show ?thesis
    using True by (auto simp: streamed_def formatInteger_def item_fits_def fb_add_def convert_show_int)
next
  case False
  then show ?thesis using assms(1) by (simp add: streamed_def formatInteger_def item_fits_def)
qed

lemma streamed_double:
  assumes "fb_ok b" and "length s < kMaxNumericSize"
  shows "streamed (LDouble s) b (stream_double s b)"
proof (cases "int kMaxNumericSize \<le> fb_avail b")
  case True
  then obtain b' where "write_at (fb_cur b) (s @ [0]) b = Inr b'" "fb_ok (fb_add (length s) b')"
    "length (fb_data b') = length (fb_data b)" "fb_toString (fb_add (length s) b') = fb_toString b @ s"
    using write_text [OF assms(1), of s "[0]"] assms(2) by (auto simp: fb_avail_def)
  then show ?thesis
    using True assms(2) by (auto simp: streamed_def stream_double_def item_fits_def fb_add_def)
next
  case False
  then show ?thesis using assms(1) by (simp add: streamed_def stream_double_def item_fits_def)
qed

lemma streamed_pointer:
  assumes "fb_ok b"
  shows "streamed (LPointer p) b (stream_pointer p b)"
proof (cases "int kMaxNumericSize \<le> fb_avail b")
  case True
  note len = length_convertHex [of p]
  have two: "length (lit ''0x'') = 2" by (simp add: lit_def)
  have room: "fb_cur b + 48 \<le> length (fb_data b)" using True by (simp add: fb_avail_def kMaxNumericSize_def)
  obtain b1 where 1: "write_at (fb_cur b) (lit ''0x'') b = Inr b1" "fb_ok (fb_add 2 b1)" "fb_cur b1 = fb_cur b"
    "length (fb_data b1) = length (fb_data b)" "fb_toString (fb_add 2 b1) = fb_toString b @ lit ''0x''"
    using write_text [OF assms, of "lit ''0x''" "[]"] room two by auto
  obtain b2 where 2: "write_at (fb_cur b + 2) (convertHex p @ [0]) (fb_add 2 b1) = Inr b2" "fb_ok (fb_add (length (convertHex p)) b2)"
    "length (fb_data b2) = length (fb_data b)"
    "fb_toString (fb_add (length (convertHex p)) b2) = fb_toString b @ lit ''0x'' @ convertHex p"
    using write_text [OF 1(2), of "convertHex p" "[0]"] 1(3-5) room len by (auto simp: fb_add_def)
  have "\<exists>b3. write_at (fb_cur b + 2) (convertHex p @ [0]) b1 = Inr b3 \<and> fb_add (length (convertHex p) + 2) b3 = fb_add (length (convertHex p)) b2"
    using 2(1) 1(3) by (auto simp: write_at_def fb_add_def split: if_splits)
  then show ?thesis
    using True 1(1) 2(2-4) by (auto simp: streamed_def stream_pointer_def item_fits_def) (simp_all add: fb_add_def)
next
  case False
  then show ?thesis using assms(1) by (simp add: streamed_def stream_pointer_def item_fits_def)
qed

lemma stream_item_streamed:
  assumes "fb_ok b" and "item_ok i"
  shows "streamed i b (stream_item i b)"
  using assms
  by (cases "(i, b)" rule: stream_item.cases)
    (simp_all add: streamed_append streamed_integer streamed_double streamed_pointer)

text \<open>Whatever is streamed, nothing is written outside the array, every item is there completely or not at all, and all of
  them are there if 48 bytes more than their text fit.\<close>

lemma stream_items_append: "stream_items (is @ js) b = bind_result (stream_items is b) (stream_items js)"
  by (induction "is" arbitrary: b) (simp_all add: bind_result_def split: sum.splits)

lemma stream_items_text:
  assumes "fb_ok b" and "list_all item_ok is"
  shows "\<exists>b'. stream_items is b = Inr b' \<and> fb_ok b' \<and> length (fb_data b') = length (fb_data b)
    \<and> (\<exists>js. subseq js is \<and> fb_toString b' = fb_toString b @ concat (map item_text js))
    \<and> (int (length (concat (map item_text is))) + 48 \<le> fb_avail b \<longrightarrow> fb_toString b' = fb_toString b @ concat (map item_text is))"
  using assms
proof (induction "is" arbitrary: b)
  case Nil
  then show ?case by (auto intro!: exI [of _ "[]"])
next
  case (Cons i "is")
  obtain b1 where 1: "stream_item i b = Inr b1" "fb_ok b1" "length (fb_data b1) = length (fb_data b)"
    "fb_toString b1 = fb_toString b @ (if item_fits i b then item_text i else [])"
    using stream_item_streamed [of b i] Cons.prems by (auto simp: streamed_def)
  obtain b2 js where 2: "stream_items is b1 = Inr b2" "fb_ok b2" "length (fb_data b2) = length (fb_data b1)"
    "subseq js is" "fb_toString b2 = fb_toString b1 @ concat (map item_text js)"
    "int (length (concat (map item_text is))) + 48 \<le> fb_avail b1 \<longrightarrow> fb_toString b2 = fb_toString b1 @ concat (map item_text is)"
    using Cons.IH [OF 1(2)] Cons.prems(2) by auto
  have sub: "\<exists>js. subseq js (i # is) \<and> fb_toString b2 = fb_toString b @ concat (map item_text js)"
  proof (cases "item_fits i b")
    case True
    then show ?thesis using 1(4) 2(4,5) by (intro exI [of _ "i # js"]) simp
  next
    case False
    then show ?thesis using 1(4) 2(4,5) by (intro exI [of _ js]) auto
  qed
  have "fb_toString b2 = fb_toString b @ concat (map item_text (i # is))"
    if room: "int (length (concat (map item_text (i # is)))) + 48 \<le> fb_avail b"
  proof -
    have fits: "item_fits i b" using room by (auto simp: item_fits_def kMaxNumericSize_def)
    have "fb_cur b1 = fb_cur b + length (item_text i)"
      using arg_cong [OF 1(4), of length] length_toString [OF 1(2)] length_toString [OF Cons.prems(1)] fits by simp
    then have "int (length (concat (map item_text is))) + 48 \<le> fb_avail b1"
      using room 1(3) by (simp add: fb_avail_def)
    then show ?thesis using 2(6) 1(4) fits by simp
  qed
  then show ?case using 1 2(1-3) sub by (intro exI [of _ b2]) simp
qed

end
