(* ===== verification/Logging.thy ===== *)
theory Logging
  imports Log_Stream
begin

section \<open>Log lines\<close>

text \<open>
  \<open>base/Logging.h\<close>, \<open>base/Logging.cc\<close>, \<open>base/CurrentThread.h\<close>. A \<open>Logger\<close> lives for one statement: the constructor writes time,
  thread and level, the statement streams its items, the destructor adds the place and hands the buffer to \<open>g_output\<close>.
  The clock, \<open>localtime\<close>, the thread number and \<open>strerror\<close> are parameters; \<open>t_time\<close> and \<open>t_lastSecond\<close> are the state
  of the thread.
\<close>

subsection \<open>Printing with \<open>snprintf\<close>\<close>

definition zero_pad :: "nat \<Rightarrow> nat \<Rightarrow> bytes" where
  "zero_pad w n = replicate (w - length (dec_digits n)) 48 @ dec_digits n"

text \<open>\<open>%0wd\<close>, \<open>%0wu\<close> and \<open>%wd\<close>.\<close>

definition fmt_0d :: "nat \<Rightarrow> int \<Rightarrow> bytes" where
  "fmt_0d w i = (if i < 0 then 45 # zero_pad (w - 1) (nat (- i)) else zero_pad w (nat i))"

definition fmt_0u :: "nat \<Rightarrow> int \<Rightarrow> bytes" where
  "fmt_0u w i = zero_pad w (nat (i mod 2 ^ 32))"

definition fmt_d :: "nat \<Rightarrow> int \<Rightarrow> bytes" where
  "fmt_d w i = replicate (w - length (show_int i)) 32 @ show_int i"

subsection \<open>The logger\<close>

datatype LogLevel = TRACE | DEBUG | INFO | WARN | ERROR | FATAL

fun LogLevelName :: "LogLevel \<Rightarrow> bytes" where
  "LogLevelName TRACE = lit ''TRACE ''"
| "LogLevelName DEBUG = lit ''DEBUG ''"
| "LogLevelName INFO = lit ''INFO  ''"
| "LogLevelName WARN = lit ''WARN  ''"
| "LogLevelName ERROR = lit ''ERROR ''"
| "LogLevelName FATAL = lit ''FATAL ''"

record tm =
  tm_year :: int
  tm_mon :: int
  tm_mday :: int
  tm_hour :: int
  tm_min :: int
  tm_sec :: int

record log_env =
  log_now :: int
  log_local :: tm
  zone_valid :: bool
  log_tid :: int
  strerror_tl :: "int \<Rightarrow> bytes"

record log_thread =
  t_time :: bytes
  t_lastSecond :: int

record log_call =
  lc_level :: LogLevel
  lc_errno :: int
  lc_func :: "bytes option"
  lc_file :: bytes
  lc_line :: int
  lc_items :: "log_item list"

text \<open>A string whose length is asserted.\<close>

definition stream_T :: "bytes \<Rightarrow> nat \<Rightarrow> FixedBuffer \<Rightarrow> FixedBuffer result" where
  "stream_T s len b = (if length s = len then fb_append s b else Inl AssertFail)"

definition tidString :: "log_env \<Rightarrow> bytes" where
  "tidString env = fmt_d 5 (log_tid env) @ [32]"

definition SourceFile :: "bytes \<Rightarrow> bytes" where
  "SourceFile path = rev (takeWhile (\<lambda>c. c \<noteq> 47) (rev path))"

definition time_text :: "tm \<Rightarrow> bytes" where
  "time_text pt = fmt_0u 4 (tm_year pt) @ fmt_0d 2 (tm_mon pt) @ fmt_0d 2 (tm_mday pt) @ [32]
     @ fmt_0d 2 (tm_hour pt) @ [58] @ fmt_0d 2 (tm_min pt) @ [58] @ fmt_0d 2 (tm_sec pt)"

definition update_time :: "log_env \<Rightarrow> log_thread \<Rightarrow> log_thread result" where
  "update_time env tls =
     (let seconds = log_now env sdiv 1000000
      in if seconds \<noteq> t_lastSecond tls
         then let text = time_text (log_local env)
              in if length text = 17 then Inr (tls\<lparr>t_lastSecond := seconds, t_time := text\<rparr>) else Inl AssertFail
         else Inr tls)"

definition micros_text :: "log_env \<Rightarrow> bytes" where
  "micros_text env = [46] @ fmt_0d 6 (log_now env smod 1000000) @ (if zone_valid env then [32] else [90, 32])"

definition formatTime :: "log_env \<Rightarrow> log_thread \<Rightarrow> FixedBuffer \<Rightarrow> (FixedBuffer \<times> log_thread) result" where
  "formatTime env tls b =
     bind_result (update_time env tls) (\<lambda>tls'.
     bind_result (stream_T (t_time tls') 17 b) (\<lambda>b1.
     bind_result (stream_T (micros_text env) (if zone_valid env then 8 else 9) b1) (\<lambda>b2. Inr (b2, tls'))))"

definition Impl_ctor :: "log_env \<Rightarrow> LogLevel \<Rightarrow> int \<Rightarrow> log_thread \<Rightarrow> (FixedBuffer \<times> log_thread) result" where
  "Impl_ctor env level savedErrno tls =
     bind_result (formatTime env tls (new_FixedBuffer (nat kSmallBuffer))) (\<lambda>(b1, tls').
     bind_result (stream_T (tidString env) (length (tidString env)) b1) (\<lambda>b2.
     bind_result (stream_T (LogLevelName level) 6 b2) (\<lambda>b3.
     bind_result (if savedErrno \<noteq> 0
                  then stream_items [LCStr (Some (strerror_tl env savedErrno)), LCStr (Some (lit '' (errno='')), LInt savedErrno,
                                     LCStr (Some (lit '') ''))] b3
                  else Inr b3) (\<lambda>b4. Inr (b4, tls')))))"

definition Impl_finish :: "bytes \<Rightarrow> int \<Rightarrow> FixedBuffer \<Rightarrow> FixedBuffer result" where
  "Impl_finish base line = stream_items [LCStr (Some (lit '' - '')), LString base, LChar 58, LInt line, LChar 10]"

text \<open>What \<open>g_output\<close> is given, whether the process is aborted, and the state of the thread.\<close>

definition Logger_run :: "log_env \<Rightarrow> log_call \<Rightarrow> log_thread \<Rightarrow> (bytes \<times> bool \<times> log_thread) result" where
  "Logger_run env c tls =
     bind_result (Impl_ctor env (lc_level c) (lc_errno c) tls) (\<lambda>(b1, tls').
     bind_result (case lc_func c of None \<Rightarrow> Inr b1 | Some f \<Rightarrow> stream_items [LCStr (Some f), LChar 32] b1) (\<lambda>b2.
     bind_result (stream_items (lc_items c) b2) (\<lambda>b3.
     bind_result (Impl_finish (SourceFile (lc_file c)) (lc_line c) b3) (\<lambda>b4.
       Inr (fb_toString b4, lc_level c = FATAL, tls')))))"

subsection \<open>The text of a line\<close>

lemma length_zero_pad:
  assumes "n < 10 ^ w" and "0 < w"
  shows "length (zero_pad w n) = w"
  using dec_digits_within [OF assms] by (simp add: zero_pad_def)

lemma digits_value_zero_pad: "digits_value (zero_pad w n) = n"
proof -
  have "foldl (\<lambda>v c. 10 * v + (unat c - 48)) 0 (replicate k (48 :: byte)) = 0" for k
    by (induction k) simp_all
  then show ?thesis using digits_value_dec_digits [of n] by (simp add: zero_pad_def digits_value_def)
qed

definition tm_ok :: "tm \<Rightarrow> bool" where
  "tm_ok pt \<longleftrightarrow> 0 \<le> tm_year pt \<and> tm_year pt < 10000 \<and> 
     list_all (\<lambda>v. 0 \<le> v \<and> v < 100) [tm_mon pt, tm_mday pt, tm_hour pt, tm_min pt, tm_sec pt]"

definition env_log_ok :: "log_env \<Rightarrow> bool" where
  "env_log_ok env \<longleftrightarrow> 1000000 \<le> log_now env \<and> tm_ok (log_local env)"

definition tls_ok :: "log_thread \<Rightarrow> bool" where
  "tls_ok tls \<longleftrightarrow> t_lastSecond tls = 0 \<or> length (t_time tls) = 17"

definition call_ok :: "log_call \<Rightarrow> bool" where
  "call_ok c \<longleftrightarrow> list_all item_ok (lc_items c) \<and> is_int32 (lc_errno c) \<and> is_int32 (lc_line c)"

lemma fmt_year: "0 \<le> i \<Longrightarrow> i < 10000 \<Longrightarrow> fmt_0u 4 i = zero_pad 4 (nat i) \<and> length (fmt_0u 4 i) = 4"
  using length_zero_pad [of "nat i" 4] by (simp add: fmt_0u_def nat_less_iff)

lemma fmt_two: "0 \<le> i \<Longrightarrow> i < 100 \<Longrightarrow> fmt_0d 2 i = zero_pad 2 (nat i) \<and> length (fmt_0d 2 i) = 2"
  using length_zero_pad [of "nat i" 2] by (simp add: fmt_0d_def nat_less_iff)

lemma length_time_text: "tm_ok pt \<Longrightarrow> length (time_text pt) = 17"
  by (simp add: time_text_def tm_ok_def fmt_year fmt_two length_zero_pad nat_less_iff)

lemma length_micros_text:
  assumes "0 \<le> log_now env"
  shows "length (micros_text env) = (if zone_valid env then 8 else 9)"
proof -
  have m: "log_now env smod 1000000 = log_now env mod 1000000" using assms by (simp add: signed_modulo_int_def sgn_if)
  have nn: "\<not> log_now env mod 1000000 < 0" by (simp add: not_less)
  have "length (fmt_0d 6 (log_now env smod 1000000)) = 6"
    by (simp only: m fmt_0d_def nn if_False) (simp add: length_zero_pad nat_less_iff)
  then show ?thesis by (simp add: micros_text_def)
qed

lemma update_time_ok:
  assumes "env_log_ok env" and "tls_ok tls"
  shows "\<exists>tls'. update_time env tls = Inr tls' \<and> length (t_time tls') = 17 \<and> tls_ok tls'
    \<and> t_time tls' = (if log_now env sdiv 1000000 = t_lastSecond tls then t_time tls else time_text (log_local env))"
proof -
  have "log_now env sdiv 1000000 \<noteq> 0"
    using assms(1) by (simp add: env_log_ok_def signed_divide_int_def sgn_if) linarith
  then show ?thesis
    using assms length_time_text [of "log_local env"]
    by (auto simp: update_time_def Let_def env_log_ok_def tls_ok_def)
qed

definition errno_items :: "log_env \<Rightarrow> int \<Rightarrow> log_item list" where
  "errno_items env e = (if e \<noteq> 0 then [LCStr (Some (strerror_tl env e)), LCStr (Some (lit '' (errno='')), LInt e,
     LCStr (Some (lit '') ''))] else [])"

definition line_items :: "log_env \<Rightarrow> log_call \<Rightarrow> bytes \<Rightarrow> log_item list" where
  "line_items env c tt = [LString tt, LString (micros_text env), LString (tidString env), LString (LogLevelName (lc_level c))]
     @ errno_items env (lc_errno c) @ (case lc_func c of None \<Rightarrow> [] | Some f \<Rightarrow> [LCStr (Some f), LChar 32])
     @ lc_items c @ [LCStr (Some (lit '' - '')), LString (SourceFile (lc_file c)), LChar 58, LInt (lc_line c), LChar 10]"

definition line_text :: "log_env \<Rightarrow> log_call \<Rightarrow> bytes \<Rightarrow> bytes" where
  "line_text env c tt = tt @ micros_text env @ tidString env @ LogLevelName (lc_level c)
     @ (if lc_errno c \<noteq> 0 then strerror_tl env (lc_errno c) @ lit '' (errno='' @ show_int (lc_errno c) @ lit '') '' else [])
     @ (case lc_func c of None \<Rightarrow> [] | Some f \<Rightarrow> f @ [32])
     @ concat (map item_text (lc_items c)) @ lit '' - '' @ SourceFile (lc_file c) @ [58] @ show_int (lc_line c) @ [10]"

lemma line_items_text: "concat (map item_text (line_items env c tt)) = line_text env c tt"
  by (simp add: line_items_def line_text_def errno_items_def split: option.splits)

lemma Logger_run_items:
  assumes "env_log_ok env" and "tls_ok tls"
  shows "\<exists>tls'. tls_ok tls' \<and> t_time tls' = (if log_now env sdiv 1000000 = t_lastSecond tls then t_time tls else time_text (log_local env))
    \<and> Logger_run env c tls = bind_result (stream_items (line_items env c (t_time tls')) (new_FixedBuffer (nat kSmallBuffer)))
        (\<lambda>b. Inr (fb_toString b, lc_level c = FATAL, tls'))"
proof -
  obtain tls' where 1: "update_time env tls = Inr tls'" "length (t_time tls') = 17" "tls_ok tls'"
    "t_time tls' = (if log_now env sdiv 1000000 = t_lastSecond tls then t_time tls else time_text (log_local env))"
    using update_time_ok [OF assms] by blast
  have m: "length (micros_text env) = (if zone_valid env then 8 else 9)"
    using assms(1) by (intro length_micros_text) (simp add: env_log_ok_def)
  have l: "length (LogLevelName lv) = 6" for lv by (cases lv) (simp_all add: lit_def)
  have "Logger_run env c tls = bind_result (stream_items (line_items env c (t_time tls')) (new_FixedBuffer (nat kSmallBuffer)))
        (\<lambda>b. Inr (fb_toString b, lc_level c = FATAL, tls'))"
    using 1(1,2) m l
    by (simp add: Logger_run_def Impl_ctor_def formatTime_def stream_T_def line_items_def errno_items_def stream_items_append
        Impl_finish_def bind_result_assoc split: option.splits)
  with 1(3,4) show ?thesis by blast
qed

lemma line_items_ok: "call_ok c \<Longrightarrow> list_all item_ok (line_items env c tt)"
  by (auto simp: line_items_def errno_items_def call_ok_def is_int32_def split: option.splits)

subsection \<open>Properties\<close>

text \<open>C20: A log statement writes nothing outside its buffer and fails no assertion; unless its text comes within 48 bytes of the
  4000 of the buffer, the output is exactly one line: time, microseconds, thread, level, error, function, the items as
  printed, file, line and the newline. Otherwise it is a line of which whole items are missing.\<close>

theorem log_line:
  assumes "env_log_ok env" and "tls_ok tls" and "call_ok c"
  shows "\<exists>out tls' js. Logger_run env c tls = Inr (out, lc_level c = FATAL, tls') \<and> tls_ok tls' \<and> length out \<le> 4000
    \<and> t_time tls' = (if log_now env sdiv 1000000 = t_lastSecond tls then t_time tls else time_text (log_local env))
    \<and> subseq js (line_items env c (t_time tls')) \<and> out = concat (map item_text js)
    \<and> (length (line_text env c (t_time tls')) + 48 \<le> 4000 \<longrightarrow> out = line_text env c (t_time tls'))"
proof -
  let ?b = "new_FixedBuffer (nat kSmallBuffer)"
  have b: "fb_ok ?b" "length (fb_data ?b) = 4000" "fb_toString ?b = []" "fb_avail ?b = 4000"
    by (simp_all add: new_FixedBuffer_def fb_ok_def fb_toString_def fb_avail_def kSmallBuffer_def)
  obtain tls' where 1: "tls_ok tls'"
    "t_time tls' = (if log_now env sdiv 1000000 = t_lastSecond tls then t_time tls else time_text (log_local env))"
    "Logger_run env c tls = bind_result (stream_items (line_items env c (t_time tls')) ?b)
        (\<lambda>b. Inr (fb_toString b, lc_level c = FATAL, tls'))"
    using Logger_run_items [OF assms(1,2)] by blast
  obtain b' js where 2: "stream_items (line_items env c (t_time tls')) ?b = Inr b'" "fb_ok b'" "length (fb_data b') = 4000"
    "subseq js (line_items env c (t_time tls'))" "fb_toString b' = concat (map item_text js)"
    "length (line_text env c (t_time tls')) + 48 \<le> 4000 \<longrightarrow> fb_toString b' = line_text env c (t_time tls')"
    using stream_items_text [OF b(1) line_items_ok [OF assms(3)]] unfolding line_items_text b(2-4) by force
  have "length (fb_toString b') \<le> 4000" using 2(2,3) by (simp add: fb_toString_def)
  then show ?thesis using 1 2 by auto
qed

definition sample_log_env :: log_env where
  "sample_log_env = \<lparr>log_now = 1698745815000042, log_local = \<lparr>tm_year = 123, tm_mon = 9, tm_mday = 31, tm_hour = 17, tm_min = 50, tm_sec = 15\<rparr>,
     zone_valid = False, log_tid = 77, strerror_tl = (\<lambda>e. lit ''Error'')\<rparr>"

definition sample_log_call :: log_call where
  "sample_log_call = \<lparr>lc_level = INFO, lc_errno = 0, lc_func = None, lc_file = lit ''/src/main.cpp'', lc_line = 12,
     lc_items = [LString (lit ''users: ''), LInt 42]\<rparr>"

theorem log_line_witness:
  "\<exists>tls'. Logger_run sample_log_env sample_log_call \<lparr>t_time = [], t_lastSecond = 0\<rparr> =
     Inr (lit ''01230931 17:50:15.000042Z    77 INFO  users: 42 - main.cpp:12'' @ [10], False, tls')"
proof -
  have "env_log_ok sample_log_env" by code_simp
  moreover have "tls_ok \<lparr>t_time = [], t_lastSecond = 0\<rparr>" by code_simp
  moreover have "call_ok sample_log_call" by code_simp
  ultimately obtain out tls' where o: "Logger_run sample_log_env sample_log_call \<lparr>t_time = [], t_lastSecond = 0\<rparr> =
      Inr (out, lc_level sample_log_call = FATAL, tls')"
    "t_time tls' = (if log_now sample_log_env sdiv 1000000 = t_lastSecond \<lparr>t_time = [], t_lastSecond = 0\<rparr>
       then t_time \<lparr>t_time = [], t_lastSecond = 0\<rparr> else time_text (log_local sample_log_env))"
    "length (line_text sample_log_env sample_log_call (t_time tls')) + 48 \<le> 4000 \<longrightarrow>
       out = line_text sample_log_env sample_log_call (t_time tls')"
    using log_line by blast
  have "(if log_now sample_log_env sdiv 1000000 = 0 then [] else time_text (log_local sample_log_env)) = lit ''01230931 17:50:15''"
    by code_simp
  then have t: "t_time tls' = lit ''01230931 17:50:15''" using o(2) by (simp only: log_thread.simps)
  have line: "line_text sample_log_env sample_log_call (lit ''01230931 17:50:15'') =
      lit ''01230931 17:50:15.000042Z    77 INFO  users: 42 - main.cpp:12'' @ [10]" by code_simp
  have "length (lit ''01230931 17:50:15.000042Z    77 INFO  users: 42 - main.cpp:12'' @ [10]) = 62" by code_simp
  then show ?thesis using o(1,3) unfolding t line by (simp add: sample_log_call_def)
qed

text \<open>The date of a log line is wrong: the year is printed less 1900, the month less one.\<close>

theorem log_date_off:
  assumes "tm_ok pt" and "tm_year pt = y - 1900" and "tm_mon pt = m - 1"
  shows "int (digits_value (take 4 (time_text pt))) = y - 1900 \<and> int (digits_value (take 2 (drop 4 (time_text pt)))) = m - 1"
proof -
  have y: "fmt_0u 4 (tm_year pt) = zero_pad 4 (nat (y - 1900))" "length (fmt_0u 4 (tm_year pt)) = 4" "0 \<le> y - 1900"
    using assms fmt_year [of "tm_year pt"] by (auto simp: tm_ok_def)
  have m: "fmt_0d 2 (tm_mon pt) = zero_pad 2 (nat (m - 1))" "length (fmt_0d 2 (tm_mon pt)) = 2" "0 \<le> m - 1"
    using assms fmt_two [of "tm_mon pt"] by (auto simp: tm_ok_def)
  have "take 4 (time_text pt) = fmt_0u 4 (tm_year pt)" "take 2 (drop 4 (time_text pt)) = fmt_0d 2 (tm_mon pt)"
    using y(2) m(2) by (simp_all add: time_text_def)
  then show ?thesis using y(1,3) m(1,3) by (simp add: digits_value_zero_pad)
qed

theorem log_date_off_witness:
  "int (digits_value (take 4 (time_text (log_local sample_log_env)))) = 2023 - 1900
    \<and> int (digits_value (take 2 (drop 4 (time_text (log_local sample_log_env))))) = 10 - 1"
proof -
  have "tm_ok (log_local sample_log_env)" by code_simp
  then show ?thesis
    using log_date_off [of "log_local sample_log_env" 2023 10] by (simp add: sample_log_env_def)
qed

text \<open>Strings are dropped only when they do not fit, and nothing more is written when a single byte is left.\<close>

lemma stream_strings:
  assumes "fb_ok b" and "list_all (\<lambda>i. \<not> numeric i \<and> item_ok i) is" and "int (length (concat (map item_text is))) < fb_avail b"
  shows "\<exists>b'. stream_items is b = Inr b' \<and> fb_ok b' \<and> length (fb_data b') = length (fb_data b)
    \<and> fb_toString b' = fb_toString b @ concat (map item_text is)
    \<and> fb_avail b' = fb_avail b - int (length (concat (map item_text is)))"
  using assms
proof (induction "is" arbitrary: b)
  case Nil
  then show ?case by simp
next
  case (Cons i "is")
  have "item_fits i b" using Cons.prems(2,3) by (simp add: item_fits_def)
  then obtain b1 where 1: "stream_item i b = Inr b1" "fb_ok b1" "length (fb_data b1) = length (fb_data b)"
    "fb_toString b1 = fb_toString b @ item_text i"
    using stream_item_streamed [of b i] Cons.prems(1,2) by (auto simp: streamed_def)
  have "fb_cur b1 = fb_cur b + length (item_text i)"
    using arg_cong [OF 1(4), of length] length_toString [OF 1(2)] length_toString [OF Cons.prems(1)] by simp
  then have "fb_avail b1 = fb_avail b - int (length (item_text i))" using 1(3) by (simp add: fb_avail_def)
  then show ?case using 1 Cons.IH [OF 1(2)] Cons.prems(2,3) by auto
qed

lemma stream_full:
  assumes "fb_ok b" and "fb_avail b = 1" and "list_all item_ok is"
  shows "\<exists>b'. stream_items is b = Inr b' \<and> fb_toString b' = fb_toString b"
  using assms
proof (induction "is" arbitrary: b)
  case Nil
  then show ?case by simp
next
  case (Cons i "is")
  have "(if item_fits i b then item_text i else []) = []"
    using Cons.prems(2) by (simp add: item_fits_def kMaxNumericSize_def)
  then obtain b1 where 1: "stream_item i b = Inr b1" "fb_ok b1" "length (fb_data b1) = length (fb_data b)"
    "fb_toString b1 = fb_toString b"
    using stream_item_streamed [of b i] Cons.prems(1,3) by (auto simp: streamed_def)
  have "fb_cur b1 = fb_cur b" using 1(4) length_toString [OF 1(2)] length_toString [OF Cons.prems(1)] by simp
  then have "fb_avail b1 = 1" using 1(3) Cons.prems(2) by (simp add: fb_avail_def)
  then show ?case using 1 Cons.IH [OF 1(2)] Cons.prems(3) by auto
qed

text \<open>A message that leaves one byte of the buffer loses the rest of the line with its newline, so that the next line
  follows on the same one.\<close>

theorem log_newline_lost:
  assumes "env_log_ok env" and "tls_ok tls" and "call_ok c" and "lc_errno c = 0" and "lc_func c = None" and "lc_items c = [LString s]"
    and "17 + length (micros_text env) + length (tidString env) + 6 + length s = 3999"
  shows "\<exists>tt tls'. Logger_run env c tls =
    Inr (tt @ micros_text env @ tidString env @ LogLevelName (lc_level c) @ s, lc_level c = FATAL, tls')"
proof -
  let ?b = "new_FixedBuffer (nat kSmallBuffer)"
  have b: "fb_ok ?b" "fb_toString ?b = []" "fb_avail ?b = 4000"
    by (simp_all add: new_FixedBuffer_def fb_ok_def fb_toString_def fb_avail_def kSmallBuffer_def)
  obtain tls' where 1: "t_time tls' = (if log_now env sdiv 1000000 = t_lastSecond tls then t_time tls else time_text (log_local env))"
    "Logger_run env c tls = bind_result (stream_items (line_items env c (t_time tls')) ?b)
        (\<lambda>b. Inr (fb_toString b, lc_level c = FATAL, tls'))"
    using Logger_run_items [OF assms(1,2)] by blast
  have tt: "length (t_time tls') = 17" using 1(1) update_time_ok [OF assms(1,2)] by auto
  have l: "length (LogLevelName lv) = 6" for lv by (cases lv) (simp_all add: lit_def)
  let ?p = "[LString (t_time tls'), LString (micros_text env), LString (tidString env), LString (LogLevelName (lc_level c)), LString s]"
  let ?q = "[LCStr (Some (lit '' - '')), LString (SourceFile (lc_file c)), LChar 58, LInt (lc_line c), LChar 10]"
  have items: "line_items env c (t_time tls') = ?p @ ?q"
    using assms(4-6) by (simp add: line_items_def errno_items_def)
  obtain b1 where 2: "stream_items ?p ?b = Inr b1" "fb_ok b1" "fb_avail b1 = 1"
    "fb_toString b1 = t_time tls' @ micros_text env @ tidString env @ LogLevelName (lc_level c) @ s"
    using stream_strings [OF b(1), of ?p] b(2,3) tt l assms(7) by auto
  have "list_all item_ok ?q" using assms(3) by (simp add: call_ok_def is_int32_def)
  then obtain b2 where 3: "stream_items ?q b1 = Inr b2" "fb_toString b2 = fb_toString b1"
    using stream_full [OF 2(2,3)] by blast
  have "stream_items (line_items env c (t_time tls')) ?b = Inr b2"
    unfolding items stream_items_append 2(1) using 3(1) by simp
  then show ?thesis using 1(2) 3(2) 2(4) by auto
qed

theorem log_newline_lost_witness:
  "\<exists>tt tls'. Logger_run sample_log_env (sample_log_call\<lparr>lc_items := [LString (replicate 3961 65)]\<rparr>) \<lparr>t_time = [], t_lastSecond = 0\<rparr> =
    Inr (tt @ lit ''.000042Z    77 INFO  '' @ replicate 3961 65, False, tls')"
proof -
  let ?c = "sample_log_call\<lparr>lc_items := [LString (replicate 3961 65)]\<rparr>"
  have env: "env_log_ok sample_log_env" by code_simp
  have tls: "tls_ok \<lparr>t_time = [], t_lastSecond = 0\<rparr>" by code_simp
  have c: "call_ok ?c" "lc_errno ?c = 0" "lc_func ?c = None" "lc_items ?c = [LString (replicate 3961 65)]" "lc_level ?c = INFO"
    by (simp_all add: call_ok_def sample_log_call_def is_int32_def)
  have m: "micros_text sample_log_env = lit ''.000042Z ''" by code_simp
  have t: "tidString sample_log_env = lit ''   77 ''" by code_simp
  have room: "17 + length (micros_text sample_log_env) + length (tidString sample_log_env) + 6 + length (replicate 3961 (65 :: byte)) = 3999"
    unfolding m t by (simp add: lit_def)
  show ?thesis
    using log_newline_lost [OF env tls c(1-4) room] unfolding m t c(5) by (simp add: lit_def)
qed

end
