(* ===== verification/Async_Logging.thy ===== *)
theory Async_Logging
  imports Log_Stream
begin

section \<open>Asynchronous logging\<close>

text \<open>
  \<open>base/AsyncLogging.h\<close>, \<open>base/AsyncLogging.cc\<close>. Any thread appends lines to the current buffer under the mutex; the thread
  of the logger swaps the full buffers out, under the mutex too, and writes them. A run is a sequence of events, one for
  each critical section or step of the logging thread, so that all interleavings are covered. Waiting on the condition ends
  by notification, by the flush interval or spuriously, which are the same event. A \<open>unique_ptr\<close> is an option;
  using a null one is \<open>Inl NullDeref\<close>. A \<open>FixedBuffer\<close> of the large size is its text. \<open>al_output\<close> is what \<open>LogFile::append\<close>
  has been given, and \<open>notice\<close> the message about dropped buffers, which holds the time.
\<close>

datatype log_pc = LoopHead | Locking | Waiting | Writing | Exited

record AsyncLogging =
  al_running :: bool
  currentBuffer :: "bytes option"
  nextBuffer :: "bytes option"
  al_buffers :: "bytes option list"
  newBuffer1 :: "bytes option"
  newBuffer2 :: "bytes option"
  buffersToWrite :: "bytes option list"
  al_pc :: log_pc
  al_output :: bytes

text \<open>The state once the thread has been started.\<close>

definition new_AsyncLogging :: AsyncLogging where
  "new_AsyncLogging = \<lparr>al_running = True, currentBuffer = Some [], nextBuffer = Some [], al_buffers = [], newBuffer1 = Some [],
     newBuffer2 = Some [], buffersToWrite = [], al_pc = LoopHead, al_output = []\<rparr>"

definition deref :: "bytes option \<Rightarrow> (bytes \<Rightarrow> 'a result) \<Rightarrow> 'a result" where
  "deref p f = (case p of None \<Rightarrow> Inl NullDeref | Some b \<Rightarrow> f b)"

definition large_avail :: "bytes \<Rightarrow> int" where
  "large_avail b = kLargeBuffer - int (length b)"

definition large_append :: "bytes \<Rightarrow> bytes \<Rightarrow> bytes" where
  "large_append s b = (if large_avail b > int (length s) then b @ s else b)"

definition async_append :: "bytes \<Rightarrow> AsyncLogging \<Rightarrow> AsyncLogging result" where
  "async_append s l =
     deref (currentBuffer l) (\<lambda>cur.
       if large_avail cur > int (length s)
       then Inr (l\<lparr>currentBuffer := Some (large_append s cur)\<rparr>)
       else let l1 = (case nextBuffer l of
                        Some b \<Rightarrow> l\<lparr>al_buffers := al_buffers l @ [Some cur], currentBuffer := Some b, nextBuffer := None\<rparr>
                      | None \<Rightarrow> l\<lparr>al_buffers := al_buffers l @ [Some cur], currentBuffer := Some []\<rparr>)
            in deref (currentBuffer l1) (\<lambda>cur'. Inr (l1\<lparr>currentBuffer := Some (large_append s cur')\<rparr>)))"

definition async_stop :: "AsyncLogging \<Rightarrow> AsyncLogging" where
  "async_stop l = l\<lparr>al_running := False\<rparr>"

subsection \<open>The logging thread\<close>

definition loop_head :: "AsyncLogging \<Rightarrow> AsyncLogging result" where
  "loop_head l =
     (if \<not> al_running l then Inr (l\<lparr>al_pc := Exited\<rparr>)
      else if newBuffer1 l \<noteq> Some [] then Inl AssertFail
      else if newBuffer2 l \<noteq> Some [] then Inl AssertFail
      else if buffersToWrite l \<noteq> [] then Inl AssertFail
      else Inr (l\<lparr>al_pc := Locking\<rparr>))"

text \<open>The critical section after the wait.\<close>

definition swap_buffers :: "AsyncLogging \<Rightarrow> AsyncLogging" where
  "swap_buffers l =
     (let bs = al_buffers l @ [currentBuffer l];
          l1 = l\<lparr>currentBuffer := newBuffer1 l, newBuffer1 := None, al_buffers := buffersToWrite l, buffersToWrite := bs, al_pc := Writing\<rparr>
      in if nextBuffer l = None then l1\<lparr>nextBuffer := newBuffer2 l, newBuffer2 := None\<rparr> else l1)"

definition enter_section :: "AsyncLogging \<Rightarrow> AsyncLogging" where
  "enter_section l = (if al_buffers l = [] then l\<lparr>al_pc := Waiting\<rparr> else swap_buffers l)"

fun append_all :: "bytes option list \<Rightarrow> bytes \<Rightarrow> bytes result" where
  "append_all [] out = Inr out"
| "append_all (p # ps) out = deref p (\<lambda>b. append_all ps (out @ b))"

text \<open>A null pointer is replaced by the last of the buffers written, emptied.\<close>

definition refill :: "bytes option \<Rightarrow> bytes option list \<Rightarrow> (bytes option \<times> bytes option list) result" where
  "refill p bs =
     (if p \<noteq> None then Inr (p, bs)
      else if bs = [] then Inl AssertFail
      else deref (last bs) (\<lambda>b. Inr (Some [], butlast bs)))"

definition write_buffers :: "(nat \<Rightarrow> bytes) \<Rightarrow> AsyncLogging \<Rightarrow> AsyncLogging result" where
  "write_buffers notice l =
     (if buffersToWrite l = [] then Inl AssertFail
      else let n = length (buffersToWrite l);
               bs = (if n > 25 then take 2 (buffersToWrite l) else buffersToWrite l);
               out = (if n > 25 then al_output l @ notice (n - 2) else al_output l)
           in bind_result (append_all bs out) (\<lambda>out'.
              bind_result (refill (newBuffer1 l) (take 2 bs)) (\<lambda>(p1, bs1).
              bind_result (refill (newBuffer2 l) bs1) (\<lambda>(p2, bs2).
                Inr (l\<lparr>newBuffer1 := p1, newBuffer2 := p2, buffersToWrite := [], al_output := out', al_pc := LoopHead\<rparr>)))))"

fun backend_step :: "(nat \<Rightarrow> bytes) \<Rightarrow> AsyncLogging \<Rightarrow> AsyncLogging result" where
  "backend_step notice l =
     (case al_pc l of
        LoopHead \<Rightarrow> loop_head l
      | Locking \<Rightarrow> Inr (enter_section l)
      | Waiting \<Rightarrow> Inr (swap_buffers l)
      | Writing \<Rightarrow> write_buffers notice l
      | Exited \<Rightarrow> Inr l)"

declare backend_step.simps [simp del]

datatype log_event =
    LAppend bytes
  | LStop
  | LBackend

fun log_step :: "(nat \<Rightarrow> bytes) \<Rightarrow> log_event \<Rightarrow> AsyncLogging \<Rightarrow> AsyncLogging result" where
  "log_step notice (LAppend s) l = async_append s l"
| "log_step notice LStop l = Inr (async_stop l)"
| "log_step notice LBackend l = backend_step notice l"

fun log_run :: "(nat \<Rightarrow> bytes) \<Rightarrow> log_event list \<Rightarrow> AsyncLogging \<Rightarrow> AsyncLogging result" where
  "log_run notice [] l = Inr l"
| "log_run notice (e # es) l = bind_result (log_step notice e l) (log_run notice es)"

lemma log_run_append: "log_run notice (es @ fs) l = bind_result (log_run notice es l) (log_run notice fs)"
  by (induction es arbitrary: l) (simp_all add: bind_result_def split: sum.splits)

text \<open>The model of a large buffer is the text of a \<open>FixedBuffer\<close>.\<close>

lemma large_append_refines:
  assumes "fb_ok b" and "int (length (fb_data b)) = kLargeBuffer"
  shows "\<exists>b'. fb_append s b = Inr b' \<and> fb_ok b' \<and> int (length (fb_data b')) = kLargeBuffer
    \<and> fb_toString b' = large_append s (fb_toString b)"
proof -
  have "fb_avail b = large_avail (fb_toString b)"
    using assms by (simp add: fb_avail_def large_avail_def length_toString)
  then show ?thesis using fb_append_text [OF assms(1), of s] assms(2) by (auto simp: large_append_def)
qed

subsection \<open>The invariant\<close>

definition al_inv :: "AsyncLogging \<Rightarrow> bool" where
  "al_inv l \<longleftrightarrow> currentBuffer l \<noteq> None \<and> None \<notin> set (al_buffers l) \<and> None \<notin> set (buffersToWrite l)
     \<and> (nextBuffer l = Some [] \<or> nextBuffer l = None \<and> al_buffers l \<noteq> [])
     \<and> (if al_pc l = Writing
        then newBuffer1 l = None \<and> buffersToWrite l \<noteq> []
          \<and> (newBuffer2 l = Some [] \<or> newBuffer2 l = None \<and> 2 \<le> length (buffersToWrite l))
        else newBuffer1 l = Some [] \<and> newBuffer2 l = Some [] \<and> buffersToWrite l = [])"

definition al_pending :: "AsyncLogging \<Rightarrow> bytes" where
  "al_pending l = concat (map the (buffersToWrite l)) @ concat (map the (al_buffers l)) @ the (currentBuffer l)"

definition accepted :: "bytes \<Rightarrow> bytes" where
  "accepted s = (if int (length s) < kLargeBuffer then s else [])"

lemma new_AsyncLogging_inv [simp]: "al_inv new_AsyncLogging"
  by (simp add: al_inv_def new_AsyncLogging_def)

lemma async_append_ok:
  assumes "al_inv l"
  shows "\<exists>l'. async_append s l = Inr l' \<and> al_inv l' \<and> al_output l' = al_output l \<and> buffersToWrite l' = buffersToWrite l
    \<and> al_pending l' = al_pending l @ accepted s \<and> al_pc l' = al_pc l \<and> al_running l' = al_running l
    \<and> newBuffer1 l' = newBuffer1 l \<and> newBuffer2 l' = newBuffer2 l"
proof -
  obtain cur where cur: "currentBuffer l = Some cur" using assms by (auto simp: al_inv_def)
  show ?thesis
  proof (cases "large_avail cur > int (length s)")
    case True
    then have "int (length s) < kLargeBuffer" by (simp add: large_avail_def)
    then show ?thesis
      using True cur assms
      by (auto simp: async_append_def deref_def large_append_def al_inv_def al_pending_def accepted_def)
  next
    case False
    have "large_append s [] = accepted s" by (simp add: large_append_def large_avail_def accepted_def)
    then show ?thesis
      using False cur assms
      by (auto simp: async_append_def deref_def al_inv_def al_pending_def Let_def split: option.splits)
  qed
qed

lemma swap_buffers_ok:
  assumes "al_inv l" and "al_pc l \<noteq> Writing"
  shows "al_inv (swap_buffers l) \<and> al_output (swap_buffers l) = al_output l \<and> al_pending (swap_buffers l) = al_pending l
    \<and> al_pc (swap_buffers l) = Writing \<and> al_running (swap_buffers l) = al_running l
    \<and> concat (map the (buffersToWrite (swap_buffers l))) = al_pending l"
  using assms by (auto simp: al_inv_def swap_buffers_def al_pending_def Let_def Suc_le_eq)

lemma append_all_ok: "None \<notin> set ps \<Longrightarrow> append_all ps out = Inr (out @ concat (map the ps))"
proof (induction ps arbitrary: out)
  case (Cons p ps)
  then show ?case by (cases p) (auto simp: deref_def)
qed simp

lemma refill_ok:
  assumes "p = Some [] \<or> p = None \<and> bs \<noteq> []" and "None \<notin> set bs"
  shows "refill p bs = Inr (Some [], if p = None then butlast bs else bs)"
proof (cases p)
  case None
  then have "last bs \<in> set bs" using assms(1) by simp
  then have "last bs \<noteq> None" using assms(2) by metis
  then obtain b where "last bs = Some b" by blast
  then show ?thesis using None assms(1) by (simp add: refill_def deref_def)
qed (use assms in \<open>simp add: refill_def\<close>)

lemma write_buffers_ok:
  assumes "al_inv l" and "al_pc l = Writing"
  shows "\<exists>l'. write_buffers notice l = Inr l' \<and> al_inv l' \<and> al_pc l' = LoopHead \<and> al_running l' = al_running l
    \<and> buffersToWrite l' = [] \<and> al_buffers l' = al_buffers l \<and> currentBuffer l' = currentBuffer l
    \<and> al_output l' = (if length (buffersToWrite l) \<le> 25 then al_output l @ concat (map the (buffersToWrite l))
        else al_output l @ notice (length (buffersToWrite l) - 2) @ concat (map the (take 2 (buffersToWrite l))))"
proof -
  let ?bs = "if length (buffersToWrite l) > 25 then take 2 (buffersToWrite l) else buffersToWrite l"
  have inv: "buffersToWrite l \<noteq> []" "None \<notin> set (buffersToWrite l)" "newBuffer1 l = None"
    "newBuffer2 l = Some [] \<or> newBuffer2 l = None \<and> 2 \<le> length (buffersToWrite l)"
    using assms by (simp_all add: al_inv_def)
  have "None \<notin> set ?bs" using inv(2) by (auto dest: in_set_takeD)
  then have w: "append_all ?bs out = Inr (out @ concat (map the ?bs))" for out by (rule append_all_ok)
  have two: "take 2 ?bs = take 2 (buffersToWrite l)" by simp
  have t: "take 2 (buffersToWrite l) \<noteq> []" "None \<notin> set (take 2 (buffersToWrite l))"
    using inv(1,2) by (auto dest: in_set_takeD)
  have "butlast (take 2 (buffersToWrite l)) \<noteq> []" if "2 \<le> length (buffersToWrite l)"
  proof -
    have "length (butlast (take 2 (buffersToWrite l))) = 1" using that by simp
    then show ?thesis by (metis list.size(3) zero_neq_one)
  qed
  then have r2: "newBuffer2 l = Some [] \<or> newBuffer2 l = None \<and> butlast (take 2 (buffersToWrite l)) \<noteq> []"
    using inv(4) by blast
  have "\<exists>bs1 bs2. refill (newBuffer1 l) (take 2 (buffersToWrite l)) = Inr (Some [], bs1) \<and> refill (newBuffer2 l) bs1 = Inr (Some [], bs2)"
    using refill_ok [of "newBuffer1 l", OF _ t(2)] refill_ok [OF r2] t inv(3) by (auto dest: in_set_butlastD)
  then obtain bs1 bs2 where "refill (newBuffer1 l) (take 2 ?bs) = Inr (Some [], bs1)" "refill (newBuffer2 l) bs1 = Inr (Some [], bs2)"
    unfolding two by blast
  then show ?thesis
    using assms inv(1) w by (auto simp: write_buffers_def al_inv_def Let_def)
qed

text \<open>No step of any interleaving fails, and unless more than 25 buffers have piled up nothing is lost.\<close>

lemma backend_step_ok:
  assumes "al_inv l"
  shows "\<exists>l'. backend_step notice l = Inr l' \<and> al_inv l' \<and> al_running l' = al_running l
    \<and> (length (buffersToWrite l) \<le> 25 \<longrightarrow> al_output l' @ al_pending l' = al_output l @ al_pending l)"
proof (cases "al_pc l")
  case LoopHead
  then show ?thesis
    using assms by (auto simp: backend_step.simps loop_head_def al_inv_def al_pending_def)
next
  case Locking
  show ?thesis
  proof (cases "al_buffers l = []")
    case True
    then show ?thesis
      using Locking assms by (auto simp: backend_step.simps enter_section_def al_inv_def al_pending_def)
  next
    case False
    then show ?thesis using Locking swap_buffers_ok [OF assms] by (simp add: backend_step.simps enter_section_def)
  qed
next
  case Waiting
  then show ?thesis using swap_buffers_ok [OF assms] by (simp add: backend_step.simps)
next
  case Writing
  then show ?thesis
    using write_buffers_ok [OF assms, of notice] by (auto simp: backend_step.simps al_pending_def)
next
  case Exited
  then show ?thesis using assms by (simp add: backend_step.simps)
qed

lemma log_step_ok:
  assumes "al_inv l"
  shows "\<exists>l'. log_step notice e l = Inr l' \<and> al_inv l'
    \<and> (length (buffersToWrite l) \<le> 25 \<longrightarrow>
         al_output l' @ al_pending l' = (al_output l @ al_pending l) @ (case e of LAppend s \<Rightarrow> accepted s | _ \<Rightarrow> []))"
proof (cases e)
  case (LAppend s)
  then show ?thesis using async_append_ok [OF assms, of s] by auto
next
  case LStop
  then show ?thesis using assms by (auto simp: async_stop_def al_inv_def al_pending_def)
next
  case LBackend
  then show ?thesis using backend_step_ok [OF assms, of notice] by auto
qed

fun appended :: "log_event list \<Rightarrow> bytes" where
  "appended [] = []"
| "appended (LAppend s # es) = accepted s @ appended es"
| "appended (e # es) = appended es"

text \<open>The states on the way of a run never have more than 25 buffers to write.\<close>

fun not_overloaded :: "(nat \<Rightarrow> bytes) \<Rightarrow> log_event list \<Rightarrow> AsyncLogging \<Rightarrow> bool" where
  "not_overloaded notice [] l \<longleftrightarrow> True"
| "not_overloaded notice (e # es) l \<longleftrightarrow> length (buffersToWrite l) \<le> 25 \<and>
     (case log_step notice e l of Inl f \<Rightarrow> True | Inr l' \<Rightarrow> not_overloaded notice es l')"

lemma log_run_ok:
  assumes "al_inv l"
  shows "\<exists>l'. log_run notice es l = Inr l' \<and> al_inv l'
    \<and> (not_overloaded notice es l \<longrightarrow> al_output l' @ al_pending l' = (al_output l @ al_pending l) @ appended es)"
  using assms
proof (induction es arbitrary: l)
  case Nil
  then show ?case by simp
next
  case (Cons e es)
  obtain l1 where 1: "log_step notice e l = Inr l1" "al_inv l1"
    "length (buffersToWrite l) \<le> 25 \<longrightarrow>
       al_output l1 @ al_pending l1 = (al_output l @ al_pending l) @ (case e of LAppend s \<Rightarrow> accepted s | _ \<Rightarrow> [])"
    using log_step_ok [OF Cons.prems] by blast
  obtain l2 where 2: "log_run notice es l1 = Inr l2" "al_inv l2"
    "not_overloaded notice es l1 \<longrightarrow> al_output l2 @ al_pending l2 = (al_output l1 @ al_pending l1) @ appended es"
    using Cons.IH [OF 1(2)] by blast
  show ?case
  proof (intro exI [of _ l2] conjI impI)
    assume "not_overloaded notice (e # es) l"
    then have "al_output l2 @ al_pending l2 = ((al_output l @ al_pending l) @ (case e of LAppend s \<Rightarrow> accepted s | _ \<Rightarrow> [])) @ appended es"
      using 1(1,3) 2(3) by simp
    then show "al_output l2 @ al_pending l2 = (al_output l @ al_pending l) @ appended (e # es)" by (cases e) simp_all
  qed (use 1 2 in simp_all)
qed

subsection \<open>Properties\<close>

text \<open>C21: In every interleaving of appending threads and the logging thread no assertion fails and no null buffer is used; and
  unless more than 25 buffers were waiting at once, what has been written followed by what is still buffered is exactly what
  was appended, in order (a line of four million bytes or more is dropped).\<close>

theorem async_log_conserves:
  "\<exists>l. log_run notice es new_AsyncLogging = Inr l
    \<and> (not_overloaded notice es new_AsyncLogging \<longrightarrow> al_output l @ al_pending l = appended es)"
  using log_run_ok [OF new_AsyncLogging_inv, of notice es] by (auto simp: new_AsyncLogging_def al_pending_def)

definition sample_log :: "log_event list" where
  "sample_log = [LAppend (lit ''one''), LBackend, LBackend, LAppend (lit ''two''), LBackend]"

theorem async_log_conserves_witness:
  "\<exists>l. log_run (\<lambda>n. []) (sample_log @ [LAppend (lit ''three''), LBackend]) new_AsyncLogging = Inr l
    \<and> al_output l @ al_pending l = lit ''onetwothree''"
proof -
  have "not_overloaded (\<lambda>n. []) (sample_log @ [LAppend (lit ''three''), LBackend]) new_AsyncLogging" by code_simp
  moreover have "appended (sample_log @ [LAppend (lit ''three''), LBackend]) = lit ''onetwothree''" by code_simp
  ultimately show ?thesis
    using async_log_conserves [of "\<lambda>n. []" "sample_log @ [LAppend (lit ''three''), LBackend]"] by auto
qed

text \<open>Stopping while the logging thread waits, or is about to look at the buffers, writes everything appended so far.\<close>

lemma async_stop_flushes:
  assumes "log_run notice es new_AsyncLogging = Inr l" and "not_overloaded notice es new_AsyncLogging"
    and "al_pc l = Waiting \<or> al_pc l = Locking" and "length (al_buffers l) < 25"
  shows "\<exists>l'. log_run notice (LStop # replicate 4 LBackend) l = Inr l' \<and> al_pc l' = Exited \<and> al_output l' = appended es"
proof -
  have inv: "al_inv l" "al_output l @ al_pending l = appended es"
    using log_run_ok [OF new_AsyncLogging_inv, of notice es] assms(1,2) by (auto simp: new_AsyncLogging_def al_pending_def)
  have fin: "\<exists>l'. log_run notice [LBackend, LBackend] (swap_buffers m) = Inr l' \<and> al_pc l' = Exited \<and> al_output l' = appended es"
    if m: "al_inv m" "al_pc m \<noteq> Writing" "\<not> al_running m" "al_output m @ al_pending m = appended es" "length (al_buffers m) < 25" for m
  proof -
    note sw = swap_buffers_ok [OF m(1,2)]
    have len: "length (buffersToWrite (swap_buffers m)) \<le> 25" using m(5) by (simp add: swap_buffers_def Let_def)
    obtain m' where "write_buffers notice (swap_buffers m) = Inr m'" "al_pc m' = LoopHead" "\<not> al_running m'" "al_output m' = appended es"
      using write_buffers_ok [of "swap_buffers m" notice] sw len m(3,4) by auto
    then show ?thesis using sw by (simp add: backend_step.simps loop_head_def)
  qed
  let ?l = "async_stop l"
  have s: "al_inv ?l" "\<not> al_running ?l" "al_output ?l @ al_pending ?l = appended es" "length (al_buffers ?l) < 25"
    using inv assms(4) by (simp_all add: async_stop_def al_inv_def al_pending_def)
  have exit: "log_run notice (replicate n LBackend) m = Inr m" if "al_pc m = Exited" for n m
    using that by (induction n) (simp_all add: backend_step.simps)
  show ?thesis
  proof (cases "al_pc l = Locking \<and> al_buffers l = []")
    case True
    let ?m = "?l\<lparr>al_pc := Waiting\<rparr>"
    have "al_inv ?m" "\<not> al_running ?m" "al_output ?m @ al_pending ?m = appended es" "length (al_buffers ?m) < 25"
      using s True by (simp_all add: al_inv_def al_pending_def async_stop_def)
    then obtain l' where "log_run notice [LBackend, LBackend] (swap_buffers ?m) = Inr l'" "al_pc l' = Exited" "al_output l' = appended es"
      using fin [of ?m] by auto
    moreover have "backend_step notice ?l = Inr ?m" "backend_step notice ?m = Inr (swap_buffers ?m)"
      using True by (simp_all add: backend_step.simps enter_section_def async_stop_def)
    ultimately show ?thesis by (simp add: numeral_eq_Suc)
  next
    case False
    then have "backend_step notice ?l = Inr (swap_buffers ?l)" "al_pc ?l \<noteq> Writing"
      using assms(3) by (auto simp: backend_step.simps enter_section_def async_stop_def)
    moreover obtain l' where "log_run notice [LBackend, LBackend] (swap_buffers ?l) = Inr l'" "al_pc l' = Exited" "al_output l' = appended es"
      using fin [of ?l] s calculation(2) by auto
    moreover have "log_run notice [LBackend] l' = Inr l'" using exit [of l' 1] calculation(4) by simp
    ultimately have "log_run notice ([LBackend] @ [LBackend, LBackend] @ [LBackend]) ?l = Inr l'"
      unfolding log_run_append by simp
    then show ?thesis using \<open>al_pc l' = Exited\<close> \<open>al_output l' = appended es\<close> by (intro exI [of _ l']) (simp add: numeral_eq_Suc)
  qed
qed

text \<open>A line appended while the logging thread writes, just before \<open>stop\<close>, is lost: the file is what it is without the
  line, although \<open>stop\<close> waits for the thread.\<close>

theorem async_stop_loses:
  assumes "log_run notice es new_AsyncLogging = Inr l" and "al_pc l = Writing"
  shows "\<exists>l' l''. log_run notice ([LAppend s, LStop] @ replicate (n + 2) LBackend) l = Inr l' \<and> al_pc l' = Exited
    \<and> log_run notice (LStop # replicate (n + 2) LBackend) l = Inr l'' \<and> al_output l' = al_output l''
    \<and> al_pending l' = al_pending l'' @ accepted s"
proof -
  have inv: "al_inv l" using log_run_ok [OF new_AsyncLogging_inv, of notice es] assms(1) by auto
  have exit: "log_run notice (replicate k LBackend) m = Inr m" if "al_pc m = Exited" for k m
    using that by (induction k) (simp_all add: backend_step.simps)
  have fin: "\<exists>m'. log_run notice (replicate (n + 2) LBackend) m = Inr m' \<and> al_pc m' = Exited
      \<and> al_output m' = (if length (buffersToWrite m) \<le> 25 then al_output m @ concat (map the (buffersToWrite m))
          else al_output m @ notice (length (buffersToWrite m) - 2) @ concat (map the (take 2 (buffersToWrite m))))
      \<and> al_pending m' = concat (map the (al_buffers m)) @ the (currentBuffer m)"
    if m: "al_inv m" "al_pc m = Writing" "\<not> al_running m" for m
  proof -
    obtain m1 where 1: "write_buffers notice m = Inr m1" "al_pc m1 = LoopHead" "\<not> al_running m1" "buffersToWrite m1 = []"
      "al_buffers m1 = al_buffers m" "currentBuffer m1 = currentBuffer m"
      "al_output m1 = (if length (buffersToWrite m) \<le> 25 then al_output m @ concat (map the (buffersToWrite m))
          else al_output m @ notice (length (buffersToWrite m) - 2) @ concat (map the (take 2 (buffersToWrite m))))"
      using write_buffers_ok [OF m(1,2), of notice] m(3) by auto
    let ?m2 = "m1\<lparr>al_pc := Exited\<rparr>"
    have "log_run notice ([LBackend, LBackend] @ replicate n LBackend) m = Inr ?m2"
      unfolding log_run_append using 1(1-3) m(2) exit [of ?m2 n] by (simp add: backend_step.simps loop_head_def)
    moreover have "replicate (n + 2) LBackend = [LBackend, LBackend] @ replicate n LBackend" by simp
    ultimately show ?thesis using 1(4-7) by (intro exI [of _ ?m2]) (simp add: al_pending_def)
  qed
  obtain l1 where 1: "async_append s l = Inr l1" "al_inv l1" "al_output l1 = al_output l" "buffersToWrite l1 = buffersToWrite l"
    "al_pending l1 = al_pending l @ accepted s" "al_pc l1 = Writing"
    using async_append_ok [OF inv, of s] assms(2) by auto
  have pend: "concat (map the (al_buffers l1)) @ the (currentBuffer l1)
      = (concat (map the (al_buffers l)) @ the (currentBuffer l)) @ accepted s"
    using 1(4,5) by (simp add: al_pending_def)
  let ?a = "async_stop l1" and ?b = "async_stop l"
  have "al_inv ?a" "al_pc ?a = Writing" "\<not> al_running ?a" "al_inv ?b" "al_pc ?b = Writing" "\<not> al_running ?b"
    using inv assms(2) 1(2,6) by (simp_all add: async_stop_def al_inv_def)
  then obtain l' l'' where "log_run notice (replicate (n + 2) LBackend) ?a = Inr l'" "al_pc l' = Exited"
    "log_run notice (replicate (n + 2) LBackend) ?b = Inr l''" "al_output l' = al_output l''"
    "al_pending l' = concat (map the (al_buffers l1)) @ the (currentBuffer l1)"
    "al_pending l'' = concat (map the (al_buffers l)) @ the (currentBuffer l)"
    using fin [of ?a] fin [of ?b] 1(3,4) by (auto simp: async_stop_def)
  then show ?thesis using 1(1) pend by auto
qed

theorem async_stop_loses_witness:
  "\<exists>l l' l''. log_run (\<lambda>n. []) sample_log new_AsyncLogging = Inr l
    \<and> log_run (\<lambda>n. []) ([LAppend (lit ''three''), LStop] @ replicate (0 + 2) LBackend) l = Inr l' \<and> al_pc l' = Exited
    \<and> log_run (\<lambda>n. []) (LStop # replicate (0 + 2) LBackend) l = Inr l'' \<and> al_output l' = al_output l''
    \<and> al_pending l' = al_pending l'' @ lit ''three''"
proof -
  have "case log_run (\<lambda>n. []) sample_log new_AsyncLogging of Inl e \<Rightarrow> False | Inr l \<Rightarrow> al_pc l = Writing" by code_simp
  then obtain l where "log_run (\<lambda>n. []) sample_log new_AsyncLogging = Inr l" "al_pc l = Writing" by (auto split: sum.splits)
  moreover have "accepted (lit ''three'') = lit ''three''" by code_simp
  ultimately show ?thesis using async_stop_loses [of "\<lambda>n. []" sample_log l "lit ''three''" 0] by metis
qed

end
