(* ===== verification/Calendar.thy ===== *)
theory Calendar
  imports Decimal "HOL-Library.Signed_Division"
begin

section \<open>Dates and times\<close>

text \<open>
  \<open>base/Date.h\<close>, \<open>base/Date.cc\<close> and the conversions of \<open>base/TimeZone.cc\<close> between seconds since 1970 and fields. \<open>/\<close> and \<open>%\<close> of C++
  truncate towards zero (\<open>sdiv\<close>, \<open>smod\<close>). \<open>int\<close> has 32 bits: casts to it and sums wrap (\<open>wrap32\<close>). \<open>exact_jdn\<close> and \<open>exact_ymd\<close> are the
  same formulas over the integers, for the proofs.
\<close>

record YearMonthDay =
  ymd_year :: int
  ymd_month :: int
  ymd_day :: int

definition getJulianDayNumber :: "int \<Rightarrow> int \<Rightarrow> int \<Rightarrow> int" where
  "getJulianDayNumber year month day =
     (let a = wrap32 (14 - month) sdiv 12; y = wrap32 (year + 4800 - a); m = wrap32 (month + 12 * a - 3)
      in wrap32 (day + wrap32 (153 * m + 2) sdiv 5 + y * 365 + y sdiv 4 - y sdiv 100 + y sdiv 400 - 32045))"

definition getYearMonthDay :: "int \<Rightarrow> YearMonthDay" where
  "getYearMonthDay julianDayNumber =
     (let a = wrap32 (julianDayNumber + 32044); b = wrap32 (4 * a + 3) sdiv 146097; c = wrap32 (a - wrap32 (b * 146097) sdiv 4);
          d = wrap32 (4 * c + 3) sdiv 1461; e = wrap32 (c - wrap32 (1461 * d) sdiv 4); m = wrap32 (5 * e + 2) sdiv 153
      in \<lparr>ymd_year = wrap32 (b * 100 + d - 4800 + m sdiv 10), ymd_month = wrap32 (m + 3 - 12 * (m sdiv 10)),
          ymd_day = wrap32 (e - wrap32 (153 * m + 2) sdiv 5 + 1)\<rparr>)"

definition kJulianDayOf1970_01_01 :: int where
  "kJulianDayOf1970_01_01 = getJulianDayNumber 1970 1 1"

definition kDaysPerWeek :: int where "kDaysPerWeek = 7"

definition weekDay :: "int \<Rightarrow> int" where
  "weekDay julianDayNumber = wrap32 (julianDayNumber + 1) smod kDaysPerWeek"

definition kSecondsPerDay :: int where "kSecondsPerDay = 24 * 60 * 60"

record DateTime =
  dt_year :: int
  dt_month :: int
  dt_day :: int
  dt_hour :: int
  dt_minute :: int
  dt_second :: int

text \<open>The hour, minute and second of a number of seconds in a day.\<close>

definition fillHMS :: "int \<Rightarrow> int \<times> int \<times> int" where
  "fillHMS seconds = (let minutes = seconds sdiv 60 in (minutes sdiv 60, minutes smod 60, seconds smod 60))"

definition BreakTime :: "int \<Rightarrow> DateTime" where
  "BreakTime t =
     (let seconds0 = wrap32 (t smod kSecondsPerDay); days0 = wrap32 (t sdiv kSecondsPerDay);
          seconds = (if seconds0 < 0 then wrap32 (seconds0 + kSecondsPerDay) else seconds0);
          days = (if seconds0 < 0 then wrap32 (days0 - 1) else days0);
          (h, m, s) = fillHMS seconds;
          ymd = getYearMonthDay (wrap32 (days + kJulianDayOf1970_01_01))
      in \<lparr>dt_year = ymd_year ymd, dt_month = ymd_month ymd, dt_day = ymd_day ymd, dt_hour = h, dt_minute = m, dt_second = s\<rparr>)"

definition fromUtcTime :: "DateTime \<Rightarrow> int" where
  "fromUtcTime dt =
     (let secondsInDay = wrap32 (dt_hour dt * 3600 + dt_minute dt * 60 + dt_second dt);
          days = wrap32 (getJulianDayNumber (dt_year dt) (dt_month dt) (dt_day dt) - kJulianDayOf1970_01_01)
      in days * kSecondsPerDay + secondsInDay)"

definition toUtcTime :: "int \<Rightarrow> DateTime" where
  "toUtcTime secondsSinceEpoch = BreakTime secondsSinceEpoch"

subsection \<open>The calendar\<close>

definition exact_jdn :: "int \<Rightarrow> int \<Rightarrow> int \<Rightarrow> int" where
  "exact_jdn year month day =
     (let a = (14 - month) sdiv 12; y = year + 4800 - a; m = month + 12 * a - 3
      in day + (153 * m + 2) sdiv 5 + y * 365 + y sdiv 4 - y sdiv 100 + y sdiv 400 - 32045)"

definition exact_ymd :: "int \<Rightarrow> YearMonthDay" where
  "exact_ymd julianDayNumber =
     (let a = julianDayNumber + 32044; b = (4 * a + 3) sdiv 146097; c = a - (b * 146097) sdiv 4;
          d = (4 * c + 3) sdiv 1461; e = c - (1461 * d) sdiv 4; m = (5 * e + 2) sdiv 153
      in \<lparr>ymd_year = b * 100 + d - 4800 + m sdiv 10, ymd_month = m + 3 - 12 * (m sdiv 10),
          ymd_day = e - (153 * m + 2) sdiv 5 + 1\<rparr>)"

definition leap_year :: "int \<Rightarrow> bool" where
  "leap_year y \<longleftrightarrow> y mod 4 = 0 \<and> (y mod 100 \<noteq> 0 \<or> y mod 400 = 0)"

definition days_in_month :: "int \<Rightarrow> int \<Rightarrow> int" where
  "days_in_month y m = (if m = 2 then (if leap_year y then 29 else 28) else if m \<in> {4, 6, 9, 11} then 30 else 31)"

definition valid_date :: "int \<Rightarrow> int \<Rightarrow> int \<Rightarrow> bool" where
  "valid_date y m d \<longleftrightarrow> (if m \<le> 2 then - 4799 else - 4800) \<le> y \<and> 1 \<le> m \<and> m \<le> 12 \<and> 1 \<le> d \<and> d \<le> days_in_month y m"

lemma sdiv_nonneg: "0 \<le> a \<Longrightarrow> 0 < b \<Longrightarrow> a sdiv b = a div b" for a b :: int
  by (simp add: signed_divide_int_def sgn_if)

lemma smod_nonneg: "0 \<le> a \<Longrightarrow> 0 < b \<Longrightarrow> a smod b = a mod b" for a b :: int
  by (simp add: signed_modulo_int_def sgn_if)

text \<open>A day of the year that begins in March: the month, counted from March, and the day of the month.\<close>

lemma march_month:
  fixes M d :: int
  assumes "0 \<le> M" and "M \<le> 11" and "1 \<le> d" and "d \<le> (if M = 11 then 29 else if M \<in> {1, 3, 6, 8} then 30 else 31)"
  shows "(5 * ((153 * M + 2) div 5 + d - 1) + 2) div 153 = M"
proof -
  have "M \<in> {0, 1, 2, 3, 4, 5, 6, 7, 8, 9, 10, 11}" unfolding insert_iff empty_iff using assms(1,2) by presburger
  then show ?thesis using assms(3,4) by auto
qed

text \<open>The number of days before the year \<open>Y\<close>, by century and year of the century.\<close>

lemma year_days:
  fixes Y :: int
  assumes "0 \<le> Y"
  shows "Y * 365 + Y div 4 - Y div 100 + Y div 400 = (Y div 100 * 146097) div 4 + (1461 * (Y mod 100)) div 4"
proof -
  define b s where "b = Y div 100" and "s = Y mod 100"
  have Y: "Y = 100 * b + s" by (simp add: b_def s_def)
  have "Y div 4 = 25 * b + s div 4" unfolding Y by simp
  moreover have "Y div 400 = b div 4" unfolding b_def by (simp add: zdiv_zmult2_eq [symmetric])
  moreover have "(b * 146097) div 4 = 36524 * b + b div 4"
  proof -
    have "b * 146097 = b + 36524 * b * 4" by simp
    then show ?thesis by (metis add.commute div_mult_self1 zero_neq_numeral)
  qed
  moreover have "(1461 * s) div 4 = 365 * s + s div 4"
  proof -
    have "1461 * s = s + 365 * s * 4" by simp
    then show ?thesis by (metis add.commute div_mult_self1 zero_neq_numeral)
  qed
  ultimately show ?thesis unfolding b_def [symmetric] s_def [symmetric] by (simp add: Y)
qed

text \<open>The century, the year of the century and the day of the year are found again.\<close>

lemma century_found:
  fixes b s e :: int
  assumes "0 \<le> b" and "0 \<le> s" and "s < 100" and "0 \<le> e" and "e \<le> 365"
    and "e = 365 \<Longrightarrow> s mod 4 = 3 \<and> (s = 99 \<longrightarrow> b mod 4 = 3)"
  defines "A \<equiv> (b * 146097) div 4 + (1461 * s) div 4 + e"
  shows "(4 * A + 3) div 146097 = b" and "(4 * (A - (b * 146097) div 4) + 3) div 1461 = s"
proof -
  define x y p q where "x = (b * 146097) div 4" and "y = (1461 * s) div 4" and "p = b mod 4" and "q = s mod 4"
  have x: "b * 146097 = 4 * x + p"
  proof -
    have "b * 146097 mod 4 = b mod 4" using mod_mult_right_eq [of b 146097 4] by simp
    then show ?thesis unfolding x_def p_def by (metis mult_div_mod_eq)
  qed
  have y: "1461 * s = 4 * y + q"
  proof -
    have "1461 * s mod 4 = s mod 4" using mod_mult_left_eq [of 1461 4 s] by simp
    then show ?thesis unfolding y_def q_def by (metis mult_div_mod_eq)
  qed
  have y0: "0 \<le> y" unfolding y_def using assms(2) by simp
  have r: "0 \<le> p" "p \<le> 3" "0 \<le> q" "q \<le> 3" by (simp_all add: p_def q_def)
  have last: "s \<le> 98 \<or> s = 99 \<and> q = 3" unfolding q_def using assms(3) by presburger
  have leap: "e \<le> 364 \<or> e = 365 \<and> q = 3 \<and> (s \<le> 98 \<or> p = 3)"
    using assms(3,5,6) unfolding p_def q_def by linarith
  have A: "A = x + y + e" by (simp add: A_def x_def y_def)
  have hi: "4 * y + 4 * e + 3 - p < 146097"
  proof (cases "s \<le> 98")
    case True
    then have "4 * y \<le> 143178" using y r(3) by linarith
    then show ?thesis using r(1) assms(5) by linarith
  next
    case False
    then have "s = 99" "q = 3" using last by auto
    then have "4 * y = 144636" using y by simp
    moreover have "4 * e - p \<le> 1457" using leap False r(1) by (elim disjE conjE) simp_all
    ultimately show ?thesis by linarith
  qed
  have lo: "0 \<le> 4 * y + 4 * e + 3 - p" using y0 r assms(4) by linarith
  have "4 * A + 3 = (4 * y + 4 * e + 3 - p) + 146097 * b" using x A by simp
  then show "(4 * A + 3) div 146097 = b" using lo hi by simp
  have hi': "4 * e + 3 - q < 1461" using leap r(3) by (elim disjE conjE) simp_all
  have lo': "0 \<le> 4 * e + 3 - q" using r assms(4) by linarith
  have "4 * (A - x) + 3 = (4 * e + 3 - q) + 1461 * s" using y A by simp
  then show "(4 * (A - (b * 146097) div 4) + 3) div 1461 = s" unfolding x_def [symmetric] using lo' hi' by simp
qed

definition march :: "int \<Rightarrow> int" where
  "march m = (if m \<le> 2 then m + 9 else m - 3)"

definition march_year :: "int \<Rightarrow> int \<Rightarrow> int" where
  "march_year y m = (if m \<le> 2 then y + 4799 else y + 4800)"

lemma jdn_march:
  assumes "1 \<le> m" and "m \<le> 12" and "0 \<le> march_year y m"
  shows "exact_jdn y m d + 32044 = (march_year y m div 100 * 146097) div 4 + (1461 * (march_year y m mod 100)) div 4
    + ((153 * march m + 2) div 5 + d - 1)"
proof -
  have a: "(14 - m) sdiv 12 = (if m \<le> 2 then 1 else 0)"
  proof (cases "m \<le> 2")
    case True
    then have "m = 1 \<or> m = 2" using assms(1) by auto
    then show ?thesis by (auto simp: sdiv_nonneg)
  next
    case False
    then show ?thesis using assms(2) by (simp add: sdiv_nonneg)
  qed
  have y: "y + 4800 - (14 - m) sdiv 12 = march_year y m" and m: "m + 12 * ((14 - m) sdiv 12) - 3 = march m"
    unfolding a by (simp_all add: march_year_def march_def)
  have "0 \<le> 153 * march m + 2" using assms(1) by (simp add: march_def)
  then have q: "march_year y m sdiv 4 = march_year y m div 4" "march_year y m sdiv 100 = march_year y m div 100"
    "march_year y m sdiv 400 = march_year y m div 400" "(153 * march m + 2) sdiv 5 = (153 * march m + 2) div 5"
    using assms(3) by (simp_all add: sdiv_nonneg)
  have sum: "d + p + u + v - w + x - 32045 + 32044 = (u + v - w + x) + (p + d - 1)" for p u v w x :: int by simp
  show ?thesis
    unfolding exact_jdn_def Let_def y m q year_days [OF assms(3), symmetric] by (rule sum)
qed

lemma leap_march:
  fixes y :: int
  assumes "leap_year y"
  shows "(y + 4799) mod 100 mod 4 = 3" and "(y + 4799) mod 100 = 99 \<Longrightarrow> (y + 4799) div 100 mod 4 = 3"
proof -
  have "(y + 4799) mod 100 mod 4 = (y + 4799) mod 4" by (simp add: mod_mod_cancel)
  moreover obtain k where "y = 4 * k" using assms unfolding leap_year_def by (metis mod_0_imp_dvd dvdE)
  moreover have "(4 * k + 4799) mod 4 = 3" by presburger
  ultimately show "(y + 4799) mod 100 mod 4 = 3" by simp
  assume h: "(y + 4799) mod 100 = 99"
  have "y mod 100 = 0"
  proof -
    have "y mod 100 = (y + 48 * 100) mod 100" by (rule mod_mult_self1 [symmetric])
    also have "\<dots> = ((y + 4799) mod 100 + 1) mod 100" by (simp add: mod_simps add.commute)
    finally show ?thesis using h by simp
  qed
  then obtain l where l: "y = 400 * l" using assms unfolding leap_year_def by (metis mod_0_imp_dvd dvdE)
  have "400 * l + 4799 = 99 + (4 * l + 47) * 100" by simp
  then have "(y + 4799) div 100 = 4 * l + 47" unfolding l by simp
  moreover have "(4 * l + 47) mod 4 = 3" by presburger
  ultimately show "(y + 4799) div 100 mod 4 = 3" by simp
qed

lemma march_bounds:
  assumes "valid_date y m d"
  defines "M \<equiv> march m" and "Y \<equiv> march_year y m"
  shows "0 \<le> M" and "M \<le> 11" and "0 \<le> Y" and "1 \<le> d"
    and "d \<le> (if M = 11 then 29 else if M \<in> {1, 3, 6, 8} then 30 else 31)"
    and "(153 * M + 2) div 5 + d - 1 = 365 \<Longrightarrow> Y mod 100 mod 4 = 3 \<and> (Y mod 100 = 99 \<longrightarrow> Y div 100 mod 4 = 3)"
    and "(153 * M + 2) div 5 + d - 1 \<le> 365"
proof -
  have m: "1 \<le> m" "m \<le> 12" "(if m \<le> 2 then - 4799 else - 4800) \<le> y" "1 \<le> d" "d \<le> days_in_month y m" using assms(1) by (simp_all add: valid_date_def)
  have "m = 1 \<or> m = 2 \<or> m = 3 \<or> m = 4 \<or> m = 5 \<or> m = 6 \<or> m = 7 \<or> m = 8 \<or> m = 9 \<or> m = 10 \<or> m = 11 \<or> m = 12"
    using m(1,2) by presburger
  then have D: "d \<le> (if M = 11 then 29 else if M \<in> {1, 3, 6, 8} then 30 else 31) \<and> (153 * M + 2) div 5 + d - 1 \<le> 365
      \<and> ((153 * M + 2) div 5 + d - 1 = 365 \<longrightarrow> m = 2 \<and> leap_year y)"
    using m(4,5) unfolding M_def march_def days_in_month_def by (elim disjE) (simp_all split: if_splits)
  show "0 \<le> M" "M \<le> 11" "0 \<le> Y" "1 \<le> d" using m by (auto simp: M_def Y_def march_def march_year_def split: if_splits)
  show "d \<le> (if M = 11 then 29 else if M \<in> {1, 3, 6, 8} then 30 else 31)" "(153 * M + 2) div 5 + d - 1 \<le> 365"
    using D by blast+
  assume "(153 * M + 2) div 5 + d - 1 = 365"
  then have "m = 2" "leap_year y" using D by blast+
  then show "Y mod 100 mod 4 = 3 \<and> (Y mod 100 = 99 \<longrightarrow> Y div 100 mod 4 = 3)"
    using leap_march [of y] by (simp add: Y_def march_year_def)
qed

text \<open>Julian day numbers give back the date they were made of.\<close>

lemma date_round_trip:
  assumes "valid_date y m d"
  shows "exact_ymd (exact_jdn y m d) = \<lparr>ymd_year = y, ymd_month = m, ymd_day = d\<rparr>"
proof -
  define M Y where "M = march m" and "Y = march_year y m"
  note bd = march_bounds [OF assms, folded M_def Y_def]
  define b s e where "b = Y div 100" and "s = Y mod 100" and "e = (153 * M + 2) div 5 + d - 1"
  have e0: "0 \<le> e" using bd(1,4) by (simp add: e_def)
  have bs: "0 \<le> b" "0 \<le> s" "s < 100" using bd(3) by (simp_all add: b_def s_def)
  have A: "exact_jdn y m d + 32044 = (b * 146097) div 4 + (1461 * s) div 4 + e"
    using jdn_march [of m y d] assms bd(3) by (simp add: valid_date_def M_def Y_def b_def s_def e_def)
  note found = century_found [OF bs e0 bd(7) [folded e_def] bd(6) [folded e_def b_def s_def], folded A]
  have m: "(5 * e + 2) div 153 = M" unfolding e_def by (rule march_month [OF bd(1,2,4,5)])
  have nn: "0 \<le> (b * 146097) div 4" "0 \<le> (1461 * s) div 4" using bs by simp_all
  let ?j = "exact_jdn y m d"
  have b: "(4 * (?j + 32044) + 3) sdiv 146097 = b" using found(1) A nn e0 by (simp add: sdiv_nonneg)
  have c: "(b * 146097) sdiv 4 = (b * 146097) div 4" using bs by (simp add: sdiv_nonneg)
  have d: "(4 * (?j + 32044 - (b * 146097) div 4) + 3) sdiv 1461 = s" using found(2) A nn e0 by (simp add: sdiv_nonneg)
  have f: "?j + 32044 - (b * 146097) div 4 - (1461 * s) sdiv 4 = e" using A bs by (simp add: sdiv_nonneg)
  have g: "(5 * e + 2) sdiv 153 = M" using m e0 by (simp add: sdiv_nonneg)
  have h: "M sdiv 10 = (if m \<le> 2 then 1 else 0)" "(153 * M + 2) sdiv 5 = (153 * M + 2) div 5"
    using bd(1,2) assms by (auto simp: sdiv_nonneg M_def march_def valid_date_def)
  have "b * 100 + s = Y" by (simp add: b_def s_def)
  then show ?thesis
    unfolding exact_ymd_def Let_def b c d f g h
    by (simp add: e_def M_def Y_def march_def march_year_def)
qed

lemma century_split:
  fixes A :: int
  assumes "0 \<le> A"
  defines "b \<equiv> (4 * A + 3) div 146097"
  defines "c \<equiv> A - (b * 146097) div 4"
  defines "s \<equiv> (4 * c + 3) div 1461"
  defines "e \<equiv> c - (1461 * s) div 4"
  shows "0 \<le> b" and "0 \<le> c" and "0 \<le> s" and "s < 100" and "0 \<le> e" and "e \<le> 365"
    and "e = 365 \<Longrightarrow> s mod 4 = 3 \<and> (s = 99 \<longrightarrow> b mod 4 = 3)"
proof -
  define x y p q r t where "x = (b * 146097) div 4" and "y = (1461 * s) div 4" and "p = b mod 4" and "q = s mod 4"
    and "r = (4 * A + 3) mod 146097" and "t = (4 * c + 3) mod 1461"
  have x: "b * 146097 = 4 * x + p"
  proof -
    have "b * 146097 mod 4 = b mod 4" using mod_mult_right_eq [of b 146097 4] by simp
    then show ?thesis unfolding x_def p_def by (metis mult_div_mod_eq)
  qed
  have y: "1461 * s = 4 * y + q"
  proof -
    have "1461 * s mod 4 = s mod 4" using mod_mult_left_eq [of 1461 4 s] by simp
    then show ?thesis unfolding y_def q_def by (metis mult_div_mod_eq)
  qed
  have pq: "0 \<le> p" "p \<le> 3" "0 \<le> q" "q \<le> 3" by (simp_all add: p_def q_def)
  have rt: "0 \<le> r" "r \<le> 146096" "0 \<le> t" "t \<le> 1460"
    using pos_mod_bound [of 146097 "4 * A + 3"] pos_mod_bound [of 1461 "4 * c + 3"] by (simp_all add: r_def t_def)
  have A: "4 * A + 3 = b * 146097 + r" by (simp add: b_def r_def)
  have C: "4 * c + 3 = s * 1461 + t" by (simp add: s_def t_def)
  have cx: "c = A - x" by (simp add: c_def x_def)
  have ey: "e = c - y" by (simp add: e_def y_def)
  show b0: "0 \<le> b" using assms(1) by (simp add: b_def)
  have c4: "4 * c = r + p - 3" using A x cx by linarith
  show c0: "0 \<le> c" using c4 rt(1) pq(1) by linarith
  show s0: "0 \<le> s" using c0 by (simp add: s_def)
  have st: "s * 1461 + t = r + p" using C c4 by linarith
  show s99: "s < 100" using st rt(2,3) pq(2) by linarith
  have e4: "4 * e = t + q - 3" using ey C y by linarith
  show "0 \<le> e" using e4 rt(3) pq(3) by linarith
  show "e \<le> 365" using e4 rt(4) pq(4) by linarith
  assume e: "e = 365"
  then have "t + q = 1463" using e4 by linarith
  then have tq: "t = 1460" "q = 3" using rt(4) pq(4) by linarith+
  moreover have "p = 3" if "s = 99" using st that tq(1) rt(2) pq(2) by linarith
  ultimately show "s mod 4 = 3 \<and> (s = 99 \<longrightarrow> b mod 4 = 3)" by (simp add: p_def q_def)
qed

lemma march_leap:
  fixes b s :: int
  assumes "s mod 4 = 3" and "s = 99 \<longrightarrow> b mod 4 = 3" and "0 \<le> s" and "s < 100"
  shows "leap_year (100 * b + s - 4799)"
proof -
  define k where "k = s div 4"
  have "s = 4 * k + 3" using assms(1) mult_div_mod_eq [of 4 s] unfolding k_def by linarith
  then have "100 * b + s - 4799 = 4 * (25 * b + k - 1199)" by simp
  then have four: "(100 * b + s - 4799) mod 4 = 0" by (metis mod_mult_self1_is_0)
  have "(100 * b + s - 4799) mod 400 = 0" if h: "(100 * b + s - 4799) mod 100 = 0"
  proof -
    have eq: "100 * b + s - 4799 = (s + 1) + (b - 48) * 100" by simp
    have "(s + 1) mod 100 = 0" using h unfolding eq mod_mult_self1 .
    have s: "s = 99"
    proof (rule ccontr)
      assume "s \<noteq> 99"
      then have "(s + 1) mod 100 = s + 1" using assms(3,4) by (intro mod_pos_pos_trivial) auto
      then show False using \<open>(s + 1) mod 100 = 0\<close> assms(3) by simp
    qed
    define l where "l = b div 4"
    have "b = 4 * l + 3" using assms(2) s mult_div_mod_eq [of 4 b] unfolding l_def by linarith
    then have "100 * b + s - 4799 = 400 * (l - 11)" using s by simp
    then show ?thesis by (metis mod_mult_self1_is_0)
  qed
  with four show ?thesis by (auto simp: leap_year_def)
qed

lemma march_month_split:
  fixes e :: int
  assumes "0 \<le> e" and "e \<le> 365"
  defines "M \<equiv> (5 * e + 2) div 153" and "d \<equiv> e - (153 * ((5 * e + 2) div 153) + 2) div 5 + 1"
  shows "0 \<le> M" and "M \<le> 11" and "1 \<le> d" and "d \<le> (if M = 11 then 29 else if M \<in> {1, 3, 6, 8} then 30 else 31)"
    and "M = 11 \<Longrightarrow> d = 29 \<longleftrightarrow> e = 365"
proof -
  have M: "153 * M \<le> 5 * e + 2" "5 * e + 2 < 153 * M + 153" unfolding M_def by linarith+
  show lo: "0 \<le> M" and hi: "M \<le> 11" using M assms(1,2) by linarith+
  have d: "d = e - (153 * M + 2) div 5 + 1" by (simp add: d_def M_def)
  have "M = 0 \<or> M = 1 \<or> M = 2 \<or> M = 3 \<or> M = 4 \<or> M = 5 \<or> M = 6 \<or> M = 7 \<or> M = 8 \<or> M = 9 \<or> M = 10 \<or> M = 11"
    using lo hi by presburger
  then have "1 \<le> d \<and> d \<le> (if M = 11 then 29 else if M \<in> {1, 3, 6, 8} then 30 else 31) \<and> (M = 11 \<longrightarrow> (d = 29 \<longleftrightarrow> e = 365))"
    using M d assms(2) by (elim disjE) auto
  then show "1 \<le> d" "d \<le> (if M = 11 then 29 else if M \<in> {1, 3, 6, 8} then 30 else 31)" "M = 11 \<Longrightarrow> d = 29 \<longleftrightarrow> e = 365"
    by blast+
qed

text \<open>Every Julian day number from the year -4800 on is the number of exactly the valid date it is converted to.\<close>

lemma julian_day_round_trip:
  assumes "0 \<le> j + 32044"
  shows "exact_jdn (ymd_year (exact_ymd j)) (ymd_month (exact_ymd j)) (ymd_day (exact_ymd j)) = j"
    and "valid_date (ymd_year (exact_ymd j)) (ymd_month (exact_ymd j)) (ymd_day (exact_ymd j))"
proof -
  define A where "A = j + 32044"
  have A0: "0 \<le> A" using assms by (simp add: A_def)
  define b where "b = (4 * A + 3) div 146097"
  define c where "c = A - (b * 146097) div 4"
  define s where "s = (4 * c + 3) div 1461"
  define e where "e = c - (1461 * s) div 4"
  note sp = century_split [OF A0, folded b_def, folded c_def, folded s_def, folded e_def]
  define M where "M = (5 * e + 2) div 153"
  define d where "d = e - (153 * M + 2) div 5 + 1"
  note mo = march_month_split [OF sp(5,6), folded M_def, folded d_def]
  have h: "M sdiv 10 = (if 10 \<le> M then 1 else 0)"
  proof (cases "10 \<le> M")
    case True
    then have "M = 10 \<or> M = 11" using mo(2) by auto
    then show ?thesis by (auto simp: sdiv_nonneg)
  qed (use mo(1) in \<open>simp add: sdiv_nonneg\<close>)
  let ?y = "b * 100 + s - 4800 + (if 10 \<le> M then 1 else 0)" and ?m = "if 10 \<le> M then M - 9 else M + 3"
  have "exact_ymd j = \<lparr>ymd_year = ?y, ymd_month = ?m, ymd_day = d\<rparr>"
  proof -
    have "(4 * (j + 32044) + 3) sdiv 146097 = b" using A0 by (simp add: b_def A_def sdiv_nonneg)
    moreover have "j + 32044 - (b * 146097) sdiv 4 = c" using sp(1) by (simp add: c_def A_def sdiv_nonneg)
    moreover have "(4 * c + 3) sdiv 1461 = s" using sp(2) by (simp add: s_def sdiv_nonneg)
    moreover have "c - (1461 * s) sdiv 4 = e" using sp(3) by (simp add: e_def sdiv_nonneg)
    moreover have "(5 * e + 2) sdiv 153 = M" using sp(5) by (simp add: M_def sdiv_nonneg)
    moreover have "e - (153 * M + 2) sdiv 5 + 1 = d" using mo(1) by (simp add: d_def sdiv_nonneg)
    ultimately show ?thesis unfolding exact_ymd_def Let_def by (simp add: h)
  qed
  then have ymd: "ymd_year (exact_ymd j) = ?y" "ymd_month (exact_ymd j) = ?m" "ymd_day (exact_ymd j) = d"
    by simp_all
  have my: "march_year ?y ?m = 100 * b + s" "march ?m = M" "1 \<le> ?m" "?m \<le> 12"
    using mo(1,2) by (auto simp: march_year_def march_def)
  have Y: "(100 * b + s) div 100 = b" "(100 * b + s) mod 100 = s" "0 \<le> 100 * b + s" using sp(1,3,4) by simp_all
  have "exact_jdn ?y ?m d + 32044 = (b * 146097) div 4 + (1461 * s) div 4 + ((153 * M + 2) div 5 + d - 1)"
    using jdn_march [OF my(3,4), of ?y d] unfolding my(1,2) Y(1,2) using Y(3) by blast
  also have "\<dots> = A" by (simp add: d_def e_def c_def)
  finally show "exact_jdn (ymd_year (exact_ymd j)) (ymd_month (exact_ymd j)) (ymd_day (exact_ymd j)) = j"
    unfolding ymd by (simp add: A_def)
  have "leap_year ?y" if "M = 11" "d = 29"
  proof -
    have "leap_year (100 * b + s - 4799)" using sp(3,4,7) mo(5) that by (intro march_leap) auto
    then show ?thesis using that(1) by (simp add: algebra_simps)
  qed
  moreover have "(if ?m \<le> 2 then - 4799 else - 4800) \<le> ?y" using sp(1,3) mo(1,2) by auto
  ultimately show "valid_date (ymd_year (exact_ymd j)) (ymd_month (exact_ymd j)) (ymd_day (exact_ymd j))"
    unfolding ymd valid_date_def using my(3,4) mo by (auto simp: days_in_month_def)
qed

subsection \<open>Within the range of \<open>int\<close>\<close>

lemma wrap32_in: "- 2147483648 \<le> i \<Longrightarrow> i \<le> 2147483647 \<Longrightarrow> wrap32 i = i"
  by (rule wrap32_id) (simp add: is_int32_def)

lemma getJulianDayNumber_exact:
  assumes "valid_date y m d" "y \<le> 5000000"
  shows "getJulianDayNumber y m d = exact_jdn y m d"
proof -
  have v: "1 \<le> m" "m \<le> 12" "(if m \<le> 2 then - 4799 else - 4800) \<le> y" "1 \<le> d" "d \<le> 31"
    using assms(1) by (auto simp: valid_date_def days_in_month_def split: if_splits)
  have a: "wrap32 (14 - m) sdiv 12 = (14 - m) sdiv 12" using v by (simp add: wrap32_in)
  have a01: "(14 - m) sdiv 12 = (if m \<le> 2 then 1 else 0)"
  proof -
    have "(14 - m) div 12 = (if m \<le> 2 then 1 else 0)" using v(1,2) by auto
    then show ?thesis using v(2) by (simp add: sdiv_nonneg)
  qed
  define Y M where "Y = y + 4800 - (14 - m) sdiv 12" and "M = m + 12 * ((14 - m) sdiv 12) - 3"
  have Y: "0 \<le> Y" "Y \<le> 5004800" and M: "0 \<le> M" "M \<le> 11" using v assms(2) by (auto simp: Y_def M_def a01 split: if_splits)
  have w: "wrap32 Y = Y" "wrap32 M = M" "wrap32 (153 * M + 2) = 153 * M + 2" using Y M by (simp_all add: wrap32_in)
  have q: "Y sdiv 4 = Y div 4" "Y sdiv 100 = Y div 100" "Y sdiv 400 = Y div 400" "(153 * M + 2) sdiv 5 = (153 * M + 2) div 5"
    using Y M by (simp_all add: sdiv_nonneg)
  have b: "0 \<le> Y div 4" "Y div 4 \<le> 1251200" "0 \<le> Y div 100" "Y div 100 \<le> 50048" "0 \<le> Y div 400" "Y div 400 \<le> 12512"
    "0 \<le> (153 * M + 2) div 5" "(153 * M + 2) div 5 \<le> 337" using Y M by linarith+
  have "wrap32 (d + (153 * M + 2) div 5 + Y * 365 + Y div 4 - Y div 100 + Y div 400 - 32045)
      = d + (153 * M + 2) div 5 + Y * 365 + Y div 4 - Y div 100 + Y div 400 - 32045"
    using b Y v(4,5) by (intro wrap32_in) linarith+
  then show ?thesis
    unfolding getJulianDayNumber_def exact_jdn_def Let_def a Y_def [symmetric] M_def [symmetric] w q by simp
qed

lemma getYearMonthDay_exact:
  assumes "0 \<le> j + 32044" "j + 32044 < 2 ^ 29"
  shows "getYearMonthDay j = exact_ymd j"
proof -
  define A where "A = j + 32044"
  have A0: "0 \<le> A" "A \<le> 536870911" using assms by (simp_all add: A_def)
  define b where "b = (4 * A + 3) div 146097"
  define c where "c = A - (b * 146097) div 4"
  define s where "s = (4 * c + 3) div 1461"
  define e where "e = c - (1461 * s) div 4"
  define M where "M = (5 * e + 2) div 153"
  note sp = century_split [OF A0(1), folded b_def, folded c_def, folded s_def, folded e_def]
  note mo = march_month_split [OF sp(5,6), folded M_def]
  have b: "b * 146097 \<le> 4 * A + 3" "b \<le> 14699" unfolding b_def using A0 by linarith+
  have s: "1461 * s \<le> 4 * c + 3" unfolding s_def by linarith
  have c: "c \<le> 36525" using s sp(3,4) unfolding s_def by linarith
  have m10: "M sdiv 10 = M div 10" "0 \<le> M div 10" "M div 10 \<le> 1" using mo(1,2) by (simp_all add: sdiv_nonneg)
  have w1: "wrap32 A = A" "wrap32 (4 * A + 3) sdiv 146097 = b" "(4 * A + 3) sdiv 146097 = b"
    using A0 by (simp_all add: wrap32_in sdiv_nonneg b_def)
  have w2: "wrap32 (b * 146097) sdiv 4 = (b * 146097) div 4" "(b * 146097) sdiv 4 = (b * 146097) div 4"
    using sp(1) b A0 by (simp_all add: wrap32_in sdiv_nonneg)
  have w3: "wrap32 c = c" using sp(2) c by (simp add: wrap32_in)
  have w4: "wrap32 (4 * c + 3) sdiv 1461 = s" "(4 * c + 3) sdiv 1461 = s" using sp(2) c by (simp_all add: wrap32_in sdiv_nonneg s_def)
  have w5: "wrap32 (1461 * s) sdiv 4 = (1461 * s) div 4" "(1461 * s) sdiv 4 = (1461 * s) div 4"
    using sp(3,4) by (simp_all add: wrap32_in sdiv_nonneg)
  have w6: "wrap32 e = e" using sp(5,6) by (simp add: wrap32_in)
  have w7: "wrap32 (5 * e + 2) sdiv 153 = M" "(5 * e + 2) sdiv 153 = M" using sp(5,6) by (simp_all add: wrap32_in sdiv_nonneg M_def)
  have w8: "wrap32 (153 * M + 2) sdiv 5 = (153 * M + 2) div 5" "(153 * M + 2) sdiv 5 = (153 * M + 2) div 5"
    using mo(1,2) by (simp_all add: wrap32_in sdiv_nonneg)
  have w9: "wrap32 (b * 100 + s - 4800 + M div 10) = b * 100 + s - 4800 + M div 10" "wrap32 (M + 3 - 12 * (M div 10)) = M + 3 - 12 * (M div 10)"
    using sp(1,3,4) b mo(1,2) m10 by (simp_all add: wrap32_in)
  have "e - (153 * M + 2) div 5 + 1 \<le> 31" "1 \<le> e - (153 * M + 2) div 5 + 1" using mo(3,4) unfolding M_def by (auto split: if_splits)
  then have w10: "wrap32 (e - (153 * M + 2) div 5 + 1) = e - (153 * M + 2) div 5 + 1" by (intro wrap32_in) auto
  show ?thesis
    unfolding getYearMonthDay_def exact_ymd_def Let_def w1 A_def [symmetric] w2 w3 c_def [symmetric] w4 w5 w6 e_def [symmetric] w7 w8 m10(1) w9 w10 ..
qed

lemma exact_ymd_year:
  assumes "0 \<le> j + 32044" "j + 32044 < 2 ^ 29"
  shows "ymd_year (exact_ymd j) \<le> 1470000"
proof -
  define A where "A = j + 32044"
  have A0: "0 \<le> A" "A \<le> 536870911" using assms by (simp_all add: A_def)
  define b where "b = (4 * A + 3) div 146097"
  define c where "c = A - (b * 146097) div 4"
  define s where "s = (4 * c + 3) div 1461"
  define e where "e = c - (1461 * s) div 4"
  define M where "M = (5 * e + 2) div 153"
  note sp = century_split [OF A0(1), folded b_def, folded c_def, folded s_def, folded e_def]
  note mo = march_month_split [OF sp(5,6), folded M_def]
  have "b \<le> 14699" unfolding b_def using A0 by linarith
  moreover have "M sdiv 10 \<le> 1" using mo(1,2) by (simp add: sdiv_nonneg)
  moreover have "ymd_year (exact_ymd j) = b * 100 + s - 4800 + M sdiv 10"
    unfolding exact_ymd_def Let_def using A0 sp by (simp add: sdiv_nonneg A_def [symmetric] b_def [symmetric] c_def [symmetric] s_def [symmetric] e_def [symmetric] M_def [symmetric])
  ultimately show ?thesis using sp(4) by linarith
qed

subsection \<open>Seconds since 1970\<close>

text \<open>After the correction for negative values the truncating division is the rounding one.\<close>

lemma floor_from_trunc:
  fixes t k :: int
  assumes "0 < k"
  shows "(if t smod k < 0 then t smod k + k else t smod k) = t mod k"
    and "(if t smod k < 0 then t sdiv k - 1 else t sdiv k) = t div k"
proof -
  have neg: "t mod k = (if (- t) mod k = 0 then 0 else k - (- t) mod k)" "t div k = (if (- t) mod k = 0 then - ((- t) div k) else - ((- t) div k) - 1)"
    using zmod_zminus1_eq_if [of "- t" k] zdiv_zminus1_eq_if [of k "- t"] assms by simp_all
  have pos: "0 \<le> (- t) mod k" "0 \<le> t mod k" using assms by simp_all
  have "(if t smod k < 0 then t smod k + k else t smod k) = t mod k \<and> (if t smod k < 0 then t sdiv k - 1 else t sdiv k) = t div k"
  proof (cases "0 \<le> t")
    case True
    then show ?thesis using pos(2) assms by (simp add: smod_nonneg sdiv_nonneg not_less)
  next
    case False
    then have "t smod k = - ((- t) mod k)" "t sdiv k = - ((- t) div k)"
      using assms by (simp_all add: signed_modulo_int_def signed_divide_int_def sgn_if)
    then show ?thesis using pos(1) unfolding neg by auto
  qed
  then show "(if t smod k < 0 then t smod k + k else t smod k) = t mod k"
    "(if t smod k < 0 then t sdiv k - 1 else t sdiv k) = t div k" by blast+
qed

lemma julian_1970: "kJulianDayOf1970_01_01 = 2440588"
  by code_simp

text \<open>The times whose day, as a Julian day number, \<open>getYearMonthDay\<close> computes without overflow: from -4800 to the year 1465000.\<close>

definition time_ok :: "int \<Rightarrow> bool" where
  "time_ok t \<longleftrightarrow> - 213635404800 \<le> t \<and> t < 46172011392000"

lemma time_ok_day:
  assumes "time_ok t"
  shows "0 \<le> t div 86400 + 2440588 + 32044" and "t div 86400 + 2440588 + 32044 < 2 ^ 29"
  using assms by (simp_all add: time_ok_def) linarith+

lemma BreakTime_parts:
  assumes "time_ok t" "ymd_of = exact_ymd (t div 86400 + 2440588)"
  shows "BreakTime t = \<lparr>dt_year = ymd_year ymd_of, dt_month = ymd_month ymd_of,
     dt_day = ymd_day ymd_of, dt_hour = t mod 86400 div 60 div 60, dt_minute = t mod 86400 div 60 mod 60, dt_second = t mod 86400 mod 60\<rparr>"
proof -
  have s: "0 \<le> t mod 86400" by simp
  then have "0 \<le> t mod 86400 div 60" by (simp add: pos_imp_zdiv_nonneg_iff del: pos_mod_sign)
  then have hms: "fillHMS (t mod 86400) = (t mod 86400 div 60 div 60, t mod 86400 div 60 mod 60, t mod 86400 mod 60)"
    using s unfolding fillHMS_def Let_def by (simp add: sdiv_nonneg smod_nonneg)
  have k: "kSecondsPerDay = 86400" by (simp add: kSecondsPerDay_def)
  define S D where "S = t smod 86400" and "D = t sdiv 86400"
  have f: "(if S < 0 then S + 86400 else S) = t mod 86400" "(if S < 0 then D - 1 else D) = t div 86400"
    unfolding S_def D_def by (rule floor_from_trunc; simp)+
  have day: "0 \<le> t div 86400 + 2472632" "t div 86400 + 2472632 < 536870912" using time_ok_day [OF assms(1)] by simp_all
  have r: "- 86400 \<le> S" "S < 86400" using f(1) pos_mod_bound [of 86400 t] pos_mod_sign [of 86400 t] by (auto split: if_splits)
  have w: "wrap32 S = S" "wrap32 (S + 86400) = S + 86400" using r by (simp_all add: wrap32_in)
  have d: "wrap32 D = D" using f(2) day by (intro wrap32_in) (auto split: if_splits)
  have d': "wrap32 (D - 1) = D - 1" if "S < 0" using f(2) day that by (intro wrap32_in) auto
  have days: "(if S < 0 then wrap32 (D - 1) else D) = t div 86400" using f(2) d' by auto
  have ymd: "getYearMonthDay (wrap32 (t div 86400 + 2440588)) = ymd_of"
    using getYearMonthDay_exact [OF time_ok_day [OF assms(1)]] day assms(2) by (simp add: wrap32_in)
  show ?thesis
    unfolding BreakTime_def Let_def k julian_1970 S_def [symmetric] D_def [symmetric] w d days f(1) ymd hms by simp
qed

definition valid_time_of_day :: "DateTime \<Rightarrow> bool" where
  "valid_time_of_day dt \<longleftrightarrow> 0 \<le> dt_hour dt \<and> dt_hour dt < 24 \<and> 0 \<le> dt_minute dt \<and> dt_minute dt < 60 \<and> 0 \<le> dt_second dt \<and> dt_second dt < 60"

lemma fromUtcTime_exact:
  assumes "valid_date (dt_year dt) (dt_month dt) (dt_day dt)" "valid_time_of_day dt" "dt_year dt \<le> 5000000"
    and "- 2440588 - 32044 \<le> exact_jdn (dt_year dt) (dt_month dt) (dt_day dt) - 2440588"
      "exact_jdn (dt_year dt) (dt_month dt) (dt_day dt) - 2440588 \<le> 2000000000"
  shows "fromUtcTime dt = (exact_jdn (dt_year dt) (dt_month dt) (dt_day dt) - 2440588) * 86400
    + (dt_hour dt * 3600 + dt_minute dt * 60 + dt_second dt)"
proof -
  have w1: "wrap32 (exact_jdn (dt_year dt) (dt_month dt) (dt_day dt) - 2440588) = exact_jdn (dt_year dt) (dt_month dt) (dt_day dt) - 2440588"
    using assms(4,5) by (intro wrap32_in) linarith+
  have w2: "wrap32 (dt_hour dt * 3600 + dt_minute dt * 60 + dt_second dt) = dt_hour dt * 3600 + dt_minute dt * 60 + dt_second dt"
    using assms(2) by (intro wrap32_in) (simp_all add: valid_time_of_day_def)
  show ?thesis
    unfolding fromUtcTime_def Let_def getJulianDayNumber_exact [OF assms(1,3)] julian_1970 w1 w2 by (simp add: kSecondsPerDay_def)
qed

lemma fromUtcTime_BreakTime:
  assumes t: "time_ok t"
  shows "fromUtcTime (BreakTime t) = t" and "valid_time_of_day (BreakTime t)"
    and "valid_date (dt_year (BreakTime t)) (dt_month (BreakTime t)) (dt_day (BreakTime t))"
proof -
  define D S where "D = t div 86400" and "S = t mod 86400"
  have tDS: "t = D * 86400 + S" "0 \<le> S" "S < 86400" by (simp_all add: D_def S_def)
  note day = time_ok_day [OF t, folded D_def]
  note j = julian_day_round_trip [OF day(1)]
  have B: "BreakTime t = \<lparr>dt_year = ymd_year (exact_ymd (D + 2440588)), dt_month = ymd_month (exact_ymd (D + 2440588)),
     dt_day = ymd_day (exact_ymd (D + 2440588)), dt_hour = S div 60 div 60, dt_minute = S div 60 mod 60, dt_second = S mod 60\<rparr>"
    unfolding D_def S_def by (rule BreakTime_parts [OF t refl])
  have hms: "S div 60 div 60 * 3600 + S div 60 mod 60 * 60 + S mod 60 = S"
  proof -
    have "S = S div 60 * 60 + S mod 60" "S div 60 = S div 60 div 60 * 60 + S div 60 mod 60" by simp_all
    then show ?thesis by linarith
  qed
  have "0 \<le> S div 60" "S div 60 < 1440" using tDS(2,3) by linarith+
  then have "0 \<le> S div 60 div 60" "S div 60 div 60 < 24" by linarith+
  then show v: "valid_time_of_day (BreakTime t)" unfolding B by (simp add: valid_time_of_day_def)
  show d: "valid_date (dt_year (BreakTime t)) (dt_month (BreakTime t)) (dt_day (BreakTime t))" unfolding B using j(2) by simp
  have x: "exact_jdn (dt_year (BreakTime t)) (dt_month (BreakTime t)) (dt_day (BreakTime t)) = D + 2440588" unfolding B using j(1) by simp
  have "dt_year (BreakTime t) \<le> 5000000" unfolding B using exact_ymd_year [OF day] by simp
  then have "fromUtcTime (BreakTime t) = D * 86400 + (dt_hour (BreakTime t) * 3600 + dt_minute (BreakTime t) * 60 + dt_second (BreakTime t))"
    using fromUtcTime_exact [OF d v] day x by simp
  then show "fromUtcTime (BreakTime t) = t" unfolding B using hms tDS(1) by simp
qed

lemma exact_jdn_bounds:
  assumes "valid_date y m d" "y \<le> 1465000"
  shows "0 \<le> exact_jdn y m d + 32044" and "exact_jdn y m d + 32044 < 536870912 - 1"
proof -
  note bd = march_bounds [OF assms(1)]
  have my: "march_year y m \<le> 1469800" using assms(2) by (simp add: march_year_def)
  have m: "1 \<le> m" "m \<le> 12" using assms(1) by (simp_all add: valid_date_def)
  have eq: "exact_jdn y m d + 32044 = march_year y m * 365 + march_year y m div 4 - march_year y m div 100 + march_year y m div 400
      + ((153 * march m + 2) div 5 + d - 1)"
    using jdn_march [OF m bd(3)] year_days [OF bd(3)] by simp
  have q: "march_year y m div 4 \<le> 367450" "0 \<le> march_year y m div 4 - march_year y m div 100" "march_year y m div 400 \<le> 3675"
    "0 \<le> march_year y m div 100" "0 \<le> march_year y m div 400" using my bd(3) by linarith+
  have "0 \<le> (153 * march m + 2) div 5 + d - 1" using bd(1,4) by simp
  then show "0 \<le> exact_jdn y m d + 32044" unfolding eq using q bd(3) by linarith
  show "exact_jdn y m d + 32044 < 536870912 - 1" unfolding eq using q my bd(7) by linarith
qed

lemma BreakTime_fromUtcTime:
  assumes v: "valid_date (dt_year dt) (dt_month dt) (dt_day dt)" "valid_time_of_day dt" "dt_year dt \<le> 1465000"
  shows "BreakTime (fromUtcTime dt) = dt" and "time_ok (fromUtcTime dt)"
proof -
  define h m s where "h = dt_hour dt" and "m = dt_minute dt" and "s = dt_second dt"
  have hms: "0 \<le> h" "h < 24" "0 \<le> m" "m < 60" "0 \<le> s" "s < 60"
    using v by (simp_all add: valid_time_of_day_def h_def m_def s_def)
  define D S where "D = exact_jdn (dt_year dt) (dt_month dt) (dt_day dt) - 2440588" and "S = (h * 60 + m) * 60 + s"
  note b = exact_jdn_bounds [OF v(1,3)]
  have S: "0 \<le> S" "S < 86400" "S div 60 = h * 60 + m" "S mod 60 = s"
    using hms mod_mult_self3 [of "h * 60 + m" 60 s] by (simp_all only: S_def) simp_all
  have t: "fromUtcTime dt = S + D * 86400"
    using fromUtcTime_exact [OF v(1,2)] v(3) b by (simp add: D_def S_def h_def m_def s_def)
  have dm: "fromUtcTime dt div 86400 = D" "fromUtcTime dt mod 86400 = S" unfolding t using S(1,2) by simp_all
  show ok: "time_ok (fromUtcTime dt)" unfolding time_ok_def t using b S(1,2) by (simp add: D_def)
  have "exact_ymd (D + 2440588) = \<lparr>ymd_year = dt_year dt, ymd_month = dt_month dt, ymd_day = dt_day dt\<rparr>"
    using date_round_trip v by (simp add: D_def)
  moreover have "(h * 60 + m) div 60 = h" "(h * 60 + m) mod 60 = m" using hms by simp_all
  ultimately show "BreakTime (fromUtcTime dt) = dt"
    using BreakTime_parts [OF ok refl] dm S(3,4) by (simp add: h_def m_def s_def)
qed

text \<open>C26: \<open>toUtcTime\<close> and \<open>fromUtcTime\<close> are inverse to each other: seconds since 1970, also negative ones, to valid fields and
  back, and valid fields to seconds and back, for the years from -4800 to 1465000, in which no 32-bit sum overflows.\<close>

theorem utc_round_trip:
  "(time_ok t \<longrightarrow> fromUtcTime (toUtcTime t) = t \<and> valid_time_of_day (toUtcTime t)
      \<and> valid_date (dt_year (toUtcTime t)) (dt_month (toUtcTime t)) (dt_day (toUtcTime t)))
    \<and> (valid_date (dt_year dt) (dt_month dt) (dt_day dt) \<and> valid_time_of_day dt \<and> dt_year dt \<le> 1465000 \<longrightarrow> toUtcTime (fromUtcTime dt) = dt)"
  using fromUtcTime_BreakTime [of t] BreakTime_fromUtcTime(1) [of dt] by (simp add: toUtcTime_def)

theorem utc_round_trip_witness:
  "fromUtcTime (toUtcTime (- 1)) = - 1 \<and> toUtcTime (- 1) = \<lparr>dt_year = 1969, dt_month = 12, dt_day = 31, dt_hour = 23, dt_minute = 59, dt_second = 59\<rparr>
    \<and> toUtcTime (fromUtcTime \<lparr>dt_year = 2024, dt_month = 2, dt_day = 29, dt_hour = 8, dt_minute = 5, dt_second = 0\<rparr>)
        = \<lparr>dt_year = 2024, dt_month = 2, dt_day = 29, dt_hour = 8, dt_minute = 5, dt_second = 0\<rparr>"
proof -
  let ?d = "\<lparr>dt_year = 2024, dt_month = 2, dt_day = 29, dt_hour = 8, dt_minute = 5, dt_second = 0\<rparr>"
  have "valid_date (dt_year ?d) (dt_month ?d) (dt_day ?d) \<and> valid_time_of_day ?d \<and> dt_year ?d \<le> 1465000" by code_simp
  moreover have "toUtcTime (- 1) = \<lparr>dt_year = 1969, dt_month = 12, dt_day = 31, dt_hour = 23, dt_minute = 59, dt_second = 59\<rparr>"
    by code_simp
  moreover have "time_ok (- 1)" by (simp add: time_ok_def)
  ultimately show ?thesis using utc_round_trip [of "- 1" ?d] by simp
qed

end
