(* ===== verification/Time_Zone.thy ===== *)
theory Time_Zone
  imports Calendar
begin

section \<open>Time zones\<close>

text \<open>
  \<open>base/TimeZone.cc\<close>: the reader of zone files (RFC 8536), the search for the offset of an instant or of a local time, and the
  conversions between both. \<open>int64_t\<close> sums wrap. A zone file is its bytes and a position; memory for the vectors is taken
  to be available.
\<close>

definition wrap64 :: "int \<Rightarrow> int" where
  "wrap64 i = (i + 2 ^ 63) mod 2 ^ 64 - 2 ^ 63"

lemma wrap64_id: "- (2 ^ 63) \<le> i \<Longrightarrow> i < 2 ^ 63 \<Longrightarrow> wrap64 i = i"
  by (simp add: wrap64_def)

record Transition =
  tr_utctime :: int
  tr_localtime :: int
  tr_localtimeIdx :: nat

record LocalTime =
  utcOffset :: int
  isDst :: bool
  desigIdx :: nat

record zone_data =
  transitions :: "Transition list"
  localtimes :: "LocalTime list"
  abbreviation_of :: bytes
  tzstring :: bytes

definition new_zone_data :: zone_data where
  "new_zone_data = \<lparr>transitions = [], localtimes = [], abbreviation_of = [], tzstring = []\<rparr>"

definition addLocalTime :: "int \<Rightarrow> bool \<Rightarrow> nat \<Rightarrow> zone_data \<Rightarrow> zone_data" where
  "addLocalTime offset dst desig d = d\<lparr>localtimes := localtimes d @ [\<lparr>utcOffset = offset, isDst = dst, desigIdx = desig\<rparr>]\<rparr>"

text \<open>Reading throws a \<open>std::logic_error\<close>, which the caller catches (\<open>std::out_of_range\<close> and \<open>std::length_error\<close> are among them), or
  is undefined.\<close>

datatype tz_throw = LogicError | Undefined

definition addTransition :: "int \<Rightarrow> nat \<Rightarrow> zone_data \<Rightarrow> tz_throw + zone_data" where
  "addTransition utcTime idx d =
     (if idx \<ge> length (localtimes d) then Inl LogicError
      else Inr (d\<lparr>transitions := transitions d @
        [\<lparr>tr_utctime = utcTime, tr_localtime = wrap64 (utcTime + utcOffset (localtimes d ! idx)), tr_localtimeIdx = idx\<rparr>]\<rparr>))"

subsection \<open>The file\<close>

record tz_file =
  tz_content :: bytes
  tz_pos :: nat

definition tz_read :: "nat \<Rightarrow> tz_file \<Rightarrow> tz_throw + (bytes \<times> tz_file)" where
  "tz_read n f =
     (let got = take n (drop (tz_pos f) (tz_content f))
      in if length got \<noteq> n then Inl LogicError else Inr (got, f\<lparr>tz_pos := tz_pos f + n\<rparr>))"

text \<open>\<open>char buf[n]\<close> is undefined for a negative \<open>n\<close>.\<close>

definition readBytes :: "int \<Rightarrow> tz_file \<Rightarrow> tz_throw + (bytes \<times> tz_file)" where
  "readBytes n f = (if n < 0 then Inl Undefined else tz_read (nat n) f)"

definition readToEnd :: "tz_file \<Rightarrow> bytes" where
  "readToEnd f = drop (tz_pos f) (tz_content f)"

definition tz_readInt64 :: "tz_file \<Rightarrow> tz_throw + (int \<times> tz_file)" where
  "tz_readInt64 f = (case tz_read 8 f of Inl e \<Rightarrow> Inl e | Inr (b, f') \<Rightarrow> Inr (sint (of_be_bytes b :: 64 word), f'))"

definition tz_readInt32 :: "tz_file \<Rightarrow> tz_throw + (int \<times> tz_file)" where
  "tz_readInt32 f = (case tz_read 4 f of Inl e \<Rightarrow> Inl e | Inr (b, f') \<Rightarrow> Inr (sint (of_be_bytes b :: 32 word), f'))"

definition tz_readUInt8 :: "tz_file \<Rightarrow> tz_throw + (nat \<times> tz_file)" where
  "tz_readUInt8 f = (case tz_read 1 f of Inl e \<Rightarrow> Inl e | Inr (b, f') \<Rightarrow> Inr (unat (of_be_bytes b :: 8 word), f'))"

text \<open>\<open>fseek\<close> relative to the position: it fails before the beginning and may go beyond the end.\<close>

definition tz_skip :: "int \<Rightarrow> tz_file \<Rightarrow> tz_file" where
  "tz_skip k f = (if int (tz_pos f) + k < 0 then f else f\<lparr>tz_pos := nat (int (tz_pos f) + k)\<rparr>)"

primrec read_times :: "(tz_file \<Rightarrow> tz_throw + ('a \<times> tz_file)) \<Rightarrow> nat \<Rightarrow> tz_file \<Rightarrow> tz_throw + ('a list \<times> tz_file)" where
  "read_times rd 0 f = Inr ([], f)"
| "read_times rd (Suc n) f =
     (case rd f of Inl e \<Rightarrow> Inl e
      | Inr (x, f1) \<Rightarrow> (case read_times rd n f1 of Inl e \<Rightarrow> Inl e | Inr (xs, f2) \<Rightarrow> Inr (x # xs, f2)))"

text \<open>\<open>reserve\<close> with a negative number throws \<open>std::length_error\<close>.\<close>

definition read_vector :: "(tz_file \<Rightarrow> tz_throw + ('a \<times> tz_file)) \<Rightarrow> int \<Rightarrow> tz_file \<Rightarrow> tz_throw + ('a list \<times> tz_file)" where
  "read_vector rd n f = (if n < 0 then Inl LogicError else read_times rd (nat n) f)"

definition read_ttinfo :: "tz_file \<Rightarrow> tz_throw + ((int \<times> bool \<times> nat) \<times> tz_file)" where
  "read_ttinfo f =
     (case tz_readInt32 f of Inl e \<Rightarrow> Inl e | Inr (gmtoff, f1) \<Rightarrow>
     (case tz_readUInt8 f1 of Inl e \<Rightarrow> Inl e | Inr (isdst, f2) \<Rightarrow>
     (case tz_readUInt8 f2 of Inl e \<Rightarrow> Inl e | Inr (abbrind, f3) \<Rightarrow> Inr ((gmtoff, isdst \<noteq> 0, abbrind), f3))))"

fun add_transitions :: "(int \<times> nat) list \<Rightarrow> zone_data \<Rightarrow> tz_throw + zone_data" where
  "add_transitions [] d = Inr d"
| "add_transitions ((t, i) # ts) d = (case addTransition t i d of Inl e \<Rightarrow> Inl e | Inr d' \<Rightarrow> add_transitions ts d')"

text \<open>\<open>None\<close>: \<open>false\<close> is returned.\<close>

definition readDataBlock :: "bool \<Rightarrow> tz_file \<Rightarrow> tz_throw + zone_data option" where
  "readDataBlock v1 f =
     (case read_times tz_readInt32 6 f of Inl e \<Rightarrow> Inl e | Inr (counts, f1) \<Rightarrow>
      (let isutccnt = counts ! 0; isstdcnt = counts ! 1; leapcnt = counts ! 2; timecnt = counts ! 3; typecnt = counts ! 4; charcnt = counts ! 5
       in if leapcnt \<noteq> 0 then Inr None
          else if isutccnt \<noteq> 0 \<and> isutccnt \<noteq> typecnt then Inr None
          else if isstdcnt \<noteq> 0 \<and> isstdcnt \<noteq> typecnt then Inr None
          else
     (case read_vector (if v1 then tz_readInt32 else tz_readInt64) timecnt f1 of Inl e \<Rightarrow> Inl e | Inr (utcs, f2) \<Rightarrow>
     (case read_vector tz_readUInt8 timecnt f2 of Inl e \<Rightarrow> Inl e | Inr (locals, f3) \<Rightarrow>
     (case read_vector read_ttinfo typecnt f3 of Inl e \<Rightarrow> Inl e | Inr (types, f4) \<Rightarrow>
     (case add_transitions (zip utcs locals) (foldl (\<lambda>d (off, dst, i). addLocalTime off dst i d) new_zone_data types) of Inl e \<Rightarrow> Inl e
      | Inr d \<Rightarrow>
     (case readBytes charcnt f4 of Inl e \<Rightarrow> Inl e | Inr (abbr, f5) \<Rightarrow>
      (let f6 = tz_skip isutccnt (tz_skip isstdcnt (tz_skip (leapcnt * ((if v1 then 4 else 8) + 4)) f5));
           d1 = d\<lparr>abbreviation_of := abbr\<rparr>
       in Inr (Some (if v1 then d1 else d1\<lparr>tzstring := readToEnd f6\<rparr>))))))))))"

definition tz_block_size :: "int list \<Rightarrow> int" where
  "tz_block_size counts =
     4 * counts ! 3 + counts ! 3 + wrap32 (6 * counts ! 4) + counts ! 5 + wrap32 (8 * counts ! 2) + counts ! 1 + counts ! 0"

definition read_zone :: "tz_file \<Rightarrow> tz_throw + zone_data option" where
  "read_zone f =
     (case readBytes 4 f of Inl e \<Rightarrow> Inl e | Inr (head, f1) \<Rightarrow>
      if head \<noteq> lit ''TZif'' then Inl LogicError else
     (case readBytes 1 f1 of Inl e \<Rightarrow> Inl e | Inr (version, f2) \<Rightarrow>
     (case readBytes 15 f2 of Inl e \<Rightarrow> Inl e | Inr (_, f3) \<Rightarrow>
     (case read_times tz_readInt32 6 f3 of Inl e \<Rightarrow> Inl e | Inr (counts, f4) \<Rightarrow>
      if version = lit ''2'' then
        (case readBytes 4 (tz_skip (tz_block_size counts) f4) of Inl e \<Rightarrow> Inl e | Inr (head2, f5) \<Rightarrow>
         if head2 \<noteq> lit ''TZif'' then Inl LogicError else readDataBlock False (tz_skip 16 f5))
      else readDataBlock True (tz_skip (- 24) f4)))))"

text \<open>\<open>loadZoneFile\<close>: \<open>None\<close> is an invalid zone. The file is \<open>None\<close> if it cannot be opened.\<close>

definition readTimeZoneFile :: "bytes option \<Rightarrow> zone_data option result" where
  "readTimeZoneFile file =
     (case file of None \<Rightarrow> Inr None
      | Some content \<Rightarrow> (case read_zone \<lparr>tz_content = content, tz_pos = 0\<rparr> of
            Inl LogicError \<Rightarrow> Inr None | Inl Undefined \<Rightarrow> Inl OutOfBounds | Inr d \<Rightarrow> Inr d))"

definition fixed_zone :: "int \<Rightarrow> bytes \<Rightarrow> zone_data" where
  "fixed_zone eastOfUtc name = (addLocalTime eastOfUtc False 0 new_zone_data)\<lparr>abbreviation_of := name\<rparr>"

subsection \<open>The offset of an instant and of a local time\<close>

text \<open>\<open>std::upper_bound\<close>: the loop over \<open>first\<close> and \<open>len\<close>.\<close>

function upper_bound :: "('a \<Rightarrow> int) \<Rightarrow> int \<Rightarrow> 'a list \<Rightarrow> nat \<Rightarrow> nat \<Rightarrow> nat" where
  "upper_bound key v xs first len =
     (if len = 0 then first
      else let half = len div 2; middle = first + half
           in if v < key (xs ! middle) then upper_bound key v xs first half
              else upper_bound key v xs (middle + 1) (len - half - 1))"
  by pat_completeness auto
termination
  by (relation "measure (\<lambda>(key, v, xs, first, len). len)") auto

declare upper_bound.simps [simp del]

definition local_at :: "zone_data \<Rightarrow> nat \<Rightarrow> LocalTime result" where
  "local_at d i = (if i < length (localtimes d) then Inr (localtimes d ! i) else Inl OutOfBounds)"

definition findLocalTime :: "zone_data \<Rightarrow> int \<Rightarrow> LocalTime result" where
  "findLocalTime d utcTime =
     (if transitions d = [] \<or> utcTime < tr_utctime (hd (transitions d)) then local_at d 0
      else let k = upper_bound tr_utctime utcTime (transitions d) 0 (length (transitions d))
           in if k = 0 then Inl AssertFail
              else if k \<noteq> length (transitions d) then local_at d (tr_localtimeIdx (transitions d ! (k - 1)))
              else local_at d (tr_localtimeIdx (last (transitions d))))"

definition findLocalTime_local :: "zone_data \<Rightarrow> DateTime \<Rightarrow> bool \<Rightarrow> LocalTime result" where
  "findLocalTime_local d lt postTransition =
     (let localtime = fromUtcTime lt; ts = transitions d in
      if ts = [] \<or> localtime < tr_localtime (hd ts) then local_at d 0
      else let k = upper_bound tr_localtime localtime ts 0 (length ts) in
      if k = 0 then Inl AssertFail
      else if k = length ts then local_at d (tr_localtimeIdx (last ts))
      else
        bind_result (local_at d (tr_localtimeIdx (ts ! (k - 1)))) (\<lambda>prior.
        let prior_second = wrap64 (tr_utctime (ts ! k) - 1 + utcOffset prior) in
        if prior_second < localtime
        then (if postTransition then local_at d (tr_localtimeIdx (ts ! k)) else local_at d (tr_localtimeIdx (ts ! (k - 1))))
        else
          bind_result (if k - 1 \<noteq> 0
              then bind_result (local_at d (tr_localtimeIdx (ts ! (k - 2)))) (\<lambda>p.
                Inr (ts ! (k - 2), wrap64 (tr_utctime (ts ! (k - 1)) - 1 + utcOffset p)))
              else Inr (ts ! (k - 1), prior_second))
            (\<lambda>(prior_trans, prior_second).
               if localtime \<le> prior_second
               then (if postTransition then local_at d (tr_localtimeIdx (ts ! (k - 1))) else local_at d (tr_localtimeIdx prior_trans))
               else local_at d (tr_localtimeIdx (ts ! (k - 1))))))"

text \<open>The fields and the offset; the zone is \<open>None\<close> when \<open>data_\<close> is null.\<close>

definition toLocalTime :: "zone_data option \<Rightarrow> int \<Rightarrow> (DateTime \<times> int) result" where
  "toLocalTime z seconds =
     (case z of None \<Rightarrow> Inl AssertFail
      | Some d \<Rightarrow> bind_result (findLocalTime d seconds) (\<lambda>loc.
          Inr (BreakTime (wrap64 (seconds + utcOffset loc)), utcOffset loc)))"

definition fromLocalTime :: "zone_data option \<Rightarrow> DateTime \<Rightarrow> bool \<Rightarrow> int result" where
  "fromLocalTime z dt postTransition =
     (case z of None \<Rightarrow> Inl AssertFail
      | Some d \<Rightarrow> bind_result (findLocalTime_local d dt postTransition) (\<lambda>loc.
          Inr (wrap64 (fromUtcTime dt - utcOffset loc))))"

lemma upper_bound_0 [simp]: "upper_bound key v xs first 0 = first"
  by (simp add: upper_bound.simps)

lemma upper_bound_step:
  "0 < len \<Longrightarrow> upper_bound key v xs first len =
     (if v < key (xs ! (first + len div 2)) then upper_bound key v xs first (len div 2)
      else upper_bound key v xs (first + len div 2 + 1) (len - len div 2 - 1))"
  by (subst upper_bound.simps) (simp add: Let_def)

lemma upper_bound_bounds: "first \<le> upper_bound key v xs first len \<and> upper_bound key v xs first len \<le> first + len"
proof (induction len arbitrary: first rule: less_induct)
  case (less len)
  show ?case
  proof (cases "len = 0")
    case False
    then have "len div 2 < len" "len - len div 2 - 1 < len" by auto
    from less.IH [OF this(1), of first] less.IH [OF this(2), of "first + len div 2 + 1"] show ?thesis
      using False by (simp add: upper_bound_step)
  qed simp
qed

text \<open>The invariant of the search: before \<open>first\<close> nothing is greater than \<open>v\<close>, from \<open>first + len\<close> on everything is.\<close>

lemma upper_bound_sorted:
  assumes "sorted (map key xs)" "first + len \<le> length xs"
    and "\<forall>i < first. key (xs ! i) \<le> v" "\<forall>i. first + len \<le> i \<and> i < length xs \<longrightarrow> v < key (xs ! i)"
  shows "(\<forall>i < upper_bound key v xs first len. key (xs ! i) \<le> v)
    \<and> (\<forall>i. upper_bound key v xs first len \<le> i \<and> i < length xs \<longrightarrow> v < key (xs ! i))"
  using assms(2-)
proof (induction len arbitrary: first rule: less_induct)
  case (less len)
  have le: "key (xs ! i) \<le> key (xs ! j)" if "i \<le> j" "j < length xs" for i j
    using sorted_nth_mono [OF assms(1) that(1)] that by simp
  let ?h = "len div 2"
  show ?case
  proof (cases "len = 0")
    case True
    then show ?thesis using less.prems by simp
  next
    case False
    show ?thesis
    proof (cases "v < key (xs ! (first + ?h))")
      case True
      have "v < key (xs ! i)" if "first + ?h \<le> i" "i < length xs" for i using le [OF that] True by linarith
      moreover have "?h < len" "first + ?h \<le> length xs" using False less.prems(1) by auto
      moreover have "upper_bound key v xs first len = upper_bound key v xs first ?h" using False True by (simp add: upper_bound_step)
      ultimately show ?thesis using less.IH [of ?h first] less.prems(2) by metis
    next
      case f: False
      have "key (xs ! i) \<le> v" if "i < first + ?h + 1" for i
      proof -
        have "first + ?h < length xs" using less.prems(1) False by auto
        then show ?thesis using le [of i "first + ?h"] that f by linarith
      qed
      moreover have "first + ?h + 1 + (len - ?h - 1) = first + len" "len - ?h - 1 < len" using False by simp_all
      moreover have "upper_bound key v xs first len = upper_bound key v xs (first + ?h + 1) (len - ?h - 1)"
        using upper_bound_step [of len key v xs first] False f by simp
      ultimately show ?thesis using less.IH [of "len - ?h - 1" "first + ?h + 1"] less.prems(1,3) by metis
    qed
  qed
qed

text \<open>Also in a vector that is not sorted the first element is compared before the search ends on it.\<close>

lemma upper_bound_nonzero:
  assumes "key (xs ! 0) \<le> v" "0 < len"
  shows "upper_bound key v xs 0 len \<noteq> 0"
  using assms(2)
proof (induction len rule: less_induct)
  case (less len)
  show ?case
  proof (cases "v < key (xs ! (len div 2))")
    case True
    then have "0 < len div 2" using assms(1) by (cases "len div 2 = 0") auto
    then show ?thesis using upper_bound_step [of len key v xs 0] less True by simp
  next
    case False
    have "len div 2 + 1 \<le> upper_bound key v xs (len div 2 + 1) (len - len div 2 - 1)" using upper_bound_bounds by blast
    then show ?thesis using upper_bound_step [of len key v xs 0] less.prems False by simp
  qed
qed

subsection \<open>Zones in which offset changes do not overlap\<close>

text \<open>The offset in force after \<open>k\<close> transitions, and what the clock shows at a transition by the old and by the new offset.\<close>

definition zone_offset :: "zone_data \<Rightarrow> nat \<Rightarrow> int" where
  "zone_offset d k = utcOffset (localtimes d ! (if k = 0 then 0 else tr_localtimeIdx (transitions d ! (k - 1))))"

definition shown_before :: "zone_data \<Rightarrow> nat \<Rightarrow> int" where
  "shown_before d i = tr_utctime (transitions d ! i) + zone_offset d i"

definition shown_after :: "zone_data \<Rightarrow> nat \<Rightarrow> int" where
  "shown_after d i = tr_utctime (transitions d ! i) + zone_offset d (Suc i)"

definition zone_spaced :: "zone_data \<Rightarrow> bool" where
  "zone_spaced d \<longleftrightarrow> (\<forall>i < length (transitions d) - 1.
     max (shown_before d i) (shown_after d i) < min (shown_before d (Suc i)) (shown_after d (Suc i)))"

definition zone_ok :: "zone_data \<Rightarrow> bool" where
  "zone_ok d \<longleftrightarrow> localtimes d \<noteq> [] \<and> list_all (\<lambda>l. \<bar>utcOffset l\<bar> \<le> 2 ^ 31) (localtimes d)
     \<and> list_all (\<lambda>t. tr_localtimeIdx t < length (localtimes d) \<and> \<bar>tr_utctime t\<bar> \<le> 2 ^ 61
         \<and> tr_localtime t = tr_utctime t + utcOffset (localtimes d ! tr_localtimeIdx t)) (transitions d)
     \<and> zone_spaced d"

definition in_segment :: "zone_data \<Rightarrow> nat \<Rightarrow> int \<Rightarrow> bool" where
  "in_segment d k t \<longleftrightarrow> k \<le> length (transitions d) \<and> (k = 0 \<or> tr_utctime (transitions d ! (k - 1)) \<le> t)
     \<and> (k < length (transitions d) \<longrightarrow> t < tr_utctime (transitions d ! k))"

lemma zone_spaced_mono:
  assumes "zone_spaced d" "i < j" "j < length (transitions d)"
  shows "max (shown_before d i) (shown_after d i) < min (shown_before d j) (shown_after d j)"
  using assms(2,3)
proof (induction j)
  case (Suc j)
  have step: "max (shown_before d j) (shown_after d j) < min (shown_before d (Suc j)) (shown_after d (Suc j))"
    using assms(1) Suc.prems by (simp add: zone_spaced_def)
  show ?case
  proof (cases "i = j")
    case False
    then have "max (shown_before d i) (shown_after d i) < min (shown_before d j) (shown_after d j)" using Suc by simp
    then show ?thesis using step by linarith
  qed (use step in simp)
qed simp

lemma zone_utc_mono:
  assumes "zone_spaced d" "i < j" "j < length (transitions d)"
  shows "tr_utctime (transitions d ! i) < tr_utctime (transitions d ! j)"
  using assms(2,3)
proof (induction j)
  case (Suc j)
  have "max (shown_before d j) (shown_after d j) < min (shown_before d (Suc j)) (shown_after d (Suc j))"
    using zone_spaced_mono [OF assms(1), of j "Suc j"] Suc.prems by simp
  then have "shown_after d j < shown_before d (Suc j)" by linarith
  then have "tr_utctime (transitions d ! j) < tr_utctime (transitions d ! Suc j)" by (simp add: shown_after_def shown_before_def)
  then show ?case using Suc by (cases "i = j") auto
qed simp

lemma sorted_by_nth: "(\<And>i j. i < j \<Longrightarrow> j < length xs \<Longrightarrow> key (xs ! i) < key (xs ! j)) \<Longrightarrow> sorted (map key xs)" for key :: "'a \<Rightarrow> int"
  unfolding sorted_iff_nth_mono_less by (auto intro: less_imp_le)

lemma zone_offset_bound: "zone_ok d \<Longrightarrow> k \<le> length (transitions d) \<Longrightarrow> \<bar>zone_offset d k\<bar> \<le> 2 ^ 31"
  by (auto simp: zone_ok_def zone_offset_def list_all_length)

lemma local_at_offset:
  assumes "zone_ok d" "k \<le> length (transitions d)"
  shows "\<exists>loc. local_at d (if k = 0 then 0 else tr_localtimeIdx (transitions d ! (k - 1))) = Inr loc \<and> utcOffset loc = zone_offset d k"
  using assms by (auto simp: zone_ok_def local_at_def zone_offset_def list_all_length)

lemma zone_localtime: "zone_ok d \<Longrightarrow> i < length (transitions d) \<Longrightarrow> tr_localtime (transitions d ! i) = shown_after d i"
  by (simp add: zone_ok_def list_all_length shown_after_def zone_offset_def)

text \<open>\<open>findLocalTime\<close> yields the offset of the segment of the instant.\<close>

lemma findLocalTime_segment:
  assumes "zone_ok d"
  shows "\<exists>k loc. in_segment d k t \<and> findLocalTime d t = Inr loc \<and> utcOffset loc = zone_offset d k"
proof -
  let ?ts = "transitions d"
  have sp: "zone_spaced d" using assms by (simp add: zone_ok_def)
  show ?thesis
  proof (cases "?ts = [] \<or> t < tr_utctime (hd ?ts)")
    case True
    then show ?thesis using local_at_offset [OF assms, of 0]
      by (intro exI [of _ 0]) (auto simp: in_segment_def findLocalTime_def hd_conv_nth)
  next
    case False
    define k where "k = upper_bound tr_utctime t ?ts 0 (length ?ts)"
    have "sorted (map tr_utctime ?ts)" by (rule sorted_by_nth) (rule zone_utc_mono [OF sp])
    then have b: "\<forall>i < k. tr_utctime (?ts ! i) \<le> t" "\<forall>i. k \<le> i \<and> i < length ?ts \<longrightarrow> t < tr_utctime (?ts ! i)"
      using upper_bound_sorted [of tr_utctime ?ts 0 "length ?ts" t] by (simp_all add: k_def)
    have k: "k \<noteq> 0" "k \<le> length ?ts"
      using upper_bound_nonzero [of tr_utctime ?ts t "length ?ts"] upper_bound_bounds [of 0 tr_utctime t ?ts "length ?ts"] False
      by (auto simp: k_def hd_conv_nth)
    moreover have "k - 1 < k" using k by simp
    ultimately have "in_segment d k t" using b by (simp add: in_segment_def)
    moreover have "findLocalTime d t = local_at d (tr_localtimeIdx (?ts ! (k - 1)))"
      using False k by (auto simp: findLocalTime_def Let_def k_def [symmetric] last_conv_nth)
    ultimately show ?thesis using local_at_offset [OF assms k(2)] k(1) by auto
  qed
qed

lemma in_segment_unique:
  assumes "zone_ok d" "in_segment d k t" "in_segment d k' t"
  shows "k = k'"
proof -
  have False if "i < j" "in_segment d i t" "in_segment d j t" for i j
  proof -
    have "t < tr_utctime (transitions d ! i)" "tr_utctime (transitions d ! (j - 1)) \<le> t" "j - 1 < length (transitions d)" "i = j - 1 \<or> i < j - 1"
      using that by (auto simp: in_segment_def)
    then show False using zone_utc_mono [of d i "j - 1"] assms(1) by (auto simp: zone_ok_def)
  qed
  then show ?thesis using assms(2,3) by (metis linorder_neqE_nat)
qed

text \<open>The number of transitions whose new local time is reached, and the offset that is chosen.\<close>

definition in_local_segment :: "zone_data \<Rightarrow> nat \<Rightarrow> int \<Rightarrow> bool" where
  "in_local_segment d k l \<longleftrightarrow> k \<le> length (transitions d) \<and> (k = 0 \<or> shown_after d (k - 1) \<le> l)
     \<and> (k < length (transitions d) \<longrightarrow> l < shown_after d k)"

definition chosen_segment :: "zone_data \<Rightarrow> nat \<Rightarrow> int \<Rightarrow> bool \<Rightarrow> nat" where
  "chosen_segment d k l post =
     (if k = 0 \<or> k = length (transitions d) then k
      else if shown_before d k \<le> l then (if post then Suc k else k)
      else if 2 \<le> k \<and> l < shown_before d (k - 1) \<and> \<not> post then k - 1 else k)"

lemma findLocalTime_local_segment:
  assumes "zone_ok d"
  shows "\<exists>k. in_local_segment d k (fromUtcTime lt) \<and> (\<forall>post. \<exists>loc. findLocalTime_local d lt post = Inr loc
    \<and> utcOffset loc = zone_offset d (chosen_segment d k (fromUtcTime lt) post))"
proof -
  let ?ts = "transitions d" and ?l = "fromUtcTime lt"
  have sp: "zone_spaced d" using assms by (simp add: zone_ok_def)
  show ?thesis
  proof (cases "?ts = [] \<or> ?l < tr_localtime (hd ?ts)")
    case True
    then show ?thesis using local_at_offset [OF assms, of 0] zone_localtime [OF assms, of 0]
      by (intro exI [of _ 0]) (auto simp: in_local_segment_def findLocalTime_local_def chosen_segment_def hd_conv_nth)
  next
    case False
    define k where "k = upper_bound tr_localtime ?l ?ts 0 (length ?ts)"
    have "sorted (map tr_localtime ?ts)"
    proof (rule sorted_by_nth)
      fix i j assume "i < j" "j < length ?ts"
      then show "tr_localtime (?ts ! i) < tr_localtime (?ts ! j)"
        using zone_spaced_mono [OF sp, of i j] zone_localtime [OF assms] by auto
    qed
    then have b: "\<forall>i < k. tr_localtime (?ts ! i) \<le> ?l" "\<forall>i. k \<le> i \<and> i < length ?ts \<longrightarrow> ?l < tr_localtime (?ts ! i)"
      using upper_bound_sorted [of tr_localtime ?ts 0 "length ?ts" ?l] by (simp_all add: k_def)
    have k: "k \<noteq> 0" "k \<le> length ?ts"
      using upper_bound_nonzero [of tr_localtime ?ts ?l "length ?ts"] upper_bound_bounds [of 0 tr_localtime ?l ?ts "length ?ts"] False
      by (auto simp: k_def hd_conv_nth)
    have seg: "in_local_segment d k ?l"
      using b k by (auto simp: in_local_segment_def zone_localtime [OF assms, symmetric])
    have at: "\<exists>loc. local_at d (tr_localtimeIdx (?ts ! (j - 1))) = Inr loc \<and> utcOffset loc = zone_offset d j" if "0 < j" "j \<le> length ?ts" for j
      using local_at_offset [OF assms that(2)] that(1) by simp
    have wrap: "wrap64 (tr_utctime (?ts ! i) - 1 + zone_offset d i) = shown_before d i - 1" if "i < length ?ts" for i
    proof -
      have "\<bar>tr_utctime (?ts ! i)\<bar> \<le> 2 ^ 61" "\<bar>zone_offset d i\<bar> \<le> 2 ^ 31"
        using assms that zone_offset_bound [OF assms, of i] by (auto simp: zone_ok_def list_all_length)
      then show ?thesis by (subst wrap64_id) (auto simp: shown_before_def)
    qed
    have "\<exists>loc. findLocalTime_local d lt post = Inr loc \<and> utcOffset loc = zone_offset d (chosen_segment d k ?l post)" for post
    proof (cases "k = length ?ts")
      case True
      then show ?thesis using at [of k] k False
        by (auto simp: findLocalTime_local_def Let_def k_def [symmetric] last_conv_nth chosen_segment_def)
    next
      case n: False
      obtain a where a: "local_at d (tr_localtimeIdx (?ts ! (k - 1))) = Inr a" "utcOffset a = zone_offset d k" using at [of k] k by auto
      obtain c where c: "local_at d (tr_localtimeIdx (?ts ! k)) = Inr c" "utcOffset c = zone_offset d (Suc k)" using at [of "Suc k"] k n by auto
      show ?thesis
      proof (cases "2 \<le> k")
        case True
        obtain e where e: "local_at d (tr_localtimeIdx (?ts ! (k - 2))) = Inr e" "utcOffset e = zone_offset d (k - 1)"
          using at [of "k - 1"] k True le_diff_conv [of k 1 "length ?ts"] by (auto simp: numeral_2_eq_2)
        show ?thesis using False k n True a c e wrap [of k] wrap [of "k - 1"]
          by (auto simp: findLocalTime_local_def Let_def k_def [symmetric] chosen_segment_def)
      next
        case k1: False
        then show ?thesis using False k n a c wrap [of k]
          by (auto simp: findLocalTime_local_def Let_def k_def [symmetric] chosen_segment_def)
      qed
    qed
    then show ?thesis using seg by blast
  qed
qed

text \<open>A local time that some instant has: the chosen offset belongs to the segment it leads to.\<close>

lemma chosen_segment_fits:
  assumes "zone_ok d" "in_segment d m t" "l = t + zone_offset d m" "in_local_segment d k l"
  shows "in_segment d (chosen_segment d k l post) (l - zone_offset d (chosen_segment d k l post))"
proof -
  let ?n = "length (transitions d)"
  have sp: "zone_spaced d" using assms(1) by (simp add: zone_ok_def)
  have fits: "in_segment d j (l - zone_offset d j)"
    if "j \<le> ?n" "j = 0 \<or> shown_after d (j - 1) \<le> l" "j < ?n \<longrightarrow> l < shown_before d j" for j
    using that by (cases j) (auto simp: in_segment_def shown_after_def shown_before_def)
  have m: "m \<le> ?n" "m = 0 \<or> shown_after d (m - 1) \<le> l" "m < ?n \<longrightarrow> l < shown_before d m"
    using assms(2,3) by (cases m; simp add: in_segment_def shown_after_def shown_before_def)+
  have k: "k \<le> ?n" "k = 0 \<or> shown_after d (k - 1) \<le> l" "k < ?n \<longrightarrow> l < shown_after d k"
    using assms(4) by (simp_all add: in_local_segment_def)
  have mk: "m \<le> k"
  proof (rule ccontr)
    assume "\<not> m \<le> k"
    then have "k < ?n" "shown_after d (m - 1) \<le> l" "k = m - 1 \<or> k < m - 1" "m - 1 < ?n" using m by auto
    then show False using k(3) zone_spaced_mono [OF sp, of k "m - 1"] by auto
  qed
  have below: "l < shown_before d k" if "k < ?n"
  proof (cases "m = k")
    case False
    then have "l < shown_before d m" using mk that m(3) by simp
    then show ?thesis using zone_spaced_mono [OF sp, of m k] mk False that by simp
  qed (use that m in simp)
  show ?thesis
  proof (cases "2 \<le> k \<and> k < ?n \<and> l < shown_before d (k - 1) \<and> \<not> post")
    case True
    have "k - 1 - 1 < k - 1" "k - 1 < ?n" using True by auto
    then have "shown_after d (k - 1 - 1) < shown_after d (k - 1)" using zone_spaced_mono [OF sp, of "k - 1 - 1" "k - 1"] by simp
    then have "in_segment d (k - 1) (l - zone_offset d (k - 1))" using k True by (intro fits) auto
    moreover have "chosen_segment d k l post = k - 1" using True below by (auto simp: chosen_segment_def)
    ultimately show ?thesis by simp
  next
    case False
    then have "chosen_segment d k l post = k" using below k(1) by (auto simp: chosen_segment_def)
    then show ?thesis using fits [OF k(1,2)] below by simp
  qed
qed

text \<open>The offset of the instant itself is chosen for one value of the flag, unless the local time is repeated at the first or
  the last transition and the instant is the earlier one.\<close>

lemma chosen_segment_same:
  assumes "zone_ok d" "in_segment d m t" "l = t + zone_offset d m" "in_local_segment d k l"
    and "\<not> (m < length (transitions d) \<and> (m = 0 \<or> Suc m = length (transitions d)) \<and> shown_after d m \<le> l)"
  shows "chosen_segment d k l (k = m) = m"
proof -
  let ?n = "length (transitions d)"
  have sp: "zone_spaced d" using assms(1) by (simp add: zone_ok_def)
  have m: "m \<le> ?n" "m = 0 \<or> shown_after d (m - 1) \<le> l" "m < ?n \<longrightarrow> l < shown_before d m"
    using assms(2,3) by (cases m; simp add: in_segment_def shown_after_def shown_before_def)+
  have k: "k \<le> ?n" "k = 0 \<or> shown_after d (k - 1) \<le> l" "k < ?n \<longrightarrow> l < shown_after d k"
    using assms(4) by (simp_all add: in_local_segment_def)
  show ?thesis
  proof (cases "k = m")
    case True
    then show ?thesis using m by (auto simp: chosen_segment_def)
  next
    case False
    have "\<not> k < m"
    proof
      assume "k < m"
      then have "k < ?n" "shown_after d (m - 1) \<le> l" "k = m - 1 \<or> k < m - 1" "m - 1 < ?n" using m by auto
      then show False using k(3) zone_spaced_mono [OF sp, of k "m - 1"] by auto
    qed
    then have mk: "m < k" using False by simp
    then have m_n: "m < ?n" "l < shown_before d m" using k(1) m(3) by auto
    have "\<not> Suc m < k"
    proof
      assume "Suc m < k"
      then have "m < k - 1" "k - 1 < ?n" using k(1) by auto
      then show False using zone_spaced_mono [OF sp, of m "k - 1"] k(2) m_n mk by auto
    qed
    then have ks: "k = Suc m" using mk by simp
    then have "shown_after d m \<le> l" using k(2) by simp
    then have inner: "m \<noteq> 0" "Suc m \<noteq> ?n" using assms(5) m_n(1) by auto
    then have "l < shown_before d k" using zone_spaced_mono [OF sp, of m k] ks k(1) m_n(2) by auto
    then show ?thesis using ks inner m_n by (auto simp: chosen_segment_def)
  qed
qed

subsection \<open>Properties\<close>

definition zone_time :: "int \<Rightarrow> bool" where
  "zone_time t \<longleftrightarrow> - 213635404800 + 2 ^ 33 \<le> t \<and> t \<le> 2 ^ 40"

lemma toLocalTime_shown:
  assumes "zone_ok d" "in_segment d k t" "- 213635404800 + 2 ^ 32 \<le> t" "t \<le> 2 ^ 41"
  shows "toLocalTime (Some d) t = Inr (BreakTime (t + zone_offset d k), zone_offset d k)"
    and "fromUtcTime (BreakTime (t + zone_offset d k)) = t + zone_offset d k"
proof -
  obtain k' loc where f: "in_segment d k' t" "findLocalTime d t = Inr loc" "utcOffset loc = zone_offset d k'"
    using findLocalTime_segment [OF assms(1)] by blast
  have "k' = k" using in_segment_unique [OF assms(1) f(1) assms(2)] .
  moreover have o: "\<bar>zone_offset d k\<bar> \<le> 2 ^ 31" using zone_offset_bound [OF assms(1)] assms(2) by (simp add: in_segment_def)
  moreover have "wrap64 (t + zone_offset d k) = t + zone_offset d k" using o assms(3,4) by (intro wrap64_id) auto
  ultimately show "toLocalTime (Some d) t = Inr (BreakTime (t + zone_offset d k), zone_offset d k)"
    using f by (simp add: toLocalTime_def)
  show "fromUtcTime (BreakTime (t + zone_offset d k)) = t + zone_offset d k"
    using o assms(3,4) by (intro fromUtcTime_BreakTime) (auto simp: time_ok_def)
qed

lemma zone_conversions:
  assumes "zone_ok d" "zone_time t" "toLocalTime (Some d) t = Inr (dt, off)"
  shows "\<exists>t'. fromLocalTime (Some d) dt post = Inr t' \<and> (\<exists>off'. toLocalTime (Some d) t' = Inr (dt, off'))
      \<and> ((\<forall>t'' off''. toLocalTime (Some d) t'' = Inr (dt, off'') \<longrightarrow> t'' = t) \<longrightarrow> t' = t)"
    and "\<forall>i < length (transitions d). i = 0 \<or> Suc i = length (transitions d) \<longrightarrow>
        \<not> (t < tr_utctime (transitions d ! i) \<and> shown_after d i \<le> t + off) \<Longrightarrow> \<exists>post. fromLocalTime (Some d) dt post = Inr t"
proof -
  obtain m where m: "in_segment d m t" using findLocalTime_segment [OF assms(1)] by blast
  have range: "- 213635404800 + 2 ^ 32 \<le> t" "t \<le> 2 ^ 41" using assms(2) by (simp_all add: zone_time_def)
  define l where "l = t + zone_offset d m"
  have dt: "dt = BreakTime l" "off = zone_offset d m" "fromUtcTime dt = l"
    using toLocalTime_shown [OF assms(1) m range] assms(3) by (simp_all add: l_def)
  have om: "\<bar>zone_offset d m\<bar> \<le> 2 ^ 31" using zone_offset_bound [OF assms(1)] m by (simp add: in_segment_def)
  obtain k where k: "in_local_segment d k l"
    "\<And>post. \<exists>loc. findLocalTime_local d dt post = Inr loc \<and> utcOffset loc = zone_offset d (chosen_segment d k l post)"
    using findLocalTime_local_segment [OF assms(1), of dt] dt(3) by auto
  have conv: "fromLocalTime (Some d) dt post = Inr (l - zone_offset d (chosen_segment d k l post))" for post
  proof -
    have "\<bar>zone_offset d (chosen_segment d k l post)\<bar> \<le> 2 ^ 31"
      using zone_offset_bound [OF assms(1)] chosen_segment_fits [OF assms(1) m l_def k(1)] by (simp add: in_segment_def)
    then have "wrap64 (l - zone_offset d (chosen_segment d k l post)) = l - zone_offset d (chosen_segment d k l post)"
      using om assms(2) by (intro wrap64_id) (auto simp: l_def zone_time_def)
    then show ?thesis using k(2) [of post] dt(3) by (auto simp: fromLocalTime_def)
  qed
  let ?j = "chosen_segment d k l post"
  have j: "in_segment d ?j (l - zone_offset d ?j)" by (rule chosen_segment_fits [OF assms(1) m l_def k(1)])
  then have oj: "\<bar>zone_offset d ?j\<bar> \<le> 2 ^ 31" using zone_offset_bound [OF assms(1)] by (simp add: in_segment_def)
  have "toLocalTime (Some d) (l - zone_offset d ?j) = Inr (BreakTime (l - zone_offset d ?j + zone_offset d ?j), zone_offset d ?j)"
    using om oj assms(2) by (intro toLocalTime_shown [OF assms(1) j]) (auto simp: l_def zone_time_def)
  then have "toLocalTime (Some d) (l - zone_offset d ?j) = Inr (dt, zone_offset d ?j)" using dt(1) by simp
  then show "\<exists>t'. fromLocalTime (Some d) dt post = Inr t' \<and> (\<exists>off'. toLocalTime (Some d) t' = Inr (dt, off'))
      \<and> ((\<forall>t'' off''. toLocalTime (Some d) t'' = Inr (dt, off'') \<longrightarrow> t'' = t) \<longrightarrow> t' = t)"
    using conv by blast
  assume h: "\<forall>i < length (transitions d). i = 0 \<or> Suc i = length (transitions d) \<longrightarrow>
        \<not> (t < tr_utctime (transitions d ! i) \<and> shown_after d i \<le> t + off)"
  have "\<not> (m < length (transitions d) \<and> (m = 0 \<or> Suc m = length (transitions d)) \<and> shown_after d m \<le> l)"
    using h [rule_format, of m] m unfolding dt(2) l_def in_segment_def by blast
  from conv [of "k = m"] chosen_segment_same [OF assms(1) m l_def k(1) this]
  show "\<exists>post. fromLocalTime (Some d) dt post = Inr t" by (auto simp: l_def)
qed


text \<open>Beijing from September 1989 to September 1991: the second of the two instants that show half past one on 16 September
  1990.\<close>

definition prc_zone :: zone_data where
  "prc_zone = \<lparr>transitions = map (\<lambda>(t, off, i). \<lparr>tr_utctime = t, tr_localtime = t + off, tr_localtimeIdx = i\<rparr>)
       [(621968400, 28800, 0), (640116000, 32400, 1), (653418000, 28800, 0), (671565600, 32400, 1), (684867600, 28800, 0)],
     localtimes = [\<lparr>utcOffset = 28800, isDst = False, desigIdx = 0\<rparr>, \<lparr>utcOffset = 32400, isDst = True, desigIdx = 4\<rparr>],
     abbreviation_of = lit ''CST'' @ [0] @ lit ''CDT'' @ [0], tzstring = []\<rparr>"


end
