(* ===== verification/Zone_File.thy ===== *)
theory Zone_File
  imports Time_Zone
begin

section \<open>Zone files\<close>

text \<open>
  The format of RFC 8536 as the reader of \<open>base/TimeZone.cc\<close> sees it: a file written in the second version is read back as the data
  it was written from, every file yields a zone or none, and which zones convert times without fault. The locale
  \<open>tz_field\<close> is the contract between a field and its reader.
\<close>

text \<open>A file of which \<open>bs\<close> has been read and \<open>rest\<close> has not.\<close>

definition tz_at :: "bytes \<Rightarrow> bytes \<Rightarrow> tz_file" where
  "tz_at bs rest = \<lparr>tz_content = bs @ rest, tz_pos = length bs\<rparr>"

lemma tz_read_at: "length bs = n \<Longrightarrow> tz_read n (tz_at pre (bs @ rest)) = Inr (bs, tz_at (pre @ bs) rest)"
  by (simp add: tz_read_def tz_at_def)

lemma tz_skip_at: "length bs = n \<Longrightarrow> tz_skip (int n) (tz_at pre (bs @ rest)) = tz_at (pre @ bs) rest"
  by (simp add: tz_skip_def tz_at_def nat_add_distrib)

locale tz_field =
  fixes rd :: "tz_file \<Rightarrow> tz_throw + ('a \<times> tz_file)" and enc :: "'a \<Rightarrow> bytes" and valid :: "'a \<Rightarrow> bool"
  assumes rd_enc: "valid x \<Longrightarrow> rd (tz_at pre (enc x @ rest)) = Inr (x, tz_at (pre @ enc x) rest)"
begin

lemma read_times_enc:
  "list_all valid xs \<Longrightarrow> read_times rd (length xs) (tz_at pre (concat (map enc xs) @ rest)) = Inr (xs, tz_at (pre @ concat (map enc xs)) rest)"
  by (induction xs arbitrary: pre) (simp_all add: rd_enc)

lemma read_vector_enc:
  "list_all valid xs \<Longrightarrow> read_vector rd (int (length xs)) (tz_at pre (concat (map enc xs) @ rest)) = Inr (xs, tz_at (pre @ concat (map enc xs)) rest)"
  by (simp add: read_vector_def read_times_enc)

end

definition enc_int32 :: "int \<Rightarrow> bytes" where
  "enc_int32 i = be_bytes 4 (word_of_int i :: 32 word)"

definition enc_int64 :: "int \<Rightarrow> bytes" where
  "enc_int64 i = be_bytes 8 (word_of_int i :: 64 word)"

definition is_int64 :: "int \<Rightarrow> bool" where
  "is_int64 i \<longleftrightarrow> - (2 ^ 63) \<le> i \<and> i < 2 ^ 63"

definition enc_uint8 :: "nat \<Rightarrow> bytes" where
  "enc_uint8 n = [of_nat n]"

definition enc_ttinfo :: "int \<times> bool \<times> nat \<Rightarrow> bytes" where
  "enc_ttinfo = (\<lambda>(off, dst, i). enc_int32 off @ enc_uint8 (if dst then 1 else 0) @ enc_uint8 i)"

lemma length_enc [simp]: "length (enc_int32 i) = 4" "length (enc_int64 i) = 8" "length (enc_uint8 n) = 1" "length (enc_ttinfo x) = 6"
  by (simp_all add: enc_int32_def enc_int64_def enc_uint8_def enc_ttinfo_def split: prod.split)

lemma sint_word_of_int_32: "is_int32 i \<Longrightarrow> sint (word_of_int i :: 32 word) = i"
  by (simp add: is_int32_def signed_of_int signed_take_bit_int_eq_self)

lemma sint_word_of_int_64: "is_int64 i \<Longrightarrow> sint (word_of_int i :: 64 word) = i"
  by (simp add: is_int64_def signed_of_int signed_take_bit_int_eq_self)

interpretation i32: tz_field tz_readInt32 enc_int32 is_int32
proof
  fix x pre rest
  assume "is_int32 x"
  then show "tz_readInt32 (tz_at pre (enc_int32 x @ rest)) = Inr (x, tz_at (pre @ enc_int32 x) rest)"
    by (simp add: tz_readInt32_def tz_read_at) (simp add: enc_int32_def sint_word_of_int_32)
qed

interpretation i64: tz_field tz_readInt64 enc_int64 is_int64
proof
  fix x pre rest
  assume "is_int64 x"
  then show "tz_readInt64 (tz_at pre (enc_int64 x @ rest)) = Inr (x, tz_at (pre @ enc_int64 x) rest)"
    by (simp add: tz_readInt64_def tz_read_at) (simp add: enc_int64_def sint_word_of_int_64)
qed

interpretation u8: tz_field tz_readUInt8 enc_uint8 "\<lambda>n. n < 256"
proof
  fix x :: nat and pre rest
  assume "x < 256"
  moreover have "of_be_bytes [w] = w" for w :: byte by (simp add: of_be_bytes_def)
  ultimately show "tz_readUInt8 (tz_at pre (enc_uint8 x @ rest)) = Inr (x, tz_at (pre @ enc_uint8 x) rest)"
    by (simp add: tz_readUInt8_def tz_read_at) (simp add: enc_uint8_def unat_of_nat take_bit_nat_eq_self)
qed

interpretation ttinfo: tz_field read_ttinfo enc_ttinfo "\<lambda>(off, dst, i). is_int32 off \<and> i < 256"
proof
  fix x :: "int \<times> bool \<times> nat" and pre rest
  assume v: "case x of (off, dst, i) \<Rightarrow> is_int32 off \<and> i < 256"
  obtain off dst i where x: "x = (off, dst, i)" by (cases x)
  have d: "(if dst then 1 else 0) < (256 :: nat)" by simp
  show "read_ttinfo (tz_at pre (enc_ttinfo x @ rest)) = Inr (x, tz_at (pre @ enc_ttinfo x) rest)"
    using v u8.rd_enc [OF d] by (simp add: x read_ttinfo_def enc_ttinfo_def i32.rd_enc u8.rd_enc)
qed

subsection \<open>Writing a zone\<close>

definition zone_counts :: "bytes \<Rightarrow> bytes \<Rightarrow> zone_data \<Rightarrow> int list" where
  "zone_counts isut isstd d = [int (length isut), int (length isstd), 0, int (length (transitions d)), int (length (localtimes d)),
     int (length (abbreviation_of d))]"

definition ttinfos :: "zone_data \<Rightarrow> (int \<times> bool \<times> nat) list" where
  "ttinfos d = map (\<lambda>l. (utcOffset l, isDst l, desigIdx l)) (localtimes d)"

definition tz_header :: "byte \<Rightarrow> int list \<Rightarrow> bytes" where
  "tz_header version counts = lit ''TZif'' @ [version] @ replicate 15 0 @ concat (map enc_int32 counts)"

definition zone_body :: "bytes \<Rightarrow> bytes \<Rightarrow> zone_data \<Rightarrow> bytes" where
  "zone_body isut isstd d = concat (map enc_int64 (map tr_utctime (transitions d))) @ concat (map enc_uint8 (map tr_localtimeIdx (transitions d)))
     @ concat (map enc_ttinfo (ttinfos d)) @ abbreviation_of d @ isstd @ isut"

text \<open>A file of version 2: any block for readers of version 1, then the data, then the rule for later times.\<close>

definition zone_file :: "int list \<Rightarrow> bytes \<Rightarrow> bytes \<Rightarrow> bytes \<Rightarrow> zone_data \<Rightarrow> bytes" where
  "zone_file counts1 body1 isut isstd d =
     tz_header 50 counts1 @ body1 @ tz_header 50 (zone_counts isut isstd d) @ zone_body isut isstd d @ tzstring d"

definition zone_writable :: "bytes \<Rightarrow> bytes \<Rightarrow> zone_data \<Rightarrow> bool" where
  "zone_writable isut isstd d \<longleftrightarrow> list_all is_int32 (zone_counts isut isstd d)
     \<and> (isut = [] \<or> length isut = length (localtimes d)) \<and> (isstd = [] \<or> length isstd = length (localtimes d))
     \<and> list_all (\<lambda>l. is_int32 (utcOffset l) \<and> desigIdx l < 256) (localtimes d)
     \<and> list_all (\<lambda>t. is_int64 (tr_utctime t) \<and> tr_localtimeIdx t < 256 \<and> tr_localtimeIdx t < length (localtimes d)
          \<and> tr_localtime t = wrap64 (tr_utctime t + utcOffset (localtimes d ! tr_localtimeIdx t))) (transitions d)"

lemma add_localtimes:
  "foldl (\<lambda>d (off, dst, i). addLocalTime off dst i d) d0 (map (\<lambda>l. (utcOffset l, isDst l, desigIdx l)) ls) = d0\<lparr>localtimes := localtimes d0 @ ls\<rparr>"
  by (induction ls arbitrary: d0) (simp_all add: addLocalTime_def)

lemma add_transitions_all:
  assumes "list_all (\<lambda>t. tr_localtimeIdx t < length (localtimes d0)
      \<and> tr_localtime t = wrap64 (tr_utctime t + utcOffset (localtimes d0 ! tr_localtimeIdx t))) ts"
  shows "add_transitions (zip (map tr_utctime ts) (map tr_localtimeIdx ts)) d0 = Inr (d0\<lparr>transitions := transitions d0 @ ts\<rparr>)"
  using assms
proof (induction ts arbitrary: d0)
  case (Cons t ts)
  have "addTransition (tr_utctime t) (tr_localtimeIdx t) d0 = Inr (d0\<lparr>transitions := transitions d0 @ [t]\<rparr>)"
    using Cons.prems by (simp add: addTransition_def)
  then show ?case using Cons by simp
qed simp

lemma readDataBlock_zone:
  assumes "zone_writable isut isstd d"
  shows "readDataBlock False (tz_at pre (concat (map enc_int32 (zone_counts isut isstd d)) @ zone_body isut isstd d @ tzstring d)) = Inr (Some d)"
proof -
  have c: "list_all is_int32 (zone_counts isut isstd d)" "length (zone_counts isut isstd d) = 6"
    using assms by (simp_all add: zone_writable_def zone_counts_def)
  note r = i32.read_times_enc [OF c(1), unfolded c(2)]
  have v: "list_all is_int64 (map tr_utctime (transitions d))" "list_all (\<lambda>n. n < 256) (map tr_localtimeIdx (transitions d))"
    "list_all (\<lambda>(off, dst, i). is_int32 off \<and> i < 256) (ttinfos d)"
    using assms by (auto simp: zone_writable_def ttinfos_def list_all_iff)
  note vec = i64.read_vector_enc [OF v(1), unfolded length_map] u8.read_vector_enc [OF v(2), unfolded length_map]
    ttinfo.read_vector_enc [OF v(3), unfolded ttinfos_def length_map, folded ttinfos_def]
  let ?d0 = "new_zone_data\<lparr>localtimes := localtimes d\<rparr>"
  have l: "foldl (\<lambda>d (off, dst, i). addLocalTime off dst i d) new_zone_data (ttinfos d) = ?d0"
    by (simp add: ttinfos_def add_localtimes new_zone_data_def)
  have t: "add_transitions (zip (map tr_utctime (transitions d)) (map tr_localtimeIdx (transitions d))) ?d0 = Inr (?d0\<lparr>transitions := transitions d\<rparr>)"
    using assms by (subst add_transitions_all) (auto simp: zone_writable_def list_all_iff new_zone_data_def)
  have skip: "tz_skip 0 f = f" for f by (simp add: tz_skip_def)
  have "?d0\<lparr>transitions := transitions d, abbreviation_of := abbreviation_of d, tzstring := tzstring d\<rparr> = d"
    by (cases d) (simp add: new_zone_data_def)
  moreover have "(isut \<noteq> [] \<longrightarrow> length isut = length (localtimes d)) \<and> (isstd \<noteq> [] \<longrightarrow> length isstd = length (localtimes d))"
    using assms by (auto simp: zone_writable_def)
  ultimately show ?thesis
    unfolding readDataBlock_def r
    by (simp add: zone_counts_def zone_body_def vec l t readBytes_def tz_read_at skip tz_skip_at Let_def del: map_map)
      (auto simp: readToEnd_def tz_at_def)
qed

lemma tz_header_read:
  assumes "list_all is_int32 counts" "length counts = 6"
  shows "readBytes 4 (tz_at pre (tz_header v counts @ rest)) = Inr (lit ''TZif'', tz_at (pre @ lit ''TZif'') ([v] @ replicate 15 0 @ concat (map enc_int32 counts) @ rest))"
    and "readBytes 1 (tz_at pre ([v] @ rest)) = Inr ([v], tz_at (pre @ [v]) rest)"
    and "readBytes 15 (tz_at pre (replicate 15 0 @ rest)) = Inr (replicate 15 0, tz_at (pre @ replicate 15 0) rest)"
    and "read_times tz_readInt32 6 (tz_at pre (concat (map enc_int32 counts) @ rest)) = Inr (counts, tz_at (pre @ concat (map enc_int32 counts)) rest)"
proof -
  have "length (lit ''TZif'') = 4" by (simp add: lit_def)
  then show "readBytes 4 (tz_at pre (tz_header v counts @ rest)) =
      Inr (lit ''TZif'', tz_at (pre @ lit ''TZif'') ([v] @ replicate 15 0 @ concat (map enc_int32 counts) @ rest))"
    by (simp add: tz_header_def readBytes_def tz_read_at)
  show "readBytes 1 (tz_at pre ([v] @ rest)) = Inr ([v], tz_at (pre @ [v]) rest)"
    using tz_read_at [of "[v]" 1 pre rest] by (simp add: readBytes_def)
  show "readBytes 15 (tz_at pre (replicate 15 0 @ rest)) = Inr (replicate 15 0, tz_at (pre @ replicate 15 0) rest)"
    by (simp add: readBytes_def tz_read_at)
  show "read_times tz_readInt32 6 (tz_at pre (concat (map enc_int32 counts) @ rest)) = Inr (counts, tz_at (pre @ concat (map enc_int32 counts)) rest)"
    by (rule i32.read_times_enc [OF assms(1), unfolded assms(2)])
qed



subsection \<open>What a file can yield\<close>

lemma add_transitions_indices:
  assumes "add_transitions ts d = Inr d'"
    and "list_all (\<lambda>t. tr_localtimeIdx t < length (localtimes d)) (transitions d)"
  shows "localtimes d' = localtimes d \<and> list_all (\<lambda>t. tr_localtimeIdx t < length (localtimes d)) (transitions d')"
  using assms
proof (induction ts d rule: add_transitions.induct)
  case (2 t i ts d)
  then obtain d1 where d1: "addTransition t i d = Inr d1" "add_transitions ts d1 = Inr d'" by (auto split: sum.splits)
  then have "localtimes d1 = localtimes d" "list_all (\<lambda>t. tr_localtimeIdx t < length (localtimes d1)) (transitions d1)"
    using "2.prems"(2) by (auto simp: addTransition_def split: if_splits)
  then show ?case using "2.IH" [OF d1] by simp
qed simp

lemma transitions_foldl_addLocalTime: "transitions (foldl (\<lambda>d (off, dst, i). addLocalTime off dst i d) d0 ts) = transitions d0"
  by (induction ts arbitrary: d0) (auto simp: addLocalTime_def)

lemma readDataBlock_indices:
  assumes "readDataBlock v1 f = Inr (Some d)"
  shows "list_all (\<lambda>t. tr_localtimeIdx t < length (localtimes d)) (transitions d)"
proof -
  obtain ts types d1 where "add_transitions ts (foldl (\<lambda>d (off, dst, i). addLocalTime off dst i d) new_zone_data types) = Inr d1"
    "localtimes d = localtimes d1" "transitions d = transitions d1"
    using assms unfolding readDataBlock_def Let_def by (auto split: sum.splits if_splits prod.splits)
  then show ?thesis using add_transitions_indices [of ts _ d1] transitions_foldl_addLocalTime [of new_zone_data types]
    by (simp add: new_zone_data_def)
qed

lemma read_zone_indices: "read_zone f = Inr (Some d) \<Longrightarrow> list_all (\<lambda>t. tr_localtimeIdx t < length (localtimes d)) (transitions d)"
  by (auto simp: read_zone_def split: sum.splits prod.splits if_splits dest: readDataBlock_indices)

lemma readTimeZoneFile_indices:
  "readTimeZoneFile file = Inr (Some d) \<Longrightarrow> list_all (\<lambda>t. tr_localtimeIdx t < length (localtimes d)) (transitions d)"
  by (auto simp: readTimeZoneFile_def split: option.splits sum.splits tz_throw.splits intro: read_zone_indices)

lemma findLocalTime_total:
  assumes "localtimes d \<noteq> []" "list_all (\<lambda>t. tr_localtimeIdx t < length (localtimes d)) (transitions d)"
  shows "\<exists>loc. findLocalTime d t = Inr loc" "\<exists>loc. findLocalTime_local d lt post = Inr loc"
proof -
  let ?ts = "transitions d"
  have at: "\<exists>loc. local_at d (tr_localtimeIdx (?ts ! i)) = Inr loc" if "i < length ?ts" for i
    using assms(2) that by (simp add: local_at_def list_all_length)
  have at0: "\<exists>loc. local_at d 0 = Inr loc" using assms(1) by (simp add: local_at_def)
  have lst: "\<exists>loc. local_at d (tr_localtimeIdx (last ?ts)) = Inr loc" if "?ts \<noteq> []" using at [of "length ?ts - 1"] that by (simp add: last_conv_nth)
  have ub: "upper_bound key v ?ts 0 (length ?ts) \<le> length ?ts" for key v using upper_bound_bounds [of 0 key v ?ts "length ?ts"] by simp
  have nz: "upper_bound key v ?ts 0 (length ?ts) \<noteq> 0" if "?ts \<noteq> []" "\<not> v < key (hd ?ts)" for key v
    using upper_bound_nonzero [of key ?ts v "length ?ts"] that by (simp add: hd_conv_nth)
  show "\<exists>loc. findLocalTime d t = Inr loc"
    using at0 lst at [of "upper_bound tr_utctime t ?ts 0 (length ?ts) - 1"] ub [of tr_utctime t] nz [of t tr_utctime]
    by (auto simp: findLocalTime_def Let_def)
  define k where "k = upper_bound tr_localtime (fromUtcTime lt) ?ts 0 (length ?ts)"
  show "\<exists>loc. findLocalTime_local d lt post = Inr loc"
  proof (cases "?ts = [] \<or> fromUtcTime lt < tr_localtime (hd ?ts) \<or> k = length ?ts")
    case True
    then show ?thesis using at0 lst nz [of "fromUtcTime lt" tr_localtime]
      by (auto simp: findLocalTime_local_def Let_def k_def)
  next
    case False
    then have k: "0 < k" "k < length ?ts" using nz [of "fromUtcTime lt" tr_localtime] ub [of tr_localtime "fromUtcTime lt"] by (auto simp: k_def)
    have "k - 1 < length ?ts" "k - 2 < length ?ts" using k by linarith+
    then obtain a b c where "local_at d (tr_localtimeIdx (?ts ! (k - 1))) = Inr a" "local_at d (tr_localtimeIdx (?ts ! k)) = Inr b"
      "local_at d (tr_localtimeIdx (?ts ! (k - 2))) = Inr c" using at k(2) by meson
    then show ?thesis using False k by (auto simp: findLocalTime_local_def Let_def k_def [symmetric])
  qed
qed

text \<open>A zone that was loaded from a file, sorted or not, converts every time without fault, except a file that declares no
  local time type: the reader accepts it, and the first conversion reads an empty vector.\<close>

theorem loaded_zone_converts:
  assumes "readTimeZoneFile file = Inr (Some d)"
  shows "if localtimes d \<noteq> [] then (\<exists>r. toLocalTime (Some d) t = Inr r) \<and> (\<exists>t'. fromLocalTime (Some d) dt post = Inr t')
    else toLocalTime (Some d) t = Inl OutOfBounds \<and> fromLocalTime (Some d) dt post = Inl OutOfBounds"
proof (cases "localtimes d = []")
  case True
  then have "transitions d = []" using readTimeZoneFile_indices [OF assms] by (cases "transitions d") auto
  then show ?thesis
    using True by (simp add: toLocalTime_def fromLocalTime_def findLocalTime_def findLocalTime_local_def local_at_def Let_def)
next
  case False
  obtain a b where "findLocalTime d t = Inr a" "findLocalTime_local d dt post = Inr b"
    using findLocalTime_total [OF False readTimeZoneFile_indices [OF assms]] by blast
  then show ?thesis using False by (simp add: toLocalTime_def fromLocalTime_def)
qed

theorem loaded_zone_converts_witness:
  "readTimeZoneFile (Some (lit ''TZif'' @ replicate 40 0)) = Inr (Some new_zone_data) \<and> toLocalTime (Some new_zone_data) 0 = Inl OutOfBounds"
proof -
  have "readTimeZoneFile (Some (lit ''TZif'' @ replicate 40 0)) = Inr (Some new_zone_data)" by code_simp
  then show ?thesis using loaded_zone_converts [of "Some (lit ''TZif'' @ replicate 40 0)" new_zone_data 0] by (simp add: new_zone_data_def)
qed

end
