(* ===== verification/Log_File.thy ===== *)
theory Log_File
  imports Logging Calendar
begin

section \<open>Log files\<close>

text \<open>
  \<open>base/LogFile.cc\<close> and \<open>AppendFile\<close> of \<open>base/FileUtil.cc\<close>: log lines go to a file that is replaced by a new one when it is large or when a
  new day begins. The clock, the name of the host and the process number are parameters, and so is what each \<open>fwrite\<close>
  reports; files can be opened.
\<close>

record append_file =
  af_time :: int        \<comment> \<open>when it was opened\<close>
  af_name :: bytes
  af_data :: bytes      \<comment> \<open>handed to \<open>fwrite\<close> and taken\<close>
  af_flushed :: nat
  writtenBytes :: nat

definition new_AppendFile :: "int \<Rightarrow> bytes \<Rightarrow> append_file" where
  "new_AppendFile t name = \<lparr>af_time = t, af_name = name, af_data = [], af_flushed = 0, writtenBytes = 0\<rparr>"

text \<open>The loop of \<open>AppendFile::append\<close>: what is written and what is counted. Each element of the first argument is the number of bytes an
  \<open>fwrite\<close> takes and whether \<open>ferror\<close> is set then; further calls take all.\<close>

fun append_loop :: "(nat \<times> bool) list \<Rightarrow> bytes \<Rightarrow> bytes \<times> nat" where
  "append_loop [] line = (line, length line)"
| "append_loop ((n, err) # os) line =
     (if line = [] then ([], 0)
      else let k = min n (length line) in
           if k \<noteq> length line \<and> err then (take k line, 0)
           else let (d, c) = append_loop os (drop k line) in (take k line @ d, k + c))"

definition AppendFile_append :: "(nat \<times> bool) list \<Rightarrow> bytes \<Rightarrow> append_file \<Rightarrow> append_file" where
  "AppendFile_append os line f =
     (let (d, c) = append_loop os line in f\<lparr>af_data := af_data f @ d, writtenBytes := writtenBytes f + c\<rparr>)"

definition AppendFile_flush :: "append_file \<Rightarrow> append_file" where
  "AppendFile_flush f = f\<lparr>af_flushed := length (af_data f)\<rparr>"

record log_file =
  lf_basename :: bytes
  rollSize :: int
  flushInterval :: int
  checkEveryN :: int
  lf_count :: int
  startOfPeriod :: int
  lastRoll :: int
  lastFlush :: int
  lf_file :: "append_file option"
  lf_closed :: "append_file list"

record log_host =
  lh_hostname :: bytes
  lh_pid :: int

definition kRollPerSeconds :: int where "kRollPerSeconds = 60 * 60 * 24"

definition getLogFileName :: "log_host \<Rightarrow> bytes \<Rightarrow> int \<Rightarrow> bytes" where
  "getLogFileName h basename now =
     (let t = toUtcTime now
      in basename @ lit ''.'' @ show_int (dt_year t) @ fmt_0d 2 (dt_month t) @ fmt_0d 2 (dt_day t) @ lit ''-'' @ fmt_0d 2 (dt_hour t)
           @ fmt_0d 2 (dt_minute t) @ fmt_0d 2 (dt_second t) @ lit ''.'' @ lh_hostname h @ lit ''.'' @ show_int (lh_pid h) @ lit ''.log'')"

definition rollFile :: "log_host \<Rightarrow> int \<Rightarrow> log_file \<Rightarrow> bool \<times> log_file" where
  "rollFile h now s =
     (let filename = getLogFileName h (lf_basename s) now; start = now sdiv kRollPerSeconds * kRollPerSeconds
      in if now > lastRoll s
         then (True, s\<lparr>lastRoll := now, lastFlush := now, startOfPeriod := start,
                 lf_closed := lf_closed s @ (case lf_file s of None \<Rightarrow> [] | Some f \<Rightarrow> [f]), lf_file := Some (new_AppendFile now filename)\<rparr>)
         else (False, s))"

definition new_LogFile :: "log_host \<Rightarrow> bytes \<Rightarrow> int \<Rightarrow> int \<Rightarrow> int \<Rightarrow> int \<Rightarrow> log_file result" where
  "new_LogFile h basename sz interval n now =
     (if 47 \<in> set basename then Inl AssertFail
      else Inr (snd (rollFile h now \<lparr>lf_basename = basename, rollSize = sz, flushInterval = interval, checkEveryN = n, lf_count = 0,
        startOfPeriod = 0, lastRoll = 0, lastFlush = 0, lf_file = None, lf_closed = []\<rparr>)))"

text \<open>\<open>append_unlocked\<close>: \<open>now\<close> is the time of the check, \<open>now'\<close> the time \<open>rollFile\<close> reads.\<close>

definition append_unlocked :: "log_host \<Rightarrow> (nat \<times> bool) list \<Rightarrow> bytes \<Rightarrow> int \<Rightarrow> int \<Rightarrow> log_file \<Rightarrow> log_file result" where
  "append_unlocked h os logline now now' s =
     (case lf_file s of
        None \<Rightarrow> Inl NullDeref
      | Some f0 \<Rightarrow>
          (let f = AppendFile_append os logline f0; s1 = s\<lparr>lf_file := Some f\<rparr>
           in if int (writtenBytes f) > rollSize s1 then Inr (snd (rollFile h now' s1))
              else let s2 = s1\<lparr>lf_count := wrap32 (lf_count s1 + 1)\<rparr>
                   in if lf_count s2 \<ge> checkEveryN s2
                      then let s3 = s2\<lparr>lf_count := 0\<rparr>; thisPeriod = now sdiv kRollPerSeconds * kRollPerSeconds
                           in if thisPeriod \<noteq> startOfPeriod s3 then Inr (snd (rollFile h now' s3))
                              else if now - lastFlush s3 > flushInterval s3
                              then Inr (s3\<lparr>lastFlush := now, lf_file := Some (AppendFile_flush f)\<rparr>)
                              else Inr s3
                      else Inr s2))"

definition LogFile_flush :: "log_file \<Rightarrow> log_file result" where
  "LogFile_flush s = (case lf_file s of None \<Rightarrow> Inl NullDeref | Some f \<Rightarrow> Inr (s\<lparr>lf_file := Some (AppendFile_flush f)\<rparr>))"

text \<open>Lines with the results of \<open>fwrite\<close> and the two times.\<close>

fun append_lines :: "log_host \<Rightarrow> ((nat \<times> bool) list \<times> bytes \<times> int \<times> int) list \<Rightarrow> log_file \<Rightarrow> log_file result" where
  "append_lines h [] s = Inr s"
| "append_lines h ((os, line, now, now') # ls) s = bind_result (append_unlocked h os line now now' s) (append_lines h ls)"

subsection \<open>The invariant\<close>

definition log_files :: "log_file \<Rightarrow> append_file list" where
  "log_files s = lf_closed s @ (case lf_file s of None \<Rightarrow> [] | Some f \<Rightarrow> [f])"

text \<open>The files with what was appended to each, line by line; their times increase and give their names.\<close>

definition log_file_inv :: "log_host \<Rightarrow> bytes \<Rightarrow> bytes list list \<Rightarrow> log_file \<Rightarrow> bool" where
  "log_file_inv h base gs s \<longleftrightarrow> lf_file s \<noteq> None \<and> lf_basename s = base \<and> map af_data (log_files s) = map concat gs
     \<and> sorted_wrt (<) (map af_time (log_files s)) \<and> list_all (\<lambda>f. af_name f = getLogFileName h base (af_time f) \<and> 0 < af_time f \<and> time_ok (af_time f)) (log_files s)
     \<and> lastRoll s = af_time (last (log_files s))"

definition write_ok :: "(nat \<times> bool) list \<Rightarrow> bool" where
  "write_ok os \<longleftrightarrow> list_all (\<lambda>(n, err). \<not> err) os"

lemma append_loop_ok: "write_ok os \<Longrightarrow> append_loop os line = (line, length line)"
proof (induction os line rule: append_loop.induct)
  case (2 n err os line)
  then show ?case by (auto simp: write_ok_def Let_def)
qed simp

lemma rollFile_inv:
  assumes "log_file_inv h base gs s" "time_ok now"
  shows "\<exists>gs'. concat gs' = concat gs \<and> log_file_inv h base gs' (snd (rollFile h now s))"
proof (cases "now > lastRoll s")
  case True
  obtain f where f: "lf_file s = Some f" using assms by (auto simp: log_file_inv_def)
  have "log_file_inv h base (gs @ [[]]) (snd (rollFile h now s))"
  proof -
    have l: "log_files (snd (rollFile h now s)) = log_files s @ [new_AppendFile now (getLogFileName h base now)]"
      using True f assms by (simp add: rollFile_def log_files_def log_file_inv_def Let_def)
    have "af_time g \<le> lastRoll s" if "g \<in> set (log_files s)" for g
    proof -
      have "log_files s \<noteq> []" using f by (simp add: log_files_def)
      then obtain xs x where xs: "log_files s = xs @ [x]" by (metis rev_exhaust)
      then show ?thesis using assms that by (auto simp: log_file_inv_def sorted_wrt_append)
    qed
    moreover have "0 < lastRoll s" using assms f by (auto simp: log_file_inv_def list_all_iff log_files_def)
    ultimately show ?thesis
      using assms True unfolding log_file_inv_def l
      by (auto simp: rollFile_def Let_def new_AppendFile_def sorted_wrt_append list_all_iff) fastforce+
  qed
  then show ?thesis by (intro exI [of _ "gs @ [[]]"]) simp
next
  case False
  then show ?thesis using assms by (auto simp: rollFile_def Let_def)
qed

lemma append_current:
  assumes "log_file_inv h base gs s" "lf_file s = Some f" "write_ok os"
  shows "\<exists>gs'. concat gs' = concat gs @ [line] \<and> log_file_inv h base gs' (s\<lparr>lf_file := Some (AppendFile_append os line f)\<rparr>)"
proof -
  have d: "map af_data (lf_closed s) @ [af_data f] = map concat gs" using assms(1,2) by (simp add: log_file_inv_def log_files_def)
  have "gs \<noteq> []" using d by (metis append_is_Nil_conv list.simps(3) map_is_Nil_conv)
  then obtain gs0 g where gs: "gs = gs0 @ [g]" by (metis rev_exhaust)
  have "log_file_inv h base (gs0 @ [g @ [line]]) (s\<lparr>lf_file := Some (AppendFile_append os line f)\<rparr>)"
    using assms(1,2) d unfolding gs
    by (simp add: log_file_inv_def log_files_def AppendFile_append_def append_loop_ok [OF assms(3)])
  then show ?thesis by (intro exI [of _ "gs0 @ [g @ [line]]"]) (simp add: gs)
qed

lemma log_file_inv_fields:
  "log_file_inv h base gs (s\<lparr>lf_count := c\<rparr>) = log_file_inv h base gs s" "log_file_inv h base gs (s\<lparr>lastFlush := t\<rparr>) = log_file_inv h base gs s"
  "log_file_inv h base gs (s\<lparr>lf_file := Some f\<rparr>) \<Longrightarrow> log_file_inv h base gs (s\<lparr>lf_file := Some (AppendFile_flush f)\<rparr>)"
  by (simp_all add: log_file_inv_def log_files_def AppendFile_flush_def)

lemma append_unlocked_inv:
  assumes "log_file_inv h base gs s" "write_ok os" "time_ok now'"
  shows "\<exists>s' gs'. append_unlocked h os line now now' s = Inr s' \<and> log_file_inv h base gs' s' \<and> concat gs' = concat gs @ [line]"
proof -
  obtain f where f: "lf_file s = Some f" using assms(1) by (auto simp: log_file_inv_def)
  define g s1 where "g = AppendFile_append os line f" and "s1 = s\<lparr>lf_file := Some g\<rparr>"
  obtain gs1 where gs1: "concat gs1 = concat gs @ [line]" "log_file_inv h base gs1 s1"
    using append_current [OF assms(1) f assms(2)] by (auto simp: g_def s1_def)
  have roll: "\<exists>gs'. concat gs' = concat gs @ [line] \<and> log_file_inv h base gs' (snd (rollFile h now' t))" if "log_file_inv h base gs1 t" for t
    using rollFile_inv [OF that assms(3)] gs1(1) by auto
  let ?c = "wrap32 (lf_count s1 + 1)" and ?p = "now sdiv kRollPerSeconds * kRollPerSeconds"
  have i: "log_file_inv h base gs1 (s1\<lparr>lf_count := c\<rparr>)" for c using gs1(2) by (simp add: log_file_inv_fields)
  have fl: "log_file_inv h base gs1 (s1\<lparr>lf_count := 0, lastFlush := now, lf_file := Some (AppendFile_flush g)\<rparr>)"
    using gs1(2) by (simp add: s1_def log_file_inv_def log_files_def AppendFile_flush_def)
  have eq: "append_unlocked h os line now now' s =
      (if int (writtenBytes g) > rollSize s1 then Inr (snd (rollFile h now' s1))
       else if ?c \<ge> checkEveryN s1 then
         if ?p \<noteq> startOfPeriod s1 then Inr (snd (rollFile h now' (s1\<lparr>lf_count := 0\<rparr>)))
         else if now - lastFlush s1 > flushInterval s1 then Inr (s1\<lparr>lf_count := 0, lastFlush := now, lf_file := Some (AppendFile_flush g)\<rparr>)
         else Inr (s1\<lparr>lf_count := 0\<rparr>)
       else Inr (s1\<lparr>lf_count := ?c\<rparr>))"
    by (simp add: append_unlocked_def f g_def [symmetric] s1_def Let_def)
  show ?thesis unfolding eq using roll [OF gs1(2)] roll [OF i [of 0]] i fl gs1(1) by auto
qed

lemma append_lines_inv:
  assumes "log_file_inv h base gs s" "list_all (\<lambda>e. write_ok (fst e) \<and> time_ok (snd (snd (snd e)))) ls"
  shows "\<exists>s' gs'. append_lines h ls s = Inr s' \<and> log_file_inv h base gs' s' \<and> concat gs' = concat gs @ map (\<lambda>e. fst (snd e)) ls"
  using assms
proof (induction h ls s arbitrary: gs rule: append_lines.induct)
  case (2 h os line now now' ls s)
  obtain s1 gs1 where s1: "append_unlocked h os line now now' s = Inr s1" "log_file_inv h base gs1 s1" "concat gs1 = concat gs @ [line]"
    using append_unlocked_inv [OF "2.prems"(1), of os now' line now] "2.prems"(2) by auto
  obtain s2 gs2 where "append_lines h ls s1 = Inr s2" "log_file_inv h base gs2 s2" "concat gs2 = concat gs1 @ map (\<lambda>e. fst (snd e)) ls"
    using "2.IH" [OF s1(2)] "2.prems"(2) by auto
  then show ?case using s1 by auto
qed auto

text \<open>The name of a file tells its time.\<close>

lemma two_digits_inj:
  assumes "fmt_0d 2 i = fmt_0d 2 j" "0 \<le> i" "i < 100" "0 \<le> j" "j < 100"
  shows "i = j"
proof -
  have "digits_value (zero_pad 2 (nat i)) = digits_value (zero_pad 2 (nat j))" using assms fmt_two by metis
  then show ?thesis using assms by (simp add: digits_value_zero_pad)
qed

lemma getLogFileName_inj:
  assumes "getLogFileName h base t = getLogFileName h base t'" "time_ok t" "time_ok t'"
  shows "t = t'"
proof -
  let ?x = "BreakTime t" and ?y = "BreakTime t'"
  have two: "0 \<le> dt_month (BreakTime v) \<and> dt_month (BreakTime v) < 100" "0 \<le> dt_day (BreakTime v) \<and> dt_day (BreakTime v) < 100"
    "0 \<le> dt_hour (BreakTime v) \<and> dt_hour (BreakTime v) < 100" "0 \<le> dt_minute (BreakTime v) \<and> dt_minute (BreakTime v) < 100"
    "0 \<le> dt_second (BreakTime v) \<and> dt_second (BreakTime v) < 100" if "time_ok v" for v
    using fromUtcTime_BreakTime(2,3) [of v] that by (auto simp: valid_time_of_day_def valid_date_def days_in_month_def split: if_splits)
  have two': "length (fmt_0d 2 (dt_month (BreakTime v))) = 2" "length (fmt_0d 2 (dt_day (BreakTime v))) = 2" "length (fmt_0d 2 (dt_hour (BreakTime v))) = 2"
    "length (fmt_0d 2 (dt_minute (BreakTime v))) = 2" "length (fmt_0d 2 (dt_second (BreakTime v))) = 2" if "time_ok v" for v
    using two [OF that] fmt_two by blast+
  note len = two' [OF assms(2)] two' [OF assms(3)]
  have "show_int (dt_year ?x) = show_int (dt_year ?y) \<and> fmt_0d 2 (dt_month ?x) = fmt_0d 2 (dt_month ?y) \<and> fmt_0d 2 (dt_day ?x) = fmt_0d 2 (dt_day ?y)
      \<and> fmt_0d 2 (dt_hour ?x) = fmt_0d 2 (dt_hour ?y) \<and> fmt_0d 2 (dt_minute ?x) = fmt_0d 2 (dt_minute ?y) \<and> fmt_0d 2 (dt_second ?x) = fmt_0d 2 (dt_second ?y)"
    using assms(1) by (simp add: getLogFileName_def toUtcTime_def Let_def append_eq_append_conv len)
  note e = this
  have "dt_month ?x = dt_month ?y" "dt_day ?x = dt_day ?y" "dt_hour ?x = dt_hour ?y" "dt_minute ?x = dt_minute ?y" "dt_second ?x = dt_second ?y"
    by (rule two_digits_inj; use e two [OF assms(2)] two [OF assms(3)] in blast)+
  moreover have "dt_year ?x = dt_year ?y" using e by (simp only: show_int_inject)
  ultimately have "fromUtcTime ?x = fromUtcTime ?y" unfolding fromUtcTime_def by (simp only:)
  then show ?thesis using fromUtcTime_BreakTime(1) [of t] fromUtcTime_BreakTime(1) [of t'] assms(2,3) by simp
qed

subsection \<open>Properties\<close>

text \<open>What is appended to a log is in its files, line by line and in order, whenever they are rolled over and although \<open>fwrite\<close> may
  take a line in pieces: no line is split between two files, and no two files have the same name, so that none is opened
  twice.\<close>

theorem log_file_keeps_lines:
  assumes "new_LogFile h base sz interval n now0 = Inr s0" "0 < now0" "time_ok now0" "list_all (\<lambda>e. write_ok (fst e) \<and> time_ok (snd (snd (snd e)))) ls"
  shows "\<exists>s gs. append_lines h ls s0 = Inr s \<and> concat gs = map (\<lambda>e. fst (snd e)) ls
    \<and> map af_data (log_files s) = map concat gs \<and> distinct (map af_name (log_files s))"
proof -
  have "log_file_inv h base [[]] s0"
    using assms(1-3) by (auto simp: new_LogFile_def rollFile_def log_file_inv_def log_files_def new_AppendFile_def Let_def split: if_splits)
  from append_lines_inv [OF this assms(4)] obtain s gs where s: "append_lines h ls s0 = Inr s" "log_file_inv h base gs s"
    "concat gs = map (\<lambda>e. fst (snd e)) ls" by auto
  have "distinct (map af_time (log_files s))" using s(2) by (auto simp: log_file_inv_def strict_sorted_iff)
  moreover have "inj_on af_name (set (log_files s))" if "inj_on af_time (set (log_files s))"
    using that s(2) getLogFileName_inj unfolding log_file_inv_def list_all_iff inj_on_def by metis
  ultimately have "distinct (map af_name (log_files s))" by (auto simp: distinct_map)
  then show ?thesis using s by (auto simp: log_file_inv_def)
qed

theorem log_file_keeps_lines_witness:
  "\<exists>s0 s. new_LogFile \<lparr>lh_hostname = lit ''host'', lh_pid = 7\<rparr> (lit ''im'') 10 3 1 100 = Inr s0
    \<and> append_lines \<lparr>lh_hostname = lit ''host'', lh_pid = 7\<rparr> [([(1, False)], lit ''ab'', 100, 100), ([], lit ''c'', 100, 100)] s0 = Inr s
    \<and> concat (map af_data (log_files s)) = lit ''abc''"
proof -
  let ?h = "\<lparr>lh_hostname = lit ''host'', lh_pid = 7\<rparr>" and ?ls = "[([(1, False)], lit ''ab'', 100, 100), ([], lit ''c'', 100, 100)]"
  obtain s0 where s0: "new_LogFile ?h (lit ''im'') 10 3 1 100 = Inr s0" by (simp add: new_LogFile_def lit_def)
  have "list_all (\<lambda>e. write_ok (fst e) \<and> time_ok (snd (snd (snd e)))) ?ls" by (simp add: write_ok_def time_ok_def)
  from log_file_keeps_lines [OF s0 _ _ this] obtain s gs where s: "append_lines ?h ?ls s0 = Inr s" "concat gs = map (\<lambda>e. fst (snd e)) ?ls"
    "map af_data (log_files s) = map concat gs" by (auto simp: time_ok_def)
  have "concat (map concat gs) = concat (concat gs)" by (induction gs) simp_all
  then have "concat (map af_data (log_files s)) = lit ''abc''" using s(2,3) by (simp add: lit_def)
  then show ?thesis using s0 s(1) by blast
qed

text \<open>A file that has grown beyond the limit is replaced at the first line of a later second.\<close>

lemma log_file_size:
  assumes "append_unlocked h os line now now' s = Inr s'" "lastRoll s < now'" "0 \<le> rollSize s"
  shows "\<exists>f. lf_file s' = Some f \<and> int (writtenBytes f) \<le> rollSize s"
  using assms by (auto simp: append_unlocked_def rollFile_def new_AppendFile_def AppendFile_flush_def Let_def split: option.splits if_splits)

end
