(* ===== verification/Connector.thy ===== *)
theory Connector
  imports Prelude "HOL-Library.Multiset"
begin

section \<open>Connecting to a server\<close>

text \<open>
  \<open>net/Connector.cc\<close>, the side of the library that opens connections (\<open>TcpClient\<close>, the test client). The state is what the object
  holds, the functors it has queued in its loop, the timers it has set, and, for the record, the descriptors it has opened, closed
  and handed over. An iteration of the loop handles the event of the channel and the timer, each if it was ready
  when the poller returned, and then runs the functors that are queued. The results of the system calls are
  parameters.
\<close>

datatype connect_errno = C_OK | EINPROGRESS | EINTR | EISCONN | EAGAIN | EADDRINUSE | EADDRNOTAVAIL | ECONNREFUSED | ENETUNREACH
  | EACCES | EPERM | EAFNOSUPPORT | EALREADY | EBADF | EFAULT | ENOTSOCK | EOTHER

datatype connector_state = kDisconnected | kConnecting | kConnected

datatype connector_functor = StopInLoop | ResetChannel

record connector =
  c_connect :: bool
  c_state :: connector_state
  c_channel :: "int option"
  c_polled :: bool  \<comment> \<open>the channel is registered with the poller\<close>
  retryDelayMs :: int
  c_pending :: "connector_functor list"
  c_timers :: "int list"
  c_delays :: "int list"
  c_opened :: "int list"
  c_closed :: "int list"
  c_handed :: "int list"

definition kInitRetryDelayMs :: int where "kInitRetryDelayMs = 500"
definition kMaxRetryDelayMs :: int where "kMaxRetryDelayMs = 30 * 1000"

definition new_connector :: connector where
  "new_connector = \<lparr>c_connect = False, c_state = kDisconnected, c_channel = None, c_polled = False, retryDelayMs = kInitRetryDelayMs,
     c_pending = [], c_timers = [], c_delays = [], c_opened = [], c_closed = [], c_handed = []\<rparr>"

definition retry :: "int \<Rightarrow> connector \<Rightarrow> connector" where
  "retry sockfd s =
     (let s1 = s\<lparr>c_closed := c_closed s @ [sockfd], c_state := kDisconnected\<rparr>
      in if c_connect s1
         then s1\<lparr>c_timers := c_timers s1 @ [retryDelayMs s1], c_delays := c_delays s1 @ [retryDelayMs s1],
                 retryDelayMs := min (retryDelayMs s1 * 2) kMaxRetryDelayMs\<rparr>
         else s1)"

definition connecting :: "int \<Rightarrow> connector \<Rightarrow> connector result" where
  "connecting sockfd s =
     (if c_channel s \<noteq> None then Inl AssertFail
      else Inr (s\<lparr>c_state := kConnecting, c_channel := Some sockfd, c_polled := True\<rparr>))"

text \<open>An attempt: the descriptor of the new socket and the result of \<open>connect\<close>.\<close>

type_synonym attempt = "int \<times> connect_errno"

definition connector_connect :: "attempt \<Rightarrow> connector \<Rightarrow> connector result" where
  "connector_connect a s =
     (let (sockfd, savedErrno) = a; s1 = s\<lparr>c_opened := c_opened s @ [sockfd]\<rparr>
      in if savedErrno \<in> {C_OK, EINPROGRESS, EINTR, EISCONN} then connecting sockfd s1
         else if savedErrno \<in> {EAGAIN, EADDRINUSE, EADDRNOTAVAIL, ECONNREFUSED, ENETUNREACH} then Inr (retry sockfd s1)
         else Inr (s1\<lparr>c_closed := c_closed s1 @ [sockfd]\<rparr>))"

definition startInLoop :: "attempt \<Rightarrow> connector \<Rightarrow> connector result" where
  "startInLoop a s =
     (if c_state s \<noteq> kDisconnected then Inl AssertFail
      else if c_connect s then connector_connect a s else Inr s)"

text \<open>\<open>start\<close> in the thread of the loop.\<close>

definition connector_start :: "attempt \<Rightarrow> connector \<Rightarrow> connector result" where
  "connector_start a s = startInLoop a (s\<lparr>c_connect := True\<rparr>)"

definition connector_stop :: "connector \<Rightarrow> connector" where
  "connector_stop s = s\<lparr>c_connect := False, c_pending := c_pending s @ [StopInLoop]\<rparr>"

definition connector_restart :: "attempt \<Rightarrow> connector \<Rightarrow> connector result" where
  "connector_restart a s = startInLoop a (s\<lparr>c_state := kDisconnected, retryDelayMs := kInitRetryDelayMs, c_connect := True\<rparr>)"

definition removeAndResetChannel :: "connector \<Rightarrow> (int \<times> connector) result" where
  "removeAndResetChannel s =
     (case c_channel s of None \<Rightarrow> Inl NullDeref
      | Some fd \<Rightarrow> Inr (fd, s\<lparr>c_polled := False, c_pending := c_pending s @ [ResetChannel]\<rparr>))"

definition stopInLoop :: "connector \<Rightarrow> connector result" where
  "stopInLoop s =
     (if c_state s = kConnecting
      then bind_result (removeAndResetChannel (s\<lparr>c_state := kDisconnected\<rparr>)) (\<lambda>(sockfd, s1). Inr (retry sockfd s1))
      else Inr s)"

definition resetChannel :: "connector \<Rightarrow> connector" where
  "resetChannel s = s\<lparr>c_channel := None\<rparr>"

definition connector_handleWrite :: "bool \<Rightarrow> bool \<Rightarrow> connector \<Rightarrow> connector result" where
  "connector_handleWrite soError selfConnect s =
     (if c_state s = kConnecting
      then bind_result (removeAndResetChannel s) (\<lambda>(sockfd, s1).
        if soError \<or> selfConnect then Inr (retry sockfd s1)
        else let s2 = s1\<lparr>c_state := kConnected\<rparr>
             in Inr (if c_connect s2 then s2\<lparr>c_handed := c_handed s2 @ [sockfd]\<rparr> else s2\<lparr>c_closed := c_closed s2 @ [sockfd]\<rparr>))
      else if c_state s \<noteq> kDisconnected then Inl AssertFail else Inr s)"

definition connector_handleError :: "connector \<Rightarrow> connector result" where
  "connector_handleError s =
     (if c_state s = kConnecting
      then bind_result (removeAndResetChannel s) (\<lambda>(sockfd, s1). Inr (retry sockfd s1))
      else Inr s)"

text \<open>The event of the channel: \<open>POLLERR\<close> and \<open>POLLOUT\<close>, in the order of \<open>Channel::handleEvent\<close>, with what the socket then reports.\<close>

record chan_event =
  ev_err :: bool
  ev_out :: bool
  ev_soError :: bool
  ev_self :: bool

definition handle_channel :: "chan_event \<Rightarrow> connector \<Rightarrow> connector result" where
  "handle_channel e s =
     bind_result (if ev_err e then connector_handleError s else Inr s) (\<lambda>s1.
       if ev_out e then connector_handleWrite (ev_soError e) (ev_self e) s1 else Inr s1)"

definition run_timer :: "attempt \<Rightarrow> connector \<Rightarrow> connector result" where
  "run_timer a s = startInLoop a (s\<lparr>c_timers := tl (c_timers s)\<rparr>)"

fun run_functor :: "connector_functor \<Rightarrow> connector \<Rightarrow> connector result" where
  "run_functor StopInLoop s = stopInLoop s"
| "run_functor ResetChannel s = Inr (resetChannel s)"

fun run_connector_functors :: "connector_functor list \<Rightarrow> connector \<Rightarrow> connector result" where
  "run_connector_functors [] s = Inr s"
| "run_connector_functors (f # fs) s = bind_result (run_functor f s) (run_connector_functors fs)"

text \<open>An iteration. The channel is ready only if it was registered, the timer only if one was set, when the poller was asked.\<close>

definition connector_iteration :: "chan_event option \<Rightarrow> attempt option \<Rightarrow> connector \<Rightarrow> connector result" where
  "connector_iteration ev tm s =
     bind_result (case ev of Some e \<Rightarrow> if c_polled s then handle_channel e s else Inr s | None \<Rightarrow> Inr s) (\<lambda>s1.
     bind_result (case tm of Some a \<Rightarrow> if c_timers s \<noteq> [] then run_timer a s1 else Inr s1 | None \<Rightarrow> Inr s1) (\<lambda>s2.
       run_connector_functors (c_pending s2) (s2\<lparr>c_pending := []\<rparr>)))"

subsection \<open>Use\<close>

datatype connector_call = Start attempt | Stop | Restart attempt | Iterate "chan_event option" "attempt option"

fun connector_step :: "connector_call \<Rightarrow> connector \<Rightarrow> connector result" where
  "connector_step (Start a) s = connector_start a s"
| "connector_step Stop s = Inr (connector_stop s)"
| "connector_step (Restart a) s = connector_restart a s"
| "connector_step (Iterate ev tm) s = connector_iteration ev tm s"

text \<open>What a client must keep to: \<open>start\<close> only when nothing is under way and nothing was handed over since, \<open>restart\<close>
  only after the iteration in which a connection came about.\<close>

definition idle :: "connector \<Rightarrow> bool" where
  "idle s \<longleftrightarrow> c_channel s = None \<and> c_pending s = [] \<and> c_timers s = []"

fun call_allowed :: "connector_call \<Rightarrow> connector \<Rightarrow> bool" where
  "call_allowed (Start a) s \<longleftrightarrow> c_state s = kDisconnected \<and> idle s"
| "call_allowed (Restart a) s \<longleftrightarrow> c_state s = kConnected \<and> idle s"
| "call_allowed Stop s \<longleftrightarrow> True"
| "call_allowed (Iterate ev tm) s \<longleftrightarrow> True"

inductive connector_reach :: "connector \<Rightarrow> bool" where
  connector_new: "connector_reach new_connector"
| connector_call: "connector_reach s \<Longrightarrow> call_allowed c s \<Longrightarrow> connector_step c s = Inr s' \<Longrightarrow> connector_reach s'"

text \<open>Iterations in which the timer fires and the attempt is made.\<close>

fun keep_trying :: "attempt list \<Rightarrow> connector \<Rightarrow> connector result" where
  "keep_trying [] s = Inr s"
| "keep_trying (a # as) s = bind_result (connector_iteration None (Some a) s) (keep_trying as)"

definition refused :: "attempt \<Rightarrow> bool" where
  "refused a \<longleftrightarrow> snd a \<in> {EAGAIN, EADDRINUSE, EADDRNOTAVAIL, ECONNREFUSED, ENETUNREACH}"

text \<open>The invariant while the functors \<open>fs\<close> are still to be run: the channel is registered exactly while connecting; otherwise
  it waits to be reset, and no attempt is to come before that; at most one attempt is under way or set for later; every
  descriptor is with the channel, closed or handed over.\<close>

definition channel_waits :: "connector_functor list \<Rightarrow> connector \<Rightarrow> bool" where
  "channel_waits fs s \<longleftrightarrow> \<not> c_polled s \<and>
     (case c_channel s of None \<Rightarrow> ResetChannel \<notin> set (fs @ c_pending s)
      | Some fd \<Rightarrow> count_list (fs @ c_pending s) ResetChannel = 1 \<and> (ResetChannel \<in> set fs \<or> c_timers s = [] \<and> \<not> c_connect s))"

definition state_ok :: "connector_functor list \<Rightarrow> connector \<Rightarrow> bool" where
  "state_ok fs s \<longleftrightarrow> (case c_state s of
       kConnecting \<Rightarrow> c_polled s \<and> c_channel s \<noteq> None \<and> c_timers s = [] \<and> ResetChannel \<notin> set (fs @ c_pending s)
     | kConnected \<Rightarrow> channel_waits fs s \<and> c_timers s = []
     | kDisconnected \<Rightarrow> channel_waits fs s \<and> length (c_timers s) \<le> 1)"

definition descriptors_kept :: "connector \<Rightarrow> bool" where
  "descriptors_kept s \<longleftrightarrow>
     mset (c_opened s) = mset (c_closed s) + mset (c_handed s) + (if c_polled s then {#the (c_channel s)#} else {#})"

definition connector_mid :: "connector_functor list \<Rightarrow> connector \<Rightarrow> bool" where
  "connector_mid fs s \<longleftrightarrow> state_ok fs s \<and> descriptors_kept s \<and> (c_connect s \<longrightarrow> StopInLoop \<notin> set (fs @ c_pending s))
     \<and> kInitRetryDelayMs \<le> retryDelayMs s \<and> retryDelayMs s \<le> kMaxRetryDelayMs"

definition connector_inv :: "connector \<Rightarrow> bool" where
  "connector_inv s \<longleftrightarrow> connector_mid [] s"

lemmas connector_inv_defs = connector_inv_def connector_mid_def state_ok_def channel_waits_def descriptors_kept_def

lemmas connector_defs = retry_def connecting_def connector_connect_def startInLoop_def removeAndResetChannel_def
  stopInLoop_def resetChannel_def connector_handleWrite_def connector_handleError_def kInitRetryDelayMs_def kMaxRetryDelayMs_def

lemma new_connector_inv: "connector_inv new_connector"
  by (simp add: connector_inv_defs connector_defs new_connector_def)

lemma start_inv:
  assumes "c_state s = kDisconnected" "c_channel s = None" "ResetChannel \<notin> set (c_pending s)" "c_timers s = []" "\<not> c_polled s"
    and "c_connect s \<longrightarrow> StopInLoop \<notin> set (c_pending s)"
    and "descriptors_kept s" "kInitRetryDelayMs \<le> retryDelayMs s" "retryDelayMs s \<le> kMaxRetryDelayMs"
  shows "\<exists>s'. startInLoop a s = Inr s' \<and> connector_inv s'"
  using assms by (cases a) (simp add: connector_inv_defs connector_defs Let_def)

lemma functor_inv:
  assumes "connector_mid (f # fs) s"
  shows "\<exists>s'. run_functor f s = Inr s' \<and> connector_mid fs s'"
proof (cases f)
  case StopInLoop
  then show ?thesis
    using assms by (cases "c_state s"; cases "c_channel s") (simp_all add: connector_inv_defs connector_defs Let_def)
next
  case ResetChannel
  then show ?thesis
    using assms by (cases "c_state s"; cases "c_channel s") (simp_all add: connector_inv_defs connector_defs count_list_0_iff)
qed

lemma functors_inv: "connector_mid fs s \<Longrightarrow> \<exists>s'. run_connector_functors fs s = Inr s' \<and> connector_inv s'"
proof (induction fs arbitrary: s)
  case (Cons f fs)
  then show ?case using functor_inv [of f fs s] by fastforce
qed (simp add: connector_inv_def)

lemma pending_moved: "connector_inv s \<Longrightarrow> connector_mid (c_pending s) (s\<lparr>c_pending := []\<rparr>)"
  by (cases "c_state s"; cases "c_channel s") (simp_all add: connector_inv_defs)

lemma channel_inv:
  assumes "connector_inv s" "c_polled s"
  shows "\<exists>s'. handle_channel e s = Inr s' \<and> connector_mid (c_pending s') (s'\<lparr>c_pending := []\<rparr>)"
proof -
  obtain fd where "c_state s = kConnecting" "c_channel s = Some fd" "c_timers s = []" "ResetChannel \<notin> set (c_pending s)"
    using assms by (cases "c_state s") (auto simp: connector_inv_defs)
  then show ?thesis
    using assms by (simp add: connector_inv_defs connector_defs handle_channel_def Let_def)
qed

lemma timer_inv:
  assumes "connector_inv s" "c_timers s \<noteq> []"
  shows "\<exists>s'. run_timer a s = Inr s' \<and> connector_inv s'"
proof -
  obtain d where d: "c_timers s = [d]" "c_state s = kDisconnected" "c_channel s = None" "\<not> c_polled s" "ResetChannel \<notin> set (c_pending s)"
    using assms by (cases "c_state s"; cases "c_timers s"; cases "c_channel s") (simp_all add: connector_inv_defs)
  show ?thesis
    unfolding run_timer_def by (rule start_inv) (use d assms(1) in \<open>simp_all add: connector_inv_defs\<close>)
qed

lemma iteration_inv:
  assumes "connector_inv s"
  shows "\<exists>s'. connector_iteration ev tm s = Inr s' \<and> connector_inv s'"
proof -
  have excl: "c_polled s \<Longrightarrow> c_timers s = []" using assms by (cases "c_state s") (simp_all add: connector_inv_defs)
  define phase1 where "phase1 = (case ev of Some e \<Rightarrow> if c_polled s then handle_channel e s else Inr s | None \<Rightarrow> Inr s)"
  have "\<exists>s2. bind_result phase1 (\<lambda>s1. case tm of Some a \<Rightarrow> if c_timers s \<noteq> [] then run_timer a s1 else Inr s1 | None \<Rightarrow> Inr s1) = Inr s2
      \<and> connector_mid (c_pending s2) (s2\<lparr>c_pending := []\<rparr>)"
  proof (cases "c_polled s")
    case True
    obtain s1 where "phase1 = Inr s1" "connector_mid (c_pending s1) (s1\<lparr>c_pending := []\<rparr>)"
      using channel_inv [OF assms True] pending_moved [OF assms] True by (cases ev) (auto simp: phase1_def)
    then show ?thesis using excl [OF True] by (cases tm) auto
  next
    case False
    then have "phase1 = Inr s" by (cases ev) (simp_all add: phase1_def)
    then show ?thesis using timer_inv [OF assms] pending_moved assms by (cases tm) fastforce+
  qed
  then obtain s1 s2 where "phase1 = Inr s1"
    "(case tm of Some a \<Rightarrow> if c_timers s \<noteq> [] then run_timer a s1 else Inr s1 | None \<Rightarrow> Inr s1) = Inr s2"
    "connector_mid (c_pending s2) (s2\<lparr>c_pending := []\<rparr>)" by (auto simp: bind_result_eq_Inr)
  then show ?thesis using functors_inv by (simp add: connector_iteration_def phase1_def [symmetric])
qed

lemma connector_step_inv:
  assumes "connector_inv s" "call_allowed c s"
  shows "\<exists>s'. connector_step c s = Inr s' \<and> connector_inv s'"
proof (cases c)
  case (Start a)
  have "\<exists>s'. startInLoop a (s\<lparr>c_connect := True\<rparr>) = Inr s' \<and> connector_inv s'"
    by (rule start_inv) (use assms Start in \<open>simp_all add: connector_inv_defs idle_def\<close>)
  then show ?thesis using Start by (simp add: connector_start_def)
next
  case (Restart a)
  have "\<exists>s'. startInLoop a (s\<lparr>c_state := kDisconnected, retryDelayMs := kInitRetryDelayMs, c_connect := True\<rparr>) = Inr s' \<and> connector_inv s'"
    by (rule start_inv) (use assms Restart in \<open>simp_all add: connector_inv_defs idle_def kInitRetryDelayMs_def kMaxRetryDelayMs_def\<close>)
  then show ?thesis using Restart by (simp add: connector_restart_def)
next
  case Stop
  then show ?thesis using assms(1)
    by (cases "c_state s"; cases "c_channel s") (simp_all add: connector_inv_defs connector_stop_def)
next
  case (Iterate ev tm)
  then show ?thesis using iteration_inv [OF assms(1)] by simp
qed

lemma connector_reach_inv: "connector_reach s \<Longrightarrow> connector_inv s"
proof (induction rule: connector_reach.induct)
  case (connector_call s c s')
  then show ?case using connector_step_inv [of s c] by auto
qed (rule new_connector_inv)

subsection \<open>Properties\<close>

text \<open>A connector whose client starts it only when it is idle never fails an assertion or uses a channel that is gone, whatever the
  network does and whenever it is stopped; every descriptor it opens is closed or handed over exactly once, except the
  one it is connecting with; the delay stays between half a second and half a minute.\<close>

theorem connector_safe:
  assumes "connector_reach s" and "call_allowed c s"
  shows "\<exists>s'. connector_step c s = Inr s'
    \<and> mset (c_opened s') = mset (c_closed s') + mset (c_handed s') + (if c_state s' = kConnecting then {#the (c_channel s')#} else {#})
    \<and> length (c_timers s') + (if c_state s' = kConnecting then 1 else 0) \<le> 1 \<and> 500 \<le> retryDelayMs s' \<and> retryDelayMs s' \<le> 30000"
proof -
  obtain s' where "connector_step c s = Inr s'" "connector_inv s'"
    using connector_step_inv [OF connector_reach_inv [OF assms(1)] assms(2)] by blast
  then show ?thesis
    by (cases "c_state s'") (simp_all add: connector_inv_defs kInitRetryDelayMs_def kMaxRetryDelayMs_def)
qed

theorem connector_safe_witness:
  "\<exists>s'. connector_step (Start (3, EINPROGRESS)) new_connector = Inr s' \<and> mset (c_opened s') = {#3#} \<and> c_closed s' = []"
  using connector_safe [OF connector_new, of "Start (3, EINPROGRESS)"]
  by (simp add: new_connector_def idle_def connector_start_def connector_defs)

lemma refused_attempt:
  assumes "refused a" "c_state s = kDisconnected" "c_connect s"
  shows "startInLoop a s = Inr (retry (fst a) (s\<lparr>c_opened := c_opened s @ [fst a]\<rparr>))"
  using assms by (cases a) (auto simp: refused_def startInLoop_def connector_connect_def)

lemma refused_iteration:
  assumes "refused a" "c_state s = kDisconnected" "c_connect s" "c_timers s = [d]" "c_pending s = []" "\<not> c_polled s"
  obtains s' where "connector_iteration None (Some a) s = Inr s'" "c_state s' = kDisconnected" "c_connect s'" "c_timers s' = [retryDelayMs s]"
    "c_pending s' = []" "\<not> c_polled s'" "c_delays s' = c_delays s @ [retryDelayMs s]" "retryDelayMs s' = min (retryDelayMs s * 2) kMaxRetryDelayMs"
  using assms refused_attempt [OF assms(1), of "s\<lparr>c_timers := []\<rparr>"] that
  by (simp add: connector_iteration_def run_timer_def retry_def)

lemma backoff_double: "min (min (500 * 2 ^ k) 30000 * 2) 30000 = min (500 * 2 ^ Suc k) (30000 :: int)"
  by (simp add: min_def)

lemma keep_trying_delays:
  assumes "list_all refused as" "c_state s = kDisconnected" "c_connect s" "c_timers s = [d]" "c_pending s = []" "\<not> c_polled s"
    and "retryDelayMs s = min (500 * 2 ^ k) 30000" "c_delays s = map (\<lambda>i. min (500 * 2 ^ i) 30000) [0..<k]"
  shows "\<exists>s'. keep_trying as s = Inr s' \<and> c_delays s' = map (\<lambda>i. min (500 * 2 ^ i) 30000) [0..<k + length as]
    \<and> length (c_timers s') = 1 \<and> c_state s' = kDisconnected"
  using assms
proof (induction as arbitrary: s d k)
  case (Cons a as)
  then have "refused a" by simp
  from refused_iteration [OF this Cons.prems(2-6)] obtain s' where s': "connector_iteration None (Some a) s = Inr s'" "c_state s' = kDisconnected"
    "c_connect s'" "c_timers s' = [retryDelayMs s]" "c_pending s' = []" "\<not> c_polled s'" "c_delays s' = c_delays s @ [retryDelayMs s]"
    "retryDelayMs s' = min (retryDelayMs s * 2) kMaxRetryDelayMs" .
  have "retryDelayMs s' = min (500 * 2 ^ Suc k) 30000"
    unfolding s'(8) Cons.prems(7) kMaxRetryDelayMs_def using backoff_double [of k] by simp
  moreover have "c_delays s' = map (\<lambda>i. min (500 * 2 ^ i) 30000) [0..<Suc k]" using s'(7) Cons.prems(7,8) by simp
  ultimately show ?case using Cons.IH [of s' "retryDelayMs s" "Suc k"] s' Cons.prems(1) by simp
qed simp

text \<open>While the server refuses, the connector tries for ever, with delays of half a second, one, two, four seconds and so on up
  to half a minute: after \<open>n\<close> refused attempts it has set exactly \<open>n\<close> timers with these delays and waits for the next.\<close>

theorem retry_backoff:
  assumes "list_all refused (a # as)"
  shows "\<exists>s. bind_result (connector_start a new_connector) (keep_trying as) = Inr s
    \<and> c_delays s = map (\<lambda>i. min (500 * 2 ^ i) 30000) [0..<Suc (length as)] \<and> length (c_timers s) = 1 \<and> c_state s = kDisconnected"
proof -
  obtain s where "connector_start a new_connector = Inr s" "c_state s = kDisconnected" "c_connect s" "c_timers s = [500]" "c_pending s = []"
    "\<not> c_polled s" "retryDelayMs s = min (500 * 2 ^ 1) 30000" "c_delays s = [500]"
    using assms refused_attempt [of a "new_connector\<lparr>c_connect := True\<rparr>"]
    by (simp add: connector_start_def new_connector_def retry_def kInitRetryDelayMs_def kMaxRetryDelayMs_def)
  then show ?thesis using keep_trying_delays [of as s 500 1] assms by simp
qed

theorem retry_backoff_witness:
  "\<exists>s. bind_result (connector_start (3, ECONNREFUSED) new_connector) (keep_trying [(3, ECONNREFUSED), (3, ENETUNREACH)]) = Inr s
    \<and> c_delays s = [500, 1000, 2000]"
proof -
  have "list_all refused ((3, ECONNREFUSED) # [(3, ECONNREFUSED), (3, ENETUNREACH)])" by (simp add: refused_def)
  from retry_backoff [OF this] show ?thesis by (auto simp: upt_rec)
qed

text \<open>Calls that the interface allows and the state does not. A client that connects again after its connection has ended fails an
  assertion, and so does one that connects while the connector waits to try again, when the timer fires.\<close>

theorem start_twice_asserts:
  assumes "connector_reach s" "c_state s = kConnected \<or> c_timers s \<noteq> []"
  shows "if c_state s = kConnected then connector_start a s = Inl AssertFail
    else \<exists>s1. connector_start (fd, EINPROGRESS) s = Inr s1 \<and> connector_iteration None (Some a) s1 = Inl AssertFail"
proof (cases "c_state s = kConnected")
  case True
  then show ?thesis by (simp add: connector_start_def startInLoop_def)
next
  case False
  then obtain d where "c_timers s = [d]" "c_state s = kDisconnected" "c_channel s = None" "\<not> c_polled s"
    using connector_reach_inv [OF assms(1)] assms(2)
    by (cases "c_state s"; cases "c_timers s"; cases "c_channel s") (simp_all add: connector_inv_defs)
  then show ?thesis by (simp add: connector_start_def connector_iteration_def run_timer_def startInLoop_def connector_connect_def connecting_def)
qed

end
