(* ===== verification/Thread_Pool.thy ===== *)
theory Thread_Pool
  imports Prelude "HOL-Library.Multiset"
begin

section \<open>The thread pool\<close>

text \<open>
  \<open>base/ThreadPool.cc\<close>. The threads take steps one after the other: a step is a critical section of \<open>mutex_\<close> up to its end or to a
  \<open>wait\<close>, a test of \<open>running_\<close>, or the call of a task. \<open>notify\<close> wakes one thread that waits, if there is one, chosen by
  the scheduler; a thread that waits may also wake for no reason. A task is \<open>None\<close> if the \<open>std::function\<close> is empty. Exceptions
  of tasks, which end the process, are not modelled.
\<close>

datatype 'a worker =
    WLoop                 \<comment> \<open>before the test of \<open>running_\<close>\<close>
  | WTaking               \<comment> \<open>before the critical section of \<open>take\<close>, or woken in it\<close>
  | WWaiting              \<comment> \<open>in \<open>notEmpty_.wait()\<close>\<close>
  | WTook "'a option"     \<comment> \<open>\<open>take\<close> has returned\<close>
  | WDone

datatype 'a caller =
    CCalling "'a option"  \<comment> \<open>before the critical section of \<open>run\<close>, or woken in it\<close>
  | CWaiting "'a option"  \<comment> \<open>in \<open>notFull_.wait()\<close>\<close>
  | CReturned bool        \<comment> \<open>whether the task was queued\<close>

record 'a pool =
  p_queue :: "'a option list"
  maxQueueSize :: nat
  p_running :: bool
  workers :: "'a worker list"
  callers :: "'a caller list"
  p_accepted :: "'a option list"
  p_taken :: "'a option list"
  p_executed :: "'a list"

definition pool_isFull :: "'a pool \<Rightarrow> bool" where
  "pool_isFull s \<longleftrightarrow> maxQueueSize s > 0 \<and> length (p_queue s) \<ge> maxQueueSize s"

definition start_pool :: "nat \<Rightarrow> nat \<Rightarrow> 'a pool" where
  "start_pool maxSize numThreads =
     \<lparr>p_queue = [], maxQueueSize = maxSize, p_running = True, workers = replicate numThreads WLoop, callers = [],
      p_accepted = [], p_taken = [], p_executed = []\<rparr>"

text \<open>\<open>notify\<close> with the thread \<open>j\<close> that the scheduler wakes.\<close>

definition notify_worker :: "nat \<Rightarrow> 'a worker list \<Rightarrow> 'a worker list" where
  "notify_worker j ws = (if j < length ws \<and> ws ! j = WWaiting then ws[j := WTaking] else ws)"

fun wake_caller :: "'a caller \<Rightarrow> 'a caller" where
  "wake_caller (CWaiting t) = CCalling t"
| "wake_caller c = c"

fun caller_waits :: "'a caller \<Rightarrow> bool" where
  "caller_waits (CWaiting t) = True"
| "caller_waits c = False"

definition notify_caller :: "nat \<Rightarrow> 'a caller list \<Rightarrow> 'a caller list" where
  "notify_caller j cs = (if j < length cs then cs[j := wake_caller (cs ! j)] else cs)"

text \<open>The critical section of \<open>run\<close> for the call \<open>i\<close>.\<close>

definition pool_run :: "nat \<Rightarrow> 'a option \<Rightarrow> nat \<Rightarrow> 'a pool \<Rightarrow> 'a pool result" where
  "pool_run i task j s =
     (if pool_isFull s \<and> p_running s then Inr (s\<lparr>callers := (callers s)[i := CWaiting task]\<rparr>)
      else if \<not> p_running s then Inr (s\<lparr>callers := (callers s)[i := CReturned False]\<rparr>)
      else if pool_isFull s then Inl AssertFail
      else Inr (s\<lparr>p_queue := p_queue s @ [task], p_accepted := p_accepted s @ [task], callers := (callers s)[i := CReturned True],
                  workers := notify_worker j (workers s)\<rparr>))"

text \<open>The critical section of \<open>take\<close> for the worker \<open>i\<close>.\<close>

definition pool_take :: "nat \<Rightarrow> nat \<Rightarrow> 'a pool \<Rightarrow> 'a pool" where
  "pool_take i j s =
     (if p_queue s = [] \<and> p_running s then s\<lparr>workers := (workers s)[i := WWaiting]\<rparr>
      else case p_queue s of
             [] \<Rightarrow> s\<lparr>workers := (workers s)[i := WTook None]\<rparr>
           | task # queue \<Rightarrow>
               s\<lparr>p_queue := queue, p_taken := p_taken s @ [task], workers := (workers s)[i := WTook task],
                 callers := (if maxQueueSize s > 0 then notify_caller j (callers s) else callers s)\<rparr>)"

text \<open>\<open>runInThread\<close>: the test of the loop, and the task.\<close>

definition worker_test :: "nat \<Rightarrow> 'a pool \<Rightarrow> 'a pool" where
  "worker_test i s = s\<lparr>workers := (workers s)[i := (if p_running s then WTaking else WDone)]\<rparr>"

definition worker_execute :: "nat \<Rightarrow> 'a option \<Rightarrow> 'a pool \<Rightarrow> 'a pool" where
  "worker_execute i task s =
     s\<lparr>p_executed := (case task of None \<Rightarrow> p_executed s | Some t \<Rightarrow> p_executed s @ [t]), workers := (workers s)[i := WLoop]\<rparr>"

fun wake_worker :: "'a worker \<Rightarrow> 'a worker" where
  "wake_worker WWaiting = WTaking"
| "wake_worker w = w"

definition pool_stop :: "'a pool \<Rightarrow> 'a pool" where
  "pool_stop s = s\<lparr>p_running := False, workers := map wake_worker (workers s), callers := map wake_caller (callers s)\<rparr>"

text \<open>\<open>run\<close> is called: without threads the caller executes the task.\<close>

definition pool_call :: "'a option \<Rightarrow> 'a pool \<Rightarrow> 'a pool" where
  "pool_call task s =
     (if workers s = [] then s\<lparr>p_executed := (case task of None \<Rightarrow> p_executed s | Some t \<Rightarrow> p_executed s @ [t])\<rparr>
      else s\<lparr>callers := callers s @ [CCalling task]\<rparr>)"

inductive pool_step :: "'a pool \<Rightarrow> 'a pool result \<Rightarrow> bool" where
  step_call: "pool_step s (Inr (pool_call task s))"
| step_run: "i < length (callers s) \<Longrightarrow> callers s ! i = CCalling task \<Longrightarrow> (\<exists>k < length (workers s). workers s ! k = WWaiting) \<longrightarrow>
     j < length (workers s) \<and> workers s ! j = WWaiting \<Longrightarrow> pool_step s (pool_run i task j s)"
| step_take: "i < length (workers s) \<Longrightarrow> workers s ! i = WTaking \<Longrightarrow> (\<exists>k < length (callers s). caller_waits (callers s ! k)) \<longrightarrow>
     j < length (callers s) \<and> caller_waits (callers s ! j) \<Longrightarrow> pool_step s (Inr (pool_take i j s))"
| step_test: "i < length (workers s) \<Longrightarrow> workers s ! i = WLoop \<Longrightarrow> pool_step s (Inr (worker_test i s))"
| step_execute: "i < length (workers s) \<Longrightarrow> workers s ! i = WTook task \<Longrightarrow> pool_step s (Inr (worker_execute i task s))"
| step_wake_worker: "i < length (workers s) \<Longrightarrow> workers s ! i = WWaiting \<Longrightarrow> pool_step s (Inr (s\<lparr>workers := notify_worker i (workers s)\<rparr>))"
| step_wake_caller: "i < length (callers s) \<Longrightarrow> caller_waits (callers s ! i) \<Longrightarrow> pool_step s (Inr (s\<lparr>callers := notify_caller i (callers s)\<rparr>))"
| step_stop: "pool_step s (Inr (pool_stop s))"

inductive pool_reach :: "nat \<Rightarrow> nat \<Rightarrow> 'a pool \<Rightarrow> bool" for m n where
  pool_started_now: "pool_reach m n (start_pool m n)"
| pool_stepped: "pool_reach m n s \<Longrightarrow> pool_step s (Inr s') \<Longrightarrow> pool_reach m n s'"

subsection \<open>The invariant\<close>

definition count_if :: "('b \<Rightarrow> bool) \<Rightarrow> 'b list \<Rightarrow> nat" where
  "count_if P xs = length (filter P xs)"

fun worker_awake :: "'a worker \<Rightarrow> bool" where
  "worker_awake WWaiting = False"
| "worker_awake WDone = False"
| "worker_awake w = True"

fun caller_active :: "'a caller \<Rightarrow> bool" where
  "caller_active (CCalling t) = True"
| "caller_active c = False"

text \<open>The task a worker has taken and not executed.\<close>

fun in_hand :: "'a worker \<Rightarrow> 'a multiset" where
  "in_hand (WTook (Some t)) = {#t#}"
| "in_hand w = {#}"

definition tasks_of :: "'a option list \<Rightarrow> 'a multiset" where
  "tasks_of ts = mset (List.map_filter id ts)"

text \<open>While workers wait there is one awake for each task in the queue; while callers wait there is one awake for each free
  place; after \<open>stop\<close> nobody waits.\<close>

definition pool_inv :: "nat \<Rightarrow> nat \<Rightarrow> 'a pool \<Rightarrow> bool" where
  "pool_inv m n s \<longleftrightarrow> maxQueueSize s = m \<and> length (workers s) = n \<and> (m > 0 \<longrightarrow> length (p_queue s) \<le> m)
     \<and> p_accepted s = p_taken s @ p_queue s
     \<and> (WWaiting \<in> set (workers s) \<longrightarrow> p_running s \<and> length (p_queue s) \<le> count_if worker_awake (workers s))
     \<and> (list_ex caller_waits (callers s) \<longrightarrow> p_running s \<and> m > 0 \<and> m \<le> length (p_queue s) + count_if caller_active (callers s))
     \<and> (p_running s \<longrightarrow> WDone \<notin> set (workers s))
     \<and> (n > 0 \<longrightarrow> tasks_of (p_taken s) = mset (p_executed s) + sum_list (map in_hand (workers s)))"

lemma count_if_simps [simp]:
  "count_if P [] = 0" "count_if P (x # xs) = (if P x then Suc (count_if P xs) else count_if P xs)" "count_if P (xs @ ys) = count_if P xs + count_if P ys"
  by (simp_all add: count_if_def)

lemma count_if_update: "i < length xs \<Longrightarrow> count_if P (xs[i := y]) + (if P (xs ! i) then 1 else 0) = count_if P xs + (if P y then 1 else 0)"
proof (induction xs arbitrary: i)
  case (Cons x xs)
  then show ?case by (cases i) auto
qed simp

lemma list_ex_update: "\<not> P y \<Longrightarrow> list_ex P (xs[i := y]) \<Longrightarrow> list_ex P xs"
  by (induction xs arbitrary: i) (auto split: nat.splits)

lemma in_set_update:
  assumes "i < length xs" "x \<noteq> y" "xs ! i \<noteq> x"
  shows "x \<in> set (xs[i := y]) \<longleftrightarrow> x \<in> set xs"
  using assms by (induction xs arbitrary: i) (auto split: nat.splits)

lemma in_set_update_imp: "x \<noteq> y \<Longrightarrow> x \<in> set (xs[i := y]) \<Longrightarrow> x \<in> set xs"
  by (induction xs arbitrary: i) (auto split: nat.splits)

lemma in_hand_update: "i < length ws \<Longrightarrow> sum_list (map in_hand (ws[i := w])) + in_hand (ws ! i) = sum_list (map in_hand ws) + in_hand w"
proof (induction ws arbitrary: i)
  case (Cons x xs)
  then show ?case by (cases i) (auto simp: add.commute add.left_commute)
qed simp

lemma tasks_of_snoc: "tasks_of (ts @ [t]) = tasks_of ts + (case t of None \<Rightarrow> {#} | Some x \<Rightarrow> {#x#})"
  by (simp add: tasks_of_def List.map_filter_def split: option.split)

text \<open>A worker that is woken: the tasks in hand are the same, one more is awake.\<close>

lemma notify_worker_facts:
  "length (notify_worker j ws) = length ws" "WDone \<in> set (notify_worker j ws) \<longleftrightarrow> WDone \<in> set ws"
  "WWaiting \<in> set (notify_worker j ws) \<Longrightarrow> WWaiting \<in> set ws"
  "sum_list (map in_hand (notify_worker j ws)) = sum_list (map in_hand ws)"
  "count_if worker_awake ws \<le> count_if worker_awake (notify_worker j ws)"
  "(\<exists>k < length ws. ws ! k = WWaiting) \<longrightarrow> j < length ws \<and> ws ! j = WWaiting \<Longrightarrow> WWaiting \<in> set (notify_worker j ws) \<Longrightarrow>
     count_if worker_awake (notify_worker j ws) = Suc (count_if worker_awake ws)"
proof -
  show "WDone \<in> set (notify_worker j ws) \<longleftrightarrow> WDone \<in> set ws" "WWaiting \<in> set (notify_worker j ws) \<Longrightarrow> WWaiting \<in> set ws"
    using in_set_update_imp [of WWaiting WTaking ws j] by (auto simp: notify_worker_def in_set_update split: if_splits)
  show "sum_list (map in_hand (notify_worker j ws)) = sum_list (map in_hand ws)"
    using in_hand_update [of j ws WTaking] by (auto simp: notify_worker_def)
  show "count_if worker_awake ws \<le> count_if worker_awake (notify_worker j ws)"
    using count_if_update [of j ws worker_awake WTaking] by (auto simp: notify_worker_def)
  show "count_if worker_awake (notify_worker j ws) = Suc (count_if worker_awake ws)"
    if "(\<exists>k < length ws. ws ! k = WWaiting) \<longrightarrow> j < length ws \<and> ws ! j = WWaiting" "WWaiting \<in> set (notify_worker j ws)"
    using that count_if_update [of j ws worker_awake WTaking]
    by (auto simp: notify_worker_def in_set_conv_nth [of WWaiting ws] split: if_splits)
qed (simp add: notify_worker_def)

lemma notify_caller_facts:
  "length (notify_caller j cs) = length cs" "list_ex caller_waits (notify_caller j cs) \<Longrightarrow> list_ex caller_waits cs"
  "count_if caller_active cs \<le> count_if caller_active (notify_caller j cs)"
  "j < length cs \<Longrightarrow> caller_waits (cs ! j) \<Longrightarrow> count_if caller_active (notify_caller j cs) = Suc (count_if caller_active cs)"
proof -
  show "list_ex caller_waits (notify_caller j cs) \<Longrightarrow> list_ex caller_waits cs"
    using list_ex_update [of caller_waits "wake_caller (cs ! j)" cs j] by (cases "cs ! j") (auto simp: notify_caller_def split: if_splits)
  show "count_if caller_active cs \<le> count_if caller_active (notify_caller j cs)"
    using count_if_update [of j cs caller_active "wake_caller (cs ! j)"] by (cases "cs ! j") (auto simp: notify_caller_def)
  show "count_if caller_active (notify_caller j cs) = Suc (count_if caller_active cs)" if "j < length cs" "caller_waits (cs ! j)"
    using count_if_update [of j cs caller_active "wake_caller (cs ! j)"] that by (cases "cs ! j") (auto simp: notify_caller_def)
qed (simp add: notify_caller_def)

text \<open>The state of a worker changes, and it stays awake.\<close>

lemma worker_update_facts:
  assumes "i < length ws" "worker_awake (ws ! i)" "worker_awake w"
  shows "count_if worker_awake (ws[i := w]) = count_if worker_awake ws" "WWaiting \<in> set (ws[i := w]) \<longleftrightarrow> WWaiting \<in> set ws"
    "WDone \<in> set (ws[i := w]) \<longleftrightarrow> WDone \<in> set ws"
proof -
  show "count_if worker_awake (ws[i := w]) = count_if worker_awake ws" using count_if_update [OF assms(1), of worker_awake w] assms by simp
  show "WWaiting \<in> set (ws[i := w]) \<longleftrightarrow> WWaiting \<in> set ws" "WDone \<in> set (ws[i := w]) \<longleftrightarrow> WDone \<in> set ws"
    using assms by (intro in_set_update; force)+
qed

lemma run_inv:
  assumes "pool_inv m n s" "i < length (callers s)" "callers s ! i = CCalling task"
    and "(\<exists>k < length (workers s). workers s ! k = WWaiting) \<longrightarrow> j < length (workers s) \<and> workers s ! j = WWaiting"
  shows "\<exists>s'. pool_run i task j s = Inr s' \<and> pool_inv m n s'"
proof -
  have w: "list_ex caller_waits ((callers s)[i := CReturned b]) \<Longrightarrow> list_ex caller_waits (callers s)" for b
    by (rule list_ex_update [of _ "CReturned b"]) simp_all
  have c: "count_if caller_active ((callers s)[i := CReturned b]) + 1 = count_if caller_active (callers s)" for b
    using count_if_update [OF assms(2), of caller_active "CReturned b"] assms(3) by simp
  consider "pool_isFull s \<and> p_running s" | "\<not> p_running s" | "p_running s" "\<not> pool_isFull s" by blast
  then show ?thesis
  proof cases
    case 1
    then show ?thesis using assms(1) by (auto simp: pool_run_def pool_inv_def pool_isFull_def)
  next
    case 2
    then show ?thesis using assms(1) w by (auto simp: pool_run_def pool_inv_def)
  next
    case 3
    have "length (p_queue s) < m \<or> m = 0" using 3 assms(1) by (auto simp: pool_inv_def pool_isFull_def)
    then show ?thesis
      using 3 assms(1) w [of True] c [of True] notify_worker_facts(1-5) [where j = j and ws = "workers s"] notify_worker_facts(6) [OF assms(4)]
      by (auto simp: pool_run_def pool_inv_def)
  qed
qed

lemma take_inv:
  assumes "pool_inv m n s" "i < length (workers s)" "workers s ! i = WTaking"
    and "(\<exists>k < length (callers s). caller_waits (callers s ! k)) \<longrightarrow> j < length (callers s) \<and> caller_waits (callers s ! j)"
  shows "pool_inv m n (pool_take i j s)"
proof -
  have W: "count_if worker_awake ((workers s)[i := WTook t]) = count_if worker_awake (workers s)"
    "WWaiting \<in> set ((workers s)[i := WTook t]) \<longleftrightarrow> WWaiting \<in> set (workers s)"
    "WDone \<in> set ((workers s)[i := WTook t]) \<longleftrightarrow> WDone \<in> set (workers s)" for t
    using worker_update_facts [OF assms(2), of "WTook t"] assms(3) by simp_all
  have H: "sum_list (map in_hand ((workers s)[i := w])) = sum_list (map in_hand (workers s)) + in_hand w" for w
    using in_hand_update [OF assms(2), of w] assms(3) by simp
  show ?thesis
  proof (cases "p_queue s")
    case Nil
    show ?thesis
    proof (cases "p_running s")
      case True
      have "WDone \<notin> set ((workers s)[i := WWaiting])" using assms(1) True by (auto simp: pool_inv_def dest: set_update_subset_insert [THEN subsetD])
      then show ?thesis using assms(1) Nil True H [of WWaiting] by (auto simp: pool_take_def pool_inv_def)
    next
      case False
      then show ?thesis using assms(1) Nil W H [of "WTook None"] by (auto simp: pool_take_def pool_inv_def)
    qed
  next
    case (Cons t q)
    have "list_ex caller_waits (callers s) \<Longrightarrow> count_if caller_active (notify_caller j (callers s)) = Suc (count_if caller_active (callers s))"
      using notify_caller_facts(4) [of j "callers s"] assms(4) by (auto simp: list_ex_length)
    moreover have "in_hand (WTook t) = (case t of None \<Rightarrow> {#} | Some x \<Rightarrow> {#x#})" by (simp split: option.split)
    ultimately show ?thesis
      using assms(1) Cons W [of t] H [of "WTook t"] notify_caller_facts(2) [of j "callers s"]
      by (auto simp: pool_take_def pool_inv_def tasks_of_snoc ac_simps)
  qed
qed

lemma test_inv:
  assumes "pool_inv m n s" "i < length (workers s)" "workers s ! i = WLoop"
  shows "pool_inv m n (worker_test i s)"
proof -
  have H: "sum_list (map in_hand ((workers s)[i := w])) = sum_list (map in_hand (workers s)) + in_hand w" for w
    using in_hand_update [OF assms(2), of w] assms(3) by simp
  show ?thesis
  proof (cases "p_running s")
    case True
    then show ?thesis using assms worker_update_facts [OF assms(2), of WTaking] H [of WTaking]
      by (auto simp: worker_test_def pool_inv_def)
  next
    case False
    then show ?thesis using assms H [of WDone] in_set_update_imp [of WWaiting WDone "workers s" i]
      by (auto simp: worker_test_def pool_inv_def)
  qed
qed

lemma execute_inv:
  assumes "pool_inv m n s" "i < length (workers s)" "workers s ! i = WTook task"
  shows "pool_inv m n (worker_execute i task s)"
proof -
  have "sum_list (map in_hand ((workers s)[i := WLoop])) + in_hand (WTook task) = sum_list (map in_hand (workers s))"
    using in_hand_update [OF assms(2), of WLoop] assms(3) by simp
  then have "mset (p_executed (worker_execute i task s)) + sum_list (map in_hand ((workers s)[i := WLoop]))
      = mset (p_executed s) + sum_list (map in_hand (workers s))"
    by (cases task) (auto simp: worker_execute_def ac_simps)
  then show ?thesis
    using assms(1) worker_update_facts [OF assms(2), of WLoop] assms(2,3) by (simp add: worker_execute_def pool_inv_def)
qed

lemma stop_inv:
  assumes "pool_inv m n s"
  shows "pool_inv m n (pool_stop s)"
proof -
  have "in_hand (wake_worker w) = in_hand w" for w :: "'a worker" by (cases w) simp_all
  then have h: "map in_hand (map wake_worker ws) = map in_hand ws" for ws :: "'a worker list" by simp
  have "WWaiting \<notin> set (map wake_worker ws)" for ws :: "'a worker list"
  proof
    assume "WWaiting \<in> set (map wake_worker ws)"
    then obtain w :: "'a worker" where "WWaiting = wake_worker w" by auto
    then show False by (cases w) auto
  qed
  moreover have "\<not> list_ex caller_waits (map wake_caller cs)" for cs :: "'a caller list"
  proof (induction cs)
    case (Cons c cs)
    then show ?case by (cases c) auto
  qed simp
  ultimately show ?thesis using assms unfolding pool_stop_def pool_inv_def by (simp add: h del: map_map)
qed

lemma pool_step_inv:
  assumes "pool_step s r" "pool_inv m n s"
  shows "\<exists>s'. r = Inr s' \<and> pool_inv m n s'"
  using assms
proof (induction rule: pool_step.induct)
  case (step_call s task)
  then show ?case by (auto simp: pool_call_def pool_inv_def)
next
  case (step_run i s task j)
  then show ?case using run_inv [of m n s i task j] by simp
next
  case (step_take i s j)
  then show ?case using take_inv [of m n s i j] by simp
next
  case (step_test i s)
  then show ?case using test_inv [of m n s i] by simp
next
  case (step_execute i s task)
  then show ?case using execute_inv [of m n s i task] by simp
next
  case (step_wake_worker i s)
  then show ?case using notify_worker_facts(1-5) [where j = i and ws = "workers s"] by (auto simp: pool_inv_def)
next
  case (step_wake_caller i s)
  then show ?case using notify_caller_facts(1-3) [where j = i and cs = "callers s"] by (auto simp: pool_inv_def)
next
  case (step_stop s)
  then show ?case using stop_inv by blast
qed

lemma pool_start_inv: "pool_inv m n (start_pool m n)"
proof -
  have "sum_list (replicate n {#}) = {#}" for n by (induction n) simp_all
  then show ?thesis by (auto simp: pool_inv_def start_pool_def tasks_of_def List.map_filter_def)
qed

lemma pool_reach_inv: "pool_reach m n s \<Longrightarrow> pool_inv m n s"
proof (induction rule: pool_reach.induct)
  case (pool_stepped s s')
  then show ?case using pool_step_inv [of s "Inr s'"] by auto
qed (rule pool_start_inv)

subsection \<open>Properties\<close>

text \<open>In every interleaving of callers and workers the assertion of \<open>run\<close> holds, the queue stays within its limit, tasks are
  taken in the order in which they were accepted, and every task taken is executed exactly once or in the hands of one worker.\<close>

theorem pool_conserves_tasks:
  assumes "pool_reach m n s" "0 < n" "pool_step s r"
  shows "\<exists>s'. r = Inr s' \<and> (0 < m \<longrightarrow> length (p_queue s') \<le> m) \<and> p_accepted s' = p_taken s' @ p_queue s'
    \<and> tasks_of (p_taken s') = mset (p_executed s') + sum_list (map in_hand (workers s'))"
  using pool_step_inv [OF assms(3) pool_reach_inv [OF assms(1)]] assms(2) by (auto simp: pool_inv_def)

text \<open>One worker, room for one task, and a task that is queued before the worker looks.\<close>

definition queued_pool :: "string pool" where
  "queued_pool = (start_pool 1 1)\<lparr>p_queue := [Some ''a''], p_accepted := [Some ''a''], callers := [CReturned True]\<rparr>"

lemma queued_pool_reached: "pool_reach 1 1 queued_pool"
proof -
  let ?s = "pool_call (Some ''a'') (start_pool 1 1)"
  have "pool_step ?s (pool_run 0 (Some ''a'') 0 ?s)"
    by (rule step_run) (simp_all add: pool_call_def start_pool_def)
  moreover have "pool_run 0 (Some ''a'') 0 ?s = Inr queued_pool"
    by (simp add: pool_run_def pool_call_def start_pool_def queued_pool_def pool_isFull_def notify_worker_def)
  ultimately show ?thesis using pool_stepped [OF pool_stepped [OF pool_started_now step_call]] by metis
qed

theorem pool_conserves_tasks_witness:
  "\<exists>s'. pool_step queued_pool (Inr s') \<and> s' = worker_test 0 queued_pool \<and> p_accepted s' = p_taken s' @ p_queue s'"
proof -
  have st: "pool_step queued_pool (Inr (worker_test 0 queued_pool))"
    by (rule step_test) (simp_all add: queued_pool_def start_pool_def)
  from pool_conserves_tasks [OF queued_pool_reached _ this] show ?thesis using st by auto
qed

text \<open>C24: No wake-up is lost. While the pool runs, a task in the queue means that some worker is awake, and a caller that waits for a
  place means that another caller is awake or that the queue is not empty, so that some worker is; after \<open>stop\<close> nobody
  waits.\<close>

theorem pool_never_stuck:
  assumes "pool_reach m n s" "0 < n"
  shows "(p_running s \<and> p_queue s \<noteq> [] \<longrightarrow> list_ex worker_awake (workers s))
    \<and> (list_ex caller_waits (callers s) \<longrightarrow> list_ex caller_active (callers s) \<or> p_queue s \<noteq> [] \<and> list_ex worker_awake (workers s))
    \<and> (\<not> p_running s \<longrightarrow> WWaiting \<notin> set (workers s) \<and> \<not> list_ex caller_waits (callers s))"
proof -
  note inv = pool_reach_inv [OF assms(1)]
  have ex: "0 < count_if P xs \<Longrightarrow> list_ex P xs" for P :: "'b \<Rightarrow> bool" and xs by (induction xs) (auto split: if_splits)
  have awake: "list_ex worker_awake (workers s)" if "p_running s" "p_queue s \<noteq> []"
  proof (cases "WWaiting \<in> set (workers s)")
    case True
    then have "length (p_queue s) \<le> count_if worker_awake (workers s)" using inv by (simp add: pool_inv_def)
    then show ?thesis using that(2) by (intro ex) (cases "p_queue s"; simp)
  next
    case False
    moreover have "WDone \<notin> set (workers s)" "workers s \<noteq> []" using inv that(1) assms(2) by (auto simp: pool_inv_def)
    ultimately have "worker_awake (hd (workers s))" by (cases "workers s"; cases "hd (workers s)") auto
    then show ?thesis using \<open>workers s \<noteq> []\<close> by (cases "workers s") auto
  qed
  moreover have "list_ex caller_active (callers s) \<or> p_queue s \<noteq> [] \<and> list_ex worker_awake (workers s)" if "list_ex caller_waits (callers s)"
  proof (cases "p_queue s = []")
    case True
    then have "0 < count_if caller_active (callers s)" using inv that by (auto simp: pool_inv_def)
    then show ?thesis using ex by blast
  next
    case False
    then show ?thesis using awake inv that by (simp add: pool_inv_def)
  qed
  ultimately show ?thesis using inv by (auto simp: pool_inv_def)
qed

theorem pool_never_stuck_witness: "(\<exists>m n. pool_reach m n queued_pool) \<and> p_queue queued_pool \<noteq> [] \<and> list_ex worker_awake (workers queued_pool)"
  using pool_never_stuck [OF queued_pool_reached] queued_pool_reached by (auto simp add: queued_pool_def start_pool_def)

end
