(* ===== verification/Startup.thy ===== *)
theory Startup
  imports Chat_Server File_Transfer Acceptor
begin

section \<open>Starting the servers\<close>

text \<open>
  \<open>EdoyumIMServer.cpp\<close>, \<open>FileServer/main.cpp\<close>, and \<open>Init\<close> of \<open>IMServer\<close> and \<open>FileServer\<close>. The values \<open>getopt\<close> returns, the result of
  \<open>fork\<close> and whether the address can be bound are parameters; \<open>bindOrDie\<close> and \<open>listenOrDie\<close> end the process otherwise
  (\<open>Inl FatalLog\<close>). A process ends with an exit code or enters its loop with the state of the server. Signal handlers and the
  redirection of the standard streams are not modelled.
\<close>

datatype 'w chat_process =
    ChatExit int
  | ChatLoop "'w server"

text \<open>Every option but \<open>-d\<close>, also \<open>-a\<close>, \<open>-b\<close> and \<open>-c\<close> that \<open>getopt\<close> is told of, ends the process.\<close>

fun chat_options :: "int list \<Rightarrow> bool \<Rightarrow> bool option" where
  "chat_options [] is_daemon = Some is_daemon"
| "chat_options (ch # chs) is_daemon = (if ch = 100 then chat_options chs True else None)"

text \<open>\<open>daemon\<close>: the exit code if the process ends.\<close>

definition daemonise :: "int \<Rightarrow> int option" where
  "daemonise pid = (if pid < 0 then Some (- 1) else if pid > 0 then Some 0 else None)"

definition IMServer_Init :: "bool \<Rightarrow> bool result" where
  "IMServer_Init bound = (if bound then Inr True else Inl FatalLog)"

definition chat_main :: "int list \<Rightarrow> int \<Rightarrow> bool \<Rightarrow> 'w mysql_api \<Rightarrow> 'w \<Rightarrow> 'w chat_process result option" where
  "chat_main opts pid bound api w =
     (case chat_options opts False of
        None \<Rightarrow> Some (Inr (ChatExit (- 1)))
      | Some is_daemon \<Rightarrow>
          (case (if is_daemon then daemonise pid else None) of
             Some code \<Rightarrow> Some (Inr (ChatExit code))
           | None \<Rightarrow>
               (case MySqlManager_Init api (lit ''127.0.0.1'') (lit ''debian-sys-maint'') (lit ''0ZaRwExruKSQPWuV'') (lit ''myim'') 3306
                       (new_MySqlManager, w) of
                  None \<Rightarrow> None
                | Some (Inl e) \<Rightarrow> Some (Inl e)
                | Some (Inr (False, d)) \<Rightarrow> Some (Inr (ChatExit (- 2)))
                | Some (Inr (True, d)) \<Rightarrow> Some
                    (bind_result (UserManager_Init api new_UserManager d) (\<lambda>(ok, us, d').
                       if \<not> ok then Inr (ChatExit (- 3))
                       else bind_result (IMServer_Init bound) (\<lambda>ok. Inr (ChatLoop (new_server us d'))))))))"

datatype 'n file_process =
    FileExit int
  | FileLoop "'n file_server" EventLoopThreadPool

fun file_options :: "int list \<Rightarrow> bool \<Rightarrow> bool" where
  "file_options [] bdaemon = bdaemon"
| "file_options (ch # chs) bdaemon = file_options chs (bdaemon \<or> ch = 100)"

definition FileServer_Init :: "bool \<Rightarrow> bool result" where
  "FileServer_Init bound = (if bound then Inr True else Inl FatalLog)"

text \<open>\<open>entries\<close> is the directory \<open>./filecache\<close> if it can be opened, \<open>made\<close> whether it can be created.\<close>

definition file_main ::
  "int list \<Rightarrow> int \<Rightarrow> bool \<Rightarrow> bytes list option \<Rightarrow> bool \<Rightarrow> (nat \<Rightarrow> nat) \<Rightarrow> nat \<Rightarrow> 'n file_server \<Rightarrow> 'n file_process result" where
  "file_main opts pid bound entries made startLoop base s =
     (case (if file_options opts False then daemonise pid else None) of
        Some code \<Rightarrow> Inr (FileExit code)
      | None \<Rightarrow>
          (case FileManager_Init entries made s of
             (False, s1) \<Rightarrow> Inr (FileExit (- 1))
           | (True, s1) \<Rightarrow>
               bind_result (pool_start startLoop ((new_pool base)\<lparr>numThreads := 6\<rparr>)) (\<lambda>pool.
               bind_result (FileServer_Init bound) (\<lambda>ok. Inr (FileLoop s1 pool)))))"

lemma chat_options_d: "chat_options os b = Some is_d \<Longrightarrow> set os \<subseteq> {100} \<and> (is_d \<longleftrightarrow> b \<or> os \<noteq> [])"
  by (induction os b rule: chat_options.induct) (auto split: if_splits)

lemma chat_options_only_d: "set os \<subseteq> {100} \<Longrightarrow> chat_options os b = Some (b \<or> os \<noteq> [])"
  by (induction os b rule: chat_options.induct) auto

subsection \<open>Properties\<close>

text \<open>The chat server that has started has loaded its users from the database it checked, has no session and no
  message, and keeps the invariant of its session map in every state it reaches from there.\<close>

theorem chat_startup:
  assumes "chat_main opts pid bound api w = Some (Inr (ChatLoop s))" and "(server_step api)\<^sup>*\<^sup>* s s'"
  shows "\<exists>d us d'. MySqlManager_Init api (lit ''127.0.0.1'') (lit ''debian-sys-maint'') (lit ''0ZaRwExruKSQPWuV'') (lit ''myim'') 3306
      (new_MySqlManager, w) = Some (Inr (True, d))
    \<and> UserManager_Init api new_UserManager d = Inr (True, us, d') \<and> s = new_server us d'
    \<and> set opts \<subseteq> {100} \<and> (opts \<noteq> [] \<longrightarrow> pid = 0) \<and> bound \<and> server_inv s'"
proof -
  obtain is_d where d: "chat_options opts False = Some is_d" "(if is_d then daemonise pid else None) = None"
    using assms(1) by (auto simp: chat_main_def split: option.splits)
  then have "opts \<noteq> [] \<longrightarrow> pid = 0" using chat_options_d [OF d(1)] by (auto simp: daemonise_def split: if_splits)
  moreover obtain d us d' where
    "MySqlManager_Init api (lit ''127.0.0.1'') (lit ''debian-sys-maint'') (lit ''0ZaRwExruKSQPWuV'') (lit ''myim'') 3306
      (new_MySqlManager, w) = Some (Inr (True, d))"
    "UserManager_Init api new_UserManager d = Inr (True, us, d')" "s = new_server us d'" "bound"
    using assms(1) d
    by (auto simp: chat_main_def bind_result_eq_Inr IMServer_Init_def split: option.splits sum.splits bool.splits if_splits prod.splits)
  moreover have "server_inv s'" using server_inv_steps [OF assms(2)] calculation(4) by simp
  ultimately show ?thesis using chat_options_d [OF d(1)] by blast
qed

text \<open>The first start on a database server without the database ends with the exit code \<open>-2\<close>, although the database has been
  created.\<close>

theorem first_start_fails:
  assumes "set opts \<subseteq> {100}" and "opts \<noteq> [] \<longrightarrow> pid = 0"
    and "connect api (lit ''127.0.0.1'') (lit ''debian-sys-maint'') (lit ''0ZaRwExruKSQPWuV'') (lit ''myim'') 3306 new_MySQLTool w = (True, t, w1)"
    and "CheckDatabase api (with_tool t new_MySqlManager, w1) = Inr (False, m2, w2)"
    and "m_mysql m2 = Some t2" "m_handle t2"
    and "mysql_query api (lit '' create database '' @ GetDBName t2 @ lit '';'') w2 = (False, w3)"
  shows "chat_main opts pid bound api w = Some (Inr (ChatExit (- 2)))"
proof -
  have "MySqlManager_Init api (lit ''127.0.0.1'') (lit ''debian-sys-maint'') (lit ''0ZaRwExruKSQPWuV'') (lit ''myim'') 3306
      (new_MySqlManager, w) = Some (Inr (False, with_tool t2 m2, w3))"
    using assms(3-7) by (intro Init_fresh_database) (simp_all add: drop_tool_def new_MySqlManager_def)
  then show ?thesis
    using chat_options_only_d [OF assms(1)] assms(2) by (auto simp: chat_main_def daemonise_def)
qed

text \<open>C23: On a server whose user table is empty the chat server never gets to its loop: reading the first column of the released row
  ends it.\<close>

theorem empty_users_start_faults:
  assumes "set opts \<subseteq> {100}" and "opts \<noteq> [] \<longrightarrow> pid = 0"
    and "MySqlManager_Init api (lit ''127.0.0.1'') (lit ''debian-sys-maint'') (lit ''0ZaRwExruKSQPWuV'') (lit ''myim'') 3306
      (new_MySqlManager, w) = Some (Inr (True, d))"
    and "Query api (lit ''SELECT f_user_id,f_username,f_nickname,f_password,f_facetype,f_customface,f_gender,f_birthday,f_signature,f_address,f_phonenumber,f_mail FROM t_user ORDER BY f_user_id DESC;'') d = Inr (Some q, d')"
    and "new_QueryResult (Some r) cnt 12 = Inr q" "res_rows r = []"
  shows "chat_main opts pid bound api w = Some (Inl OutOfBounds)"
  using chat_options_only_d [OF assms(1)] assms(2,3) LoadUserFromDB_empty_table [OF assms(4-6)]
  by (auto simp: chat_main_def daemonise_def UserManager_Init_def)

subsection \<open>A concrete start\<close>

text \<open>A client library whose server has the database if \<open>has\<close> holds, no table of the schema described by \<open>desc\<close>, and answers every
  \<open>SELECT\<close> with \<open>rows\<close>.\<close>

definition bare_api :: "bool \<Rightarrow> bytes option list list \<Rightarrow> bytes mysql_api" where
  "bare_api has rows =
     \<lparr>mysql_real_connect = (\<lambda>_ _ _ _ _ w. (True, w)), mysql_close = (\<lambda>w. w),
      mysql_real_query = (\<lambda>sql w. (take 5 sql = lit '' desc'', sql)), mysql_errno = (\<lambda>_. 0),
      mysql_store_result = (\<lambda>w. (if take 4 w = lit ''show'' then Some \<lparr>res_fields = [([], FIELD_TYPE_VAR_STRING)],
             res_rows = [[Some (if has then lit ''myim'' else lit ''sys'')]]\<rparr>
         else if take 6 w = lit ''SELECT'' then Some \<lparr>res_fields = replicate 12 ([], FIELD_TYPE_LONG), res_rows = rows\<rparr> else None, w)),
      mysql_affected_rows = (\<lambda>w. if take 4 w = lit ''show'' then 1 else 0),
      mysql_field_count = (\<lambda>w. if take 4 w = lit ''show'' then 1 else if take 6 w = lit ''SELECT'' then 12 else 0)\<rparr>"

definition bare_tool :: MySQLTool where
  "bare_tool = \<lparr>m_handle = True, m_host = lit ''127.0.0.1'', MySQLTool.m_user = lit ''debian-sys-maint'',
     m_passwd = lit ''0ZaRwExruKSQPWuV'', m_dbname = lit ''myim'', m_port = 3306\<rparr>"

lemma bare_connect:
  "connect (bare_api has rows) (lit ''127.0.0.1'') (lit ''debian-sys-maint'') (lit ''0ZaRwExruKSQPWuV'') (lit ''myim'') 3306 new_MySQLTool w =
     (True, bare_tool, lit ''set name utf8;'')"
  by (simp add: connect_def new_MySQLTool_def bare_api_def bare_tool_def mysql_query_def c_string_def lit_def)

lemma bare_CheckDatabase:
  "CheckDatabase (bare_api has rows) (with_tool bare_tool m, w) = Inr (has, with_tool bare_tool m, lit ''show databases;'')"
proof -
  let ?name = "Some (if has then lit ''myim'' else lit ''sys'')"
  let ?r = "\<lparr>res_fields = [([], FIELD_TYPE_VAR_STRING)], res_rows = [[?name]]\<rparr>"
  obtain q where q: "new_QueryResult (Some ?r) 1 1 = Inr q" "at_row 1 [?name] [] q"
    using new_QueryResult_row [of 1 ?r "[?name]" "[]" 1 1] by (auto simp: well_shaped_def)
  have "tool_Query (bare_api has rows) (lit ''show databases;'') bare_tool w = Inr (Some q, bare_tool, lit ''show databases;'')"
    using q(1) by (simp add: tool_Query_def fetch_result_def bare_api_def bare_tool_def lit_def)
  moreover have "find_database (lit ''myim'') q = Inr has"
    using row_at_row [OF q(2), of 0] NextRow_last [OF q(2)] at_row_Fetch [OF q(2)]
    by (subst find_database.simps) (auto simp: GetString_def cell_def lit_def)
  ultimately show ?thesis by (simp add: CheckDatabase_def with_tool_def GetDBName_def bare_tool_def)
qed

lemma bare_CheckTable:
  assumes "mapField info \<noteq> []"
  shows "\<exists>w'. CheckTable (bare_api has rows) info (with_tool bare_tool m, w) = Some (Inr (True, with_tool bare_tool m, w'))"
  using assms
  by (simp add: CheckTable_def CreateTable_def tool_Query_def Execute_def Execute_counted_def mysql_query_def bare_api_def bare_tool_def
      with_tool_def CR_SERVER_GONE_ERROR_def c_string_def lit_def Let_def)

lemma bare_check_tables:
  assumes "list_all (\<lambda>(k, i). mapField i \<noteq> []) ts"
  shows "\<exists>w'. check_tables (bare_api has rows) ts (with_tool bare_tool m, w) = Some (Inr (True, with_tool bare_tool m, w'))"
  using assms
proof (induction ts arbitrary: w)
  case (Cons t ts)
  obtain k i where t: "t = (k, i)" by fastforce
  obtain w1 where "CheckTable (bare_api has rows) i (with_tool bare_tool m, w) = Some (Inr (True, with_tool bare_tool m, w1))"
    using bare_CheckTable [of i has rows m w] Cons.prems t by auto
  moreover obtain w2 where "check_tables (bare_api has rows) ts (with_tool bare_tool m, w1) = Some (Inr (True, with_tool bare_tool m, w2))"
    using Cons by auto
  ultimately show ?case using t by simp
qed simp

lemma schema_has_columns: "list_all (\<lambda>(k, i). mapField i \<noteq> []) (m_mapTable new_MySqlManager)"
  by code_simp

lemma bare_Init:
  obtains w' where "MySqlManager_Init (bare_api True rows) (lit ''127.0.0.1'') (lit ''debian-sys-maint'') (lit ''0ZaRwExruKSQPWuV'') (lit ''myim'') 3306
      (new_MySqlManager, w) = Some (Inr (True, with_tool bare_tool new_MySqlManager, w'))"
  using bare_check_tables [OF schema_has_columns, of True rows new_MySqlManager "lit ''show databases;''"]
  by (auto simp: MySqlManager_Init_def bare_connect bare_CheckDatabase)

lemma bare_Query:
  assumes "take 6 sql = lit ''SELECT''"
    and "new_QueryResult (Some \<lparr>res_fields = replicate 12 ([], FIELD_TYPE_LONG), res_rows = rows\<rparr>) 0 12 = Inr q"
  shows "Query (bare_api has rows) sql (with_tool bare_tool m, w) = Inr (Some q, with_tool bare_tool m, sql)"
proof -
  have "take 4 sql = take 4 (take 6 sql)" "take 5 sql = take 5 (take 6 sql)" by simp_all
  then have "take 4 sql \<noteq> lit ''show''" "take 5 sql \<noteq> lit '' desc''" unfolding assms(1) by (simp_all add: lit_def)
  then show ?thesis
    using assms by (simp add: Query_def tool_Query_def fetch_result_def bare_api_def bare_tool_def with_tool_def)
qed

lemma bare_UserManager_Init:
  assumes "length row = 12"
  obtains us d' where "UserManager_Init (bare_api has [row]) new_UserManager (with_tool bare_tool m, w) = Inr (True, us, d')"
proof -
  obtain q where q: "new_QueryResult (Some \<lparr>res_fields = replicate 12 ([], FIELD_TYPE_LONG), res_rows = [row]\<rparr>) 0 12 = Inr q" "at_row 12 row [] q"
    using new_QueryResult_row [of 12 "\<lparr>res_fields = replicate 12 ([], FIELD_TYPE_LONG), res_rows = [row]\<rparr>" row "[]" 12 0] assms
    by (auto simp: well_shaped_def)
  let ?u = "user_of_cells row"
  obtain m1 where "load_users q new_UserManager = Inr m1" "m_cachedUsers m1 = [?u]"
    using load_users_rows [OF q(2), of new_UserManager] by (auto simp: cache_user_def new_UserManager_def)
  moreover obtain fs where "load_friends (userid ?u) q (friends ?u) = Inr fs"
    using row_at_row [OF q(2), of 0] row_at_row [OF q(2), of 1] NextRow_last [OF q(2)] at_row_Fetch [OF q(2)]
    by (subst (asm) load_friends.simps) auto
  ultimately show thesis
    using that bare_Query [OF _ q(1)]
    by (simp add: UserManager_Init_def LoadUserFromDB_def LoadRelationshipFromDB_def lit_def)
qed

theorem chat_startup_witness:
  "\<exists>s. chat_main [100] 0 True (bare_api True [replicate 12 (Some (lit ''1''))]) [] = Some (Inr (ChatLoop s)) \<and> server_inv s"
proof -
  let ?api = "bare_api True [replicate 12 (Some (lit ''1''))]"
  obtain w' where "MySqlManager_Init ?api (lit ''127.0.0.1'') (lit ''debian-sys-maint'') (lit ''0ZaRwExruKSQPWuV'') (lit ''myim'') 3306
      (new_MySqlManager, []) = Some (Inr (True, with_tool bare_tool new_MySqlManager, w'))" by (rule bare_Init)
  moreover obtain us d' where "UserManager_Init ?api new_UserManager (with_tool bare_tool new_MySqlManager, w') = Inr (True, us, d')"
    by (rule bare_UserManager_Init) (rule length_replicate)
  ultimately have m: "chat_main [100] 0 True ?api [] = Some (Inr (ChatLoop (new_server us d')))"
    unfolding chat_main_def by (simp add: daemonise_def IMServer_Init_def)
  from chat_startup [OF m rtranclp.rtrancl_refl] have "server_inv (new_server us d')" by (elim exE conjE)
  with m show ?thesis by (intro exI conjI)
qed

theorem first_start_fails_witness: "chat_main [] 0 True (bare_api False []) [] = Some (Inr (ChatExit (- 2)))"
proof (rule first_start_fails [OF _ _ bare_connect bare_CheckDatabase])
  show "m_mysql (with_tool bare_tool new_MySqlManager) = Some bare_tool" "m_handle bare_tool"
    by (simp_all add: with_tool_def bare_tool_def)
  show "mysql_query (bare_api False []) (lit '' create database '' @ GetDBName bare_tool @ lit '';'') (lit ''show databases;'') =
      (False, lit '' create database '' @ GetDBName bare_tool @ lit '';'')"
    by (simp add: mysql_query_def bare_api_def bare_tool_def GetDBName_def c_string_def lit_def)
qed simp_all

theorem empty_users_start_faults_witness: "chat_main [] 0 True (bare_api True []) [] = Some (Inl OutOfBounds)"
proof -
  let ?r = "\<lparr>res_fields = replicate 12 ([], FIELD_TYPE_LONG), res_rows = []\<rparr>"
  obtain q where q: "new_QueryResult (Some ?r) 0 12 = Inr q"
    by (simp add: new_QueryResult_def mysql_fetch_row_def Let_def)
  obtain w' where i: "MySqlManager_Init (bare_api True []) (lit ''127.0.0.1'') (lit ''debian-sys-maint'') (lit ''0ZaRwExruKSQPWuV'') (lit ''myim'') 3306
      (new_MySqlManager, []) = Some (Inr (True, with_tool bare_tool new_MySqlManager, w'))" by (rule bare_Init)
  show ?thesis
    by (rule empty_users_start_faults [OF _ _ i bare_Query [OF _ q] q]) (simp_all add: lit_def)
qed

subsection \<open>The file server\<close>

text \<open>The file server that has started lists the files of its directory and keeps its invariant; the pool of six loops that
  \<open>main\<close> starts is no part of the server, whose own pool has no thread, so that all connections run in the main loop.\<close>

lemma file_startup:
  assumes "file_main opts pid bound entries made startLoop base s = Inr (FileLoop s' pool)" and "file_inv env s"
  shows "file_inv env s' \<and> f_disk s' = f_disk s \<and> f_sessions s' = f_sessions s \<and> loops pool = map startLoop [0..<6] \<and> bound
    \<and> (100 \<in> set opts \<longrightarrow> pid = 0) \<and> (case entries of None \<Rightarrow> made \<and> m_listFiles s' = m_listFiles s
        | Some names \<Rightarrow> m_listFiles s' = m_listFiles s @ filter (\<lambda>x. x \<noteq> lit ''.'' \<and> x \<noteq> lit ''..'') names)"
proof -
  have o: "file_options opts b \<longleftrightarrow> b \<or> 100 \<in> set opts" for b by (induction opts b rule: file_options.induct) auto
  show ?thesis
    using assms
    by (auto simp: file_main_def o daemonise_def FileManager_Init_def pool_start_def new_pool_def FileServer_Init_def
        split: option.splits bool.splits if_splits)
qed

end
