(* ===== verification/Json_Text.thy ===== *)
theory Json_Text
  imports Json_Reader
begin

section \<open>Strings and numbers in JSON text\<close>

text \<open>
  The escapes that \<open>valueToQuotedStringN\<close> writes are decoded to the same UTF-8 bytes by \<open>decodeString\<close>, and
  printed integers are decoded to the same integers by \<open>decodeNumber\<close>, both of \<open>newJson/jsoncpp.cpp\<close>.
\<close>

subsection \<open>UTF-8\<close>

definition valid_codepoint :: "32 word \<Rightarrow> bool" where
  "valid_codepoint cp \<longleftrightarrow> cp \<le> 0x10FFFF \<and> \<not> (0xD800 \<le> cp \<and> cp \<le> 0xDFFF)"

definition utf8 :: "32 word list \<Rightarrow> bytes" where
  "utf8 cps = concat (map codePointToUTF8 cps)"

lemma and_take:
  fixes x :: "32 word"
  shows "0x3F AND x = take_bit 6 x" "0x1F AND x = take_bit 5 x" "0x0F AND x = take_bit 4 x" "0x07 AND x = take_bit 3 x"
    "x AND 0x3F = take_bit 6 x" "x AND 0x1F = take_bit 5 x" "x AND 0x0F = take_bit 4 x" "x AND 0x07 = take_bit 3 x"
  by (simp_all add: take_bit_eq_mask mask_eq_exp_minus_1 and.commute)

lemma byte_field:
  fixes h x :: "32 word"
  assumes "k \<le> 8" "take_bit k h = 0"
  shows "take_bit k (ucast (ucast (h OR take_bit k x) :: byte)) = take_bit k x"
proof (rule bit_word_eqI)
  fix n
  have "\<not> bit (take_bit k h) n"
    by (simp add: assms(2))
  then show "bit (take_bit k (ucast (ucast (h OR take_bit k x) :: byte)) :: 32 word) n = bit (take_bit k x) n"
    using assms(1) by (auto simp: bit_take_bit_iff bit_or_iff bit_unsigned_iff)
qed

lemma byte_fields:
  fixes x :: "32 word"
  shows "take_bit 6 (ucast (ucast (0x80 OR take_bit 6 x) :: byte)) = take_bit 6 x"
    "take_bit 5 (ucast (ucast (0xC0 OR take_bit 5 x) :: byte)) = take_bit 5 x"
    "take_bit 4 (ucast (ucast (0xE0 OR take_bit 4 x) :: byte)) = take_bit 4 x"
    "take_bit 3 (ucast (ucast (0xF0 OR take_bit 3 x) :: byte)) = take_bit 3 x"
  by (rule byte_field; simp)+

lemma join_fields:
  fixes x :: "32 word"
  shows "push_bit k (take_bit m (drop_bit k x)) OR take_bit k x = take_bit (k + m) x"
  by (rule bit_word_eqI) (auto simp: bit_or_iff bit_push_bit_iff bit_take_bit_iff bit_drop_bit_eq)

lemma take_small: "unat (x :: 32 word) < 2 ^ n \<Longrightarrow> take_bit n x = x"
  by (rule word_unat_eq_iff [THEN iffD2]) (simp only: unsigned_take_bit_eq take_bit_nat_eq_self)

lemma unat_take_bit_less: "unat (take_bit k (x :: 32 word)) < 2 ^ k"
  by (simp only: unsigned_take_bit_eq take_bit_nat_less_exp)

lemma head_value:
  fixes h x :: "32 word"
  assumes "take_bit k h = 0" "unat h + 2 ^ k \<le> 256"
  shows "unat (ucast (ucast (h OR take_bit k x) :: byte) :: 32 word) = unat h + unat (take_bit k x)"
proof -
  have "\<not> bit (take_bit k h) n" for n
    by (simp add: assms(1))
  then have "h AND take_bit k x = 0"
    by (intro bit_word_eqI) (auto simp: bit_and_iff bit_take_bit_iff)
  then have eq: "h OR take_bit k x = h + take_bit k x"
    by (simp add: disjunctive_add_eq_or)
  have small: "unat h + unat (take_bit k x) < 256"
    using assms(2) unat_take_bit_less [of k x] by linarith
  then have "unat (h + take_bit k x) = unat h + unat (take_bit k x)"
    by (intro unat_add_lem [THEN iffD1]) simp
  with small take_small [of "h + take_bit k x" 8] show ?thesis
    by (simp add: eq unsigned_ucast_eq)
qed

lemma head_values:
  fixes x :: "32 word"
  shows "unat (ucast (ucast (0xC0 OR take_bit 5 x) :: byte) :: 32 word) = 0xC0 + unat (take_bit 5 x)"
    "unat (ucast (ucast (0xE0 OR take_bit 4 x) :: byte) :: 32 word) = 0xE0 + unat (take_bit 4 x)"
    "unat (ucast (ucast (0xF0 OR take_bit 3 x) :: byte) :: 32 word) = 0xF0 + unat (take_bit 3 x)"
  by (subst head_value; simp)+

lemma utf8ToCodepoint_1:
  assumes "cp \<le> 0x7f"
  shows "utf8ToCodepoint (codePointToUTF8 cp @ rest) = (cp, length (codePointToUTF8 cp))"
proof -
  have "unat cp < 128"
    using assms by (simp add: word_le_nat_alt)
  then have "(ucast (ucast cp :: byte) :: 32 word) = cp"
    using take_small [of cp 8] by (intro word_unat_eq_iff [THEN iffD2]) (simp add: unsigned_ucast_eq)
  then show ?thesis
    using \<open>unat cp < 128\<close> assms by (simp add: codePointToUTF8_def utf8ToCodepoint_def Let_def word_less_nat_alt)
qed

lemma utf8ToCodepoint_2:
  assumes "\<not> cp \<le> 0x7f" "cp \<le> 0x7FF"
  shows "utf8ToCodepoint (codePointToUTF8 cp @ rest) = (cp, length (codePointToUTF8 cp))"
proof -
  have cp: "128 \<le> unat cp" "unat cp < 2 ^ 11"
    using assms by (simp_all add: word_le_nat_alt)
  have "unat (take_bit 5 (drop_bit 6 cp)) < 2 ^ 5"
    by (rule unat_take_bit_less)
  moreover have "push_bit 6 (take_bit 5 (drop_bit 6 cp)) OR take_bit 6 cp = cp"
    using join_fields [of 6 5 cp] take_small [OF cp(2)] by simp
  ultimately show ?thesis
    using assms cp
    by (simp add: codePointToUTF8_def utf8ToCodepoint_def Let_def and_take byte_fields word_less_nat_alt head_values)
qed

lemma utf8ToCodepoint_3:
  assumes "\<not> cp \<le> 0x7FF" "cp \<le> 0xFFFF" "\<not> (0xD800 \<le> cp \<and> cp \<le> 0xDFFF)"
  shows "utf8ToCodepoint (codePointToUTF8 cp @ rest) = (cp, length (codePointToUTF8 cp))"
proof -
  have cp: "2048 \<le> unat cp" "unat cp < 2 ^ 16" "\<not> cp \<le> 0x7f"
    using assms by (simp_all add: word_le_nat_alt)
  have "unat (take_bit 4 (drop_bit 12 cp)) < 2 ^ 4"
    by (rule unat_take_bit_less)
  moreover have "push_bit 12 (take_bit 4 (drop_bit 12 cp)) OR push_bit 6 (take_bit 6 (drop_bit 6 cp)) OR take_bit 6 cp = cp"
    using join_fields [of 6 6 cp] join_fields [of 12 4 cp] take_small [OF cp(2)] by (simp add: or.assoc)
  ultimately show ?thesis
    using assms cp
    by (auto simp: codePointToUTF8_def utf8ToCodepoint_def Let_def and_take byte_fields word_less_nat_alt head_values)
qed

lemma utf8ToCodepoint_4:
  assumes "\<not> cp \<le> 0xFFFF" "cp \<le> 0x10FFFF"
  shows "utf8ToCodepoint (codePointToUTF8 cp @ rest) = (cp, length (codePointToUTF8 cp))"
proof -
  have cp: "65536 \<le> unat cp" "unat cp < 2 ^ 21" "\<not> cp \<le> 0x7f" "\<not> cp \<le> 0x7FF"
    using assms by (simp_all add: word_le_nat_alt)
  have "unat (take_bit 3 (drop_bit 18 cp)) < 2 ^ 3"
    by (rule unat_take_bit_less)
  moreover have "push_bit 18 (take_bit 3 (drop_bit 18 cp)) OR push_bit 12 (take_bit 6 (drop_bit 12 cp)) OR
      push_bit 6 (take_bit 6 (drop_bit 6 cp)) OR take_bit 6 cp = cp"
    using join_fields [of 6 6 cp] join_fields [of 12 6 cp] join_fields [of 18 3 cp] take_small [OF cp(2)] by (simp add: or.assoc)
  ultimately show ?thesis
    using assms cp
    by (simp add: codePointToUTF8_def utf8ToCodepoint_def Let_def and_take byte_fields word_less_nat_alt head_values)
qed

lemma utf8ToCodepoint_UTF8:
  assumes "valid_codepoint cp"
  shows "utf8ToCodepoint (codePointToUTF8 cp @ rest) = (cp, length (codePointToUTF8 cp))"
  using assms utf8ToCodepoint_1 utf8ToCodepoint_2 utf8ToCodepoint_3 utf8ToCodepoint_4
  unfolding valid_codepoint_def by blast

subsection \<open>Escapes\<close>

lemma hex_digits:
  assumes "unat (d :: 32 word) < 16"
  shows "hex_value (hex_digit d) = Some (unat d)" "hex_digit d \<noteq> 34" "hex_digit d \<noteq> 92"
proof -
  have "\<forall>n \<in> set [0..<16]. hex_value (hex_digit (of_nat n)) = Some n \<and> hex_digit (of_nat n) \<noteq> 34 \<and> hex_digit (of_nat n) \<noteq> 92"
    by code_simp
  moreover have "unat d \<in> set [0..<16]"
    using assms by simp
  ultimately have "hex_value (hex_digit (of_nat (unat d))) = Some (unat d) \<and> hex_digit (of_nat (unat d)) \<noteq> 34 \<and> hex_digit (of_nat (unat d)) \<noteq> 92"
    by (rule bspec)
  then show "hex_value (hex_digit d) = Some (unat d)" "hex_digit d \<noteq> 34" "hex_digit d \<noteq> 92"
    by simp_all
qed

lemma and_take_bytes:
  fixes x :: "32 word"
  shows "x AND 0xff = take_bit 8 x" "x AND 0xf = take_bit 4 x"
  by (simp_all add: take_bit_eq_mask mask_eq_exp_minus_1)

definition nibble :: "nat \<Rightarrow> 32 word \<Rightarrow> 32 word" where
  "nibble k x = take_bit 4 (drop_bit (4 * k) x)"

lemma toHex16Bit_nibbles:
  "toHex16Bit x = [hex_digit (nibble 3 x), hex_digit (nibble 2 x), hex_digit (nibble 1 x), hex_digit (nibble 0 x)]"
proof -
  have "drop_bit 4 (take_bit 8 (drop_bit 8 x)) = nibble 3 x" "take_bit 4 (take_bit 8 (drop_bit 8 x)) = nibble 2 x"
    "drop_bit 4 (take_bit 8 x) = nibble 1 x" "take_bit 4 (take_bit 8 x) = nibble 0 x"
    by (simp_all add: nibble_def drop_bit_take_bit drop_bit_drop_bit)
  then show ?thesis
    by (simp add: toHex16Bit_def Let_def and_take_bytes)
qed

lemma unat_nibble: "unat (nibble k x) = unat x div 2 ^ (4 * k) mod 16"
proof -
  have "unat x mod 4294967296 = unat x"
    using unsigned_less [of x, where 'a = nat] by simp
  then show ?thesis
    unfolding nibble_def
    by (simp only: unsigned_take_bit_eq unsigned_drop_bit_eq) (simp add: take_bit_eq_mod drop_bit_eq_div)
qed

lemma nibbles_value:
  assumes "n < 65536"
  shows "((n div 2 ^ (4 * 3) mod 16 * 16 + n div 2 ^ (4 * 2) mod 16) * 16 + n div 2 ^ (4 * 1) mod 16) * 16 + n div 2 ^ (4 * 0) mod 16 = (n :: nat)"
proof -
  have "n div 16 div 16 div 16 mod 16 = n div 16 div 16 div 16"
    using assms by (simp add: div_mult2_eq [symmetric])
  moreover have "n div 2 ^ (4 * 3) = n div 16 div 16 div 16" "n div 2 ^ (4 * 2) = n div 16 div 16" "n div 2 ^ (4 * 1) = n div 16"
    by (simp_all add: div_mult2_eq [symmetric])
  ultimately show ?thesis
    by (simp add: mult.commute [of _ 16])
qed

lemma decode_toHex:
  assumes "unat (x :: 32 word) < 65536"
  shows "decodeUnicodeEscapeSequence (toHex16Bit x @ rest) = Some (x, rest)"
proof -
  have small: "unat (nibble k x) < 16" for k
    by (simp add: unat_nibble)
  have "((unat (nibble 3 x) * 16 + unat (nibble 2 x)) * 16 + unat (nibble 1 x)) * 16 + unat (nibble 0 x) = unat x"
    unfolding unat_nibble by (rule nibbles_value [OF assms])
  then show ?thesis
    by (simp add: toHex16Bit_nibbles hex_digits [OF small] del: of_nat_add of_nat_mult)
qed

lemma readString_hex: "readString (appendHex x @ t) = readString t"
proof -
  have "unat (nibble k x) < 16" for k
    by (simp add: unat_nibble)
  then show ?thesis
    by (simp add: appendHex_def toHex16Bit_nibbles hex_digits)
qed

text \<open>The escape of one code point.\<close>

definition esc :: "32 word \<Rightarrow> bytes" where
  "esc cp =
     (if cp = 34 then [92, 34] else if cp = 92 then [92, 92] else if cp = 8 then [92, 98]
      else if cp = 12 then [92, 102] else if cp = 10 then [92, 110] else if cp = 13 then [92, 114]
      else if cp = 9 then [92, 116] else escape_codepoint cp)"

lemma ucast_ascii: "unat (cp :: 32 word) < 128 \<Longrightarrow> unat (ucast cp :: byte) = unat cp"
  by (simp add: unsigned_ucast_eq take_bit_nat_eq_self)

lemma unat_wide: "unat (ucast (b :: byte) :: 32 word) = unat b"
proof -
  have "unat b < 2 ^ 32"
    using unsigned_less [of b, where 'a = nat] by simp
  then show ?thesis
    by (simp add: unsigned_ucast_eq take_bit_nat_eq_self)
qed

lemma ascii_eq:
  assumes "unat (cp :: 32 word) < 128" "unat k < 128"
  shows "(ucast cp :: byte) = ucast (k :: 32 word) \<longleftrightarrow> cp = k"
  using assms by (metis ucast_ascii word_unat_eq_iff)

lemma utf8_head:
  assumes "valid_codepoint cp" "\<not> cp \<le> 0x7f"
  obtains c cs where "codePointToUTF8 cp = c # cs" "192 \<le> unat c"
proof -
  have head: "192 \<le> unat (ucast (h OR take_bit k x) :: byte)"
    if "take_bit k h = 0" "unat h + 2 ^ k \<le> 256" "192 \<le> unat h" for h x :: "32 word" and k
    using head_value [OF that(1,2), of x] that(3) by (simp add: unat_wide)
  have "codePointToUTF8 cp \<noteq> [] \<and> 192 \<le> unat (hd (codePointToUTF8 cp))"
    using assms by (auto simp: codePointToUTF8_def valid_codepoint_def and_take intro!: head)
  then show thesis
    by (intro that [of "hd (codePointToUTF8 cp)" "tl (codePointToUTF8 cp)"]) simp_all
qed

lemma escape_chars_codepoint:
  assumes "valid_codepoint cp"
  shows "escape_chars (codePointToUTF8 cp @ rest) = esc cp @ escape_chars rest"
proof (cases "cp \<le> 0x7f")
  case True
  then have small: "unat cp < 128"
    by (simp add: word_le_nat_alt)
  have eq: "(ucast cp :: byte) = 34 \<longleftrightarrow> cp = 34" "(ucast cp :: byte) = 92 \<longleftrightarrow> cp = 92" "(ucast cp :: byte) = 8 \<longleftrightarrow> cp = 8"
      "(ucast cp :: byte) = 12 \<longleftrightarrow> cp = 12" "(ucast cp :: byte) = 10 \<longleftrightarrow> cp = 10" "(ucast cp :: byte) = 13 \<longleftrightarrow> cp = 13"
      "(ucast cp :: byte) = 9 \<longleftrightarrow> cp = 9"
    using ascii_eq [OF small, of 34] ascii_eq [OF small, of 92] ascii_eq [OF small, of 8] ascii_eq [OF small, of 12]
      ascii_eq [OF small, of 10] ascii_eq [OF small, of 13] ascii_eq [OF small, of 9]
    by simp_all
  have "utf8ToCodepoint (ucast cp # rest) = (cp, 1)"
    using utf8ToCodepoint_UTF8 [OF assms, of rest] True by (simp add: codePointToUTF8_def)
  with True show ?thesis
    by (simp add: codePointToUTF8_def eq esc_def)
next
  case False
  obtain c cs where c: "codePointToUTF8 cp = c # cs" "192 \<le> unat c"
    using utf8_head [OF assms False] by blast
  have ne: "c \<noteq> 34" "c \<noteq> 92" "c \<noteq> 8" "c \<noteq> 12" "c \<noteq> 10" "c \<noteq> 13" "c \<noteq> 9"
    using c(2) by auto
  have ne': "cp \<noteq> 34" "cp \<noteq> 92" "cp \<noteq> 8" "cp \<noteq> 12" "cp \<noteq> 10" "cp \<noteq> 13" "cp \<noteq> 9"
    using False by auto
  have "utf8ToCodepoint (c # cs @ rest) = (cp, Suc (length cs))"
    using utf8ToCodepoint_UTF8 [OF assms, of rest] c(1) by simp
  then show ?thesis
    using ne ne' by (simp add: c(1) esc_def)
qed

lemma escape_chars_utf8: "\<forall>cp \<in> set cps. valid_codepoint cp \<Longrightarrow> escape_chars (utf8 cps) = concat (map esc cps)"
  by (induction cps) (simp_all add: utf8_def escape_chars_codepoint)

lemma readString_plain: "c \<noteq> 34 \<Longrightarrow> c \<noteq> 92 \<Longrightarrow> readString (c # t) = readString t"
  by simp

lemma readString_esc:
  assumes "valid_codepoint cp"
  shows "readString (esc cp @ t) = readString t"
proof (cases "cp < 0x80")
  case True
  then have small: "unat cp < 128"
    by (simp add: word_less_nat_alt)
  have "(ucast cp :: byte) = 34 \<longleftrightarrow> cp = 34" "(ucast cp :: byte) = 92 \<longleftrightarrow> cp = 92"
    using ascii_eq [OF small, of 34] ascii_eq [OF small, of 92] by simp_all
  with True show ?thesis
    by (auto simp: esc_def escape_codepoint_def readString_hex)
next
  case False
  then show ?thesis
    by (auto simp: esc_def escape_codepoint_def readString_hex Let_def)
qed

lemma readString_utf8:
  "\<forall>cp \<in> set cps. valid_codepoint cp \<Longrightarrow> readString (concat (map esc cps) @ 34 # rest) = (True, rest)"
  by (induction cps) (simp_all add: readString_esc)

lemma decode_bmp:
  assumes "unat cp < 65536" "\<not> (0xD800 \<le> cp \<and> cp \<le> 0xDFFF)"
  shows "decodeUnicodeCodePoint (toHex16Bit cp @ t) = Some (cp, t)"
proof -
  have "0xD800 \<le> cp \<and> cp \<le> 0xDBFF \<Longrightarrow> 0xD800 \<le> cp \<and> cp \<le> 0xDFFF"
    by (simp add: word_le_nat_alt)
  with assms show ?thesis
    by (auto simp: decodeUnicodeCodePoint_def decode_toHex)
qed

lemma surrogate_add:
  fixes a h :: "32 word"
  assumes "unat a < 1024" "unat h mod 1024 = 0" "unat h < 65000"
  shows "unat (h + a) = unat h + unat a" "(h + a) AND 0x3ff = a"
proof -
  show sum: "unat (h + a) = unat h + unat a"
    using assms(1,3) by (intro unat_add_lem [THEN iffD1]) simp
  have "unat (take_bit 10 (h + a)) = (unat h + unat a) mod 1024"
    by (simp only: unsigned_take_bit_eq sum) (simp add: take_bit_eq_mod)
  also have "\<dots> = unat a"
    using assms(1,2) by (metis add.left_neutral mod_add_left_eq mod_less)
  finally show "(h + a) AND 0x3ff = a"
    by (simp add: word_unat_eq_iff take_bit_eq_mask mask_eq_exp_minus_1)
qed

lemma decode_surrogates:
  assumes "0x10000 \<le> cp" "cp \<le> 0x10FFFF"
  defines "c \<equiv> cp - 0x10000"
  shows "decodeUnicodeCodePoint (toHex16Bit (0xd800 + (drop_bit 10 c AND 0x3ff)) @
    appendHex (0xdc00 + (c AND 0x3ff)) @ t) = Some (cp, t)"
proof -
  define a where "a = take_bit 10 (drop_bit 10 c)"
  define b where "b = take_bit 10 c"
  have ab: "drop_bit 10 c AND 0x3ff = a" "c AND 0x3ff = b" "unat a < 1024" "unat b < 1024"
    using unat_take_bit_less [of 10] by (simp_all add: a_def b_def take_bit_eq_mask mask_eq_exp_minus_1)
  have "unat c < 2 ^ 20"
    using assms(1,2) by (simp add: c_def word_le_nat_alt unat_sub)
  then have "push_bit 10 a OR b = c"
    using join_fields [of 10 10 c] take_small [of c 20] by (simp add: a_def b_def)
  moreover have "push_bit 10 a AND b = 0"
    by (rule bit_word_eqI) (simp add: bit_and_iff bit_push_bit_iff b_def bit_take_bit_iff)
  ultimately have "push_bit 10 a + b = c"
    by (simp add: disjunctive_add_eq_or)
  then have whole: "0x10000 + push_bit 10 a + b = cp"
    by (simp add: c_def add.assoc)
  have hi: "unat (0xd800 + a) = 0xd800 + unat a" "(0xd800 + a) AND 0x3ff = a"
    and lo: "unat (0xdc00 + b) = 0xdc00 + unat b" "(0xdc00 + b) AND 0x3ff = b"
    using surrogate_add [where h = "0xd800", OF ab(3)] surrogate_add [where h = "0xdc00", OF ab(4)] by simp_all
  have range: "unat (0xd800 + a) < 65536" "unat (0xdc00 + b) < 65536" "0xD800 \<le> 0xd800 + a" "0xd800 + a \<le> 0xDBFF"
    using hi(1) lo(1) ab(3,4) by (simp_all add: word_le_nat_alt)
  have "length (toHex16Bit x) = 4" for x
    by (simp add: toHex16Bit_nibbles)
  then show ?thesis
    using range hi(2) lo(2) whole
    by (simp add: ab(1,2) decodeUnicodeCodePoint_def decode_toHex appendHex_def)
qed

lemma decode_chars_esc:
  assumes "valid_codepoint cp"
  shows "decode_chars (esc cp @ t) acc = decode_chars t (acc @ codePointToUTF8 cp)"
proof -
  consider "cp \<in> {34, 92, 8, 12, 10, 13, 9}" | "cp \<notin> {34, 92, 8, 12, 10, 13, 9}" "0x20 \<le> cp" "cp < 0x80"
    | "cp \<notin> {34, 92, 8, 12, 10, 13, 9}" "cp < 0x20 \<or> 0x80 \<le> cp" "cp < 0x10000" | "0x10000 \<le> cp"
    by fastforce
  then show ?thesis
  proof cases
    case 1
    then show ?thesis
      by (auto simp: esc_def simple_escape_def codePointToUTF8_def)
  next
    case 2
    then have small: "unat cp < 128" "cp \<le> 0x7f"
      by (simp_all add: word_less_nat_alt word_le_nat_alt)
    have "(ucast cp :: byte) = 34 \<longleftrightarrow> cp = 34" "(ucast cp :: byte) = 92 \<longleftrightarrow> cp = 92"
      using ascii_eq [OF small(1), of 34] ascii_eq [OF small(1), of 92] by simp_all
    moreover have "\<not> cp < 0x20"
      using 2(2) by (simp add: not_less)
    ultimately show ?thesis
      using 2 small by (simp add: esc_def escape_codepoint_def codePointToUTF8_def)
  next
    case 3
    then have "unat cp < 65536"
      by (simp add: word_less_nat_alt)
    then have "decodeUnicodeCodePoint (toHex16Bit cp @ t) = Some (cp, t)"
      using assms by (intro decode_bmp) (auto simp: valid_codepoint_def)
    moreover have "esc cp = appendHex cp"
      using 3 by (auto simp: esc_def escape_codepoint_def not_less)
    ultimately show ?thesis
      by (simp add: appendHex_def)
  next
    case 4
    then have "cp \<notin> {34, 92, 8, 12, 10, 13, 9}" "\<not> cp < 0x20" "\<not> cp < 0x80" "\<not> cp < 0x10000" "cp \<le> 0x10FFFF"
      using assms by (auto simp: valid_codepoint_def word_less_nat_alt word_le_nat_alt)
    then show ?thesis
      using decode_surrogates [OF 4] by (simp add: esc_def escape_codepoint_def Let_def appendHex_def)
  qed
qed

lemma decode_chars_utf8:
  "\<forall>cp \<in> set cps. valid_codepoint cp \<Longrightarrow> decode_chars (concat (map esc cps)) acc = Some (acc @ utf8 cps)"
  by (induction cps arbitrary: acc) (simp_all add: decode_chars_esc utf8_def)

text \<open>A byte string is UTF-8 if it splits into encodings of code points.\<close>

function utf8_ok :: "bytes \<Rightarrow> bool" where
  "utf8_ok s =
     (if s = [] then True
      else case utf8ToCodepoint s of (cp, n) \<Rightarrow>
        valid_codepoint cp \<and> take n s = codePointToUTF8 cp \<and> utf8_ok (drop n s))"
  by pat_completeness auto
termination
proof (relation "measure length", goal_cases)
  case (2 s x y)
  then have "0 < y"
    using utf8ToCodepoint_pos [of s] by (metis snd_conv)
  with 2(1) show ?case
    by (cases s) auto
qed simp

declare utf8_ok.simps [simp del]

lemma utf8_ok_codepoints: "utf8_ok s \<Longrightarrow> \<exists>cps. (\<forall>cp \<in> set cps. valid_codepoint cp) \<and> s = utf8 cps"
proof (induction s rule: utf8_ok.induct)
  case (1 s)
  show ?case
  proof (cases "s = []")
    case True
    then show ?thesis
      by (intro exI [of _ "[]"]) (simp add: utf8_def)
  next
    case False
    obtain cp n where cp: "utf8ToCodepoint s = (cp, n)"
      by force
    with False 1(2) have ok: "valid_codepoint cp" "take n s = codePointToUTF8 cp" "utf8_ok (drop n s)"
      by (auto simp: utf8_ok.simps [of s])
    from 1(1) [OF False cp [symmetric] ok(3)] obtain cps where "\<forall>cp \<in> set cps. valid_codepoint cp" "drop n s = utf8 cps"
      by auto
    with ok have "\<forall>cp \<in> set (cp # cps). valid_codepoint cp" "s = utf8 (cp # cps)"
      using append_take_drop_id [of n s] by (simp_all add: utf8_def)
    then show ?thesis by blast
  qed
qed

lemma readString_raw: "\<forall>c \<in> set s. c \<noteq> 34 \<and> c \<noteq> 92 \<Longrightarrow> readString (s @ 34 # rest) = (True, rest)"
  by (induction s) simp_all

lemma decode_raw: "\<forall>c \<in> set s. c \<noteq> 34 \<and> c \<noteq> 92 \<Longrightarrow> decode_chars s acc = Some (acc @ s)"
  by (induction s arbitrary: acc) simp_all

lemma quoted_string:
  assumes "utf8_ok s"
  obtains body where "valueToQuotedStringN s = 34 # body @ [34]" "\<And>rest. readString (body @ 34 # rest) = (True, rest)"
    "decode_chars body [] = Some s"
proof (cases "doesAnyCharRequireEscaping s")
  case True
  obtain cps where "\<forall>cp \<in> set cps. valid_codepoint cp" "s = utf8 cps"
    using utf8_ok_codepoints [OF assms] by blast
  with True show ?thesis
    by (intro that [of "concat (map esc cps)"])
      (simp_all add: valueToQuotedStringN_def escape_chars_utf8 readString_utf8 decode_chars_utf8)
next
  case False
  then have "\<forall>c \<in> set s. c \<noteq> 34 \<and> c \<noteq> 92"
    by (auto simp: doesAnyCharRequireEscaping_def)
  with False show ?thesis
    by (intro that [of s]) (simp_all add: valueToQuotedStringN_def readString_raw decode_raw)
qed

subsection \<open>Numbers\<close>

abbreviation digit_step :: "nat \<Rightarrow> byte \<Rightarrow> nat" where
  "digit_step v c \<equiv> 10 * v + (unat c - 48)"

lemma foldl_digits_ge: "v * 10 ^ length ds \<le> foldl digit_step v ds"
proof (induction ds arbitrary: v)
  case (Cons c ds)
  have "v * 10 ^ length (c # ds) \<le> digit_step v c * 10 ^ length ds"
    by (simp add: algebra_simps)
  also have "\<dots> \<le> foldl digit_step (digit_step v c) ds"
    by (rule Cons)
  finally show ?case by simp
qed simp

lemma digit_bound:
  fixes v d mx q :: int
  assumes "100 * v + 10 * d \<le> mx" "mx < 10 * q + 10" "0 \<le> d" "1 \<le> v" "q \<le> v"
  shows False
  using assms by linarith

lemma digit_bound_last:
  fixes v d mx q r :: int
  assumes "10 * v + d \<le> mx" "q \<le> v" "r < d" "mx = 10 * q + r"
  shows False
  using assms by linarith

lemma decode_digits_value:
  assumes "10 \<le> mx" "\<forall>c \<in> set ds. is_digit c" "int (foldl digit_step v ds) \<le> mx"
  shows "decode_digits mx ds (int v) = Some (int (foldl digit_step v ds))"
  using assms(2,3)
proof (induction ds arbitrary: v)
  case (Cons c ds)
  let ?d = "uint c - 48"
  have dig: "is_digit c"
    using Cons.prems(1) by simp
  then have "48 \<le> unat c" "unat c \<le> 57"
    by (simp_all add: is_digit_def word_le_nat_alt)
  moreover have "uint c = int (unat c)"
    by simp
  ultimately have c: "is_digit c" "int (unat c - 48) = ?d" "0 \<le> ?d" "?d \<le> 9"
    using dig by linarith+
  have total: "int (digit_step v c) * 10 ^ length ds \<le> mx"
  proof -
    have "int (digit_step v c * 10 ^ length ds) \<le> int (foldl digit_step (digit_step v c) ds)"
      using foldl_digits_ge [of "digit_step v c" ds] by (simp only: of_nat_le_iff)
    with Cons.prems(2) show ?thesis by simp
  qed
  have first: "10 * int v + ?d \<le> mx"
  proof -
    have "int (digit_step v c) * 1 \<le> int (digit_step v c) * 10 ^ length ds"
      by (intro mult_left_mono) simp_all
    with total c(2) show ?thesis by simp
  qed
  have "\<not> (int v \<ge> mx div 10 \<and> (int v > mx div 10 \<or> ds \<noteq> [] \<or> ?d > mx mod 10))"
  proof (rule notI, elim conjE disjE)
    assume "int v \<ge> mx div 10" "int v > mx div 10"
    with first c(3) show False by linarith
  next
    assume v: "int v \<ge> mx div 10" "ds \<noteq> []"
    then have "1 \<le> int v"
      using assms(1) by linarith
    have "int (digit_step v c) * 10 \<le> int (digit_step v c) * 10 ^ length ds"
      using v(2) by (intro mult_left_mono) (cases ds, simp_all)
    with total have "int (digit_step v c) * 10 \<le> mx"
      by linarith
    then have "100 * int v + 10 * ?d \<le> mx"
      using c(2) by simp
    moreover have "mx < 10 * (mx div 10) + 10"
      by presburger
    ultimately show False
      using digit_bound c(3) \<open>1 \<le> int v\<close> v(1) by blast
  next
    assume "int v \<ge> mx div 10" "?d > mx mod 10"
    moreover have "mx = 10 * (mx div 10) + mx mod 10"
      by presburger
    ultimately show False
      using digit_bound_last first by blast
  qed
  with c have "decode_digits mx (c # ds) (int v) = decode_digits mx ds (int v * 10 + ?d)"
    by (simp add: Let_def)
  also have "int v * 10 + ?d = int (digit_step v c)"
    using c(2) by simp
  also have "decode_digits mx ds (int (digit_step v c)) = Some (int (foldl digit_step (digit_step v c) ds))"
    using Cons.prems by (intro Cons.IH) simp_all
  finally show ?case
    by simp
qed simp

lemma decode_dec_digits:
  assumes "10 \<le> mx" "int n \<le> mx"
  shows "decode_digits mx (dec_digits n) 0 = Some (int n)"
proof -
  have "foldl digit_step 0 (dec_digits n) = n"
    using digits_value_dec_digits [of n] by (simp add: digits_value_def)
  with decode_digits_value [OF assms(1), of "dec_digits n" 0] assms(2) dec_digits_digits show ?thesis
    by auto
qed

lemma decodeNumber_show_int:
  assumes "- (2 ^ 63) \<le> i" "i < 2 ^ 64"
  shows "decodeNumber (show_int i) = Some (if i \<le> maxInt then JInt i else JUInt i)"
proof (cases "i < 0")
  case True
  with assms show ?thesis
    using decode_dec_digits [of "2 ^ 63" "nat (- i)"]
    by (simp add: decodeNumber_def show_int_def Let_def maxInt_def)
next
  case False
  obtain c cs where c: "dec_digits (nat i) = c # cs"
    by (cases "dec_digits (nat i)") auto
  then have "c \<noteq> 45"
    using dec_digits_digits [of c "nat i"] digit_no_sign by auto
  with c False assms show ?thesis
    using decode_dec_digits [of "2 ^ 64 - 1" "nat i"]
    by (simp add: decodeNumber_def show_int_def Let_def)
qed

end
