(* ===== verification/Json_Roundtrip.thy ===== *)
theory Json_Roundtrip
  imports Json_Text
begin

section \<open>What is written is read back\<close>

text \<open>
  The styled writer and the reader of \<open>newJson/jsoncpp.cpp\<close> agree: the text of a value parses to the same
  value, without comments. Strings are UTF-8 texts; integers are in the range the reader gives the same type; the
  nesting stays within the stack limit of the reader.
\<close>

subsection \<open>Tokens\<close>

definition blank :: "bytes \<Rightarrow> bool" where
  "blank ws \<longleftrightarrow> (\<forall>c \<in> set ws. c = 32 \<or> c = 9 \<or> c = 13 \<or> c = 10)"

text \<open>What may follow a value in the text: nothing, a comma or a line break.\<close>

definition stops :: "bytes \<Rightarrow> bool" where
  "stops rest \<longleftrightarrow> rest = [] \<or> hd rest = 44 \<or> hd rest = 10"

lemma blank_simps [simp]: "blank []" "blank (c # ws) \<longleftrightarrow> (c = 32 \<or> c = 9 \<or> c = 13 \<or> c = 10) \<and> blank ws"
  "blank (ws @ ws') \<longleftrightarrow> blank ws \<and> blank ws'" "blank (replicate n 9)"
  by (auto simp: blank_def)

lemma skipSpaces_blank: "blank ws \<Longrightarrow> skipSpaces (ws @ t) = skipSpaces t"
  by (simp add: skipSpaces_def blank_def dropWhile_append1 dropWhile_append2)

lemma skipSpaces_stop: "c \<noteq> 32 \<Longrightarrow> c \<noteq> 9 \<Longrightarrow> c \<noteq> 13 \<Longrightarrow> c \<noteq> 10 \<Longrightarrow> skipSpaces (c # t) = c # t"
  by (simp add: skipSpaces_def)

lemma between_append: "between (x @ s) s = x"
  by (simp add: between_def)

lemma between_cons: "between (c # x @ s) s = c # x"
  using between_append [of "c # x" s] by simp

text \<open>A token of a given type is read and leaves the given rest.\<close>

definition token_at :: "rstate \<Rightarrow> TokenType \<Rightarrow> bytes \<Rightarrow> bytes \<Rightarrow> bool" where
  "token_at st ty text rest \<longleftrightarrow> readToken st = (ty, text, st\<lparr>cur := rest\<rparr>)"

lemma skipCommentTokens_at:
  "token_at st ty text rest \<Longrightarrow> ty \<noteq> tokenComment \<Longrightarrow> skipCommentTokens st = (ty, text, st\<lparr>cur := rest\<rparr>)"
  by (subst skipCommentTokens.simps) (simp add: token_at_def)

lemma punctuation:
  assumes "blank ws"
  shows "cur st = ws @ 123 # rest \<Longrightarrow> token_at st tokenObjectBegin [123] rest"
    and "cur st = ws @ 125 # rest \<Longrightarrow> token_at st tokenObjectEnd [125] rest"
    and "cur st = ws @ 91 # rest \<Longrightarrow> token_at st tokenArrayBegin [91] rest"
    and "cur st = ws @ 93 # rest \<Longrightarrow> token_at st tokenArrayEnd [93] rest"
    and "cur st = ws @ 44 # rest \<Longrightarrow> token_at st tokenArraySeparator [44] rest"
    and "cur st = ws @ 58 # rest \<Longrightarrow> token_at st tokenMemberSeparator [58] rest"
  using between_append [of "[c]" rest for c]
  by (simp_all add: token_at_def readToken_def Let_def skipSpaces_blank [OF assms] skipSpaces_stop is_digit_def)

lemma string_token:
  assumes "blank ws" "utf8_ok s" "cur st = ws @ valueToQuotedStringN s @ rest"
  shows "token_at st tokenString (valueToQuotedStringN s) rest \<and> decodeString (valueToQuotedStringN s) = Some s"
proof -
  obtain body where body: "valueToQuotedStringN s = 34 # body @ [34]"
      "\<And>rest. readString (body @ 34 # rest) = (True, rest)" "decode_chars body [] = Some s"
    using quoted_string [OF assms(2)] by blast
  have "skipSpaces (cur st) = 34 # body @ 34 # rest"
    using assms(1,3) by (simp add: body(1) skipSpaces_blank skipSpaces_stop)
  then show ?thesis
    using body between_append [of "34 # body @ [34]" rest]
    by (simp add: token_at_def readToken_def Let_def decodeString_def)
qed

lemma number_token:
  assumes "blank ws" "stops rest" "cur st = ws @ show_int i @ rest"
  shows "token_at st tokenNumber (show_int i) rest"
proof -
  obtain c cs where c: "show_int i = c # cs" "is_digit c \<or> c = 45" "\<forall>d \<in> set cs. is_digit d"
  proof (cases "i < 0")
    case True
    then show ?thesis
      using dec_digits_digits by (intro that [of 45 "dec_digits (nat (- i))"]) (auto simp: show_int_def)
  next
    case False
    obtain c cs where "dec_digits (nat i) = c # cs"
      by (cases "dec_digits (nat i)") auto
    with False show ?thesis
      using dec_digits_digits [of _ "nat i"] by (intro that [of c cs]) (auto simp: show_int_def)
  qed
  have dw: "dropWhile is_digit (cs @ rest) = rest"
    using c(3) assms(2) by (cases rest) (auto simp: stops_def dropWhile_append2 is_digit_def)
  have "readNumber (cs @ rest) = rest"
    unfolding readNumber_def Let_def dw using assms(2) by (cases rest) (auto simp: stops_def)
  moreover have "skipSpaces (cur st) = c # cs @ rest"
    using assms(1,3) c(1,2) by (auto simp: skipSpaces_blank skipSpaces_stop is_digit_def intro!: skipSpaces_stop)
  moreover have "c \<noteq> 123" "c \<noteq> 125" "c \<noteq> 91" "c \<noteq> 93" "c \<noteq> 34" "c \<noteq> 47"
    using c(2) by (auto simp: is_digit_def)
  ultimately show ?thesis
    using c(1,2) between_cons [of c cs rest] by (auto simp: token_at_def readToken_def Let_def)
qed

lemma word_token:
  assumes "blank ws"
  shows "cur st = ws @ lit ''null'' @ rest \<Longrightarrow> token_at st tokenNull (lit ''null'') rest"
    and "cur st = ws @ lit ''true'' @ rest \<Longrightarrow> token_at st tokenTrue (lit ''true'') rest"
    and "cur st = ws @ lit ''false'' @ rest \<Longrightarrow> token_at st tokenFalse (lit ''false'') rest"
  using between_append [of "lit ''null''" rest] between_append [of "lit ''true''" rest] between_append [of "lit ''false''" rest]
  by (simp_all add: token_at_def readToken_def Let_def skipSpaces_blank [OF assms] skipSpaces_stop is_digit_def lit_def
      match_pattern_def)

subsection \<open>Values\<close>

fun json_ok :: "nat \<Rightarrow> JValue \<Rightarrow> bool"
  and json_items_ok :: "nat \<Rightarrow> JValue list \<Rightarrow> bool"
  and json_members_ok :: "nat \<Rightarrow> (bytes \<times> JValue) list \<Rightarrow> bool" where
  "json_ok d JNull = (d \<le> stackLimit_g)"
| "json_ok d (JInt i) = (d \<le> stackLimit_g \<and> - (2 ^ 63) \<le> i \<and> i \<le> maxInt)"
| "json_ok d (JUInt u) = (d \<le> stackLimit_g \<and> maxInt < u \<and> u < 2 ^ 64)"
| "json_ok d (JReal neg x) = False"
| "json_ok d (JInf neg) = False"
| "json_ok d (JString s) = (d \<le> stackLimit_g \<and> utf8_ok s)"
| "json_ok d (JBool b) = (d \<le> stackLimit_g)"
| "json_ok d (JArray vs) = (d \<le> stackLimit_g \<and> json_items_ok (Suc d) vs)"
| "json_ok d (JObject m) = (d \<le> stackLimit_g \<and> omap_ok m \<and> json_members_ok (Suc d) m)"
| "json_items_ok d [] = True"
| "json_items_ok d (v # vs) = (json_ok d v \<and> json_items_ok d vs)"
| "json_members_ok d [] = True"
| "json_members_ok d ((k, v) # m) = (utf8_ok k \<and> json_ok d v \<and> json_members_ok d m)"

text \<open>The fuel a value needs.\<close>

fun need :: "JValue \<Rightarrow> nat"
  and need_items :: "JValue list \<Rightarrow> nat"
  and need_members :: "(bytes \<times> JValue) list \<Rightarrow> nat" where
  "need (JArray vs) = Suc (need_items vs)"
| "need (JObject m) = Suc (need_members m)"
| "need v = 1"
| "need_items [] = 0"
| "need_items (v # vs) = Suc (max (need v) (need_items vs))"
| "need_members [] = 1"
| "need_members ((k, v) # m) = Suc (max (need v) (if m = [] then 0 else need_members m))"

definition after :: "rstate \<Rightarrow> bytes \<Rightarrow> rstate \<Rightarrow> bool" where
  "after st rest st' \<longleftrightarrow> cur st' = rest \<and> commentsBefore st' = [] \<and> rootBefore st' = rootBefore st \<and>
     rootSameLine st' = rootSameLine st"

lemma after_value_end:
  "after st rest st' \<Longrightarrow> \<exists>st''. value_end d v st' = Ok (v, st'') \<and> after st rest st''"
  by (simp add: value_end_def end_state_def after_def)

lemma after_cur: "commentsBefore st = [] \<Longrightarrow> after st rest (st\<lparr>cur := rest\<rparr>)"
  by (simp add: after_def)

lemma after_trans: "after st r st' \<Longrightarrow> after st' r' st'' \<Longrightarrow> after st r' st''"
  by (simp add: after_def)

lemma omap_assign_last: "omap_ok (acc @ [(k, v)]) \<Longrightarrow> omap_assign k v acc = acc @ [(k, v)]"
proof (induction acc)
  case (Cons e acc)
  obtain k' v' where e: "e = (k', v')"
    by force
  with Cons.prems have "k' < k" "omap_ok (acc @ [(k, v)])"
    by (auto simp: omap_ok_Cons)
  with Cons.IH show ?case
    by (simp add: e less_not_sym order.strict_implies_not_eq)
qed simp

lemma scalar_read:
  assumes "readToken st = (ty, text, st\<lparr>cur := rest\<rparr>)" "commentsBefore st = []" "d \<le> stackLimit_g" "0 < k"
    and "ty = tokenNull \<and> v = JNull \<or> ty = tokenTrue \<and> v = JBool True \<or> ty = tokenFalse \<and> v = JBool False \<or>
      ty = tokenString \<and> map_option JString (decodeString text) = Some v \<or> ty = tokenNumber \<and> decodeNumber text = Some v"
  shows "\<exists>st'. readValue k d st = Ok (v, st') \<and> after st rest st'"
proof -
  obtain n where k: "k = Suc n"
    using assms(4) by (cases k) auto
  have "skipCommentTokens st = (ty, text, st\<lparr>cur := rest\<rparr>)"
    using assms(1,5) by (subst skipCommentTokens.simps) auto
  moreover have "take_comments d (st\<lparr>cur := rest\<rparr>) = st\<lparr>cur := rest\<rparr>"
    using assms(2) by (simp add: take_comments_def)
  ultimately have "readValue k d st = value_end d v (st\<lparr>cur := rest\<rparr>)"
    using assms(3,5) by (auto simp: k of_decoded_def Let_def)
  with after_value_end [OF after_cur [OF assms(2), of rest]] show ?thesis
    by metis
qed

lemma lit_marks: "lit '' : '' = [32, 58, 32]" "lit '','' = [44]" "lit ''[]'' = [91, 93]" "lit ''{}'' = [123, 125]"
  by (simp_all add: lit_def)

text \<open>The first byte of a value behind blanks does not close an array.\<close>

lemma value_head:
  assumes "json_ok d v"
  obtains ws c t where "fst (write_value n ind v) = ws @ c # t" "blank ws" "c \<noteq> 32" "c \<noteq> 9" "c \<noteq> 13" "c \<noteq> 10" "c \<noteq> 93"
proof -
  have num: "\<exists>c t. show_int i = c # t \<and> (is_digit c \<or> c = 45)" for i
    using dec_digits_digits [of _ "nat i"]
    by (cases "dec_digits (nat i)") (auto simp: show_int_def)
  have str: "\<exists>t. valueToQuotedStringN x = 34 # t" for x
    by (simp add: valueToQuotedStringN_def)
  have ws: "blank (if ind then [] else writeIndent n)"
    by (simp add: writeIndent_def)
  show thesis
  proof (cases v)
    case (JInt i)
    with num [of i] show thesis
      by (auto intro: that [of "[]"] simp: is_digit_def)
  next
    case (JUInt i)
    with num [of i] show thesis
      by (auto intro: that [of "[]"] simp: is_digit_def)
  next
    case (JString x)
    with str [of x] show thesis
      by (auto intro: that [of "[]"])
  next
    case (JArray vs)
    with ws show thesis
      by (cases "vs = []") (auto intro: that [of "[]"] that [of "if ind then [] else writeIndent n"] simp: lit_marks writeWithIndent_def)
  next
    case (JObject m)
    with ws show thesis
      by (cases "m = []") (auto intro: that [of "[]"] that [of "if ind then [] else writeIndent n"] simp: lit_marks writeWithIndent_def)
  next
    case (JBool b)
    then show thesis
      by (cases b) (auto intro: that [of "[]"] simp: lit_def)
  qed (use assms in \<open>auto intro: that [of "[]"] simp: lit_def\<close>)
qed

lemma readObject_member:
  assumes "utf8_ok key" "blank ws" "cur st = ws @ valueToQuotedStringN key @ lit '' : '' @ t" "commentsBefore st = []"
    and "\<And>st'. cur st' = [32] @ t \<Longrightarrow> commentsBefore st' = [] \<Longrightarrow> \<exists>st''. readValue n (Suc d) st' = Ok (v, st'') \<and> after st' rest st''"
  shows "\<exists>st3. after st rest st3 \<and> readObject (Suc n) d name acc st =
    (case readToken st3 of (ty4, text4, st4) \<Rightarrow>
       if ty4 = tokenObjectEnd then Ok (JObject (omap_assign key v acc), st4)
       else if ty4 = tokenArraySeparator then readObject n d key (omap_assign key v acc) st4
       else if ty4 = tokenComment then
         (case skipCommentTokens st4 of (ty5, text5, st5) \<Rightarrow>
            if ty5 = tokenObjectEnd then Ok (JObject (omap_assign key v acc), st5)
            else readObject n d key (omap_assign key v acc) st5)
       else recoverFromError tokenObjectEnd (Suc n) st4)"
proof -
  let ?st1 = "st\<lparr>cur := lit '' : '' @ t\<rparr>" and ?st2 = "st\<lparr>cur := 32 # t\<rparr>"
  have name: "token_at st tokenString (valueToQuotedStringN key) (lit '' : '' @ t)" "decodeString (valueToQuotedStringN key) = Some key"
    using string_token [OF assms(2,1,3)] by simp_all
  have "token_at ?st1 tokenMemberSeparator [58] (32 # t)"
    by (rule punctuation(6) [of "[32]"]) (simp_all add: lit_marks)
  then have colon: "readToken ?st1 = (tokenMemberSeparator, [58], ?st2)"
    by (simp add: token_at_def)
  obtain st3 where st3: "readValue n (Suc d) ?st2 = Ok (v, st3)" "after ?st2 rest st3"
    using assms(5) [of ?st2] assms(4) by auto
  have "after st rest st3"
    using st3(2) by (simp add: after_def)
  then show ?thesis
    using skipCommentTokens_at [OF name(1)] name(2) colon st3(1) by (intro exI [of _ st3]) (simp add: Let_def)
qed

lemma omap_ok_prefix: "omap_ok (acc @ e # m) \<Longrightarrow> omap_ok (acc @ [e])"
  by (simp add: omap_ok_def sorted_wrt_append)

lemma item_read:
  assumes "readValue n (Suc d) st = Ok (v, st1)" "token_at st1 ty text rest"
  shows "ty = tokenArrayEnd \<Longrightarrow> readArray (Suc n) d acc st = Ok (JArray (acc @ [v]), st1\<lparr>cur := rest\<rparr>)"
    and "ty = tokenArraySeparator \<Longrightarrow> readArray (Suc n) d acc st = readArray n d (acc @ [v]) (st1\<lparr>cur := rest\<rparr>)"
  using assms skipCommentTokens_at [OF assms(2)] by auto

text \<open>The three statements of the induction.\<close>

definition reads_value :: "JValue \<Rightarrow> bytes \<Rightarrow> bool" where
  "reads_value v txt \<longleftrightarrow> (\<forall>d ws rest st k. json_ok d v \<longrightarrow> blank ws \<longrightarrow> stops rest \<longrightarrow> cur st = ws @ txt @ rest \<longrightarrow>
     commentsBefore st = [] \<longrightarrow> need v \<le> k \<longrightarrow> (\<exists>st'. readValue k d st = Ok (v, st') \<and> after st rest st'))"

definition reads_members :: "(bytes \<times> JValue) list \<Rightarrow> bytes \<Rightarrow> bool" where
  "reads_members m txt \<longleftrightarrow> (\<forall>d acc name ws rest st k. m \<noteq> [] \<longrightarrow> json_members_ok (Suc d) m \<longrightarrow> omap_ok (acc @ m) \<longrightarrow>
     blank ws \<longrightarrow> stops (ws @ 125 # rest) \<longrightarrow> cur st = txt @ ws @ 125 # rest \<longrightarrow> commentsBefore st = [] \<longrightarrow> need_members m \<le> k \<longrightarrow>
     (\<exists>st'. readObject k d name acc st = Ok (JObject (acc @ m), st') \<and> after st rest st'))"

definition reads_items :: "JValue list \<Rightarrow> bytes \<Rightarrow> bool" where
  "reads_items vs txt \<longleftrightarrow> (\<forall>d acc ws rest st k. vs \<noteq> [] \<longrightarrow> json_items_ok (Suc d) vs \<longrightarrow>
     blank ws \<longrightarrow> stops (ws @ 93 # rest) \<longrightarrow> cur st = txt @ ws @ 93 # rest \<longrightarrow> commentsBefore st = [] \<longrightarrow> need_items vs \<le> k \<longrightarrow>
     (\<exists>st'. readArray k d acc st = Ok (JArray (acc @ vs), st') \<and> after st rest st'))"

lemma reads_scalar:
  assumes "\<And>d ws rest st. json_ok d v \<Longrightarrow> blank ws \<Longrightarrow> stops rest \<Longrightarrow> cur st = ws @ txt @ rest \<Longrightarrow>
      d \<le> stackLimit_g \<and> (\<exists>ty. token_at st ty txt rest \<and>
        (ty = tokenNull \<and> v = JNull \<or> ty = tokenTrue \<and> v = JBool True \<or> ty = tokenFalse \<and> v = JBool False \<or>
         ty = tokenString \<and> map_option JString (decodeString txt) = Some v \<or> ty = tokenNumber \<and> decodeNumber txt = Some v))"
    and "need v = 1"
  shows "reads_value v txt"
  unfolding reads_value_def
proof (intro allI impI)
  fix d ws rest k and st :: rstate
  assume *: "json_ok d v" "blank ws" "stops rest" "cur st = ws @ txt @ rest" "commentsBefore st = []" "need v \<le> k"
  from assms(1) [OF *(1-4)] obtain ty where "d \<le> stackLimit_g" "token_at st ty txt rest"
      "ty = tokenNull \<and> v = JNull \<or> ty = tokenTrue \<and> v = JBool True \<or> ty = tokenFalse \<and> v = JBool False \<or>
       ty = tokenString \<and> map_option JString (decodeString txt) = Some v \<or> ty = tokenNumber \<and> decodeNumber txt = Some v"
    by blast
  moreover have "0 < k"
    using *(6) assms(2) by simp
  ultimately show "\<exists>st'. readValue k d st = Ok (v, st') \<and> after st rest st'"
    using *(5) scalar_read unfolding token_at_def by blast
qed

lemma reads_array:
  assumes items: "reads_items vs (write_items (Suc n) vs)"
  shows "reads_value (JArray vs) (fst (write_value n ind (JArray vs)))"
  unfolding reads_value_def
proof (intro allI impI)
  fix d ws rest k and st :: rstate
  assume ok: "json_ok d (JArray vs)" and ws: "blank ws" and rest: "stops rest" and quiet: "commentsBefore st = []"
    and cur: "cur st = ws @ fst (write_value n ind (JArray vs)) @ rest" and fuel: "need (JArray vs) \<le> k"
  define ws' where "ws' = ws @ (if vs = [] \<or> ind then [] else writeIndent n)"
  define t where "t = (if vs = [] then 93 # rest else write_items (Suc n) vs @ writeIndent n @ 93 # rest)"
  have ws': "blank ws'"
    using ws by (simp add: ws'_def writeIndent_def)
  have cur': "cur st = ws' @ 91 # t"
    using cur by (simp add: ws'_def t_def lit_marks writeWithIndent_def)
  let ?st = "st\<lparr>cur := t\<rparr>"
  obtain k' where k: "k = Suc k'" "need_items vs \<le> k'"
    using fuel by (cases k) auto
  have begin_array: "skipCommentTokens st = (tokenArrayBegin, [91], ?st)" "take_comments d ?st = ?st" "d \<le> stackLimit_g"
    using skipCommentTokens_at [OF punctuation(3) [OF ws' cur']] quiet ok by (simp_all add: take_comments_def)
  show "\<exists>st'. readValue k d st = Ok (JArray vs, st') \<and> after st rest st'"
  proof (cases "vs = []")
    case True
    then have "skipSpaces t = 93 # rest"
      by (simp add: t_def skipSpaces_stop)
    with begin_array have "readValue k d st = value_end d (JArray vs) (st\<lparr>cur := rest\<rparr>)"
      by (simp add: k(1) True)
    with after_value_end [OF after_cur [OF quiet]] show ?thesis
      by metis
  next
    case False
    then obtain v vs' where vs: "vs = v # vs'"
      by (cases vs) auto
    obtain ws1 c t1 where head: "fst (write_value (Suc n) True v) = ws1 @ c # t1" "blank ws1" "c \<noteq> 32" "c \<noteq> 9" "c \<noteq> 13" "c \<noteq> 10" "c \<noteq> 93"
      using value_head [of "Suc d" v "Suc n" True] ok vs by auto
    have "\<exists>t2. t = (writeIndent (Suc n) @ ws1) @ c # t2"
      by (simp add: t_def vs head(1))
    then obtain t2 where t2: "t = (writeIndent (Suc n) @ ws1) @ c # t2"
      by blast
    have "blank (writeIndent (Suc n) @ ws1)"
      using head(2) by (simp add: writeIndent_def)
    then have skip: "skipSpaces t = c # t2"
      unfolding t2 using head(3-6) by (simp only: skipSpaces_blank skipSpaces_stop simp_thms)
    have "\<exists>st'. readArray k' d [] ?st = Ok (JArray ([] @ vs), st') \<and> after ?st rest st'"
      using items [unfolded reads_items_def, rule_format, of d "writeIndent n" rest ?st k' "[]"] False ok quiet k(2)
      by (simp add: t_def writeIndent_def stops_def)
    then obtain st1 where st1: "readArray k' d [] ?st = Ok (JArray vs, st1)" "after ?st rest st1"
      by auto
    have "readValue k d st = value_end d (JArray vs) st1"
      using begin_array skip head(7) st1(1) by (simp add: k(1))
    moreover have "after st rest st1"
      using st1(2) by (simp add: after_def)
    ultimately show ?thesis
      using after_value_end by metis
  qed
qed

lemma reads_object:
  assumes members: "reads_members m (write_members (Suc n) m)"
  shows "reads_value (JObject m) (fst (write_value n ind (JObject m)))"
  unfolding reads_value_def
proof (intro allI impI)
  fix d ws rest k and st :: rstate
  assume ok: "json_ok d (JObject m)" and ws: "blank ws" and rest: "stops rest" and quiet: "commentsBefore st = []"
    and cur: "cur st = ws @ fst (write_value n ind (JObject m)) @ rest" and fuel: "need (JObject m) \<le> k"
  define ws' where "ws' = ws @ (if m = [] \<or> ind then [] else writeIndent n)"
  define t where "t = (if m = [] then 125 # rest else write_members (Suc n) m @ writeIndent n @ 125 # rest)"
  have ws': "blank ws'"
    using ws by (simp add: ws'_def writeIndent_def)
  have cur': "cur st = ws' @ 123 # t"
    using cur by (simp add: ws'_def t_def lit_marks writeWithIndent_def)
  let ?st = "st\<lparr>cur := t\<rparr>"
  obtain k' where k: "k = Suc k'" "need_members m \<le> k'"
    using fuel by (cases k) auto
  have begin_object: "skipCommentTokens st = (tokenObjectBegin, [123], ?st)" "take_comments d ?st = ?st" "d \<le> stackLimit_g"
    using skipCommentTokens_at [OF punctuation(1) [OF ws' cur']] quiet ok by (simp_all add: take_comments_def)
  have "\<exists>st1. readObject k' d [] [] ?st = Ok (JObject m, st1) \<and> after ?st rest st1"
  proof (cases "m = []")
    case True
    then have "token_at ?st tokenObjectEnd [125] rest"
      using punctuation(2) [of "[]" ?st rest] by (simp add: t_def)
    then have "skipCommentTokens ?st = (tokenObjectEnd, [125], ?st\<lparr>cur := rest\<rparr>)"
      by (rule skipCommentTokens_at) simp
    with True k(2) quiet show ?thesis
      by (cases k') (simp_all add: after_def)
  next
    case False
    then show ?thesis
      using members [unfolded reads_members_def, rule_format, of d "[]" "writeIndent n" rest ?st k' "[]"] ok quiet k(2)
      by (simp add: t_def writeIndent_def stops_def)
  qed
  then obtain st1 where st1: "readObject k' d [] [] ?st = Ok (JObject m, st1)" "after ?st rest st1"
    by blast
  have "readValue k d st = value_end d (JObject m) st1"
    using begin_object st1(1) by (simp add: k(1))
  moreover have "after st rest st1"
    using st1(2) by (simp add: after_def)
  ultimately show "\<exists>st'. readValue k d st = Ok (JObject m, st') \<and> after st rest st'"
    using after_value_end by metis
qed

lemma reads_member:
  assumes v: "reads_value v (fst (write_value n False v))" and m: "reads_members m (write_members n m)"
  shows "reads_members ((key, v) # m) (write_members n ((key, v) # m))"
  unfolding reads_members_def
proof (intro allI impI)
  fix d acc name ws rest k and st :: rstate
  assume ok: "json_members_ok (Suc d) ((key, v) # m)" and sorted: "omap_ok (acc @ (key, v) # m)" and ws: "blank ws"
    and stop: "stops (ws @ 125 # rest)" and cur: "cur st = write_members n ((key, v) # m) @ ws @ 125 # rest"
    and quiet: "commentsBefore st = []" and fuel: "need_members ((key, v) # m) \<le> k"
  define t where "t = (if m = [] then [] else [44]) @ write_members n m @ ws @ 125 # rest"
  obtain k' where k: "k = Suc k'" "need v \<le> k'" "m \<noteq> [] \<longrightarrow> need_members m \<le> k'"
    using fuel by (cases k) (auto split: if_splits)
  have "stops t"
    using stop by (cases "m = []") (simp_all add: t_def stops_def)
  then have read_v: "\<exists>st''. readValue k' (Suc d) st' = Ok (v, st'') \<and> after st' t st''"
    if "cur st' = [32] @ fst (write_value n False v) @ t" "commentsBefore st' = []" for st'
    using v [unfolded reads_value_def, rule_format, of "Suc d" "[32]" t st' k'] that ok k(2) by simp
  have assign: "omap_assign key v acc = acc @ [(key, v)]"
    using omap_assign_last [OF omap_ok_prefix [OF sorted]] .
  have split: "cur st = writeIndent n @ valueToQuotedStringN key @ lit '' : '' @ fst (write_value n False v) @ t"
    using cur by (simp add: t_def writeWithIndent_def lit_marks)
  have pre: "utf8_ok key" "blank (writeIndent n)"
    using ok by (simp_all add: writeIndent_def)
  from readObject_member [OF pre split quiet read_v, where name = name and acc = acc, unfolded assign] obtain st3
    where st3: "after st t st3" "readObject (Suc k') d name acc st =
      (case readToken st3 of (ty4, text4, st4) \<Rightarrow>
         if ty4 = tokenObjectEnd then Ok (JObject (acc @ [(key, v)]), st4)
         else if ty4 = tokenArraySeparator then readObject k' d key (acc @ [(key, v)]) st4
         else if ty4 = tokenComment then
           (case skipCommentTokens st4 of (ty5, text5, st5) \<Rightarrow>
              if ty5 = tokenObjectEnd then Ok (JObject (acc @ [(key, v)]), st5)
              else readObject k' d key (acc @ [(key, v)]) st5)
         else recoverFromError tokenObjectEnd (Suc k') st4)"
    by blast
  have cur3: "cur st3 = t" "commentsBefore st3 = []"
    using st3(1) by (simp_all add: after_def)
  show "\<exists>st'. readObject k d name acc st = Ok (JObject (acc @ (key, v) # m), st') \<and> after st rest st'"
  proof (cases "m = []")
    case True
    then have "token_at st3 tokenObjectEnd [125] rest"
      using cur3 ws by (intro punctuation(2)) (simp_all add: t_def)
    then show ?thesis
      using st3 True by (simp add: k(1) token_at_def after_def)
  next
    case False
    let ?st4 = "st3\<lparr>cur := write_members n m @ ws @ 125 # rest\<rparr>"
    have "token_at st3 tokenArraySeparator [44] (write_members n m @ ws @ 125 # rest)"
      using cur3 False by (intro punctuation(5) [of "[]"]) (simp_all add: t_def)
    then have "readObject k d name acc st = readObject k' d key (acc @ [(key, v)]) ?st4"
      using st3(2) by (simp add: k(1) token_at_def)
    moreover have "\<exists>st'. readObject k' d key (acc @ [(key, v)]) ?st4 = Ok (JObject ((acc @ [(key, v)]) @ m), st') \<and> after ?st4 rest st'"
      using m [unfolded reads_members_def, rule_format, of d "acc @ [(key, v)]" ws rest ?st4 k' key] False ok sorted ws stop cur3 k(3)
      by simp
    ultimately show ?thesis
      using st3(1) by (auto simp: after_def)
  qed
qed

lemma reads_item:
  assumes v: "reads_value v (fst (write_value n True v))" and vs: "reads_items vs (write_items n vs)"
  shows "reads_items (v # vs) (write_items n (v # vs))"
  unfolding reads_items_def
proof (intro allI impI)
  fix d acc ws rest k and st :: rstate
  assume ok: "json_items_ok (Suc d) (v # vs)" and ws: "blank ws" and stop: "stops (ws @ 93 # rest)"
    and cur: "cur st = write_items n (v # vs) @ ws @ 93 # rest" and quiet: "commentsBefore st = []"
    and fuel: "need_items (v # vs) \<le> k"
  define t where "t = (if vs = [] then [] else [44]) @ write_items n vs @ ws @ 93 # rest"
  obtain k' where k: "k = Suc k'" "need v \<le> k'" "need_items vs \<le> k'"
    using fuel by (cases k) auto
  have "stops t"
    using stop by (cases "vs = []") (simp_all add: t_def stops_def)
  moreover have "cur st = writeIndent n @ fst (write_value n True v) @ t"
    using cur by (simp add: t_def lit_marks)
  ultimately obtain st1 where st1: "readValue k' (Suc d) st = Ok (v, st1)" "after st t st1"
    using v [unfolded reads_value_def, rule_format, of "Suc d" "writeIndent n" t st k'] ok k(2) quiet
    by (auto simp: writeIndent_def)
  then have cur1: "cur st1 = t" "commentsBefore st1 = []"
    by (simp_all add: after_def)
  show "\<exists>st'. readArray k d acc st = Ok (JArray (acc @ v # vs), st') \<and> after st rest st'"
  proof (cases "vs = []")
    case True
    then have "token_at st1 tokenArrayEnd [93] rest"
      using cur1 ws by (intro punctuation(4)) (simp_all add: t_def)
    from item_read(1) [OF st1(1) this] st1(2) True show ?thesis
      by (simp add: k(1) after_def)
  next
    case False
    let ?st2 = "st1\<lparr>cur := write_items n vs @ ws @ 93 # rest\<rparr>"
    have "token_at st1 tokenArraySeparator [44] (write_items n vs @ ws @ 93 # rest)"
      using cur1 False by (intro punctuation(5) [of "[]"]) (simp_all add: t_def)
    from item_read(2) [OF st1(1) this] have "readArray k d acc st = readArray k' d (acc @ [v]) ?st2"
      by (simp add: k(1))
    moreover have "\<exists>st'. readArray k' d (acc @ [v]) ?st2 = Ok (JArray ((acc @ [v]) @ vs), st') \<and> after ?st2 rest st'"
      using vs [unfolded reads_items_def, rule_format, of d ws rest ?st2 k' "acc @ [v]"] False ok ws stop cur1 k(3)
      by simp
    ultimately show ?thesis
      using st1(2) by (auto simp: after_def)
  qed
qed

lemma reads_numbers: "reads_value (JInt i) (show_int i)" "reads_value (JUInt i) (show_int i)"
  by (rule reads_scalar; auto simp: number_token decodeNumber_show_int maxInt_def)+

lemma reads_words: "reads_value JNull (lit ''null'')" "reads_value (JBool True) (lit ''true'')" "reads_value (JBool False) (lit ''false'')"
  subgoal by (rule reads_scalar) (auto intro: exI [of _ tokenNull] word_token(1))
  subgoal by (rule reads_scalar) (auto intro: exI [of _ tokenTrue] word_token(2))
  subgoal by (rule reads_scalar) (auto intro: exI [of _ tokenFalse] word_token(3))
  done

lemma reads_string: "reads_value (JString s) (valueToQuotedStringN s)"
  by (rule reads_scalar) (auto intro!: exI [of _ tokenString] dest: string_token)

lemma reads_nothing: "reads_value (JReal neg x) t" "reads_value (JInf neg) t" "reads_members [] t" "reads_items [] t"
  by (simp_all add: reads_value_def reads_members_def reads_items_def)

lemma reads_written:
  "reads_value v (fst (write_value n ind v))"
  "reads_members m (write_members n m)"
  "reads_items vs (write_items n vs)"
proof (induction n ind v and n m and n vs rule: write_value_write_members_write_items.induct)
  case (7 n indented b)
  then show ?case
    using reads_words by (cases b) simp_all
next
  case (8 n indented vs)
  then show ?case
    by (cases "vs = []") (auto simp del: write_value.simps intro: reads_array simp: reads_items_def)
next
  case (9 n indented m)
  then show ?case
    by (cases "m = []") (auto simp del: write_value.simps intro: reads_object simp: reads_members_def)
next
  case (11 n k v m)
  then show ?case
    by (intro reads_member)
next
  case (13 n v vs)
  then show ?case
    by (intro reads_item)
qed (simp_all add: reads_numbers reads_words reads_string reads_nothing)

lemma need_length:
  "need v \<le> Suc (length (fst (write_value n ind v)))"
  "m \<noteq> [] \<Longrightarrow> need_members m \<le> Suc (length (write_members n m))"
  "need_items vs \<le> Suc (length (write_items n vs))"
proof (induction n ind v and n m and n vs rule: write_value_write_members_write_items.induct)
  case (8 n indented vs)
  then show ?case
    by (cases "vs = []") (simp_all add: lit_def writeWithIndent_def)
next
  case (9 n indented m)
  then show ?case
    by (cases "m = []") (simp_all add: lit_def writeWithIndent_def)
next
  case (11 n k v m)
  then show ?case
    by (cases "m = []") (simp_all add: lit_marks writeWithIndent_def writeIndent_def valueToQuotedStringN_def)
qed (simp_all add: lit_def writeWithIndent_def writeIndent_def)

subsection \<open>Property\<close>

text \<open>C30: What a server writes, a client reads. The text that \<open>toStyledString\<close> makes of a value parses to exactly that
  value and no comments: objects with their members, nested arrays and objects up to the stack limit of the reader,
  strings of any valid UTF-8 text with its escapes and surrogate pairs, and every integer in the range in which the
  reader restores its type.\<close>

theorem json_round_trip:
  assumes "json_ok 1 v"
  shows "parse (toStyledString v) = Inr (Some (plain_doc v))"
proof -
  let ?txt = "fst (write_value 0 True v)" and ?st = "start_state (toStyledString v)"
  have styled: "toStyledString v = ?txt @ [10]"
    by (simp add: toStyledString_def toStyledString_doc_def plain_doc_def write_doc_def)
  have "need v \<le> parse_fuel (toStyledString v)"
    using need_length(1) [of v 0 True] by (simp add: parse_fuel_def styled)
  then obtain st' where st': "readValue (parse_fuel (toStyledString v)) 1 ?st = Ok (v, st')" "after ?st [10] st'"
    using reads_written(1) [of v 0 True, unfolded reads_value_def, rule_format, of 1 "[]" "[10]" ?st] assms
    by (auto simp: styled start_state_def stops_def)
  have "readToken st' = (tokenEndOfStream, [], st'\<lparr>cur := []\<rparr>)"
    using st'(2) by (simp add: after_def readToken_def skipSpaces_def between_def)
  then have "skipCommentTokens st' = (tokenEndOfStream, [], st'\<lparr>cur := []\<rparr>)"
    by (subst skipCommentTokens.simps) simp
  with st' show ?thesis
    by (simp add: parse_def parse_outcome_def after_def start_state_def plain_doc_def)
qed

theorem json_round_trip_witness:
  "parse (toStyledString (JObject [(lit ''code'', JInt 0), (lit ''list'', JArray [JString [0xE4, 0xBD, 0xA0, 10], JNull])])) =
     Inr (Some (plain_doc (JObject [(lit ''code'', JInt 0), (lit ''list'', JArray [JString [0xE4, 0xBD, 0xA0, 10], JNull])])))"
proof (rule json_round_trip)
  have "utf8_ok [0xE4, 0xBD, 0xA0, 10]" "utf8_ok (lit ''code'')" "utf8_ok (lit ''list'')" "lit ''code'' < lit ''list''"
    by code_simp+
  then show "json_ok 1 (JObject [(lit ''code'', JInt 0), (lit ''list'', JArray [JString [0xE4, 0xBD, 0xA0, 10], JNull])])"
    by (simp add: omap_ok_def stackLimit_g_def maxInt_def)
qed

end
