(* ===== verification/Md5.thy ===== *)
theory Md5
  imports Json
begin

section \<open>MD5\<close>

text \<open>
  \<open>FileServer/MD5.h\<close> and \<open>FileServer/MD5.cpp\<close>: the incremental MD5 object. Files are stored under
  their MD5 value. The four registers are a tuple, the two counters, the buffer and the digest are
  as in the class. The loop over whole blocks counts with a \<open>uint32\<close> and does not end for inputs
  of four gigabytes and more; it is a partial function whose value \<open>None\<close> is non-termination.
\<close>

subsection \<open>Macros\<close>

type_synonym md5_regs = "32 word \<times> 32 word \<times> 32 word \<times> 32 word"

definition md_F :: "32 word \<Rightarrow> 32 word \<Rightarrow> 32 word \<Rightarrow> 32 word" where
  "md_F x y z = (x AND y) OR (NOT x AND z)"

definition md_G :: "32 word \<Rightarrow> 32 word \<Rightarrow> 32 word \<Rightarrow> 32 word" where
  "md_G x y z = (x AND z) OR (y AND NOT z)"

definition md_H :: "32 word \<Rightarrow> 32 word \<Rightarrow> 32 word \<Rightarrow> 32 word" where
  "md_H x y z = x XOR y XOR z"

definition md_I :: "32 word \<Rightarrow> 32 word \<Rightarrow> 32 word \<Rightarrow> 32 word" where
  "md_I x y z = y XOR (x OR NOT z)"

definition ROTATE_LEFT :: "32 word \<Rightarrow> nat \<Rightarrow> 32 word" where
  "ROTATE_LEFT x n = push_bit n x OR drop_bit (32 - n) x"

text \<open>The four step macros assign to their first argument; the value is the new one.\<close>

definition FF :: "32 word \<Rightarrow> 32 word \<Rightarrow> 32 word \<Rightarrow> 32 word \<Rightarrow> 32 word \<Rightarrow> nat \<Rightarrow> 32 word \<Rightarrow> 32 word" where
  "FF a b c d x s ac = ROTATE_LEFT (a + (md_F b c d + x + ac)) s + b"

definition GG :: "32 word \<Rightarrow> 32 word \<Rightarrow> 32 word \<Rightarrow> 32 word \<Rightarrow> 32 word \<Rightarrow> nat \<Rightarrow> 32 word \<Rightarrow> 32 word" where
  "GG a b c d x s ac = ROTATE_LEFT (a + (md_G b c d + x + ac)) s + b"

definition HH :: "32 word \<Rightarrow> 32 word \<Rightarrow> 32 word \<Rightarrow> 32 word \<Rightarrow> 32 word \<Rightarrow> nat \<Rightarrow> 32 word \<Rightarrow> 32 word" where
  "HH a b c d x s ac = ROTATE_LEFT (a + (md_H b c d + x + ac)) s + b"

definition II :: "32 word \<Rightarrow> 32 word \<Rightarrow> 32 word \<Rightarrow> 32 word \<Rightarrow> 32 word \<Rightarrow> nat \<Rightarrow> 32 word \<Rightarrow> 32 word" where
  "II a b c d x s ac = ROTATE_LEFT (a + (md_I b c d + x + ac)) s + b"

subsection \<open>The object\<close>

record MD5 =
  md_state :: md5_regs
  md_count :: "32 word \<times> 32 word"
  md_buffer :: bytes
  md_digest :: bytes
  md_finished :: bool

definition md_PADDING :: bytes where
  "md_PADDING = 0x80 # replicate 63 0"

definition md_init :: md5_regs where
  "md_init = (0x67452301, 0xefcdab89, 0x98badcfe, 0x10325476)"

definition md_reset :: "MD5 \<Rightarrow> MD5" where
  "md_reset m = m\<lparr>md_finished := False, md_count := (0, 0), md_state := md_init\<rparr>"

definition md_encode :: "32 word list \<Rightarrow> bytes" where
  "md_encode ws = concat (map (\<lambda>w. [ucast (w AND 0xff), ucast (drop_bit 8 w AND 0xff),
     ucast (drop_bit 16 w AND 0xff), ucast (drop_bit 24 w AND 0xff)]) ws)"

definition md_decode :: "bytes \<Rightarrow> nat \<Rightarrow> 32 word list" where
  "md_decode bs n = map (\<lambda>i. ucast (bs ! (4 * i)) OR push_bit 8 (ucast (bs ! (4 * i + 1))) OR
     push_bit 16 (ucast (bs ! (4 * i + 2))) OR push_bit 24 (ucast (bs ! (4 * i + 3)))) [0..<n div 4]"

text \<open>\<open>FF (a, b, c, d, x[k], s, ac)\<close> and its rotations \<open>FF (d, a, b, c, ...)\<close>, \<open>FF (c, d, a, b, ...)\<close>,
  \<open>FF (b, c, d, a, ...)\<close> on the four registers.\<close>

type_synonym md5_macro = "32 word \<Rightarrow> 32 word \<Rightarrow> 32 word \<Rightarrow> 32 word \<Rightarrow> 32 word \<Rightarrow> nat \<Rightarrow> 32 word \<Rightarrow> 32 word"

definition on_a :: "md5_macro \<Rightarrow> 32 word \<Rightarrow> nat \<Rightarrow> 32 word \<Rightarrow> md5_regs \<Rightarrow> md5_regs" where
  "on_a f x s ac = (\<lambda>(a, b, c, d). (f a b c d x s ac, b, c, d))"

definition on_d :: "md5_macro \<Rightarrow> 32 word \<Rightarrow> nat \<Rightarrow> 32 word \<Rightarrow> md5_regs \<Rightarrow> md5_regs" where
  "on_d f x s ac = (\<lambda>(a, b, c, d). (a, b, c, f d a b c x s ac))"

definition on_c :: "md5_macro \<Rightarrow> 32 word \<Rightarrow> nat \<Rightarrow> 32 word \<Rightarrow> md5_regs \<Rightarrow> md5_regs" where
  "on_c f x s ac = (\<lambda>(a, b, c, d). (a, b, f c d a b x s ac, d))"

definition on_b :: "md5_macro \<Rightarrow> 32 word \<Rightarrow> nat \<Rightarrow> 32 word \<Rightarrow> md5_regs \<Rightarrow> md5_regs" where
  "on_b f x s ac = (\<lambda>(a, b, c, d). (a, f b c d a x s ac, c, d))"

definition S11 :: nat where "S11 = 7"
definition S12 :: nat where "S12 = 12"
definition S13 :: nat where "S13 = 17"
definition S14 :: nat where "S14 = 22"
definition S21 :: nat where "S21 = 5"
definition S22 :: nat where "S22 = 9"
definition S23 :: nat where "S23 = 14"
definition S24 :: nat where "S24 = 20"
definition S31 :: nat where "S31 = 4"
definition S32 :: nat where "S32 = 11"
definition S33 :: nat where "S33 = 16"
definition S34 :: nat where "S34 = 23"
definition S41 :: nat where "S41 = 6"
definition S42 :: nat where "S42 = 10"
definition S43 :: nat where "S43 = 15"
definition S44 :: nat where "S44 = 21"

lemmas md_shifts = S11_def S12_def S13_def S14_def S21_def S22_def S23_def S24_def S31_def S32_def S33_def S34_def S41_def S42_def S43_def S44_def

definition md_steps :: "32 word list \<Rightarrow> (md5_regs \<Rightarrow> md5_regs) list" where
  "md_steps x = [
        on_a FF (x ! 0) S11 0xd76aa478, on_d FF (x ! 1) S12 0xe8c7b756,
        on_c FF (x ! 2) S13 0x242070db, on_b FF (x ! 3) S14 0xc1bdceee,
        on_a FF (x ! 4) S11 0xf57c0faf, on_d FF (x ! 5) S12 0x4787c62a,
        on_c FF (x ! 6) S13 0xa8304613, on_b FF (x ! 7) S14 0xfd469501,
        on_a FF (x ! 8) S11 0x698098d8, on_d FF (x ! 9) S12 0x8b44f7af,
        on_c FF (x ! 10) S13 0xffff5bb1, on_b FF (x ! 11) S14 0x895cd7be,
        on_a FF (x ! 12) S11 0x6b901122, on_d FF (x ! 13) S12 0xfd987193,
        on_c FF (x ! 14) S13 0xa679438e, on_b FF (x ! 15) S14 0x49b40821,
        on_a GG (x ! 1) S21 0xf61e2562, on_d GG (x ! 6) S22 0xc040b340,
        on_c GG (x ! 11) S23 0x265e5a51, on_b GG (x ! 0) S24 0xe9b6c7aa,
        on_a GG (x ! 5) S21 0xd62f105d, on_d GG (x ! 10) S22 0x2441453,
        on_c GG (x ! 15) S23 0xd8a1e681, on_b GG (x ! 4) S24 0xe7d3fbc8,
        on_a GG (x ! 9) S21 0x21e1cde6, on_d GG (x ! 14) S22 0xc33707d6,
        on_c GG (x ! 3) S23 0xf4d50d87, on_b GG (x ! 8) S24 0x455a14ed,
        on_a GG (x ! 13) S21 0xa9e3e905, on_d GG (x ! 2) S22 0xfcefa3f8,
        on_c GG (x ! 7) S23 0x676f02d9, on_b GG (x ! 12) S24 0x8d2a4c8a,
        on_a HH (x ! 5) S31 0xfffa3942, on_d HH (x ! 8) S32 0x8771f681,
        on_c HH (x ! 11) S33 0x6d9d6122, on_b HH (x ! 14) S34 0xfde5380c,
        on_a HH (x ! 1) S31 0xa4beea44, on_d HH (x ! 4) S32 0x4bdecfa9,
        on_c HH (x ! 7) S33 0xf6bb4b60, on_b HH (x ! 10) S34 0xbebfbc70,
        on_a HH (x ! 13) S31 0x289b7ec6, on_d HH (x ! 0) S32 0xeaa127fa,
        on_c HH (x ! 3) S33 0xd4ef3085, on_b HH (x ! 6) S34 0x4881d05,
        on_a HH (x ! 9) S31 0xd9d4d039, on_d HH (x ! 12) S32 0xe6db99e5,
        on_c HH (x ! 15) S33 0x1fa27cf8, on_b HH (x ! 2) S34 0xc4ac5665,
        on_a II (x ! 0) S41 0xf4292244, on_d II (x ! 7) S42 0x432aff97,
        on_c II (x ! 14) S43 0xab9423a7, on_b II (x ! 5) S44 0xfc93a039,
        on_a II (x ! 12) S41 0x655b59c3, on_d II (x ! 3) S42 0x8f0ccc92,
        on_c II (x ! 10) S43 0xffeff47d, on_b II (x ! 1) S44 0x85845dd1,
        on_a II (x ! 8) S41 0x6fa87e4f, on_d II (x ! 15) S42 0xfe2ce6e0,
        on_c II (x ! 6) S43 0xa3014314, on_b II (x ! 13) S44 0x4e0811a1,
        on_a II (x ! 4) S41 0xf7537e82, on_d II (x ! 11) S42 0xbd3af235,
        on_c II (x ! 2) S43 0x2ad7d2bb, on_b II (x ! 9) S44 0xeb86d391]"

definition md_rounds :: "32 word list \<Rightarrow> md5_regs \<Rightarrow> md5_regs" where
  "md_rounds x st = fold (\<lambda>f. f) (md_steps x) st"

definition md_transform :: "bytes \<Rightarrow> md5_regs \<Rightarrow> md5_regs" where
  "md_transform block st =
     (let x = md_decode block 64; (a, b, c, d) = md_rounds x st; (s0, s1, s2, s3) = st
      in (s0 + a, s1 + b, s2 + c, s3 + d))"

text \<open>\<open>memcpy(&buf[k], xs, n)\<close>.\<close>

definition memcpy :: "bytes \<Rightarrow> nat \<Rightarrow> bytes \<Rightarrow> bytes" where
  "memcpy buf k xs = take k buf @ xs @ drop (k + length xs) buf"

partial_function (option) md_blocks :: "32 word \<Rightarrow> bytes \<Rightarrow> md5_regs \<Rightarrow> (32 word \<times> md5_regs) option" where
  "md_blocks i input st =
     (if unat (i + 63) < length input
      then md_blocks (i + 64) input (md_transform (take 64 (drop (unat i) input)) st)
      else Some (i, st))"

declare md_blocks.simps [code]

text \<open>The number of bytes in the buffer, and the bit counter: two words, low-order word first.\<close>

definition md_index :: "32 word \<times> 32 word \<Rightarrow> nat" where
  "md_index c = unat (drop_bit 3 (fst c) AND 0x3f)"

definition md_add_count :: "nat \<Rightarrow> 32 word \<times> 32 word \<Rightarrow> 32 word \<times> 32 word" where
  "md_add_count n c =
     (let len = (of_nat n :: 32 word); c0 = fst c + push_bit 3 len
      in (c0, (if c0 < push_bit 3 len then snd c + 1 else snd c) + drop_bit 29 len))"

definition md_update :: "bytes \<Rightarrow> MD5 \<Rightarrow> MD5 option" where
  "md_update input m =
     (let index = md_index (md_count m);
          m1 = m\<lparr>md_finished := False, md_count := md_add_count (length input) (md_count m)\<rparr>;
          partLen = 64 - index
      in if length input \<ge> partLen then
           (let buf = memcpy (md_buffer m) index (take partLen input)
            in case md_blocks (of_nat partLen) input (md_transform buf (md_state m)) of
                 None \<Rightarrow> None
               | Some (i, st) \<Rightarrow> Some (m1\<lparr>md_state := st, md_buffer := memcpy buf 0 (drop (unat i) input)\<rparr>))
         else Some (m1\<lparr>md_buffer := memcpy (md_buffer m) index input\<rparr>))"

definition regs_list :: "md5_regs \<Rightarrow> 32 word list" where
  "regs_list st = (case st of (a, b, c, d) \<Rightarrow> [a, b, c, d])"

definition md_final :: "MD5 \<Rightarrow> MD5 option" where
  "md_final m =
     (let oldState = md_state m; oldCount = md_count m;
          bits = md_encode [fst oldCount, snd oldCount];
          index = md_index oldCount;
          padLen = (if index < 56 then 56 - index else 120 - index)
      in case md_update (take padLen md_PADDING) m of
           None \<Rightarrow> None
         | Some m1 \<Rightarrow>
             (case md_update bits m1 of
                None \<Rightarrow> None
              | Some m2 \<Rightarrow>
                  Some (m2\<lparr>md_digest := md_encode (regs_list (md_state m2)), md_state := oldState, md_count := oldCount\<rparr>)))"

definition digest :: "MD5 \<Rightarrow> (bytes \<times> MD5) option" where
  "digest m =
     (if \<not> md_finished m
      then (case md_final (m\<lparr>md_finished := True\<rparr>) of None \<Rightarrow> None | Some m' \<Rightarrow> Some (md_digest m', m'))
      else Some (md_digest m, m))"

definition md_HEX :: bytes where
  "md_HEX = lit ''0123456789abcdef''"

definition bytesToHexString :: "bytes \<Rightarrow> bytes" where
  "bytesToHexString input = concat (map (\<lambda>t. [md_HEX ! (unat t div 16), md_HEX ! (unat t mod 16)]) input)"

definition md_toString :: "MD5 \<Rightarrow> (bytes \<times> MD5) option" where
  "md_toString m = map_option (\<lambda>(d, m'). (bytesToHexString (take 16 d), m')) (digest m)"

text \<open>Objects start with whatever the memory holds in the buffer and the digest. The constructors
  that take an input reset the object and update it.\<close>

definition new_MD5 :: "MD5 \<Rightarrow> MD5" where
  "new_MD5 raw = md_reset raw"

definition MD5_of :: "MD5 \<Rightarrow> bytes \<Rightarrow> MD5 option" where
  "MD5_of raw input = md_update input (md_reset raw)"

text \<open>\<open>update(ifstream &)\<close>: the blocks of at most \<open>BUFFER_SIZE\<close> bytes that \<open>read\<close> delivers.\<close>

function file_reads :: "bytes \<Rightarrow> bytes list" where
  "file_reads s = (if s = [] then [] else take 1024 s # file_reads (drop 1024 s))"
  by pat_completeness auto
termination
  by (relation "measure length") auto

declare file_reads.simps [simp del]

fun md_updates :: "bytes list \<Rightarrow> MD5 \<Rightarrow> MD5 option" where
  "md_updates [] m = Some m"
| "md_updates (b # bs) m = (case md_update b m of None \<Rightarrow> None | Some m' \<Rightarrow> md_updates bs m')"

definition md_update_file :: "bytes \<Rightarrow> MD5 \<Rightarrow> MD5 option" where
  "md_update_file contents m = md_updates (file_reads contents) m"

subsection \<open>Reference: RFC 1321\<close>

text \<open>The table-driven description: step \<open>i\<close> uses a round function, a message word, a shift and a
  constant that depend on \<open>i\<close>, rotates by \<^const>\<open>word_rotl\<close> and moves the registers round.\<close>

definition rfc_T :: "32 word list" where
  "rfc_T = [
    0xd76aa478, 0xe8c7b756, 0x242070db, 0xc1bdceee, 0xf57c0faf, 0x4787c62a, 0xa8304613, 0xfd469501,
    0x698098d8, 0x8b44f7af, 0xffff5bb1, 0x895cd7be, 0x6b901122, 0xfd987193, 0xa679438e, 0x49b40821,
    0xf61e2562, 0xc040b340, 0x265e5a51, 0xe9b6c7aa, 0xd62f105d, 0x02441453, 0xd8a1e681, 0xe7d3fbc8,
    0x21e1cde6, 0xc33707d6, 0xf4d50d87, 0x455a14ed, 0xa9e3e905, 0xfcefa3f8, 0x676f02d9, 0x8d2a4c8a,
    0xfffa3942, 0x8771f681, 0x6d9d6122, 0xfde5380c, 0xa4beea44, 0x4bdecfa9, 0xf6bb4b60, 0xbebfbc70,
    0x289b7ec6, 0xeaa127fa, 0xd4ef3085, 0x04881d05, 0xd9d4d039, 0xe6db99e5, 0x1fa27cf8, 0xc4ac5665,
    0xf4292244, 0x432aff97, 0xab9423a7, 0xfc93a039, 0x655b59c3, 0x8f0ccc92, 0xffeff47d, 0x85845dd1,
    0x6fa87e4f, 0xfe2ce6e0, 0xa3014314, 0x4e0811a1, 0xf7537e82, 0xbd3af235, 0x2ad7d2bb, 0xeb86d391]"

definition rfc_shift :: "nat \<Rightarrow> nat" where
  "rfc_shift i = [[7, 12, 17, 22], [5, 9, 14, 20], [4, 11, 16, 23], [6, 10, 15, 21]] ! (i div 16) ! (i mod 4)"

definition rfc_word :: "nat \<Rightarrow> nat" where
  "rfc_word i = [i, 5 * i + 1, 3 * i + 5, 7 * i] ! (i div 16) mod 16"

definition rfc_fun :: "nat \<Rightarrow> 32 word \<Rightarrow> 32 word \<Rightarrow> 32 word \<Rightarrow> 32 word" where
  "rfc_fun i x y z =
     [(x AND y) OR (NOT x AND z), (x AND z) OR (y AND NOT z), x XOR y XOR z, y XOR (x OR NOT z)] ! (i div 16)"

definition rfc_macro :: "nat \<Rightarrow> md5_macro" where
  "rfc_macro i a b c d x s t = b + word_rotl s (a + rfc_fun i b c d + x + t)"

definition rfc_step :: "32 word list \<Rightarrow> nat \<Rightarrow> md5_regs \<Rightarrow> md5_regs" where
  "rfc_step x i = (\<lambda>(a, b, c, d). (d, rfc_macro i a b c d (x ! rfc_word i) (rfc_shift i) (rfc_T ! i), b, c))"

definition rfc_block :: "bytes \<Rightarrow> md5_regs \<Rightarrow> md5_regs" where
  "rfc_block block st =
     (case (fold (rfc_step (md_decode block 64)) [0..<64] st, st) of
        ((a, b, c, d), (s0, s1, s2, s3)) \<Rightarrow> (s0 + a, s1 + b, s2 + c, s3 + d))"

function blocks64 :: "bytes \<Rightarrow> bytes list" where
  "blocks64 s = (if length s < 64 then [] else take 64 s # blocks64 (drop 64 s))"
  by pat_completeness auto
termination
  by (relation "measure length") auto

declare blocks64.simps [simp del]

definition rfc_pad :: "bytes \<Rightarrow> bytes" where
  "rfc_pad msg = msg @ [0x80] @ replicate ((119 - length msg mod 64) mod 64) 0 @
     map (\<lambda>i. of_nat (8 * length msg div 256 ^ i)) [0..<8]"

definition rfc_md5 :: "bytes \<Rightarrow> bytes" where
  "rfc_md5 msg = md_encode (regs_list (fold rfc_block (blocks64 (rfc_pad msg)) md_init))"

lemma ROTATE_LEFT_rotl:
  assumes "s < 32"
  shows "ROTATE_LEFT x s = word_rotl s x"
proof (rule bit_word_eqI)
  fix n assume n: "n < LENGTH(32)"
  show "bit (ROTATE_LEFT x s) n = bit (word_rotl s x) n"
  proof (cases "s \<le> n")
    case True
    then have "n + 32 - s = n - s + 32"
      by simp
    with n have "(n + 32 - s) mod 32 = n - s"
      by (simp only: mod_add_self2) simp
    moreover have "\<not> bit x (32 - s + n)"
      using True by (intro notI) (drule bit_imp_le_length, use assms in simp)
    ultimately show ?thesis
      using True n by (simp add: ROTATE_LEFT_def bit_or_iff bit_push_bit_iff bit_drop_bit_eq bit_word_rotl_iff)
  next
    case False
    with assms n have "(n + 32 - s) mod 32 = 32 - s + n"
      by simp
    with False n assms show ?thesis
      by (simp add: ROTATE_LEFT_def bit_or_iff bit_push_bit_iff bit_drop_bit_eq bit_word_rotl_iff)
  qed
qed

text \<open>The macro the code uses in step \<open>i\<close>, and four consecutive steps.\<close>

definition code_macro :: "nat \<Rightarrow> md5_macro" where
  "code_macro i = [FF, GG, HH, II] ! (i div 16)"

definition code_quad :: "32 word list \<Rightarrow> nat \<Rightarrow> (md5_regs \<Rightarrow> md5_regs) list" where
  "code_quad x i = [on_a (code_macro i) (x ! rfc_word i) (rfc_shift i) (rfc_T ! i),
      on_d (code_macro (i + 1)) (x ! rfc_word (i + 1)) (rfc_shift (i + 1)) (rfc_T ! (i + 1)),
      on_c (code_macro (i + 2)) (x ! rfc_word (i + 2)) (rfc_shift (i + 2)) (rfc_T ! (i + 2)),
      on_b (code_macro (i + 3)) (x ! rfc_word (i + 3)) (rfc_shift (i + 3)) (rfc_T ! (i + 3))]"

lemma less_64_cases: "(i :: nat) < 64 \<Longrightarrow> i div 16 = 0 \<or> i div 16 = 1 \<or> i div 16 = 2 \<or> i div 16 = 3"
  by linarith

lemma mod_4_cases: "(i :: nat) mod 4 = 0 \<or> i mod 4 = 1 \<or> i mod 4 = 2 \<or> i mod 4 = 3"
  by linarith

lemma rfc_shift_less: "i < 64 \<Longrightarrow> rfc_shift i < 32"
  using less_64_cases [of i] mod_4_cases [of i] by (auto simp: rfc_shift_def)

lemma code_macro_rfc: "i < 64 \<Longrightarrow> s < 32 \<Longrightarrow> code_macro i a b c d x s t = rfc_macro i a b c d x s t"
  using less_64_cases [of i]
  by (auto simp: code_macro_def rfc_macro_def FF_def GG_def HH_def II_def md_F_def md_G_def md_H_def md_I_def
      rfc_fun_def ROTATE_LEFT_rotl add.assoc add.commute [of b])

lemma code_quad_steps: "i < 61 \<Longrightarrow> fold (\<lambda>f. f) (code_quad x i) st = fold (rfc_step x) [i, i + 1, i + 2, i + 3] st"
  by (cases st)
    (simp add: code_quad_def rfc_step_def on_a_def on_b_def on_c_def on_d_def code_macro_rfc rfc_shift_less)

lemma md_steps_quads: "md_steps x = concat (map (\<lambda>n. code_quad x (4 * n)) [0..<16])"
  by (simp add: md_steps_def code_quad_def code_macro_def rfc_word_def rfc_shift_def rfc_T_def md_shifts
      upt_rec [of _ "numeral n" for n] numeral_2_eq_2 [symmetric] del: One_nat_def)

lemma fold_quads:
  "k \<le> 16 \<Longrightarrow> fold (\<lambda>f. f) (concat (map (\<lambda>n. code_quad x (4 * n)) [0..<k])) st = fold (rfc_step x) [0..<4 * k] st"
proof (induction k)
  case (Suc k)
  have "[0..<4 * Suc k] = [0..<4 * k] @ [4 * k, 4 * k + 1, 4 * k + 2, 4 * k + 3]"
    by (simp add: numeral_eq_Suc)
  with Suc code_quad_steps [of "4 * k" x] show ?case
    by simp
qed simp

lemma md_rounds_rfc: "md_rounds x st = fold (rfc_step x) [0..<64] st"
  using fold_quads [of 16 x st] by (simp add: md_rounds_def md_steps_quads del: upt.simps)

lemma md_transform_rfc: "md_transform block st = rfc_block block st"
  by (simp add: md_transform_def rfc_block_def md_rounds_rfc Let_def del: upt.simps split: prod.split)

subsection \<open>Whole blocks\<close>

definition hash_blocks :: "bytes \<Rightarrow> md5_regs \<Rightarrow> md5_regs" where
  "hash_blocks s st = fold md_transform (blocks64 s) st"

lemma hash_blocks_short: "length s < 64 \<Longrightarrow> hash_blocks s st = st"
  by (simp add: hash_blocks_def blocks64.simps [of s])

lemma hash_blocks_long:
  "64 \<le> length s \<Longrightarrow> hash_blocks s st = hash_blocks (drop 64 s) (md_transform (take 64 s) st)"
  by (simp add: hash_blocks_def blocks64.simps [of s])

lemma hash_blocks_append:
  "length s mod 64 = 0 \<Longrightarrow> hash_blocks (s @ t) st = hash_blocks t (hash_blocks s st)"
proof (induction s arbitrary: st rule: blocks64.induct)
  case (1 s)
  show ?case
  proof (cases "length s < 64")
    case True
    with 1(2) have "s = []"
      by simp
    then show ?thesis
      by (simp add: hash_blocks_short)
  next
    case False
    then show ?thesis
      using 1(1) [OF False] 1(2) by (simp add: hash_blocks_long le_mod_geq)
  qed
qed

lemma hash_blocks_tail:
  "length s mod 64 = 0 \<Longrightarrow> length t < 64 \<Longrightarrow> hash_blocks (s @ t) st = hash_blocks s st"
  by (simp add: hash_blocks_append hash_blocks_short)

lemma hash_blocks_one: "length b = 64 \<Longrightarrow> hash_blocks b st = md_transform b st"
  by (simp add: hash_blocks_long hash_blocks_short)

definition whole :: "bytes \<Rightarrow> bytes" where
  "whole s = take (64 * (length s div 64)) s"

definition partial_block :: "bytes \<Rightarrow> bytes" where
  "partial_block s = drop (64 * (length s div 64)) s"

lemma length_whole: "length (whole s) = 64 * (length s div 64)"
  by (simp add: whole_def)

lemma whole_append [simp]: "whole s @ partial_block s = s"
  by (simp add: whole_def partial_block_def)

lemma length_partial_block: "length (partial_block s) = length s mod 64"
  by (simp add: partial_block_def minus_mult_div_eq_mod)

lemma hash_blocks_whole: "hash_blocks s st = hash_blocks (whole s) st"
  using hash_blocks_tail [of "whole s" "partial_block s" st] by (simp add: length_whole length_partial_block)

lemma partial_append:
  "length s mod 64 = 0 \<Longrightarrow> partial_block (s @ t) = partial_block t"
  by (auto simp: partial_block_def mod_eq_0_iff_dvd dvd_def)

text \<open>The loop of \<open>update\<close> over the whole blocks, when the \<open>uint32\<close> index cannot wrap.\<close>

lemma md_blocks_total:
  "unat i \<le> length input \<Longrightarrow> length input < 2 ^ 32 - 64 \<Longrightarrow>
     \<exists>j. md_blocks i input st = Some (j, hash_blocks (drop (unat i) input) st) \<and>
         drop (unat j) input = partial_block (drop (unat i) input)"
proof (induction "length input - unat i" arbitrary: i st rule: less_induct)
  case less
  have i63: "unat (i + 63) = unat i + 63" and i64: "unat (i + 64) = unat i + 64"
    using less.prems by (simp_all add: unat_word_ariths)
  show ?case
  proof (cases "unat i + 63 < length input")
    case True
    define st' where "st' = md_transform (take 64 (drop (unat i) input)) st"
    obtain j where j: "md_blocks (i + 64) input st' = Some (j, hash_blocks (drop (unat i + 64) input) st')"
        "drop (unat j) input = partial_block (drop (unat i + 64) input)"
      using less.hyps [of "i + 64" st', unfolded i64] True less.prems by force
    have "partial_block (drop (unat i) input) = partial_block (drop (unat i + 64) input)"
      using partial_append [of "take 64 (drop (unat i) input)" "drop 64 (drop (unat i) input)"] True
      by (simp only: append_take_drop_id) (simp add: add.commute)
    with j True show ?thesis
      by (subst md_blocks.simps) (simp add: i63 hash_blocks_long st'_def add.commute)
  next
    case False
    then show ?thesis
      by (subst md_blocks.simps) (simp add: i63 hash_blocks_short partial_block_def)
  qed
qed

subsection \<open>Counters\<close>

lemma index_count: "unat (drop_bit 3 (of_nat (8 * n) :: 32 word) AND 0x3f) = n mod 64"
proof -
  have "(0x3f :: 32 word) = mask 6"
    by (simp add: mask_eq_exp_minus_1)
  then have "unat (drop_bit 3 (of_nat (8 * n) :: 32 word) AND 0x3f) = unat (take_bit 6 (drop_bit 3 (of_nat (8 * n) :: 32 word)))"
    by (simp add: take_bit_eq_mask)
  also have "\<dots> = (8 * n mod (8 * 2 ^ 29)) div 8 mod 64"
    by (simp only: unsigned_take_bit_eq unsigned_drop_bit_eq unsigned_of_nat)
      (simp add: take_bit_eq_mod drop_bit_eq_div)
  also have "\<dots> = n mod 2 ^ 29 mod 2 ^ 6"
    by (simp only: mult_mod_right [symmetric]) simp
  also have "\<dots> = n mod 64"
    by (subst mod_exp_eq) simp
  finally show ?thesis .
qed

lemma push_bit_count: "push_bit 3 (of_nat n :: 32 word) = of_nat (8 * n)"
  by (simp add: push_bit_eq_mult mult.commute)

lemma count_high:
  assumes "(n :: nat) < 2 ^ 32"
  shows "drop_bit 29 (of_nat n :: 32 word) = of_nat (8 * n div 2 ^ 32)"
proof -
  have "unat (drop_bit 29 (of_nat n :: 32 word)) = n div 2 ^ 29"
    using assms by (simp only: unsigned_drop_bit_eq unsigned_of_nat) (simp add: take_bit_eq_mod drop_bit_eq_div)
  moreover have "8 * n div 2 ^ 32 = n div 2 ^ 29"
    by simp
  ultimately show ?thesis
    by (metis of_nat_unat ucast_id)
qed

lemma carry_sum:
  fixes x y M :: nat
  assumes "x < M" "y < M"
  shows "(x + y) mod M < y \<longleftrightarrow> M \<le> x + y"
    and "(x + y) div M = (if M \<le> x + y then 1 else 0)"
proof -
  have "x + y - M < M" "x + y - M < y \<longleftrightarrow> M \<le> x + y \<or> x + y - M < y"
    using assms by auto
  with assms show "(x + y) mod M < y \<longleftrightarrow> M \<le> x + y"
    by (cases "M \<le> x + y") (auto simp: le_mod_geq)
  from assms show "(x + y) div M = (if M \<le> x + y then 1 else 0)"
    by (auto simp: le_div_geq)
qed

lemma div_add_carry:
  fixes a b M :: nat
  assumes "0 < M"
  shows "(a + b) div M = a div M + b div M + (if M \<le> a mod M + b mod M then 1 else 0)"
  using assms carry_sum(2) [of "a mod M" M "b mod M"] by (simp only: div_add1_eq [of a b] mod_less_divisor)

lemma carry_add:
  "(of_nat a + of_nat b :: 32 word) < of_nat b \<longleftrightarrow> 2 ^ 32 \<le> a mod 2 ^ 32 + b mod 2 ^ 32"
  using carry_sum(1) [of "a mod 2 ^ 32" "2 ^ 32" "b mod 2 ^ 32"]
  by (simp only: of_nat_add [symmetric] word_less_nat_alt unsigned_of_nat take_bit_eq_mod) (simp add: mod_add_eq)

subsection \<open>The bit counter\<close>

definition bit_count :: "nat \<Rightarrow> 32 word \<times> 32 word" where
  "bit_count n = (of_nat (8 * n), of_nat (8 * n div 2 ^ 32))"

lemma md_index_count: "md_index (bit_count n) = n mod 64"
  by (simp only: md_index_def bit_count_def fst_conv index_count)

lemma md_add_count:
  assumes "l < 2 ^ 32"
  shows "md_add_count l (bit_count n) = bit_count (n + l)"
proof -
  have low: "of_nat (8 * n) + push_bit 3 (of_nat l) = (of_nat (8 * (n + l)) :: 32 word)"
    by (simp add: push_bit_count algebra_simps)
  have "8 * (n + l) = 8 * n + 8 * l"
    by simp
  then have "(if of_nat (8 * n) + push_bit 3 (of_nat l) < (push_bit 3 (of_nat l) :: 32 word)
          then of_nat (8 * n div 2 ^ 32) + 1 else of_nat (8 * n div 2 ^ 32)) + drop_bit 29 (of_nat l) =
         (of_nat (8 * (n + l) div 2 ^ 32) :: 32 word)"
    unfolding push_bit_count carry_add count_high [OF assms]
    by (simp only: div_add_carry [of "2 ^ 32" "8 * n" "8 * l"] zero_less_power zero_less_numeral of_nat_add
        split: if_split) simp
  with low show ?thesis
    by (simp only: md_add_count_def bit_count_def Let_def fst_conv snd_conv)
qed

subsection \<open>The invariant\<close>

text \<open>The object has taken in the message \<open>msg\<close>: the counters hold its length in bits, the registers the
  whole blocks, the buffer starts with the rest.\<close>

definition md5_inv :: "bytes \<Rightarrow> MD5 \<Rightarrow> bool" where
  "md5_inv msg m \<longleftrightarrow>
     md_count m = bit_count (length msg) \<and>
     md_state m = hash_blocks msg md_init \<and> length (md_buffer m) = 64 \<and>
     take (length msg mod 64) (md_buffer m) = partial_block msg"

lemma md5_inv_reset: "length (md_buffer raw) = 64 \<Longrightarrow> md5_inv [] (md_reset raw)"
  by (simp add: md5_inv_def md_reset_def bit_count_def hash_blocks_short partial_block_def)

lemma take_memcpy: "k + length xs \<le> length buf \<Longrightarrow> take (k + length xs) (memcpy buf k xs) = take k buf @ xs"
  by (simp add: memcpy_def)

lemma length_memcpy: "k + length xs \<le> length buf \<Longrightarrow> length (memcpy buf k xs) = length buf"
  by (simp add: memcpy_def)

lemma memcpy_full: "k + length xs = length buf \<Longrightarrow> memcpy buf k xs = take k buf @ xs"
  by (simp add: memcpy_def)

text \<open>A message extended by an input that does not fill the block, and by one that does.\<close>

lemma extend_short:
  assumes "length msg mod 64 + length input < 64"
  shows "hash_blocks (msg @ input) st = hash_blocks msg st"
    and "partial_block (msg @ input) = partial_block msg @ input"
    and "length (msg @ input) mod 64 = length msg mod 64 + length input"
proof -
  have *: "msg @ input = whole msg @ partial_block msg @ input"
    by (metis append.assoc whole_append)
  have l: "length (partial_block msg @ input) < 64"
    using assms by (simp add: length_partial_block)
  show "hash_blocks (msg @ input) st = hash_blocks msg st"
    using hash_blocks_tail [OF _ l, of "whole msg"] hash_blocks_whole [of msg] by (simp add: * length_whole)
  have "partial_block (partial_block msg @ input) = partial_block msg @ input"
    using l by (simp add: partial_block_def [of "_ @ _"])
  then show p: "partial_block (msg @ input) = partial_block msg @ input"
    using partial_append [of "whole msg" "partial_block msg @ input"] by (simp add: * length_whole)
  show "length (msg @ input) mod 64 = length msg mod 64 + length input"
    using p length_partial_block [of "msg @ input"] by (simp add: length_partial_block)
qed

lemma extend_long:
  assumes "length (partial_block msg @ p) = 64"
  shows "hash_blocks (msg @ p @ rest) st = hash_blocks rest (md_transform (partial_block msg @ p) (hash_blocks msg st))"
    and "partial_block (msg @ p @ rest) = partial_block rest"
proof -
  define b where "b = partial_block msg @ p"
  have b: "length b = 64"
    using assms by (simp add: b_def)
  have *: "msg @ p @ rest = whole msg @ b @ rest"
    by (metis b_def append.assoc whole_append)
  show "hash_blocks (msg @ p @ rest) st = hash_blocks rest (md_transform (partial_block msg @ p) (hash_blocks msg st))"
    using hash_blocks_whole [of msg]
    by (simp only: * b_def [symmetric]) (simp add: b length_whole hash_blocks_append hash_blocks_one)
  show "partial_block (msg @ p @ rest) = partial_block rest"
    by (simp only: *) (simp add: b length_whole partial_append)
qed

lemma md_update_short:
  assumes inv: "md5_inv msg m" and short: "length msg mod 64 + length input < 64"
  shows "\<exists>m'. md_update input m = Some m' \<and> md5_inv (msg @ input) m' \<and> \<not> md_finished m' \<and>
      md_buffer m' = memcpy (md_buffer m) (length msg mod 64) input"
proof -
  have "length input < 2 ^ 32" "\<not> 64 - length msg mod 64 \<le> length input"
    using short by simp_all
  then show ?thesis
    using assms extend_short [OF short]
    by (simp add: md5_inv_def md_update_def md_index_count md_add_count Let_def length_memcpy take_memcpy)
qed

lemma md_update_long:
  assumes inv: "md5_inv msg m" and long: "64 \<le> length msg mod 64 + length input"
    and limit: "length input < 2 ^ 32 - 64"
  defines "k \<equiv> 64 - length msg mod 64"
  shows "\<exists>m'. md_update input m = Some m' \<and> md5_inv (msg @ input) m' \<and> \<not> md_finished m' \<and>
      md_buffer m' = memcpy (partial_block msg @ take k input) 0 (partial_block (msg @ input))"
proof -
  define buf where "buf = partial_block msg @ take k input"
  have k: "k \<le> 64" "k \<le> length input" "length msg mod 64 + k = 64"
    using long by (auto simp: k_def)
  then have buf: "length buf = 64" "memcpy (md_buffer m) (length msg mod 64) (take k input) = buf"
    using inv by (simp_all add: buf_def length_partial_block md5_inv_def memcpy_full)
  have kw: "unat (of_nat k :: 32 word) = k"
    using k by (simp add: unsigned_of_nat take_bit_nat_eq_self)
  obtain j where j: "md_blocks (of_nat k) input (md_transform buf (md_state m)) =
        Some (j, hash_blocks (drop k input) (md_transform buf (md_state m)))"
      "drop (unat j) input = partial_block (drop k input)"
    using md_blocks_total [of "of_nat k" input] k limit unfolding kw by metis
  have split: "msg @ input = msg @ take k input @ drop k input"
    by simp
  note ext = extend_long [of msg "take k input" "drop k input", folded split buf_def, OF buf(1)]
  have "length input < 2 ^ 32" and "length input - unat j = (length msg + length input) mod 64"
    using limit arg_cong [OF j(2), of length] ext(2) length_partial_block [of "msg @ input"] by simp_all
  then show ?thesis
    using inv k j buf ext length_partial_block [of "msg @ input"]
    by (simp add: md5_inv_def md_update_def md_index_count md_add_count Let_def k_def [symmetric] memcpy_def
        buf_def [symmetric])
qed

lemma md_update_inv:
  assumes "md5_inv msg m" and "length input < 2 ^ 32 - 64"
  shows "\<exists>m'. md_update input m = Some m' \<and> md5_inv (msg @ input) m' \<and> \<not> md_finished m'"
  using md_update_short [OF assms(1), of input] md_update_long [OF assms(1) _ assms(2)]
  by (cases "length msg mod 64 + length input < 64") (fastforce simp: not_less)+

lemma md_updates_inv:
  "md5_inv msg m \<Longrightarrow> \<not> md_finished m \<Longrightarrow> \<forall>c \<in> set chunks. length c < 2 ^ 32 - 64 \<Longrightarrow>
     \<exists>m'. md_updates chunks m = Some m' \<and> md5_inv (msg @ concat chunks) m' \<and> \<not> md_finished m'"
proof (induction chunks arbitrary: msg m)
  case (Cons c chunks)
  then obtain m1 where m1: "md_update c m = Some m1" "md5_inv (msg @ c) m1" "\<not> md_finished m1"
    using md_update_inv [of msg m c] by auto
  with Cons.IH [OF m1(2,3)] Cons.prems(3) show ?case
    by simp
qed simp

subsection \<open>Padding\<close>

lemma byte_of_count:
  assumes "k \<le> 24"
  shows "(ucast (drop_bit k (of_nat n :: 32 word) AND 0xff) :: 8 word) = of_nat (n div 2 ^ k)"
proof -
  have ff: "(0xff :: 32 word) = mask 8"
    by (simp add: mask_eq_exp_minus_1)
  have "bit (drop_bit k (of_nat n :: 32 word) AND mask 8) i = bit n (k + i)" if "i < 8" for i
    using that assms by (simp add: bit_and_iff bit_mask_iff bit_drop_bit_eq bit_of_nat_iff)
  then show ?thesis
    unfolding ff
    by (intro bit_word_eqI)
      (simp add: bit_ucast_iff bit_of_nat_iff bit_drop_bit_eq flip: drop_bit_eq_div)
qed

lemma encode_bit_count:
  "md_encode [fst (bit_count n), snd (bit_count n)] = map (\<lambda>i. of_nat (8 * n div 256 ^ i)) [0..<8]"
proof -
  have [simp]: "[0..<8] = [0, 1, 2, 3, 4, 5, 6, 7::nat]"
    by (simp add: upt_rec)
  have "(ucast ((of_nat k :: 32 word) AND 0xff) :: 8 word) = of_nat k" for k
    using byte_of_count [of 0 k] by simp
  then show ?thesis
    by (simp add: md_encode_def bit_count_def byte_of_count div_mult2_eq [symmetric] del: of_nat_mult)
qed

definition md_pad :: "bytes \<Rightarrow> bytes" where
  "md_pad msg = take (if length msg mod 64 < 56 then 56 - length msg mod 64 else 120 - length msg mod 64) md_PADDING"

lemma md_pad_zeros: "md_pad msg = 0x80 # replicate ((119 - length msg mod 64) mod 64) 0"
proof (cases "length msg mod 64 < 56")
  case True
  then have "(119 - length msg mod 64) mod 64 = 55 - length msg mod 64"
    by (simp add: le_mod_geq)
  with True show ?thesis
    by (simp add: md_pad_def md_PADDING_def take_Cons')
next
  case False
  moreover have "length msg mod 64 < 64"
    by simp
  ultimately have "(119 - length msg mod 64) mod 64 = 119 - length msg mod 64"
    by simp
  with False show ?thesis
    by (auto simp: md_pad_def md_PADDING_def take_Cons')
qed

lemma rfc_pad_eq: "rfc_pad msg = (msg @ md_pad msg) @ md_encode [fst (bit_count (length msg)), snd (bit_count (length msg))]"
  by (simp add: rfc_pad_def encode_bit_count md_pad_zeros del: upt.simps)

lemma length_md_pad: "length (md_pad msg) \<le> 64" "(length msg + length (md_pad msg)) mod 64 = 56"
proof -
  show "length (md_pad msg) \<le> 64"
    by (simp add: md_pad_def md_PADDING_def)
  have "length msg mod 64 < 64"
    by simp
  then have "length msg mod 64 + length (md_pad msg) = (if length msg mod 64 < 56 then 56 else 120)"
    by (simp add: md_pad_def md_PADDING_def min_def) linarith
  then have "(length msg mod 64 + length (md_pad msg)) mod 64 = 56"
    by simp
  then show "(length msg + length (md_pad msg)) mod 64 = 56"
    by (simp add: mod_add_left_eq)
qed

subsection \<open>The digest\<close>

lemma rfc_md5_hash: "rfc_md5 msg = md_encode (regs_list (hash_blocks (rfc_pad msg) md_init))"
  by (simp add: rfc_md5_def hash_blocks_def md_transform_rfc [abs_def])

text \<open>What the object holds after \<open>digest\<close>: \<open>final\<close> restores the registers and the counters but not the
  buffer, which then holds the last block of the padded message.\<close>

definition after_digest :: "bytes \<Rightarrow> bytes" where
  "after_digest msg = whole msg @ take (length msg mod 64) (partial_block (msg @ md_pad msg) @
     md_encode [fst (bit_count (length msg)), snd (bit_count (length msg))])"

lemma length_md_encode: "length (md_encode ws) = 4 * length ws"
  by (induction ws) (simp_all add: md_encode_def)

lemma length_after_digest: "length (after_digest msg) = length msg"
  using length_md_pad(2) [of msg] length_partial_block [of "msg @ md_pad msg"]
  by (simp add: after_digest_def length_whole length_md_encode min_def) linarith

lemma replace_partial:
  assumes "length t = length msg mod 64"
  shows "hash_blocks (whole msg @ t) st = hash_blocks msg st" and "partial_block (whole msg @ t) = t"
proof -
  have t: "length t < 64" "t = partial_block t"
    using assms by (simp_all add: partial_block_def [of t])
  from t(1) show "hash_blocks (whole msg @ t) st = hash_blocks msg st"
    by (simp add: hash_blocks_tail length_whole hash_blocks_whole [of msg, symmetric])
  show "partial_block (whole msg @ t) = t"
    using t(2) by (simp add: partial_append length_whole)
qed

lemma md_final_inv:
  assumes inv: "md5_inv msg m"
  shows "\<exists>m'. md_final m = Some m' \<and> md_digest m' = rfc_md5 msg \<and> \<not> md_finished m' \<and> md5_inv (after_digest msg) m'"
proof -
  define bits where "bits = md_encode [fst (bit_count (length msg)), snd (bit_count (length msg))]"
  have count: "md_count m = bit_count (length msg)"
    using inv by (simp add: md5_inv_def)
  have bits: "length bits = 8" and pad: "length (md_pad msg) < 2 ^ 32 - 64"
    using length_md_pad(1) [of msg] by (simp_all add: bits_def length_md_encode)
  obtain m1 where m1: "md_update (md_pad msg) m = Some m1" "md5_inv (msg @ md_pad msg) m1"
    using md_update_inv [OF inv pad] by blast
  have "64 \<le> length (msg @ md_pad msg) mod 64 + length bits" "length bits < 2 ^ 32 - 64"
    using bits length_md_pad(2) [of msg] by simp_all
  from md_update_long [OF m1(2) this] obtain m2
    where m2: "md_update bits m1 = Some m2" "md5_inv (rfc_pad msg) m2" "\<not> md_finished m2"
      "md_buffer m2 = memcpy (partial_block (msg @ md_pad msg) @ take (64 - length (msg @ md_pad msg) mod 64) bits) 0 (partial_block (rfc_pad msg))"
    by (auto simp: rfc_pad_eq bits_def [symmetric])
  have "length (partial_block (rfc_pad msg)) = 0"
    using length_md_pad(2) [of msg] bits mod_add_left_eq [of "length msg + length (md_pad msg)" 64 8]
    by (simp add: length_partial_block rfc_pad_eq bits_def [symmetric] add.assoc)
  then have buf: "md_buffer m2 = partial_block (msg @ md_pad msg) @ bits"
    using m2(4) length_md_pad(2) [of msg] bits by (simp add: memcpy_def)
  define m' where "m' = m2\<lparr>md_digest := md_encode (regs_list (md_state m2)), md_state := md_state m, md_count := md_count m\<rparr>"
  have "md_final m = Some m'"
    using m1(1) m2(1) by (simp add: md_final_def count md_index_count md_pad_def [symmetric] bits_def [symmetric] m'_def)
  moreover have "md5_inv (after_digest msg) m'"
    using inv m2(2) length_after_digest [of msg] length_md_pad(2) [of msg] bits
      replace_partial [of "take (length msg mod 64) (md_buffer m2)" msg]
    by (simp add: md5_inv_def m'_def after_digest_def bits_def [symmetric] buf [symmetric])
  moreover have "md_digest m' = rfc_md5 msg"
    using m2(2) by (simp add: m'_def rfc_md5_hash md5_inv_def)
  ultimately show ?thesis
    using m2(3) by (auto simp: m'_def)
qed

lemma digest_inv:
  "md5_inv msg m \<Longrightarrow> \<not> md_finished m \<Longrightarrow>
     \<exists>m'. digest m = Some (rfc_md5 msg, m') \<and> \<not> md_finished m' \<and> md5_inv (after_digest msg) m'"
  using md_final_inv [of msg "m\<lparr>md_finished := True\<rparr>"] by (auto simp: digest_def md5_inv_def)

lemma after_digest_short: 
  assumes "length msg mod 64 < 56"
  shows "after_digest msg = msg"
proof -
  have "length msg mod 64 + length (md_pad msg) < 64"
    using assms by (simp add: md_pad_def md_PADDING_def)
  from extend_short(2) [OF this] show ?thesis
    by (simp add: after_digest_def length_partial_block [symmetric])
qed

lemma after_digest_long:
  assumes "56 \<le> length msg mod 64"
  shows "after_digest msg = whole msg @ take (length msg mod 64) (replicate 56 0 @ map (\<lambda>i. of_nat (8 * length msg div 256 ^ i)) [0..<8])"
proof -
  define k where "k = 64 - length msg mod 64"
  have "length msg mod 64 < 64"
    by simp
  then have k: "0 < k" "k \<le> 8" "length (partial_block msg @ take k (md_pad msg)) = 64" "drop k (md_pad msg) = replicate 56 0"
    using assms by (auto simp: k_def length_partial_block md_pad_def md_PADDING_def drop_take take_Cons' drop_Cons')
  have "partial_block (msg @ md_pad msg) = partial_block (drop k (md_pad msg))"
    using extend_long(2) [OF k(3), of "drop k (md_pad msg)"] by simp
  then have "partial_block (msg @ md_pad msg) = replicate 56 0"
    by (simp add: k(4) partial_block_def [of "replicate 56 0"])
  then show ?thesis
    by (simp add: after_digest_def encode_bit_count del: upt.simps)
qed

lemma concat_file_reads: "concat (file_reads s) = s"
  by (induction s rule: file_reads.induct) (subst file_reads.simps, simp)

lemma length_file_reads: "c \<in> set (file_reads s) \<Longrightarrow> length c \<le> 1024"
  by (induction s rule: file_reads.induct) (subst (asm) (2) file_reads.simps, auto split: if_splits)

lemma length_rfc_md5: "length (rfc_md5 msg) = 16"
  by (simp add: rfc_md5_def length_md_encode regs_list_def split: prod.split)

lemma new_MD5_inv: "length (md_buffer raw) = 64 \<Longrightarrow> md5_inv [] (new_MD5 raw) \<and> \<not> md_finished (new_MD5 raw)"
  by (simp add: new_MD5_def md5_inv_reset) (simp add: md_reset_def)

text \<open>A message in any pieces of less than four gigabytes.\<close>

lemma digest_of_chunks:
  assumes "length (md_buffer raw) = 64" and "\<forall>c \<in> set chunks. length c < 2 ^ 32 - 64"
  shows "\<exists>m m'. md_updates chunks (new_MD5 raw) = Some m \<and> md5_inv (concat chunks) m \<and>
    digest m = Some (rfc_md5 (concat chunks), m') \<and> \<not> md_finished m' \<and> md5_inv (after_digest (concat chunks)) m'"
  using md_updates_inv [of "[]" "new_MD5 raw" chunks] new_MD5_inv [OF assms(1)] assms(2) digest_inv
  by fastforce

subsection \<open>Properties\<close>

definition zero_MD5 :: MD5 where
  "zero_MD5 = \<lparr>md_state = (0, 0, 0, 0), md_count = (0, 0), md_buffer = replicate 64 0, md_digest = replicate 16 0, md_finished = True\<rparr>"

text \<open>C32: an object that is given a message in any pieces of less than four gigabytes prints the hexadecimal
  MD5 value of the whole message, as RFC 1321 defines it by its tables, whatever the memory held before.\<close>

theorem md5_any_chunks:
  assumes "length (md_buffer raw) = 64" and "\<forall>c \<in> set chunks. length c < 2 ^ 32 - 64"
  shows "\<exists>m m'. md_updates chunks (new_MD5 raw) = Some m \<and>
    md_toString m = Some (bytesToHexString (rfc_md5 (concat chunks)), m')"
  using digest_of_chunks [OF assms] by (auto simp: md_toString_def length_rfc_md5)

theorem md5_any_chunks_witness:
  "\<exists>m m'. md_updates [lit ''a'', [], lit ''bc''] (new_MD5 zero_MD5) = Some m \<and>
    md_toString m = Some (bytesToHexString (rfc_md5 (lit ''abc'')), m')"
  using md5_any_chunks [of zero_MD5 "[lit ''a'', [], lit ''bc'']"] by (simp add: zero_MD5_def lit_def)

text \<open>The digest of a file of any length, read in blocks of 1024 bytes, is the RFC 1321 digest of its contents.\<close>

theorem md5_of_file:
  assumes "length (md_buffer raw) = 64"
  shows "\<exists>m m'. md_update_file contents (new_MD5 raw) = Some m \<and> digest m = Some (rfc_md5 contents, m')"
  using digest_of_chunks [OF assms, of "file_reads contents"] length_file_reads
  by (fastforce simp: md_update_file_def concat_file_reads)

theorem md5_of_file_witness:
  "\<exists>m m'. md_update_file (lit ''hello'') (new_MD5 zero_MD5) = Some m \<and> digest m = Some (rfc_md5 (lit ''hello''), m')"
  using md5_of_file [of zero_MD5 "lit ''hello''"] by (simp add: zero_MD5_def)

text \<open>\<open>digest\<close> is not repeatable. \<open>final\<close> clears \<open>_finished\<close> through \<open>update\<close> and restores the registers and
  the counters but not the buffer, so that a second call computes again. It returns the same value when the last
  block holds less than 56 bytes; otherwise it returns the digest of a message whose last block is replaced by
  zeros and the length.\<close>

theorem md5_second_digest:
  assumes "md5_inv msg m" and "\<not> md_finished m"
  shows "\<exists>m1 m2. digest m = Some (rfc_md5 msg, m1) \<and>
    digest m1 = Some (rfc_md5 (if length msg mod 64 < 56 then msg
       else whole msg @ take (length msg mod 64) (replicate 56 0 @ map (\<lambda>i. of_nat (8 * length msg div 256 ^ i)) [0..<8])), m2)"
proof -
  obtain m1 where m1: "digest m = Some (rfc_md5 msg, m1)" "\<not> md_finished m1" "md5_inv (after_digest msg) m1"
    using digest_inv [OF assms] by blast
  obtain m2 where m2: "digest m1 = Some (rfc_md5 (after_digest msg), m2)"
    using digest_inv [OF m1(3,2)] by blast
  have after: "after_digest msg = (if length msg mod 64 < 56 then msg
       else whole msg @ take (length msg mod 64) (replicate 56 0 @ map (\<lambda>i. of_nat (8 * length msg div 256 ^ i)) [0..<8]))"
    by (simp add: after_digest_short after_digest_long del: upt.simps)
  show ?thesis
    by (intro exI conjI) (rule m1(1), rule m2 [unfolded after])
qed

lemma after_sixty:
  "(if length (replicate 60 (97 :: 8 word)) mod 64 < 56 then replicate 60 97
    else whole (replicate 60 97) @ take (length (replicate 60 (97 :: 8 word)) mod 64)
      (replicate 56 0 @ map (\<lambda>i. of_nat (8 * length (replicate 60 (97 :: 8 word)) div 256 ^ i)) [0..<8])) =
   replicate 56 0 @ [224, 1, 0, 0 :: 8 word]"
  by (simp add: whole_def upt_rec [of _ "8"])

theorem md5_second_digest_witness:
  "\<exists>m m1 m2. md_update (replicate 60 97) (new_MD5 zero_MD5) = Some m \<and>
     digest m = Some (rfc_md5 (replicate 60 97), m1) \<and>
     digest m1 = Some (rfc_md5 (replicate 56 0 @ [224, 1, 0, 0]), m2)"
proof -
  have "length (md_buffer zero_MD5) = 64"
    by (simp add: zero_MD5_def)
  from md_update_inv [OF new_MD5_inv [OF this, THEN conjunct1], of "replicate 60 97"]
  obtain m where m: "md_update (replicate 60 97) (new_MD5 zero_MD5) = Some m" "md5_inv (replicate 60 97) m" "\<not> md_finished m"
    by auto
  from md5_second_digest [OF m(2,3), unfolded after_sixty] m(1) show ?thesis
    by blast
qed

end
