(* ===== verification/Spec2Isabelle.thy ===== *)
theory Spec2Isabelle
  imports End_To_End Session_Layer Tcp_Closing Timer_Safety Acceptor Logging Async_Logging
    Zone_File Log_File Connector Thread_Pool Startup Json_Roundtrip Md5
begin

text \<open>
  \<^bold>\<open>Verification of the instant-messaging server and its file server.\<close>

  \<^bold>\<open>The program.\<close> \<open>src/EdoyumIMServer\<close> holds two servers over a copy of the muduo network library.
  The chat server registers users, logs them in, keeps friends and groups in a MySQL database with a cache in
  memory, and passes messages between sessions; messages for users who are not logged in wait in a cache. The
  file server stores uploaded files and sends them back. A client sends packets over TCP: a length, six bytes,
  and a message made by \<open>BinaryWriter\<close>; the bodies of chat messages are JSON.
  \<open>TcpConnection::handleRead\<close> appends what the socket delivers to a \<open>Buffer\<close> and calls \<open>OnRead\<close> of the session,
  which cuts packets out of the buffer and passes each to \<open>Process\<close>; \<open>Process\<close> reads the command, dispatches to a
  handler, and the handler works on the singletons (\<open>UserManager\<close>, \<open>MsgCacheManager\<close>, \<open>MySqlManager\<close>,
  \<open>IMServer\<close>, \<open>FileManager\<close>) and answers through \<open>TcpSession::Send\<close>.

  \<^bold>\<open>Theories and sources.\<close>
  \<^item> \<open>Prelude\<close>: faults (an uncaught exception, a failed assert, a read out of bounds, a null pointer) as the left
    side of a sum, bytes and byte order, C strings. \<open>Ordered_Map\<close>: \<open>std::map\<close>. \<open>Decimal\<close>: \<open>int32_t\<close> as \<open>int\<close> with
    its wrap-around, decimal text, \<open>atoi\<close>. \<open>Session_Keys\<close>: connection addresses as keys of the session maps.
  \<^item> \<open>Wire\<close>: \<open>BinaryReader.h\<close>, \<open>BinaryReader.cpp\<close>. Strings are read back as written; the length header is base 128;
    a declared length beyond the buffer reads out of bounds. The locale \<open>field_codec\<close> is the contract of a field,
    \<open>codec_pair\<close> composes two.
  \<^item> \<open>Net_Buffer\<close>: \<open>net/Buffer.h\<close>, \<open>net/Buffer.cc\<close>. Every sequence of calls refines the same calls on a byte queue.
  \<^item> \<open>Tcp_Connection\<close>: \<open>net/TcpConnection.cc\<close>, \<open>net/Channel.cc\<close>, \<open>net/TcpServer.cc\<close>, \<open>EPollPoller::updateChannel\<close> and the
    loop of \<open>net/EventLoop.cc\<close>. \<open>Tcp_Local\<close> holds the invariant of one connection, \<open>Tcp_Invariant\<close> that of the server,
    \<open>Tcp_Safety\<close> proves that no assertion fails in a run in which only the thread of the loop uses the connections, that bytes
    keep their order, that the connection callback is called once up and once down, and shows the race of \<open>send\<close> in another thread;
    \<open>Tcp_Closing\<close> is about how connections end.
  \<^item> \<open>Timer_Queue\<close>: \<open>net/TimerQueue.cc\<close>, \<open>net/Timer.cc\<close>. \<open>Timer_Safety\<close> relates the two ordered sets to the timers that
    exist: no assertion fails, due timers run in order, a cancelled timer never runs again, and the alarm is never
    later than the first timer.
  \<^item> \<open>Framing\<close>: \<open>TcpSession::Send\<close> and \<open>OnRead\<close> of both servers, the data path of \<open>TcpConnection::handleRead\<close>. The
    locale \<open>packet_stream\<close> states what a read loop promises for one packet and proves delivery for every
    segmentation of the stream; both loops interpret it.
  \<^item> \<open>Msg_Cache\<close>: \<open>MsgCacheManager\<close>. Messages are neither lost nor duplicated nor reordered.
  \<^item> \<open>Db_Result\<close>, \<open>Db\<close>: \<open>Field\<close>, \<open>QueryResult\<close>, \<open>mysqltool\<close>, \<open>MySqlManager\<close>. The MySQL client library is a parameter
    (the record \<open>mysql_api\<close>).
  \<^item> \<open>User_Manager\<close>: \<open>UserManager\<close>. Ids stay unique after loading a table without groups, the friend operations refine a symmetric relation, and what
    the operations store and find.
  \<^item> \<open>Json\<close>, \<open>Json_Reader\<close>: the values, the styled writer and the reader of \<open>newJson/jsoncpp.cpp\<close>, which ends on every input, its
    recovery from syntax errors included.
    \<open>Json_Text\<close> and \<open>Json_Roundtrip\<close> prove that the text of a value parses back to it.
  \<^item> \<open>Client_Session\<close>: \<open>ClientSession\<close>, \<open>IMServer\<close>. \<open>Chat_Server\<close> proves what the handlers do: the
    invariant of the session map over every step of the server, logins, chat, groups, friends. \<open>End_To_End\<close>
    composes framing, wire format and dispatch.
  \<^item> \<open>Md5\<close>: \<open>FileServer/MD5.cpp\<close>. Equal to RFC 1321 for every division of the message into pieces.
  \<^item> \<open>File_Server\<close>: \<open>FileManager\<close>, \<open>FileSession\<close>, \<open>FileServer\<close>. \<open>File_Transfer\<close> proves that an uploaded file comes
    back, the invariant of the sessions over any messages with the exact faults of a message, and what mixed transfers do.
  \<^item> \<open>Session_Layer\<close>: the locale \<open>session_table\<close> is what the network library's callbacks need of a server; both servers
    interpret it, and their sessions are those of the open connections.
  \<^item> \<open>Startup\<close>: both \<open>main\<close> functions and \<open>Init\<close> of the servers. What a server that has started begins with, and the first
    starts that fail.
  \<^item> \<open>Acceptor\<close>: \<open>net/Acceptor.cc\<close> with the reserved descriptor, \<open>net/EventLoopThreadPool.cc\<close>. What the system calls return is
    an argument; no descriptor is leaked, also when none is left; loops are chosen in turn.
  \<^item> \<open>Connector\<close>: \<open>net/Connector.cc\<close>. A client that keeps to the contract never fails an assertion, every descriptor is closed
    or handed over once, and the delays double up to their limit.
  \<^item> \<open>Log_Stream\<close>, \<open>Logging\<close>: \<open>base/LogStream.cc\<close>, \<open>base/Logging.cc\<close>. The text of a log line, and lines that do not fit.
    \<open>Async_Logging\<close>: \<open>base/AsyncLogging.cc\<close>, every interleaving of the appending threads and the logging thread. \<open>Log_File\<close>:
    \<open>base/LogFile.cc\<close>; lines are kept in order over the files.
  \<^item> \<open>Thread_Pool\<close>: \<open>base/ThreadPool.cc\<close>. Tasks are taken in order and executed once, and no wake-up is lost.
  \<^item> \<open>Calendar\<close>: \<open>base/Date.cc\<close> and the conversions of \<open>base/TimeZone.cc\<close> in their 32-bit arithmetic, inverse
    to each other where it does not overflow. \<open>Time_Zone\<close>: offsets and local times.
    \<open>Zone_File\<close>: zone files are read back as RFC 8536 has them; the locale \<open>tz_field\<close> is the contract of a field and its
    reader.

  \<^bold>\<open>State and effects.\<close> The chat server is one record: session map, users, message cache, database,
  the packets sent so far and the connections closed. A handler maps it to a result. The file server is a record of
  the known files, the contents of the disk, sessions and output. Each mutex is held for a whole
  operation of its manager, so that an operation is one step.

  \<^bold>\<open>Bounds and fuel.\<close> The JSON reader has fuel \<open>2 * length + 3\<close>, which \<open>parse_total\<close> shows to be enough for every
  input, with the loop that skips tokens after an error. The loop of \<open>CheckTable\<close> and the block loop of MD5 may not end and are partial functions into \<open>option\<close>; that
  they return is proved where it is claimed. Other loops are structural or have a termination proof.

  \<^bold>\<open>Not modelled.\<close> The manual test client; \<open>TcpClient\<close>, the wrappers of system calls and the hand-over of loops to threads of the
  muduo copy; \<open>formatSI\<close> and \<open>formatIEC\<close>, which print floating-point numbers; the reading of \<open>/proc\<close>; signal handlers; of the
  JSON library what neither server uses (comments, the other writers, paths); the older JSON libraries that nothing
  includes; debug output. The buffering of \<open>stdio\<close> streams of the file server is not modelled: a write is visible at
  once, and the theorems about transfers assume files below \<open>2 ^ 31 - 2 ^ 19\<close> bytes. Of the connection layer, calls from other threads
  are those of \<open>send\<close>, in runs in which the loop does nothing between their two halves; \<open>shutdown\<close> is documented as not
  thread safe. A hangup that is reported with urgent data but without input is left out of the runs (\<open>event_ok\<close>). Timers have
  integer times without overflow, and the timer queue is called in the thread of the loop.
  The theorems about connections assume that callbacks do not switch reading off (\<open>env_ok\<close>), which no code of the servers
  does. In the models with several threads a step is a critical section, and reads of \<open>running_\<close> outside of it are
  atomic.
\<close>

end
